(* ===== verification/Prelude.thy ===== *)
theory Prelude
  imports Main "HOL-Library.Word" "HOL-Library.Multiset"
begin

text \<open>
  Shared vocabulary of the development: the machine-integer types of the
  sources, the collections of rewrite rules the component theories extend, an
  abstract account of the comparator-ordered containers of the C++ standard
  library (\<open>std::multiset\<close> with its insertion and \<open>upper_bound\<close>), and generic
  facts on lists, on the queue-driven traversals and on error-valued
  computations.
\<close>

section \<open>Types and collections\<close>

type_synonym u64 = "64 word"
type_synonym i32 = "32 word"

named_theorems model_simps \<open>unfolding rules of the modelled operations\<close>
named_theorems inv_intros \<open>preservation lemmas of component invariants\<close>

section \<open>Fallible computations\<close>

text \<open>
  A computation that may leave the program (an exit, an abort, an uncaught
  exception) is a value of a sum type, the error on the left.
\<close>

definition bindE :: "'e + 'a \<Rightarrow> ('a \<Rightarrow> 'e + 'b) \<Rightarrow> 'e + 'b" where
  "bindE m f = (case m of Inl e \<Rightarrow> Inl e | Inr x \<Rightarrow> f x)"

lemma bindE_Inl [simp]: "bindE (Inl e) f = Inl e"
  by (simp add: bindE_def)

lemma bindE_Inr [simp]: "bindE (Inr x) f = f x"
  by (simp add: bindE_def)

lemma bindE_eq_Inr: "bindE m f = Inr y \<longleftrightarrow> (\<exists>x. m = Inr x \<and> f x = Inr y)"
  by (cases m) auto

lemma bindE_eq_Inl: "bindE m f = Inl e \<longleftrightarrow> m = Inl e \<or> (\<exists>x. m = Inr x \<and> f x = Inl e)"
  by (cases m) auto

fun foldE :: "('a \<Rightarrow> 's \<Rightarrow> 'e + 's) \<Rightarrow> 'a list \<Rightarrow> 's \<Rightarrow> 'e + 's" where
  "foldE f [] s = Inr s"
| "foldE f (x # xs) s = bindE (f x s) (foldE f xs)"

lemma foldE_cong [fundef_cong]:
  "xs = ys \<Longrightarrow> s = t \<Longrightarrow> (\<And>x r. x \<in> set ys \<Longrightarrow> f x r = g x r) \<Longrightarrow> foldE f xs s = foldE g ys t"
  by (induction xs arbitrary: ys s t) (auto simp: bindE_def split: sum.splits)

lemma foldE_append: "foldE f (xs @ ys) s = bindE (foldE f xs s) (foldE f ys)"
  by (induction xs arbitrary: s) (auto simp: bindE_def split: sum.splits)

lemma foldE_inv:
  assumes "foldE f xs s = Inr t" "P s"
    and "\<And>x s t. x \<in> set xs \<Longrightarrow> P s \<Longrightarrow> f x s = Inr t \<Longrightarrow> P t"
  shows "P t"
  using assms by (induction xs arbitrary: s) (auto simp: bindE_eq_Inr)

section \<open>Generic list facts\<close>

lemma takeWhile_eq_filter:
  assumes "sorted_wrt (\<lambda>x y. P y \<longrightarrow> P x) xs"
  shows "takeWhile P xs = filter P xs"
  using assms by (induction xs) (auto simp: filter_empty_conv)

lemma mset_takeWhile_dropWhile [simp]:
  "mset (takeWhile P xs) + mset (dropWhile P xs) = mset xs"
  by (metis mset_append takeWhile_dropWhile_id)

lemma mset_takeWhile_subset: "mset (takeWhile P xs) \<subseteq># mset xs"
  by (metis mset_subset_eq_add_left mset_takeWhile_dropWhile)

lemma sum_list_filter_add:
  "sum_list (map f (filter P xs)) + sum_list (map f (filter (\<lambda>x. \<not> P x) xs))
     = (sum_list (map f xs) :: nat)"
  by (induction xs) auto

section \<open>Machine integers\<close>

lemma scast_word_of_int:
  "0 \<le> k \<Longrightarrow> k < 2 ^ 31 \<Longrightarrow> scast (word_of_int k :: i32) = (word_of_int k :: u64)"
  by transfer (simp add: signed_take_bit_int_eq_self)

lemma ucast_word_of_int:
  "0 \<le> k \<Longrightarrow> k < 2 ^ 31 \<Longrightarrow> ucast (word_of_int k :: i32) = (word_of_int k :: u64)"
  by transfer (simp add: take_bit_int_eq_self)

section \<open>Comparator-ordered containers\<close>

text \<open>
  \<open>std::multiset<T, Comp>\<close> as the list of its elements in iteration order.
  A new element goes to the upper bound of the elements equivalent to it.
\<close>

fun multiset_insert :: "('a \<Rightarrow> 'a \<Rightarrow> bool) \<Rightarrow> 'a \<Rightarrow> 'a list \<Rightarrow> 'a list" where
  "multiset_insert lt x [] = [x]"
| "multiset_insert lt x (y # ys) =
     (if lt x y then x # y # ys else y # multiset_insert lt x ys)"

definition upper_bound_before :: "('a \<Rightarrow> 'a \<Rightarrow> bool) \<Rightarrow> 'a \<Rightarrow> 'a list \<Rightarrow> 'a list" where
  "upper_bound_before lt x ys = takeWhile (\<lambda>y. \<not> lt x y) ys"

definition upper_bound_from :: "('a \<Rightarrow> 'a \<Rightarrow> bool) \<Rightarrow> 'a \<Rightarrow> 'a list \<Rightarrow> 'a list" where
  "upper_bound_from lt x ys = dropWhile (\<lambda>y. \<not> lt x y) ys"

lemma mset_multiset_insert [simp]: "mset (multiset_insert lt x ys) = add_mset x (mset ys)"
  by (induction ys) auto

lemma set_multiset_insert [simp]: "set (multiset_insert lt x ys) = insert x (set ys)"
  by (induction ys) auto

lemma upper_bound_split: "upper_bound_before lt x ys @ upper_bound_from lt x ys = ys"
  by (simp add: upper_bound_before_def upper_bound_from_def)

text \<open>
  The comparator contract of the standard library: a strict weak ordering.
  The lemmas hold for every container whose comparator meets it.
\<close>

locale strict_weak_order =
  fixes comp :: "'a \<Rightarrow> 'a \<Rightarrow> bool"
  assumes comp_irrefl: "\<not> comp x x"
    and comp_trans: "comp x y \<Longrightarrow> comp y z \<Longrightarrow> comp x z"
    and incomp_trans: "\<not> comp x y \<Longrightarrow> \<not> comp y z \<Longrightarrow> \<not> comp x z"
begin

lemma ordered_insert:
  "sorted_wrt (\<lambda>x y. \<not> comp y x) ys \<Longrightarrow>
   sorted_wrt (\<lambda>x y. \<not> comp y x) (multiset_insert comp x ys)"
proof (induction ys)
  case Nil
  show ?case by simp
next
  case (Cons y ys)
  have "\<not> comp y x" if "comp x y"
    using that comp_irrefl comp_trans by blast
  then show ?case
    using Cons comp_irrefl incomp_trans by auto
qed

lemma ordered_fold_insert:
  "sorted_wrt (\<lambda>x y. \<not> comp y x) acc \<Longrightarrow>
   sorted_wrt (\<lambda>x y. \<not> comp y x) (fold (multiset_insert comp) xs acc)"
  by (induction xs arbitrary: acc) (auto intro: ordered_insert)

lemma upper_bound_beforeD: "y \<in> set (upper_bound_before comp x ys) \<Longrightarrow> \<not> comp x y"
  by (auto simp: upper_bound_before_def dest: set_takeWhileD)

lemma upper_bound_fromD:
  assumes "sorted_wrt (\<lambda>x y. \<not> comp y x) ys" "y \<in> set (upper_bound_from comp x ys)"
  shows "comp x y"
  using assms
proof (induction ys)
  case Nil
  then show ?case by (simp add: upper_bound_from_def)
next
  case (Cons z zs)
  show ?case
  proof (cases "comp x z")
    case True
    with Cons.prems have "y = z \<or> \<not> comp y z"
      by (auto simp: upper_bound_from_def)
    with True show ?thesis
      using incomp_trans by blast
  next
    case False
    with Cons show ?thesis by (auto simp: upper_bound_from_def)
  qed
qed

end

lemma mset_fold_multiset_insert [simp]:
  "mset (fold (multiset_insert lt) xs acc) = mset xs + mset acc"
  by (induction xs arbitrary: acc) auto

end
