(* ===== verification/RMA_Interval.thy ===== *)
theory RMA_Interval
  imports Prelude
begin

unbundle bit_operations_syntax

text \<open>
  The memory-access intervals of the RMA runtime analyser
  (\<open>src/instrumentation/rma/Interval.h\<close>): access types, intervals over 64-bit
  addresses, debug information, the conflict test, and the ordered container
  of accesses with the two neighbour queries of
  \<open>src/instrumentation/rma/rma_analyzer.cpp\<close>.
\<close>

section \<open>Data\<close>

datatype AccessType = LOCAL_READ | LOCAL_WRITE | RMA_READ | RMA_WRITE

fun access_code :: "AccessType \<Rightarrow> i32" where
  "access_code LOCAL_READ = 0"
| "access_code LOCAL_WRITE = 1"
| "access_code RMA_READ = 2"
| "access_code RMA_WRITE = 3"

fun access_to_string :: "AccessType \<Rightarrow> string" where
  "access_to_string LOCAL_READ = ''LOCAL_READ''"
| "access_to_string LOCAL_WRITE = ''LOCAL_WRITE''"
| "access_to_string RMA_READ = ''RMA_READ''"
| "access_to_string RMA_WRITE = ''RMA_WRITE''"

datatype Interval = Interval (Low: u64) (Up: u64)

text \<open>The comparison operators of the struct: lexicographic, as \<open>std::tie\<close> compares. They make the
  intervals a linear order, so that the ordered containers of the library apply.\<close>

definition Interval_less :: "Interval \<Rightarrow> Interval \<Rightarrow> bool" where
  "Interval_less a b \<longleftrightarrow> Low a < Low b \<or> (Low a = Low b \<and> Up a < Up b)"

definition Interval_equal :: "Interval \<Rightarrow> Interval \<Rightarrow> bool" where
  "Interval_equal a b \<longleftrightarrow> Low a = Low b \<and> Up a = Up b"

lemma Interval_equal_iff: "Interval_equal a b \<longleftrightarrow> a = b"
  by (auto simp: Interval_equal_def intro: Interval.expand)

instantiation Interval :: linorder
begin

definition less_Interval :: "Interval \<Rightarrow> Interval \<Rightarrow> bool" where
  "less_Interval a b \<longleftrightarrow> Interval_less a b"

definition less_eq_Interval :: "Interval \<Rightarrow> Interval \<Rightarrow> bool" where
  "less_eq_Interval a b \<longleftrightarrow> Interval_less a b \<or> Interval_equal a b"

instance
  by standard (auto simp: less_Interval_def less_eq_Interval_def Interval_equal_iff Interval_less_def intro: Interval.expand)

end

lemma Interval_less_iff: "a < b \<longleftrightarrow> Low a < Low b \<or> (Low a = Low b \<and> Up a < Up b)" for a b :: Interval
  by (simp add: less_Interval_def Interval_less_def)

definition fixForWindow :: "u64 \<Rightarrow> u64 \<Rightarrow> Interval \<Rightarrow> Interval" where
  "fixForWindow BaseAddr DispUnit I =
     (let Size = Up I - Low I;
          low = Low I * DispUnit + BaseAddr
      in Interval low (low + Size))"

definition intersects :: "Interval \<Rightarrow> Interval \<Rightarrow> bool" where
  "intersects I Other \<longleftrightarrow> \<not> (Low I > Up Other \<or> Up I < Low Other)"

record MemoryAccess =
  Addr :: u64
  MSize :: u64

record DebugInfo =
  Line :: u64
  Filename :: string

definition default_DebugInfo :: DebugInfo where
  "default_DebugInfo = \<lparr>Line = 0, Filename = ''unknown_file''\<rparr>"

definition mk_DebugInfo :: "i32 \<Rightarrow> string option \<Rightarrow> DebugInfo" where
  "mk_DebugInfo line fname =
     \<lparr>Line = scast line,
      Filename = (case fname of None \<Rightarrow> ''unknown_file'' | Some f \<Rightarrow> f)\<rparr>"

record Access =
  Itv :: Interval
  Type :: AccessType
  Dbg :: DebugInfo

definition mk_Access :: "MemoryAccess \<Rightarrow> AccessType \<Rightarrow> DebugInfo \<Rightarrow> Access" where
  "mk_Access acc T dbg =
     \<lparr>Itv = Interval (Addr acc) (Addr acc + MSize acc - 1), Type = T, Dbg = dbg\<rparr>"

definition conflictsWith :: "Access \<Rightarrow> Access \<Rightarrow> bool" where
  "conflictsWith A Other =
     (if \<not> intersects (Itv A) (Itv Other) then False
      else access_code (Type A) OR access_code (Type Other) = access_code RMA_WRITE)"

definition AccessComp :: "Access \<Rightarrow> Access \<Rightarrow> bool" where
  "AccessComp lhs rhs \<longleftrightarrow> Itv lhs < Itv rhs"

type_synonym IntervalContainer = "Access list"
type_synonym IntervalViewContainer = "Access list"

abbreviation insert_access :: "Access \<Rightarrow> IntervalContainer \<Rightarrow> IntervalContainer" where
  "insert_access \<equiv> multiset_insert AccessComp"

section \<open>Neighbour queries\<close>

text \<open>
  \<open>AddNeighbors\<close> walks from an iterator and stops at the first element that
  does not intersect; the backward walk is the same over the reversed prefix.
\<close>

fun AddNeighbors :: "Access \<Rightarrow> Access list \<Rightarrow> IntervalViewContainer \<Rightarrow> IntervalViewContainer" where
  "AddNeighbors A [] Ret = Ret"
| "AddNeighbors A (e # rest) Ret =
     (if intersects (Itv e) (Itv A) then AddNeighbors A rest (insert_access e Ret) else Ret)"

definition getIntersectingIntervals ::
  "IntervalContainer \<Rightarrow> Access \<Rightarrow> IntervalViewContainer" where
  "getIntersectingIntervals Intervals A =
     (let before = upper_bound_before AccessComp A Intervals;
          after = upper_bound_from AccessComp A Intervals;
          Ret = AddNeighbors A after []
      in AddNeighbors A (rev before) Ret)"

definition getConflictingIntervals ::
  "IntervalContainer \<Rightarrow> Access \<Rightarrow> IntervalViewContainer" where
  "getConflictingIntervals Intervals A =
     fold (\<lambda>Current Ret. if conflictsWith Current A then insert_access Current Ret else Ret)
       (getIntersectingIntervals Intervals A) []"

section \<open>Library facts\<close>

definition wf_interval :: "Interval \<Rightarrow> bool" where
  "wf_interval I \<longleftrightarrow> Low I \<le> Up I"

definition is_write :: "AccessType \<Rightarrow> bool" where
  "is_write T \<longleftrightarrow> T = LOCAL_WRITE \<or> T = RMA_WRITE"

definition is_rma :: "AccessType \<Rightarrow> bool" where
  "is_rma T \<longleftrightarrow> T = RMA_READ \<or> T = RMA_WRITE"

definition ordered_accesses :: "IntervalContainer \<Rightarrow> bool" where
  "ordered_accesses xs \<longleftrightarrow> sorted_wrt (\<lambda>x y. \<not> AccessComp y x) xs"

text \<open>No stored interval reaches past a later one: the upper bounds follow the order too.\<close>

definition unnested :: "IntervalContainer \<Rightarrow> bool" where
  "unnested xs \<longleftrightarrow> sorted_wrt (\<lambda>x y. Up (Itv x) \<le> Up (Itv y)) xs"

interpretation access_order: strict_weak_order AccessComp
  by unfold_locales (auto simp: AccessComp_def)

lemma intersects_sym: "intersects I J = intersects J I"
  by (auto simp: intersects_def)

lemma intersects_iff: "intersects I J \<longleftrightarrow> Low I \<le> Up J \<and> Low J \<le> Up I"
  by (auto simp: intersects_def)

lemma access_code_or:
  "access_code T OR access_code U = access_code RMA_WRITE \<longleftrightarrow>
     (is_write T \<or> is_write U) \<and> (is_rma T \<or> is_rma U)"
  by (cases T; cases U) (simp_all add: is_write_def is_rma_def)

lemma conflictsWith_sym: "conflictsWith A B = conflictsWith B A"
  by (simp add: conflictsWith_def intersects_sym [of "Itv A"] or.commute [of "access_code (Type A)"])

lemma AddNeighbors_fold:
  "AddNeighbors A xs Ret =
     fold insert_access (takeWhile (\<lambda>e. intersects (Itv e) (Itv A)) xs) Ret"
  by (induction xs arbitrary: Ret) auto

lemma getConflicting_filter:
  "fold (\<lambda>c r. if conflictsWith c A then insert_access c r else r) xs acc
     = fold insert_access (filter (\<lambda>c. conflictsWith c A) xs) acc"
  by (induction xs arbitrary: acc) auto

lemma mset_getIntersecting:
  "mset (getIntersectingIntervals Intervals A) =
     mset (takeWhile (\<lambda>e. intersects (Itv e) (Itv A)) (upper_bound_from AccessComp A Intervals))
   + mset (takeWhile (\<lambda>e. intersects (Itv e) (Itv A)) (rev (upper_bound_before AccessComp A Intervals)))"
  by (simp add: getIntersectingIntervals_def AddNeighbors_fold)

lemma mset_getConflicting:
  "mset (getConflictingIntervals Intervals A) =
     filter_mset (\<lambda>c. conflictsWith c A) (mset (getIntersectingIntervals Intervals A))"
  by (simp add: getConflictingIntervals_def getConflicting_filter mset_filter)

lemma getIntersecting_subset:
  "mset (getIntersectingIntervals Intervals A) \<subseteq># mset Intervals"
proof -
  have "mset (getIntersectingIntervals Intervals A) \<subseteq>#
      mset (upper_bound_from AccessComp A Intervals)
      + mset (rev (upper_bound_before AccessComp A Intervals))"
    unfolding mset_getIntersecting by (intro subset_mset.add_mono mset_takeWhile_subset)
  also have "\<dots> = mset Intervals"
    by (metis mset_append mset_rev union_commute upper_bound_split)
  finally show ?thesis .
qed

lemma getIntersecting_intersects:
  "e \<in># mset (getIntersectingIntervals Intervals A) \<Longrightarrow> intersects (Itv e) (Itv A)"
  by (auto simp: mset_getIntersecting dest: set_takeWhileD)

lemma ordered_accesses_insert [inv_intros]:
  "ordered_accesses xs \<Longrightarrow> ordered_accesses (insert_access A xs)"
  unfolding ordered_accesses_def by (rule access_order.ordered_insert)

lemma ordered_getIntersecting: "ordered_accesses (getIntersectingIntervals Intervals A)"
  unfolding ordered_accesses_def getIntersectingIntervals_def Let_def AddNeighbors_fold
  by (intro access_order.ordered_fold_insert) simp

lemma forward_complete:
  assumes "ordered_accesses Intervals" "\<forall>e\<in>set Intervals. wf_interval (Itv e)" "wf_interval (Itv A)"
  shows "takeWhile (\<lambda>e. intersects (Itv e) (Itv A)) (upper_bound_from AccessComp A Intervals)
       = filter (\<lambda>e. intersects (Itv e) (Itv A)) (upper_bound_from AccessComp A Intervals)"
proof (rule takeWhile_eq_filter)
  let ?after = "upper_bound_from AccessComp A Intervals"
  have sub: "set ?after \<subseteq> set Intervals"
    by (auto simp: upper_bound_from_def dest: set_dropWhileD)
  have gt: "Low (Itv A) \<le> Low (Itv e)" if "e \<in> set ?after" for e
    using access_order.upper_bound_fromD [of Intervals e A] that assms(1)
    by (auto simp: ordered_accesses_def AccessComp_def Interval_less_iff)
  have ord: "sorted_wrt (\<lambda>x y. \<not> AccessComp y x) ?after"
    using assms(1) sorted_wrt_append [of "\<lambda>x y. \<not> AccessComp y x" "upper_bound_before AccessComp A Intervals" ?after]
    by (simp add: ordered_accesses_def upper_bound_split)
  show "sorted_wrt (\<lambda>x y. intersects (Itv y) (Itv A) \<longrightarrow> intersects (Itv x) (Itv A)) ?after"
  proof (rule sorted_wrt_mono_rel [OF _ ord])
    fix x y assume xy: "x \<in> set ?after" "y \<in> set ?after" "\<not> AccessComp y x"
    then have "Low (Itv x) \<le> Low (Itv y)"
      by (auto simp: AccessComp_def Interval_less_iff)
    moreover have "Low (Itv x) \<le> Up (Itv x)" "Low (Itv A) \<le> Low (Itv x)"
      using xy sub assms(2) gt by (auto simp: wf_interval_def)
    ultimately show "intersects (Itv y) (Itv A) \<longrightarrow> intersects (Itv x) (Itv A)"
      by (auto simp: intersects_iff)
  qed
qed

lemma backward_complete:
  assumes "ordered_accesses Intervals" "unnested Intervals" "wf_interval (Itv A)"
  shows "takeWhile (\<lambda>e. intersects (Itv e) (Itv A)) (rev (upper_bound_before AccessComp A Intervals))
       = filter (\<lambda>e. intersects (Itv e) (Itv A)) (rev (upper_bound_before AccessComp A Intervals))"
proof (rule takeWhile_eq_filter)
  let ?before = "upper_bound_before AccessComp A Intervals"
  have le: "Low (Itv e) \<le> Low (Itv A)" if "e \<in> set ?before" for e
    using access_order.upper_bound_beforeD [OF that]
    by (auto simp: AccessComp_def Interval_less_iff)
  have un: "sorted_wrt (\<lambda>x y. Up (Itv x) \<le> Up (Itv y)) ?before"
    using assms(2) sorted_wrt_append [of "\<lambda>x y. Up (Itv x) \<le> Up (Itv y)" ?before "upper_bound_from AccessComp A Intervals"]
    by (simp add: unnested_def upper_bound_split)
  have "sorted_wrt (\<lambda>x y. intersects (Itv x) (Itv A) \<longrightarrow> intersects (Itv y) (Itv A)) ?before"
  proof (rule sorted_wrt_mono_rel [OF _ un])
    fix x y assume xy: "x \<in> set ?before" "y \<in> set ?before" "Up (Itv x) \<le> Up (Itv y)"
    with le [of y] assms(3) show "intersects (Itv x) (Itv A) \<longrightarrow> intersects (Itv y) (Itv A)"
      by (auto simp: intersects_iff wf_interval_def)
  qed
  then show "sorted_wrt (\<lambda>x y. intersects (Itv y) (Itv A) \<longrightarrow> intersects (Itv x) (Itv A)) (rev ?before)"
    by (simp add: sorted_wrt_rev)
qed

section \<open>Properties\<close>

lemma shared_address_iff:
  assumes "wf_interval I" "wf_interval J"
  shows "intersects I J \<longleftrightarrow> (\<exists>x. Low I \<le> x \<and> x \<le> Up I \<and> Low J \<le> x \<and> x \<le> Up J)"
proof
  assume "intersects I J"
  with assms show "\<exists>x. Low I \<le> x \<and> x \<le> Up I \<and> Low J \<le> x \<and> x \<le> Up J"
    by (intro exI [of _ "max (Low I) (Low J)"]) (auto simp: intersects_iff wf_interval_def)
qed (auto simp: intersects_iff)

text \<open>C21: on well-formed intervals the conflict test of two accesses holds exactly
  when some address lies in both, at least one access writes and at least one
  is a remote access: the bitwise encoding of the access types is the race
  condition its comment describes.\<close>

theorem conflict_is_race:
  assumes "wf_interval (Itv A)" "wf_interval (Itv B)"
  shows "conflictsWith A B \<longleftrightarrow>
    (\<exists>x. Low (Itv A) \<le> x \<and> x \<le> Up (Itv A) \<and> Low (Itv B) \<le> x \<and> x \<le> Up (Itv B))
    \<and> (is_write (Type A) \<or> is_write (Type B)) \<and> (is_rma (Type A) \<or> is_rma (Type B))"
  using shared_address_iff [OF assms] by (auto simp: conflictsWith_def simp flip: access_code_or)

theorem conflict_is_race_witness:
  "conflictsWith \<lparr>Itv = Interval 4 9, Type = LOCAL_WRITE, Dbg = default_DebugInfo\<rparr>
     \<lparr>Itv = Interval 9 12, Type = RMA_READ, Dbg = default_DebugInfo\<rparr>"
  using conflict_is_race
    [of "\<lparr>Itv = Interval 4 9, Type = LOCAL_WRITE, Dbg = default_DebugInfo\<rparr>"
        "\<lparr>Itv = Interval 9 12, Type = RMA_READ, Dbg = default_DebugInfo\<rparr>"]
  by (auto simp: wf_interval_def is_write_def is_rma_def intro!: exI [of _ 9])

text \<open>C23: an interval received for a window keeps its extent, and when the translated
  upper bound fits in 64 bits it is the interval that starts at the window
  base plus the displacement times the displacement unit, well formed again.\<close>

theorem fixForWindow_translates:
  assumes "wf_interval I"
    and "unat (Low I) * unat unit + unat base + (unat (Up I) - unat (Low I)) < 2 ^ 64"
  shows "unat (Low (fixForWindow base unit I)) = unat (Low I) * unat unit + unat base
    \<and> unat (Up (fixForWindow base unit I)) =
        unat (Low I) * unat unit + unat base + (unat (Up I) - unat (Low I))
    \<and> wf_interval (fixForWindow base unit I)"
proof -
  have sz: "unat (Up I - Low I) = unat (Up I) - unat (Low I)"
    using assms(1) by (simp add: wf_interval_def unat_sub)
  have low: "unat (Low I * unit + base) = unat (Low I) * unat unit + unat base"
    using assms(2) by (simp add: unat_word_ariths)
  have up: "unat (Low I * unit + base + (Up I - Low I)) =
      unat (Low I) * unat unit + unat base + (unat (Up I) - unat (Low I))"
    using assms(2) low sz unat_add_lem [of "Low I * unit + base" "Up I - Low I"] by simp
  show ?thesis
    using low up by (simp add: fixForWindow_def Let_def wf_interval_def word_le_nat_alt)
qed

theorem fixForWindow_translates_witness:
  "unat (Low (fixForWindow 4096 8 (Interval 10 17))) = 4176
   \<and> unat (Up (fixForWindow 4096 8 (Interval 10 17))) = 4183"
  using fixForWindow_translates [of "Interval 10 17" 8 4096] by (simp add: wf_interval_def)

text \<open>Every access the conflict query reports is stored in the container (with its
  multiplicity) and does conflict with the queried access: the analyser never
  reports a pair of accesses that is not a race.\<close>

theorem getConflicting_sound:
  "mset (getConflictingIntervals Intervals A)
     \<subseteq># filter_mset (\<lambda>c. conflictsWith c A) (mset Intervals)"
  unfolding mset_getConflicting by (intro multiset_filter_mono getIntersecting_subset)

text \<open>C18: on an ordered container of well-formed intervals in which no interval
  reaches past a later one, the conflict query reports every stored access
  that conflicts with the queried one, each as often as it is stored.\<close>

theorem getConflicting_complete:
  assumes "ordered_accesses Intervals" "unnested Intervals"
    and "\<forall>e\<in>set Intervals. wf_interval (Itv e)" "wf_interval (Itv A)"
  shows "mset (getConflictingIntervals Intervals A)
     = filter_mset (\<lambda>c. conflictsWith c A) (mset Intervals)"
proof -
  have "mset (getIntersectingIntervals Intervals A)
      = filter_mset (\<lambda>e. intersects (Itv e) (Itv A))
          (mset (upper_bound_before AccessComp A Intervals @ upper_bound_from AccessComp A Intervals))"
    unfolding mset_getIntersecting
    using forward_complete [OF assms(1,3,4)] backward_complete [OF assms(1,2,4)]
    by (simp add: mset_filter union_commute)
  moreover have "conflictsWith c A \<and> intersects (Itv c) (Itv A) \<longleftrightarrow> conflictsWith c A" for c
    by (simp add: conflictsWith_def)
  ultimately show ?thesis
    by (simp add: mset_getConflicting upper_bound_split filter_filter_mset conj_commute)
qed

text \<open>The unit test \<open>FindIntersections\<close> of \<open>unittests/rma/intersections.cpp\<close> is an instance.\<close>

theorem getConflicting_complete_witness:
  "mset (getConflictingIntervals
      [\<lparr>Itv = Interval 0 4, Type = RMA_WRITE, Dbg = default_DebugInfo\<rparr>,
       \<lparr>Itv = Interval 6 8, Type = RMA_READ, Dbg = default_DebugInfo\<rparr>,
       \<lparr>Itv = Interval 10 12, Type = RMA_READ, Dbg = default_DebugInfo\<rparr>]
      \<lparr>Itv = Interval 1 7, Type = RMA_READ, Dbg = default_DebugInfo\<rparr>)
   = {#\<lparr>Itv = Interval 0 4, Type = RMA_WRITE, Dbg = default_DebugInfo\<rparr>#}"
  by (subst getConflicting_complete)
    (simp_all add: ordered_accesses_def AccessComp_def Interval_less_iff unnested_def
      wf_interval_def conflictsWith_def intersects_iff)

end
