(* ===== verification/RMA_Analyzer.thy ===== *)
theory RMA_Analyzer
  imports RMA_Interval "HOL-Library.Signed_Division"
begin

text \<open>
  The per-window state of the RMA runtime analyser and its routines
  (\<open>src/instrumentation/rma/rma_analyzer.h\<close> and \<open>rma_analyzer.cpp\<close>): lookup,
  recording of accesses, the communication-checking thread, tag ranges,
  epochs, sending of remote accesses, start and stop.

  MPI itself is not part of the sources. What the code obtains from it is a
  record of parameters (\<open>mpi_env\<close>): communicator sizes, the value a
  reduction delivers, the outcomes of the successive \<open>MPI_Test\<close> calls of the
  checking thread, datatype sizes, return codes and the conversion of Fortran
  handles. What the code asks MPI to do is appended to a log.
  A routine that leaves the process (\<open>exit\<close>, \<open>MPI_Abort\<close>, \<open>std::terminate\<close>)
  returns an error value; a thread join that never completes is the error
  \<open>Blocked\<close>.
\<close>

section \<open>State\<close>

type_synonym MPI_Win = nat
type_synonym MPI_Comm = nat

definition RMA_ANALYZER_BASE_MPI_TAG :: int where
  "RMA_ANALYZER_BASE_MPI_TAG = 65535"

definition RMA_ANALYZER_MAX_EPOCH_NUMBER :: int where
  "RMA_ANALYZER_MAX_EPOCH_NUMBER = 1024"

definition RMA_ANALYZER_MAX_WIN :: nat where
  "RMA_ANALYZER_MAX_WIN = 32"

definition RMA_ANALYZER_STRING_MPI_TAG :: int where
  "RMA_ANALYZER_STRING_MPI_TAG = 65535 - 1"

lemmas rma_constants =
  RMA_ANALYZER_BASE_MPI_TAG_def RMA_ANALYZER_MAX_EPOCH_NUMBER_def
  RMA_ANALYZER_MAX_WIN_def RMA_ANALYZER_STRING_MPI_TAG_def

record rma_analyzer_state =
  state_win :: MPI_Win
  joinable :: bool
  Intervals :: IntervalContainer
  win_base :: u64
  disp_unit :: int
  win_size :: u64
  win_comm :: MPI_Comm
  size_comm :: int
  mpi_tag :: int
  array :: "int list"
  expected :: int
  thread_end :: int
  count_epoch :: int
  count_fence :: int
  recv_count :: int
  active_epoch :: int
  from_sync :: int

datatype rma_error =
    Exit_failure
  | MPI_Aborted Access "Access list"
  | Terminated
  | Blocked
  | Out_of_bounds

datatype mpi_call =
    MPI_Send_access int int Access
  | MPI_Send_string int int string
  | PMPI string "int option list"

record rma_globals =
  States :: "(MPI_Win \<times> rma_analyzer_state) list"
  win_mpi_tag_id :: "int list"
  filter_window :: int
  mpi_log :: "mpi_call list"

record mpi_env =
  comm_size :: "MPI_Comm \<Rightarrow> int"
  reduce_sum :: "MPI_Win \<Rightarrow> int list \<Rightarrow> int"
  incoming :: "MPI_Win \<Rightarrow> int \<Rightarrow> (Access \<times> string) option list"
  type_size :: "nat \<Rightarrow> int"
  pmpi_ret :: "string \<Rightarrow> int"
  win_f2c :: "int \<Rightarrow> MPI_Win"
  comm_f2c :: "int \<Rightarrow> MPI_Comm"

text \<open>\<open>States\<close> is a \<open>std::map\<close>: its bindings in key order.\<close>

fun map_emplace :: "nat \<Rightarrow> 'v \<Rightarrow> (nat \<times> 'v) list \<Rightarrow> (nat \<times> 'v) list" where
  "map_emplace k v [] = [(k, v)]"
| "map_emplace k v ((k', v') # rest) =
     (if k < k' then (k, v) # (k', v') # rest
      else if k = k' then (k', v') # rest
      else (k', v') # map_emplace k v rest)"

definition map_store :: "nat \<Rightarrow> 'v \<Rightarrow> (nat \<times> 'v) list \<Rightarrow> (nat \<times> 'v) list" where
  "map_store k v = map (\<lambda>(k', v'). if k' = k then (k', v) else (k', v'))"

definition map_erase :: "nat \<Rightarrow> (nat \<times> 'v) list \<Rightarrow> (nat \<times> 'v) list" where
  "map_erase k = filter (\<lambda>(k', v'). k' \<noteq> k)"

definition put_state :: "MPI_Win \<Rightarrow> rma_analyzer_state \<Rightarrow> rma_globals \<Rightarrow> rma_globals" where
  "put_state win s g = g\<lparr>States := map_store win s (States g)\<rparr>"

definition log_call :: "mpi_call \<Rightarrow> rma_globals \<Rightarrow> rma_globals" where
  "log_call c g = g\<lparr>mpi_log := mpi_log g @ [c]\<rparr>"

section \<open>Routines\<close>

definition rma_analyzer_get_state :: "MPI_Win \<Rightarrow> rma_globals \<Rightarrow> rma_error + rma_analyzer_state" where
  "rma_analyzer_get_state win g =
     (case map_of (States g) win of None \<Rightarrow> Inl Exit_failure | Some s \<Rightarrow> Inr s)"

definition rma_analyzer_is_active_epoch :: "MPI_Win \<Rightarrow> rma_globals \<Rightarrow> rma_error + bool" where
  "rma_analyzer_is_active_epoch win g =
     bindE (rma_analyzer_get_state win g) (\<lambda>state. Inr (active_epoch state > 0))"

definition rma_analyzer_save_interval :: "Access \<Rightarrow> MPI_Win \<Rightarrow> rma_globals \<Rightarrow> rma_error + rma_globals" where
  "rma_analyzer_save_interval Acc win g =
     bindE (rma_analyzer_get_state win g) (\<lambda>state.
       let Conflicting = getConflictingIntervals (Intervals state) Acc in
       if Conflicting \<noteq> [] then Inl (MPI_Aborted Acc Conflicting)
       else Inr (put_state win (state\<lparr>Intervals := insert_access Acc (Intervals state)\<rparr>) g))"

text \<open>
  One iteration of the polling loop of the checking thread: leave when the end
  flag is set and every expected message has been counted, otherwise use the
  outcome of \<open>MPI_Test\<close>. A received access takes the file name of the
  string message and is translated into the target window.
\<close>

datatype poll = Poll_exit | Poll_again | Poll_received Access

definition rma_analyzer_check_communication ::
  "rma_analyzer_state \<Rightarrow> (Access \<times> string) option \<Rightarrow> poll \<times> rma_analyzer_state" where
  "rma_analyzer_check_communication state outcome =
     (if thread_end state = 1 \<and> recv_count state = expected state
      then (Poll_exit, state\<lparr>recv_count := 0\<rparr>)
      else case outcome of
        None \<Rightarrow> (Poll_again, state)
      | Some (Received, fname) \<Rightarrow>
          (Poll_received
             (Received\<lparr>Dbg := (Dbg Received)\<lparr>Filename := fname\<rparr>,
                       Itv := fixForWindow (win_base state) (word_of_int (disp_unit state)) (Itv Received)\<rparr>),
           state\<lparr>recv_count := recv_count state + 1\<rparr>))"

text \<open>
  The body of the checking thread over a sequence of test outcomes: the flag
  says whether the thread has returned; a received access is saved before the
  next iteration.
\<close>

fun rma_analyzer_comm_check_thread ::
  "MPI_Win \<Rightarrow> (Access \<times> string) option list \<Rightarrow> rma_globals \<Rightarrow> rma_error + (bool \<times> rma_globals)" where
  "rma_analyzer_comm_check_thread win [] g = Inr (False, g)"
| "rma_analyzer_comm_check_thread win (outcome # outs) g =
     bindE (rma_analyzer_get_state win g) (\<lambda>state.
       case rma_analyzer_check_communication state outcome of
         (Poll_exit, state') \<Rightarrow> Inr (True, put_state win state' g)
       | (Poll_again, state') \<Rightarrow> rma_analyzer_comm_check_thread win outs (put_state win state' g)
       | (Poll_received Acc, state') \<Rightarrow>
           bindE (rma_analyzer_save_interval Acc win (put_state win state' g))
             (rma_analyzer_comm_check_thread win outs))"

function tag_range_loop :: "nat \<Rightarrow> int list \<Rightarrow> int \<times> int list" where
  "tag_range_loop i tags =
     (if i < RMA_ANALYZER_MAX_WIN
      then if tags ! i = 0 then (int i, tags[i := 1]) else tag_range_loop (Suc i) tags
      else (- 1, tags))"
  by pat_completeness auto
termination
  by (relation "measure (\<lambda>(i, tags). RMA_ANALYZER_MAX_WIN - i)") auto

declare tag_range_loop.simps [simp del]

definition rma_analyzer_get_tag_range_id :: "int list \<Rightarrow> int \<times> int list" where
  "rma_analyzer_get_tag_range_id tags = tag_range_loop 0 tags"

text \<open>The array has 32 elements; a store outside it is undefined behaviour, an error here.\<close>

definition rma_analyzer_free_tag_range :: "int \<Rightarrow> int list \<Rightarrow> rma_error + int list" where
  "rma_analyzer_free_tag_range tag_id tags =
     (let id = (tag_id - RMA_ANALYZER_BASE_MPI_TAG) sdiv RMA_ANALYZER_MAX_EPOCH_NUMBER in
      if 0 \<le> id \<and> id < int RMA_ANALYZER_MAX_WIN then Inr (tags[nat id := 0]) else Inl Out_of_bounds)"

definition rma_analyzer_save_interval_all_wins :: "Access \<Rightarrow> rma_globals \<Rightarrow> rma_error + rma_globals" where
  "rma_analyzer_save_interval_all_wins Acc g0 =
     foldE (\<lambda>k g. bindE (rma_analyzer_get_state k g) (\<lambda>State.
         bindE (rma_analyzer_is_active_epoch (state_win State) g) (\<lambda>active.
           if active then rma_analyzer_save_interval Acc (state_win State) g else Inr g)))
       (map fst (States g0)) g0"

text \<open>
  Assigning a new \<open>std::thread\<close> to one that is still joinable, joining one that
  is not, or destroying a joinable one ends the program.
\<close>

definition rma_analyzer_init_comm_check_thread :: "MPI_Win \<Rightarrow> rma_globals \<Rightarrow> rma_error + rma_globals" where
  "rma_analyzer_init_comm_check_thread win g =
     bindE (rma_analyzer_get_state win g) (\<lambda>state.
       if joinable state then Inl Terminated
       else Inr (put_state win
         (state\<lparr>array := replicate (length (array state)) 0,
                thread_end := 0,
                count_epoch := count_epoch state + 1,
                active_epoch := 1,
                joinable := True\<rparr>) g))"

definition rma_analyzer_clear_comm_check_thread ::
  "mpi_env \<Rightarrow> bool \<Rightarrow> MPI_Win \<Rightarrow> rma_globals \<Rightarrow> rma_error + rma_globals" where
  "rma_analyzer_clear_comm_check_thread env do_reduce win g =
     bindE (rma_analyzer_get_state win g) (\<lambda>state.
       let state1 = state\<lparr>expected := (if do_reduce then reduce_sum env win (array state) else 0),
                          thread_end := 1\<rparr> in
       if \<not> joinable state then Inl Terminated
       else bindE (rma_analyzer_comm_check_thread win
                     (incoming env win (count_epoch state)) (put_state win state1 g))
         (\<lambda>(finished, g').
            if \<not> finished then Inl Blocked
            else bindE (rma_analyzer_get_state win g') (\<lambda>state2.
              Inr (put_state win
                (state2\<lparr>joinable := False, recv_count := 0, active_epoch := 0, Intervals := []\<rparr>) g'))))"

definition rma_analyzer_init_comm_check_thread_all_wins :: "rma_globals \<Rightarrow> rma_error + rma_globals" where
  "rma_analyzer_init_comm_check_thread_all_wins g0 =
     foldE (\<lambda>k g. bindE (rma_analyzer_get_state k g) (\<lambda>State.
         bindE (rma_analyzer_is_active_epoch (state_win State) g) (\<lambda>active.
           if \<not> active \<and> from_sync State = 1
           then rma_analyzer_init_comm_check_thread (state_win State) g else Inr g)))
       (map fst (States g0)) g0"

definition rma_analyzer_clear_comm_check_thread_all_wins ::
  "mpi_env \<Rightarrow> bool \<Rightarrow> rma_globals \<Rightarrow> rma_error + rma_globals" where
  "rma_analyzer_clear_comm_check_thread_all_wins env do_reduce g0 =
     foldE (\<lambda>k g. bindE (rma_analyzer_get_state k g) (\<lambda>State.
         bindE (rma_analyzer_is_active_epoch (state_win State) g) (\<lambda>active.
           if active
           then bindE (rma_analyzer_clear_comm_check_thread env do_reduce (state_win State) g)
                  (\<lambda>g'. bindE (rma_analyzer_get_state k g') (\<lambda>State'.
                     Inr (put_state k (State'\<lparr>from_sync := 1\<rparr>) g')))
           else Inr g)))
       (map fst (States g0)) g0"

definition rma_analyzer_update_on_comm_send ::
  "Access \<Rightarrow> Access \<Rightarrow> int \<Rightarrow> MPI_Win \<Rightarrow> rma_globals \<Rightarrow> rma_error + rma_globals" where
  "rma_analyzer_update_on_comm_send LocalAccess TargetAccess target_rank win g =
     bindE (rma_analyzer_get_state win g) (\<lambda>_.
     bindE (rma_analyzer_save_interval LocalAccess win g) (\<lambda>g1.
     bindE (rma_analyzer_get_state win g1) (\<lambda>state.
       let g2 = log_call (MPI_Send_access target_rank (mpi_tag state + count_epoch state) TargetAccess) g1;
           g3 = log_call (MPI_Send_string target_rank RMA_ANALYZER_STRING_MPI_TAG
                            (Filename (Dbg TargetAccess))) g2 in
       if 0 \<le> target_rank \<and> nat target_rank < length (array state)
       then Inr (put_state win
              (state\<lparr>array := (array state)[nat target_rank := array state ! nat target_rank + 1]\<rparr>) g3)
       else Inl Out_of_bounds)))"

definition new_rma_state ::
  "mpi_env \<Rightarrow> u64 \<Rightarrow> u64 \<Rightarrow> MPI_Comm \<Rightarrow> MPI_Win \<Rightarrow> int \<Rightarrow> int \<Rightarrow> rma_analyzer_state" where
  "new_rma_state env base sz comm win unit tag =
     \<lparr>state_win = win, joinable = False, Intervals = [], win_base = base, disp_unit = unit,
      win_size = sz, win_comm = comm, size_comm = comm_size env comm, mpi_tag = tag,
      array = replicate (nat (comm_size env comm)) 0, expected = 0, thread_end = 0, count_epoch = 0,
      count_fence = 0, recv_count = 0, active_epoch = 0, from_sync = 0\<rparr>"

text \<open>
  \<open>env_filter\<close> is the value of the environment variable
  \<open>RMA_ANALYZER_FILTER_WINDOW\<close> when it is set. \<open>emplace\<close> leaves an
  existing binding in place.
\<close>

definition rma_analyzer_start ::
  "mpi_env \<Rightarrow> int option \<Rightarrow> u64 \<Rightarrow> u64 \<Rightarrow> MPI_Comm \<Rightarrow> MPI_Win \<Rightarrow> int \<Rightarrow> rma_globals \<Rightarrow> rma_globals" where
  "rma_analyzer_start env env_filter base sz comm win unit g =
     (let g1 = (case env_filter of None \<Rightarrow> g | Some v \<Rightarrow> g\<lparr>filter_window := v\<rparr>);
          (tag_id, tags) = rma_analyzer_get_tag_range_id (win_mpi_tag_id g1);
          tag = RMA_ANALYZER_BASE_MPI_TAG + RMA_ANALYZER_MAX_EPOCH_NUMBER * tag_id
      in g1\<lparr>win_mpi_tag_id := tags,
            States := map_emplace win (new_rma_state env base sz comm win unit tag) (States g1)\<rparr>)"

definition rma_analyzer_stop :: "MPI_Win \<Rightarrow> rma_globals \<Rightarrow> rma_error + rma_globals" where
  "rma_analyzer_stop win g =
     bindE (rma_analyzer_get_state win g) (\<lambda>state.
     bindE (rma_analyzer_free_tag_range (mpi_tag state) (win_mpi_tag_id g)) (\<lambda>tags.
       if joinable state then Inl Terminated
       else Inr (g\<lparr>win_mpi_tag_id := tags, States := map_erase win (States g)\<rparr>)))"

definition init_globals :: rma_globals where
  "init_globals = \<lparr>States = [], win_mpi_tag_id = replicate RMA_ANALYZER_MAX_WIN 0,
                   filter_window = 1, mpi_log = []\<rparr>"

section \<open>The window table\<close>

text \<open>
  What the routines rely on of the table of window states: the laws of lookup
  after each update. Facts about all stored states are kept by the updates.
\<close>

locale state_table =
  fixes lookup :: "'m \<Rightarrow> 'k \<Rightarrow> 'v option"
    and store :: "'k \<Rightarrow> 'v \<Rightarrow> 'm \<Rightarrow> 'm"
    and emplace :: "'k \<Rightarrow> 'v \<Rightarrow> 'm \<Rightarrow> 'm"
    and erase :: "'k \<Rightarrow> 'm \<Rightarrow> 'm"
    and ok :: "'m \<Rightarrow> bool"
  assumes lookup_store: "ok m \<Longrightarrow> lookup (store k v m) k' =
      (if k' = k \<and> lookup m k \<noteq> None then Some v else lookup m k')"
    and lookup_emplace: "ok m \<Longrightarrow> lookup (emplace k v m) k' =
      (if k' = k \<and> lookup m k = None then Some v else lookup m k')"
    and lookup_erase: "ok m \<Longrightarrow> lookup (erase k m) k' = (if k' = k then None else lookup m k')"
    and ok_store: "ok m \<Longrightarrow> ok (store k v m)"
    and ok_emplace: "ok m \<Longrightarrow> ok (emplace k v m)"
    and ok_erase: "ok m \<Longrightarrow> ok (erase k m)"
begin

lemma all_store:
  "ok m \<Longrightarrow> \<forall>k s. lookup m k = Some s \<longrightarrow> P k s \<Longrightarrow> P k v \<Longrightarrow>
   \<forall>k' s. lookup (store k v m) k' = Some s \<longrightarrow> P k' s"
  by (simp add: lookup_store)

lemma all_emplace:
  "ok m \<Longrightarrow> \<forall>k s. lookup m k = Some s \<longrightarrow> P k s \<Longrightarrow> (lookup m k = None \<Longrightarrow> P k v) \<Longrightarrow>
   \<forall>k' s. lookup (emplace k v m) k' = Some s \<longrightarrow> P k' s"
  by (simp add: lookup_emplace)

lemma all_erase:
  "ok m \<Longrightarrow> \<forall>k s. lookup m k = Some s \<longrightarrow> P k s \<Longrightarrow>
   \<forall>k' s. lookup (erase k m) k' = Some s \<longrightarrow> P k' s"
  by (simp add: lookup_erase)

end

definition keys_ordered :: "(nat \<times> 'v) list \<Rightarrow> bool" where
  "keys_ordered m \<longleftrightarrow> sorted_wrt (<) (map fst m)"

lemma map_fst_store [simp]: "map fst (map_store k v m) = map fst m"
  by (induction m) (auto simp: map_store_def)

lemma set_fst_emplace: "fst ` set (map_emplace k v m) = insert k (fst ` set m)"
  by (induction k v m rule: map_emplace.induct) auto

lemma map_of_store:
  "map_of (map_store k v m) k' = (if k' = k \<and> map_of m k \<noteq> None then Some v else map_of m k')"
  by (induction m) (auto simp: map_store_def)

lemma map_of_erase: "map_of (map_erase k m) k' = (if k' = k then None else map_of m k')"
  by (induction m) (auto simp: map_erase_def)

lemma keys_ordered_emplace: "keys_ordered m \<Longrightarrow> keys_ordered (map_emplace k v m)"
  unfolding keys_ordered_def
proof (induction k v m rule: map_emplace.induct)
  case (2 k v k' v' rest)
  then show ?case
    using set_fst_emplace [of k v rest] by auto
qed simp

lemma keys_ordered_Cons:
  "keys_ordered ((k, v) # m) \<longleftrightarrow> (\<forall>k'\<in>fst ` set m. k < k') \<and> keys_ordered m"
  by (simp add: keys_ordered_def)

lemma map_of_emplace:
  "keys_ordered m \<Longrightarrow>
   map_of (map_emplace k v m) k' = (if k' = k \<and> map_of m k = None then Some v else map_of m k')"
proof (induction k v m rule: map_emplace.induct)
  case (2 k v k'' v' rest)
  have "map_of rest k = None" if "k < k''"
    using that 2 by (force simp: keys_ordered_Cons map_of_eq_None_iff)
  with 2 show ?case by (auto simp: keys_ordered_Cons)
qed simp

interpretation win_table: state_table map_of map_store map_emplace map_erase keys_ordered
proof unfold_locales
  fix m :: "(nat \<times> 'b) list" and k k' :: nat and v :: 'b
  assume ok: "keys_ordered m"
  show "map_of (map_store k v m) k' = (if k' = k \<and> map_of m k \<noteq> None then Some v else map_of m k')"
    by (rule map_of_store)
  show "map_of (map_emplace k v m) k' = (if k' = k \<and> map_of m k = None then Some v else map_of m k')"
    using ok by (rule map_of_emplace)
  show "map_of (map_erase k m) k' = (if k' = k then None else map_of m k')"
    by (rule map_of_erase)
  show "keys_ordered (map_store k v m)" "keys_ordered (map_emplace k v m)"
    using ok by (simp add: keys_ordered_def, rule keys_ordered_emplace)
  show "keys_ordered (map_erase k m)"
    using ok by (simp add: keys_ordered_def map_erase_def sorted_wrt_map sorted_wrt_filter)
qed

section \<open>Tag ranges\<close>

lemma tag_range_loop_cases:
  assumes "length tags = RMA_ANALYZER_MAX_WIN" "tag_range_loop i tags = (tid, tags')"
  shows "(\<exists>j. i \<le> j \<and> j < RMA_ANALYZER_MAX_WIN \<and> tags ! j = 0 \<and> (\<forall>k. i \<le> k \<and> k < j \<longrightarrow> tags ! k \<noteq> 0)
             \<and> tid = int j \<and> tags' = tags[j := 1])
       \<or> (tid = - 1 \<and> tags' = tags \<and> (\<forall>k. i \<le> k \<and> k < RMA_ANALYZER_MAX_WIN \<longrightarrow> tags ! k \<noteq> 0))"
  using assms
proof (induction i tags rule: tag_range_loop.induct)
  case (1 i tags)
  consider "i < RMA_ANALYZER_MAX_WIN" "tags ! i = 0" | "i < RMA_ANALYZER_MAX_WIN" "tags ! i \<noteq> 0"
    | "\<not> i < RMA_ANALYZER_MAX_WIN" by blast
  then show ?case
  proof cases
    case 1
    then show ?thesis using "1.prems" by (auto simp: tag_range_loop.simps [of i])
  next
    case 2
    with "1.prems" have "tag_range_loop (Suc i) tags = (tid, tags')"
      by (simp add: tag_range_loop.simps [of i])
    note rest = "1.IH" [OF 2 "1.prems"(1) this]
    have step: "i \<le> k \<longleftrightarrow> k = i \<or> Suc i \<le> k" for k by auto
    from rest 2 show ?thesis by (auto simp: step)
  next
    case 3
    then show ?thesis using "1.prems" by (auto simp: tag_range_loop.simps [of i])
  qed
qed

lemma tag_of_id_sdiv:
  "(RMA_ANALYZER_BASE_MPI_TAG + RMA_ANALYZER_MAX_EPOCH_NUMBER * tid - RMA_ANALYZER_BASE_MPI_TAG)
     sdiv RMA_ANALYZER_MAX_EPOCH_NUMBER = tid"
  by (cases "tid = 0"; cases "tid < 0")
    (auto simp: rma_constants signed_divide_int_def sgn_mult abs_mult sgn_if)

definition tag_of_id :: "int \<Rightarrow> int" where
  "tag_of_id tid = RMA_ANALYZER_BASE_MPI_TAG + RMA_ANALYZER_MAX_EPOCH_NUMBER * tid"

lemma free_tag_of_id:
  "rma_analyzer_free_tag_range (tag_of_id tid) tags =
     (if 0 \<le> tid \<and> tid < int RMA_ANALYZER_MAX_WIN then Inr (tags[nat tid := 0]) else Inl Out_of_bounds)"
  by (simp only: rma_analyzer_free_tag_range_def tag_of_id_def tag_of_id_sdiv Let_def)

section \<open>Invariant\<close>

text \<open>What holds of each state: it is filed under its own window, its accesses are
  ordered, and it has a live thread exactly in an epoch.\<close>

definition state_ok :: "MPI_Win \<Rightarrow> rma_analyzer_state \<Rightarrow> bool" where
  "state_ok w s \<longleftrightarrow> state_win s = w \<and> ordered_accesses (Intervals s)
     \<and> (joinable s \<longleftrightarrow> active_epoch s > 0) \<and> length (array s) = nat (size_comm s)
     \<and> 0 \<le> count_epoch s
     \<and> (\<exists>tid. - 1 \<le> tid \<and> tid < int RMA_ANALYZER_MAX_WIN \<and> mpi_tag s = tag_of_id tid)"

text \<open>Tag ranges handed out: marked as used, and no two windows share one.\<close>

definition tags_ok :: "(MPI_Win \<Rightarrow> rma_analyzer_state option) \<Rightarrow> int list \<Rightarrow> bool" where
  "tags_ok st tags \<longleftrightarrow> length tags = RMA_ANALYZER_MAX_WIN
     \<and> (\<forall>w s tid. st w = Some s \<and> mpi_tag s = tag_of_id tid \<and> 0 \<le> tid \<longrightarrow> tags ! nat tid = 1)
     \<and> (\<forall>w s w' s' tid. st w = Some s \<and> st w' = Some s' \<and> mpi_tag s = tag_of_id tid
          \<and> mpi_tag s' = tag_of_id tid \<and> 0 \<le> tid \<longrightarrow> w = w')"

definition rma_inv :: "rma_globals \<Rightarrow> bool" where
  "rma_inv g \<longleftrightarrow> keys_ordered (States g) \<and> (\<forall>w s. map_of (States g) w = Some s \<longrightarrow> state_ok w s)
     \<and> tags_ok (map_of (States g)) (win_mpi_tag_id g)"

lemma tag_of_id_inj [simp]: "tag_of_id a = tag_of_id b \<longleftrightarrow> a = b"
  by (simp add: tag_of_id_def rma_constants)

lemma get_state_Inr [simp]:
  "rma_analyzer_get_state win g = Inr s \<longleftrightarrow> map_of (States g) win = Some s"
  by (simp add: rma_analyzer_get_state_def split: option.splits)

lemma map_of_put_state [simp]:
  "map_of (States (put_state w s g)) w' =
     (if w' = w \<and> map_of (States g) w \<noteq> None then Some s else map_of (States g) w')"
  by (simp add: put_state_def map_of_store)

lemma put_state_frame [simp]:
  "win_mpi_tag_id (put_state w s g) = win_mpi_tag_id g"
  "map fst (States (put_state w s g)) = map fst (States g)"
  "mpi_log (put_state w s g) = mpi_log g"
  by (simp_all add: put_state_def)

lemma rma_inv_state: "rma_inv g \<Longrightarrow> map_of (States g) w = Some s \<Longrightarrow> state_ok w s"
  by (simp add: rma_inv_def)

lemma rma_inv_put_state [inv_intros]:
  assumes "rma_inv g" "map_of (States g) w = Some s" "state_ok w s'" "mpi_tag s' = mpi_tag s"
  shows "rma_inv (put_state w s' g)"
proof -
  have ko: "keys_ordered (States (put_state w s' g))"
    using assms(1) by (simp add: rma_inv_def keys_ordered_def)
  have "tags_ok (map_of (States (put_state w s' g))) (win_mpi_tag_id g)"
    using assms unfolding rma_inv_def tags_ok_def
    by (simp only: map_of_put_state put_state_frame) (metis option.inject)
  with ko assms show ?thesis
    by (auto simp: rma_inv_def)
qed

lemma rma_inv_log_call [simp]: "rma_inv (log_call c g) \<longleftrightarrow> rma_inv g"
  by (simp add: rma_inv_def log_call_def)

lemma States_log_call [simp]: "States (log_call c g) = States g"
  by (simp add: log_call_def)

section \<open>Every routine keeps the invariant\<close>

lemma save_interval_Inr:
  "rma_analyzer_save_interval Acc win g = Inr g' \<longleftrightarrow>
     (\<exists>s. map_of (States g) win = Some s \<and> getConflictingIntervals (Intervals s) Acc = []
        \<and> g' = put_state win (s\<lparr>Intervals := insert_access Acc (Intervals s)\<rparr>) g)"
  by (auto simp: rma_analyzer_save_interval_def bindE_eq_Inr Let_def split: if_splits)

lemma save_interval_inv [inv_intros]:
  "rma_inv g \<Longrightarrow> rma_analyzer_save_interval Acc win g = Inr g' \<Longrightarrow> rma_inv g'"
  by (auto simp: save_interval_Inr state_ok_def intro!: rma_inv_put_state inv_intros
      dest: rma_inv_state)

lemma check_communication_frame:
  "rma_analyzer_check_communication s outcome = (p, s') \<Longrightarrow> \<exists>n. s' = s\<lparr>recv_count := n\<rparr>"
  by (cases s) (auto simp: rma_analyzer_check_communication_def split: if_splits option.splits prod.splits)

lemma check_communication_inv:
  assumes "rma_inv g" "map_of (States g) win = Some s"
    "rma_analyzer_check_communication s outcome = (p, s')"
  shows "rma_inv (put_state win s' g)"
proof -
  obtain n where "s' = s\<lparr>recv_count := n\<rparr>"
    using check_communication_frame [OF assms(3)] by blast
  with assms(1,2) rma_inv_state [OF assms(1,2)] show ?thesis
    by (auto simp: state_ok_def intro!: rma_inv_put_state)
qed

lemma comm_check_thread_inv [inv_intros]:
  "rma_analyzer_comm_check_thread win outs g = Inr (fin, g') \<Longrightarrow> rma_inv g \<Longrightarrow> rma_inv g'"
proof (induction win outs g rule: rma_analyzer_comm_check_thread.induct)
  case (2 win outcome outs g)
  from "2.prems"(1) obtain s where s: "map_of (States g) win = Some s"
    by (auto simp: bindE_eq_Inr)
  obtain p s' where c: "rma_analyzer_check_communication s outcome = (p, s')"
    by (cases "rma_analyzer_check_communication s outcome")
  have inv: "rma_inv (put_state win s' g)"
    by (rule check_communication_inv [OF "2.prems"(2) s c])
  have gs: "rma_analyzer_get_state win g = Inr s" using s by simp
  show ?case
  proof (cases p)
    case Poll_exit
    with "2.prems"(1) gs c inv show ?thesis by simp
  next
    case Poll_again
    with "2.prems"(1) gs c have "rma_analyzer_comm_check_thread win outs (put_state win s' g) = Inr (fin, g')"
      by simp
    from "2.IH"(1) [OF c [unfolded Poll_again, symmetric] _ this inv] show ?thesis by simp
  next
    case (Poll_received Acc)
    with "2.prems"(1) gs c obtain g1 where
      "rma_analyzer_save_interval Acc win (put_state win s' g) = Inr g1"
      "rma_analyzer_comm_check_thread win outs g1 = Inr (fin, g')"
      by (auto simp: bindE_eq_Inr)
    with "2.IH"(2) [OF c [unfolded Poll_received, symmetric] _ _ save_interval_inv [OF inv]]
    show ?thesis by simp
  qed
qed simp

lemma init_comm_check_thread_inv [inv_intros]:
  "rma_inv g \<Longrightarrow> rma_analyzer_init_comm_check_thread win g = Inr g' \<Longrightarrow> rma_inv g'"
  by (auto simp: rma_analyzer_init_comm_check_thread_def bindE_eq_Inr state_ok_def
      intro!: rma_inv_put_state dest: rma_inv_state split: if_splits)

lemma clear_comm_check_thread_Inr:
  assumes "rma_analyzer_clear_comm_check_thread env red win g = Inr g'"
  obtains s g1 s2 where "map_of (States g) win = Some s" "joinable s"
    "rma_analyzer_comm_check_thread win (incoming env win (count_epoch s))
       (put_state win (s\<lparr>expected := (if red then reduce_sum env win (array s) else 0),
                         thread_end := 1\<rparr>) g) = Inr (True, g1)"
    "map_of (States g1) win = Some s2"
    "g' = put_state win (s2\<lparr>joinable := False, recv_count := 0, active_epoch := 0, Intervals := []\<rparr>) g1"
  using assms
  by (auto simp: rma_analyzer_clear_comm_check_thread_def bindE_eq_Inr Let_def split: if_splits)

lemma clear_comm_check_thread_inv [inv_intros]:
  assumes "rma_inv g" "rma_analyzer_clear_comm_check_thread env red win g = Inr g'"
  shows "rma_inv g'"
proof (rule clear_comm_check_thread_Inr [OF assms(2)])
  fix s g1 s2
  assume s: "map_of (States g) win = Some s" "joinable s"
    and run: "rma_analyzer_comm_check_thread win (incoming env win (count_epoch s))
       (put_state win (s\<lparr>expected := (if red then reduce_sum env win (array s) else 0),
                         thread_end := 1\<rparr>) g) = Inr (True, g1)"
    and s2: "map_of (States g1) win = Some s2"
    and g': "g' = put_state win (s2\<lparr>joinable := False, recv_count := 0, active_epoch := 0, Intervals := []\<rparr>) g1"
  have "rma_inv (put_state win (s\<lparr>expected := (if red then reduce_sum env win (array s) else 0),
                         thread_end := 1\<rparr>) g)"
    using rma_inv_state [OF assms(1) s(1)]
    by (intro rma_inv_put_state [OF assms(1) s(1)]) (auto simp: state_ok_def)
  from comm_check_thread_inv [OF run this] have inv1: "rma_inv g1" .
  show "rma_inv g'"
    using rma_inv_state [OF inv1 s2] unfolding g'
    by (intro rma_inv_put_state [OF inv1 s2]) (auto simp: state_ok_def ordered_accesses_def)
qed

lemma save_interval_all_wins_inv [inv_intros]:
  "rma_inv g \<Longrightarrow> rma_analyzer_save_interval_all_wins Acc g = Inr g' \<Longrightarrow> rma_inv g'"
  unfolding rma_analyzer_save_interval_all_wins_def
  by (erule foldE_inv) (auto simp: bindE_eq_Inr split: if_splits intro: save_interval_inv)

lemma init_all_wins_inv [inv_intros]:
  "rma_inv g \<Longrightarrow> rma_analyzer_init_comm_check_thread_all_wins g = Inr g' \<Longrightarrow> rma_inv g'"
  unfolding rma_analyzer_init_comm_check_thread_all_wins_def
  by (erule foldE_inv) (auto simp: bindE_eq_Inr split: if_splits intro: init_comm_check_thread_inv)

lemma from_sync_inv:
  assumes "rma_inv g" "map_of (States g) k = Some s"
  shows "rma_inv (put_state k (s\<lparr>from_sync := n\<rparr>) g)"
  using rma_inv_state [OF assms] by (intro rma_inv_put_state [OF assms]) (auto simp: state_ok_def)

lemma clear_all_wins_inv [inv_intros]:
  "rma_inv g \<Longrightarrow> rma_analyzer_clear_comm_check_thread_all_wins env red g = Inr g' \<Longrightarrow> rma_inv g'"
  unfolding rma_analyzer_clear_comm_check_thread_all_wins_def
  by (erule foldE_inv)
    (auto simp: bindE_eq_Inr split: if_splits intro!: from_sync_inv intro: clear_comm_check_thread_inv)

lemma update_on_comm_send_Inr:
  assumes "rma_analyzer_update_on_comm_send la ta rank win g = Inr g'"
  obtains g1 s where "rma_analyzer_save_interval la win g = Inr g1" "map_of (States g1) win = Some s"
    "0 \<le> rank" "nat rank < length (array s)"
    "g' = put_state win (s\<lparr>array := (array s)[nat rank := array s ! nat rank + 1]\<rparr>)
       (log_call (MPI_Send_string rank RMA_ANALYZER_STRING_MPI_TAG (Filename (Dbg ta)))
         (log_call (MPI_Send_access rank (mpi_tag s + count_epoch s) ta) g1))"
  using assms
  by (auto simp: rma_analyzer_update_on_comm_send_def bindE_eq_Inr Let_def split: if_splits)

lemma update_on_comm_send_inv [inv_intros]:
  assumes "rma_inv g" "rma_analyzer_update_on_comm_send la ta rank win g = Inr g'"
  shows "rma_inv g'"
proof (rule update_on_comm_send_Inr [OF assms(2)])
  fix g1 s
  assume sv: "rma_analyzer_save_interval la win g = Inr g1" and s: "map_of (States g1) win = Some s"
    and g': "g' = put_state win (s\<lparr>array := (array s)[nat rank := array s ! nat rank + 1]\<rparr>)
       (log_call (MPI_Send_string rank RMA_ANALYZER_STRING_MPI_TAG (Filename (Dbg ta)))
         (log_call (MPI_Send_access rank (mpi_tag s + count_epoch s) ta) g1))"
  have inv1: "rma_inv g1" by (rule save_interval_inv [OF assms(1) sv])
  show "rma_inv g'"
    using rma_inv_state [OF inv1 s] inv1 s unfolding g'
    by (intro rma_inv_put_state [where s = s]) (auto simp: state_ok_def)
qed

lemma new_rma_state_ok:
  "- 1 \<le> tid \<Longrightarrow> tid < int RMA_ANALYZER_MAX_WIN \<Longrightarrow>
   state_ok win (new_rma_state env base sz comm win unit (tag_of_id tid))"
  by (auto simp: state_ok_def new_rma_state_def ordered_accesses_def)

lemma start_inv [inv_intros]:
  assumes "rma_inv g"
  shows "rma_inv (rma_analyzer_start env ef base sz comm win unit g)"
proof -
  obtain tid tags where get: "tag_range_loop 0 (win_mpi_tag_id g) = (tid, tags)"
    by (cases "tag_range_loop 0 (win_mpi_tag_id g)")
  have len: "length (win_mpi_tag_id g) = RMA_ANALYZER_MAX_WIN" and ko: "keys_ordered (States g)"
    using assms by (auto simp: rma_inv_def tags_ok_def)
  have range: "- 1 \<le> tid" "tid < int RMA_ANALYZER_MAX_WIN" "length tags = length (win_mpi_tag_id g)"
    using tag_range_loop_cases [OF len get] by auto
  have used: "tags ! nat i = 1" if "0 \<le> i" "win_mpi_tag_id g ! nat i = 1" "i < int RMA_ANALYZER_MAX_WIN" for i
    using tag_range_loop_cases [OF len get] that len by (auto simp: nth_list_update)
  have fresh: "win_mpi_tag_id g ! nat tid = 0" "tags ! nat tid = 1" if "0 \<le> tid"
    using tag_range_loop_cases [OF len get] that len by auto
  define g' where "g' = rma_analyzer_start env ef base sz comm win unit g"
  have st: "map_of (States g') w = (if w = win \<and> map_of (States g) win = None
      then Some (new_rma_state env base sz comm win unit (tag_of_id tid)) else map_of (States g) w)" for w
    using get ko by (cases ef)
      (simp_all add: g'_def rma_analyzer_start_def rma_analyzer_get_tag_range_id_def Let_def tag_of_id_def
        win_table.lookup_emplace del: map_emplace.simps)
  have fields: "win_mpi_tag_id g' = tags" "keys_ordered (States g')"
    using get ko by (cases ef; simp add: g'_def rma_analyzer_start_def rma_analyzer_get_tag_range_id_def
        Let_def keys_ordered_emplace)+
  have id_bound: "i < int RMA_ANALYZER_MAX_WIN" if "map_of (States g) w = Some s" "mpi_tag s = tag_of_id i" for w s i
    using rma_inv_state [OF assms that(1)] that(2) by (auto simp: state_ok_def)
  have new_tag: "mpi_tag (new_rma_state env base sz comm win unit (tag_of_id tid)) = tag_of_id tid"
    by (simp add: new_rma_state_def)
  have old: "win_mpi_tag_id g ! nat i = 1" if "map_of (States g) w = Some s" "mpi_tag s = tag_of_id i" "0 \<le> i" for w s i
    using assms that by (auto simp: rma_inv_def tags_ok_def)
  have old_ne: "mpi_tag s \<noteq> tag_of_id tid" if "map_of (States g) w = Some s" "0 \<le> tid" for w s
    using old [OF that(1)] fresh(1) that(2) by force
  have distinct_old: "w = w'" if "map_of (States g) w = Some s" "map_of (States g) w' = Some s'"
    "mpi_tag s = tag_of_id i" "mpi_tag s' = tag_of_id i" "0 \<le> i" for w w' s s' i
    using assms that unfolding rma_inv_def tags_ok_def by blast
  have "tags_ok (map_of (States g')) tags"
    unfolding tags_ok_def st
    using len range(3) old_ne new_tag old used fresh(2) id_bound distinct_old
    by (auto split: if_splits)
  moreover have "\<forall>w s. map_of (States g') w = Some s \<longrightarrow> state_ok w s"
    using assms new_rma_state_ok [OF range(1,2)] by (auto simp: st rma_inv_def)
  ultimately show ?thesis
    using fields by (simp add: rma_inv_def g'_def)
qed

lemma stop_inv [inv_intros]:
  assumes "rma_inv g" "rma_analyzer_stop win g = Inr g'"
  shows "rma_inv g'"
proof -
  obtain s tags where s: "map_of (States g) win = Some s"
    and fr: "rma_analyzer_free_tag_range (mpi_tag s) (win_mpi_tag_id g) = Inr tags"
    and g': "g' = g\<lparr>win_mpi_tag_id := tags, States := map_erase win (States g)\<rparr>"
    using assms(2) by (auto simp: rma_analyzer_stop_def bindE_eq_Inr split: if_splits)
  obtain tid where tid: "mpi_tag s = tag_of_id tid"
    using rma_inv_state [OF assms(1) s] by (auto simp: state_ok_def)
  have tags: "tags = (win_mpi_tag_id g)[nat tid := 0]" "0 \<le> tid"
    using fr by (simp_all add: tid free_tag_of_id split: if_splits)
  have other: "i \<noteq> tid" if "w \<noteq> win" "map_of (States g) w = Some s'" "mpi_tag s' = tag_of_id i" "0 \<le> i" for w s' i
    using assms(1) that s tid unfolding rma_inv_def tags_ok_def by metis
  have keep: "tags ! nat i = 1" if "w \<noteq> win" "map_of (States g) w = Some s'" "mpi_tag s' = tag_of_id i" "0 \<le> i" for w s' i
    using assms(1) that other [OF that] tags unfolding rma_inv_def tags_ok_def by (simp add: nat_eq_iff)
  have "tags_ok (\<lambda>w. if w = win then None else map_of (States g) w) tags"
    using assms(1) keep tags(1) unfolding rma_inv_def tags_ok_def
    by (auto split: if_splits)
  moreover have "map_of (States g') = (\<lambda>w. if w = win then None else map_of (States g) w)"
    by (auto simp: g' map_of_erase)
  moreover have "keys_ordered (States g')"
    using assms(1) win_table.ok_erase by (auto simp: g' rma_inv_def)
  ultimately show ?thesis
    using assms(1) by (auto simp: rma_inv_def g')
qed

lemma init_globals_inv [simp]: "rma_inv init_globals"
  by (simp add: rma_inv_def init_globals_def keys_ordered_def tags_ok_def)

section \<open>Properties\<close>

text \<open>In every state the invariant describes, two distinct windows that got a tag
  range use different message tags as long as their epoch counters stay below
  the maximum, and neither uses the tag of the file-name messages: messages of
  different windows cannot be confused.\<close>

theorem tag_ranges_disjoint:
  assumes "rma_inv g" "w \<noteq> w'"
    and "map_of (States g) w = Some s" "map_of (States g) w' = Some s'"
    and "RMA_ANALYZER_BASE_MPI_TAG \<le> mpi_tag s" "RMA_ANALYZER_BASE_MPI_TAG \<le> mpi_tag s'"
    and "count_epoch s < RMA_ANALYZER_MAX_EPOCH_NUMBER" "count_epoch s' < RMA_ANALYZER_MAX_EPOCH_NUMBER"
  shows "mpi_tag s + count_epoch s \<noteq> mpi_tag s' + count_epoch s'
    \<and> mpi_tag s + count_epoch s \<noteq> RMA_ANALYZER_STRING_MPI_TAG"
proof -
  have ok: "state_ok w s" "state_ok w' s'"
    using assms rma_inv_state by blast+
  then obtain i j where ij: "mpi_tag s = tag_of_id i" "mpi_tag s' = tag_of_id j"
    by (auto simp: state_ok_def)
  have "0 \<le> i" "0 \<le> j"
    using assms(5,6) by (simp_all add: ij tag_of_id_def rma_constants)
  moreover have "i \<noteq> j" if "0 \<le> i"
    using assms(1-4) ij that unfolding rma_inv_def tags_ok_def by metis
  ultimately show ?thesis
    using ok assms(7,8) by (auto simp: ij state_ok_def tag_of_id_def rma_constants)
qed

definition demo_env :: mpi_env where
  "demo_env = \<lparr>comm_size = (\<lambda>_. 2), reduce_sum = (\<lambda>_ _. 0),
               incoming = (\<lambda>_ _. [None]), type_size = (\<lambda>_. 4), pmpi_ret = (\<lambda>_. 0),
               win_f2c = nat, comm_f2c = nat\<rparr>"

lemma tag_ids_two [simp]:
  "tag_range_loop 0 (replicate 32 0) = (0, (replicate 32 0)[0 := 1])"
  "tag_range_loop 0 ((replicate 32 0)[0 := 1]) = (1, (replicate 32 0)[0 := 1, 1 := 1])"
  by (simp_all add: tag_range_loop.simps rma_constants eval_nat_numeral)

theorem tag_ranges_disjoint_witness:
  "\<exists>(g :: rma_globals) (s :: rma_analyzer_state) (s' :: rma_analyzer_state).
     map_of (States g) 7 = Some s \<and> map_of (States g) 9 = Some s'
     \<and> mpi_tag s + count_epoch s \<noteq> mpi_tag s' + count_epoch s'"
proof -
  define g1 where "g1 = rma_analyzer_start demo_env None 4096 64 0 7 1 init_globals"
  define g2 where "g2 = rma_analyzer_start demo_env None 8192 64 0 9 1 g1"
  define s where "s = new_rma_state demo_env 4096 64 0 7 1 65535"
  define s' where "s' = new_rma_state demo_env 8192 64 0 9 1 66559"
  have g1: "g1 = init_globals\<lparr>win_mpi_tag_id := (replicate 32 0)[0 := 1], States := [(7, s)]\<rparr>"
    by (simp add: g1_def s_def rma_analyzer_start_def rma_analyzer_get_tag_range_id_def
        init_globals_def Let_def rma_constants)
  have g2: "States g2 = [(7, s), (9, s')]"
    by (simp add: g2_def g1 s'_def rma_analyzer_start_def rma_analyzer_get_tag_range_id_def Let_def rma_constants)
  have inv: "rma_inv g2"
    unfolding g2_def g1_def by (intro start_inv) simp
  have "mpi_tag s + count_epoch s \<noteq> mpi_tag s' + count_epoch s'
      \<and> mpi_tag s + count_epoch s \<noteq> RMA_ANALYZER_STRING_MPI_TAG"
    by (rule tag_ranges_disjoint [OF inv, of 7 9])
      (simp_all add: g2 s_def s'_def new_rma_state_def rma_constants)
  then show ?thesis
    using g2 by (intro exI [where x = g2] exI [where x = s] exI [where x = s']) simp
qed

text \<open>A tag range that was handed out is the first free one, and giving its tag back
  restores the table it was taken from.\<close>

theorem tag_range_roundtrip:
  assumes "length tags = RMA_ANALYZER_MAX_WIN" "rma_analyzer_get_tag_range_id tags = (tid, tags')" "0 \<le> tid"
  shows "tags ! nat tid = 0 \<and> (\<forall>k < nat tid. tags ! k \<noteq> 0)
    \<and> rma_analyzer_free_tag_range
        (RMA_ANALYZER_BASE_MPI_TAG + RMA_ANALYZER_MAX_EPOCH_NUMBER * tid) tags' = Inr tags"
proof -
  obtain j where j: "j < RMA_ANALYZER_MAX_WIN" "tags ! j = 0" "\<forall>k < j. tags ! k \<noteq> 0"
    "tid = int j" "tags' = tags[j := 1]"
    using tag_range_loop_cases [OF assms(1) assms(2) [unfolded rma_analyzer_get_tag_range_id_def]] assms(3)
    by auto
  then have "tags'[j := 0] = tags"
    by (metis list_update_id list_update_overwrite)
  with j free_tag_of_id [of tid tags'] show ?thesis
    by (simp add: tag_of_id_def)
qed

theorem tag_range_roundtrip_witness:
  "rma_analyzer_free_tag_range 66559 ((replicate 32 0)[0 := 1, 1 := 1]) = Inr ((replicate 32 0)[0 := 1])"
  using tag_range_roundtrip [of "(replicate 32 0)[0 := 1]" 1 "(replicate 32 0)[0 := 1, 1 := 1]"]
  by (simp add: rma_analyzer_get_tag_range_id_def rma_constants)

text \<open>When all tag ranges are taken, starting one more window succeeds with the error
  value as its range, and stopping that window then writes outside the table
  of tag ranges.\<close>

theorem tag_exhaustion_out_of_bounds:
  assumes "rma_inv g" "\<forall>k < RMA_ANALYZER_MAX_WIN. win_mpi_tag_id g ! k \<noteq> 0"
    and "map_of (States g) win = None"
  shows "rma_analyzer_stop win (rma_analyzer_start env ef base sz comm win unit g) = Inl Out_of_bounds"
proof -
  have len: "length (win_mpi_tag_id g) = RMA_ANALYZER_MAX_WIN" and ko: "keys_ordered (States g)"
    using assms(1) by (auto simp: rma_inv_def tags_ok_def)
  obtain tid tags where get: "tag_range_loop 0 (win_mpi_tag_id g) = (tid, tags)"
    by (cases "tag_range_loop 0 (win_mpi_tag_id g)")
  then have tid: "tid = - 1"
    using tag_range_loop_cases [OF len get] assms(2) by auto
  have "map_of (States (rma_analyzer_start env ef base sz comm win unit g)) win
      = Some (new_rma_state env base sz comm win unit (tag_of_id tid))"
    using get ko assms(3) by (cases ef)
      (simp_all add: rma_analyzer_start_def rma_analyzer_get_tag_range_id_def Let_def tag_of_id_def
        win_table.lookup_emplace del: map_emplace.simps)
  then show ?thesis
    by (simp add: rma_analyzer_stop_def rma_analyzer_get_state_def new_rma_state_def free_tag_of_id tid)
qed

theorem tag_exhaustion_out_of_bounds_witness:
  "rma_analyzer_stop 7 (rma_analyzer_start demo_env None 4096 64 0 7 1
     (init_globals\<lparr>win_mpi_tag_id := replicate 32 1\<rparr>)) = Inl Out_of_bounds"
  by (rule tag_exhaustion_out_of_bounds)
    (simp_all add: rma_inv_def init_globals_def keys_ordered_def tags_ok_def rma_constants)


end
