(* ===== verification/RMA_Wrappers.thy ===== *)
theory RMA_Wrappers
  imports RMA_Analyzer
begin

text \<open>
  The routines the instrumented program calls instead of MPI
  (\<open>src/instrumentation/rma/rma_analyzer_mpi_c_overload.cpp\<close>,
  \<open>rma_analyzer_mpi_fort_overload.cpp\<close>) and at its loads and stores
  (\<open>rma_analyzer_load_store_overload.cpp\<close>). Each returns the code of the MPI
  routine it forwards to and the new analyser state; the forwarded calls are
  appended to the log, a null pointer argument as \<open>None\<close>. Timing statistics and
  debug output have no influence on the state and are left out.
\<close>

section \<open>C wrappers\<close>

type_synonym rma_result = "rma_error + (int \<times> rma_globals)"

definition forward :: "mpi_env \<Rightarrow> string \<Rightarrow> int option list \<Rightarrow> rma_globals \<Rightarrow> rma_result" where
  "forward env f args g = Inr (pmpi_ret env f, log_call (PMPI f args) g)"

definition parcoach_rma_MPI_Win_create ::
  "mpi_env \<Rightarrow> int option \<Rightarrow> u64 \<Rightarrow> u64 \<Rightarrow> int \<Rightarrow> MPI_Comm \<Rightarrow> MPI_Win \<Rightarrow> rma_globals \<Rightarrow> rma_result" where
  "parcoach_rma_MPI_Win_create env ef base sz unit comm win g =
     bindE (forward env ''PMPI_Win_create'' [Some unit, Some (int comm), Some (int win)] g) (\<lambda>(ret, g1).
       Inr (ret, rma_analyzer_start env ef base sz comm win unit g1))"

text \<open>\<open>baseptr\<close> is the argument itself, the address of the variable MPI stores the
  base in, and is handed to the analyser as the window base.\<close>

definition parcoach_rma_MPI_Win_allocate ::
  "mpi_env \<Rightarrow> int option \<Rightarrow> u64 \<Rightarrow> int \<Rightarrow> MPI_Comm \<Rightarrow> u64 \<Rightarrow> MPI_Win \<Rightarrow> rma_globals \<Rightarrow> rma_result" where
  "parcoach_rma_MPI_Win_allocate env ef sz unit comm baseptr win g =
     bindE (forward env ''PMPI_Win_allocate'' [Some unit, Some (int comm), Some (int win)] g) (\<lambda>(ret, g1).
       Inr (ret, rma_analyzer_start env ef baseptr sz comm win unit g1))"

definition parcoach_rma_MPI_Win_lock_all :: "mpi_env \<Rightarrow> int \<Rightarrow> MPI_Win \<Rightarrow> rma_globals \<Rightarrow> rma_result" where
  "parcoach_rma_MPI_Win_lock_all env asrt win g =
     bindE (rma_analyzer_init_comm_check_thread win g)
       (forward env ''PMPI_Win_lock_all'' [Some asrt, Some (int win)])"

definition parcoach_rma_MPI_Win_lock ::
  "mpi_env \<Rightarrow> int \<Rightarrow> int \<Rightarrow> int \<Rightarrow> MPI_Win \<Rightarrow> rma_globals \<Rightarrow> rma_result" where
  "parcoach_rma_MPI_Win_lock env lock_type rank asrt win g =
     bindE (rma_analyzer_init_comm_check_thread win g)
       (forward env ''PMPI_Win_lock'' [Some lock_type, Some rank, Some asrt, Some (int win)])"

definition parcoach_rma_MPI_Win_fence :: "mpi_env \<Rightarrow> int \<Rightarrow> MPI_Win \<Rightarrow> rma_globals \<Rightarrow> rma_result" where
  "parcoach_rma_MPI_Win_fence env asrt win g =
     bindE (rma_analyzer_get_state win g) (\<lambda>state.
     bindE (if count_fence state > 0
            then bindE (rma_analyzer_clear_comm_check_thread env True win g) (\<lambda>g1.
                 bindE (forward env ''PMPI_Win_fence'' [Some 0, Some (int win)] g1) (\<lambda>(_, g2). Inr g2))
            else Inr g) (\<lambda>g3.
     bindE (rma_analyzer_get_state win g3) (\<lambda>state3.
     bindE (rma_analyzer_init_comm_check_thread win
              (put_state win (state3\<lparr>count_fence := count_fence state3 + 1\<rparr>) g3))
       (forward env ''PMPI_Win_fence'' [Some asrt, Some (int win)]))))"

definition parcoach_rma_MPI_Win_start :: "mpi_env \<Rightarrow> int \<Rightarrow> int \<Rightarrow> MPI_Win \<Rightarrow> rma_globals \<Rightarrow> rma_result" where
  "parcoach_rma_MPI_Win_start env grp asrt win g =
     bindE (rma_analyzer_init_comm_check_thread win g)
       (forward env ''PMPI_Win_start'' [Some grp, Some asrt, Some (int win)])"

definition parcoach_rma_MPI_Win_post :: "mpi_env \<Rightarrow> int \<Rightarrow> int \<Rightarrow> MPI_Win \<Rightarrow> rma_globals \<Rightarrow> rma_result" where
  "parcoach_rma_MPI_Win_post env grp asrt win g =
     bindE (rma_analyzer_init_comm_check_thread win g)
       (forward env ''PMPI_Win_post'' [Some grp, Some asrt, Some (int win)])"

text \<open>The arguments the one-sided communications share.\<close>

record rma_op =
  origin_addr :: u64
  origin_count :: int
  origin_datatype :: nat
  target_rank :: int
  target_disp :: int
  target_count :: int
  target_datatype :: nat
  op_line :: i32
  op_filename :: "string option"

text \<open>The byte count in the C wrappers: \<open>MPI_Type_size\<close> fills the low half of a zeroed
  64-bit variable, which is then multiplied by the sign-extended count.\<close>

definition c_bytes :: "mpi_env \<Rightarrow> nat \<Rightarrow> int \<Rightarrow> u64" where
  "c_bytes env dt n = ucast (word_of_int (type_size env dt) :: i32) * word_of_int n"

definition c_accesses :: "mpi_env \<Rightarrow> AccessType \<Rightarrow> AccessType \<Rightarrow> rma_op \<Rightarrow> Access \<times> Access" where
  "c_accesses env local_type target_type r =
     (let dbg = mk_DebugInfo (op_line r) (op_filename r) in
      (mk_Access \<lparr>Addr = origin_addr r, MSize = c_bytes env (origin_datatype r) (origin_count r)\<rparr> local_type dbg,
       mk_Access \<lparr>Addr = word_of_int (target_disp r), MSize = c_bytes env (target_datatype r) (target_count r)\<rparr>
         target_type dbg))"

definition op_args :: "rma_op \<Rightarrow> MPI_Win \<Rightarrow> int option list" where
  "op_args r win = [Some (uint (origin_addr r)), Some (origin_count r), Some (int (origin_datatype r)),
     Some (target_rank r), Some (target_disp r), Some (target_count r), Some (int (target_datatype r)),
     Some (int win)]"

definition parcoach_rma_MPI_Put :: "mpi_env \<Rightarrow> rma_op \<Rightarrow> MPI_Win \<Rightarrow> rma_globals \<Rightarrow> rma_result" where
  "parcoach_rma_MPI_Put env r win g =
     (let (la, ta) = c_accesses env RMA_READ RMA_WRITE r in
      bindE (rma_analyzer_update_on_comm_send la ta (target_rank r) win g)
        (forward env ''PMPI_Put'' (op_args r win)))"

definition parcoach_rma_MPI_Get :: "mpi_env \<Rightarrow> rma_op \<Rightarrow> MPI_Win \<Rightarrow> rma_globals \<Rightarrow> rma_result" where
  "parcoach_rma_MPI_Get env r win g =
     (let (la, ta) = c_accesses env RMA_WRITE RMA_READ r in
      bindE (rma_analyzer_update_on_comm_send la ta (target_rank r) win g)
        (forward env ''PMPI_Get'' (op_args r win)))"

definition parcoach_rma_MPI_Accumulate ::
  "mpi_env \<Rightarrow> rma_op \<Rightarrow> int \<Rightarrow> MPI_Win \<Rightarrow> rma_globals \<Rightarrow> rma_result" where
  "parcoach_rma_MPI_Accumulate env r oper win g =
     (let (la, ta) = c_accesses env RMA_READ RMA_WRITE r in
      bindE (rma_analyzer_update_on_comm_send la ta (target_rank r) win g)
        (forward env ''PMPI_Accumulate'' (op_args r win @ [Some oper])))"

definition parcoach_rma_MPI_Win_unlock_all :: "mpi_env \<Rightarrow> MPI_Win \<Rightarrow> rma_globals \<Rightarrow> rma_result" where
  "parcoach_rma_MPI_Win_unlock_all env win g =
     bindE (rma_analyzer_clear_comm_check_thread env True win g)
       (forward env ''PMPI_Win_unlock_all'' [Some (int win)])"

definition parcoach_rma_MPI_Win_unlock :: "mpi_env \<Rightarrow> int \<Rightarrow> MPI_Win \<Rightarrow> rma_globals \<Rightarrow> rma_result" where
  "parcoach_rma_MPI_Win_unlock env rank win g =
     bindE (rma_analyzer_clear_comm_check_thread env True win g)
       (forward env ''PMPI_Win_unlock'' [Some rank, Some (int win)])"

definition parcoach_rma_MPI_Win_complete :: "mpi_env \<Rightarrow> MPI_Win \<Rightarrow> rma_globals \<Rightarrow> rma_result" where
  "parcoach_rma_MPI_Win_complete env win g =
     bindE (rma_analyzer_clear_comm_check_thread env True win g)
       (forward env ''PMPI_Win_complete'' [Some (int win)])"

definition parcoach_rma_MPI_Win_wait :: "mpi_env \<Rightarrow> MPI_Win \<Rightarrow> rma_globals \<Rightarrow> rma_result" where
  "parcoach_rma_MPI_Win_wait env win g =
     bindE (rma_analyzer_clear_comm_check_thread env True win g)
       (forward env ''PMPI_Win_wait'' [Some (int win)])"

definition parcoach_rma_MPI_Win_free :: "mpi_env \<Rightarrow> MPI_Win \<Rightarrow> rma_globals \<Rightarrow> rma_result" where
  "parcoach_rma_MPI_Win_free env win g =
     bindE (rma_analyzer_get_state win g) (\<lambda>state.
     bindE (if count_fence state > 0 then rma_analyzer_clear_comm_check_thread env False win g else Inr g) (\<lambda>g1.
     bindE (rma_analyzer_stop win g1)
       (forward env ''PMPI_Win_free'' [Some (int win)])))"

definition parcoach_rma_MPI_Win_flush :: "mpi_env \<Rightarrow> int \<Rightarrow> MPI_Win \<Rightarrow> rma_globals \<Rightarrow> rma_result" where
  "parcoach_rma_MPI_Win_flush env rank win g =
     forward env ''PMPI_Win_flush'' [Some rank, Some (int win)] g"

definition parcoach_rma_MPI_Barrier :: "mpi_env \<Rightarrow> MPI_Comm \<Rightarrow> rma_globals \<Rightarrow> rma_result" where
  "parcoach_rma_MPI_Barrier env comm g =
     bindE (rma_analyzer_clear_comm_check_thread_all_wins env True g) (\<lambda>g1.
     bindE (rma_analyzer_init_comm_check_thread_all_wins g1)
       (forward env ''PMPI_Barrier'' [Some (int comm)]))"

section \<open>Loads and stores\<close>

definition parcoach_rma_store :: "u64 \<Rightarrow> u64 \<Rightarrow> i32 \<Rightarrow> string option \<Rightarrow> rma_globals \<Rightarrow> rma_error + rma_globals" where
  "parcoach_rma_store addr sz line fname g =
     rma_analyzer_save_interval_all_wins
       (mk_Access \<lparr>Addr = addr, MSize = sz div 8\<rparr> LOCAL_WRITE (mk_DebugInfo line fname)) g"

definition parcoach_rma_load :: "u64 \<Rightarrow> u64 \<Rightarrow> i32 \<Rightarrow> string option \<Rightarrow> rma_globals \<Rightarrow> rma_error + rma_globals" where
  "parcoach_rma_load addr sz line fname g =
     rma_analyzer_save_interval_all_wins
       (mk_Access \<lparr>Addr = addr, MSize = sz div 8\<rparr> LOCAL_READ (mk_DebugInfo line fname)) g"

section \<open>Fortran wrappers\<close>

definition parcoach_rma_mpi_win_create ::
  "mpi_env \<Rightarrow> int option \<Rightarrow> u64 \<Rightarrow> int \<Rightarrow> int \<Rightarrow> int \<Rightarrow> int \<Rightarrow> rma_globals \<Rightarrow> rma_result" where
  "parcoach_rma_mpi_win_create env ef base sz unit comm win g =
     bindE (forward env ''mpi_win_create_'' [Some sz, Some unit, Some comm, Some win] g) (\<lambda>(ret, g1).
       Inr (ret, rma_analyzer_start env ef base (word_of_int sz) (comm_f2c env comm) (win_f2c env win) unit g1))"

definition parcoach_rma_mpi_win_allocate ::
  "mpi_env \<Rightarrow> int option \<Rightarrow> int \<Rightarrow> int \<Rightarrow> int \<Rightarrow> u64 \<Rightarrow> int \<Rightarrow> rma_globals \<Rightarrow> rma_result" where
  "parcoach_rma_mpi_win_allocate env ef sz unit comm baseptr win g =
     bindE (forward env ''mpi_win_allocate_'' [Some sz, Some unit, Some comm, Some win] g) (\<lambda>(ret, g1).
       Inr (ret, rma_analyzer_start env ef baseptr (word_of_int sz) (comm_f2c env comm) (win_f2c env win) unit g1))"

definition parcoach_rma_mpi_win_lock_all :: "mpi_env \<Rightarrow> int \<Rightarrow> int \<Rightarrow> rma_globals \<Rightarrow> rma_result" where
  "parcoach_rma_mpi_win_lock_all env asrt win g =
     bindE (rma_analyzer_init_comm_check_thread (win_f2c env win) g)
       (forward env ''mpi_win_lock_all_'' [Some asrt, Some win])"

definition parcoach_rma_mpi_win_lock :: "mpi_env \<Rightarrow> int \<Rightarrow> int \<Rightarrow> int \<Rightarrow> int \<Rightarrow> rma_globals \<Rightarrow> rma_result" where
  "parcoach_rma_mpi_win_lock env lock_type rank asrt win g =
     bindE (rma_analyzer_init_comm_check_thread (win_f2c env win) g)
       (forward env ''mpi_win_lock_'' [Some lock_type, Some rank, Some asrt, Some win])"

text \<open>The first of the two forwarded fences gets the literal 0 for its pointer argument.\<close>

definition parcoach_rma_mpi_win_fence :: "mpi_env \<Rightarrow> int \<Rightarrow> int \<Rightarrow> rma_globals \<Rightarrow> rma_result" where
  "parcoach_rma_mpi_win_fence env asrt fwin g =
     (let win = win_f2c env fwin in
     bindE (rma_analyzer_get_state win g) (\<lambda>state.
     bindE (if count_fence state > 0
            then bindE (rma_analyzer_clear_comm_check_thread env True win g) (\<lambda>g1.
                 bindE (forward env ''mpi_win_fence_'' [None, Some fwin] g1) (\<lambda>(_, g2). Inr g2))
            else Inr g) (\<lambda>g3.
     bindE (rma_analyzer_get_state win g3) (\<lambda>state3.
     bindE (rma_analyzer_init_comm_check_thread win
              (put_state win (state3\<lparr>count_fence := count_fence state3 + 1\<rparr>) g3))
       (forward env ''mpi_win_fence_'' [Some asrt, Some fwin])))))"

definition parcoach_rma_mpi_win_start :: "mpi_env \<Rightarrow> int \<Rightarrow> int \<Rightarrow> int \<Rightarrow> rma_globals \<Rightarrow> rma_result" where
  "parcoach_rma_mpi_win_start env grp asrt win g =
     bindE (rma_analyzer_init_comm_check_thread (win_f2c env win) g)
       (forward env ''mpi_win_start_'' [Some grp, Some asrt, Some win])"

definition parcoach_rma_mpi_win_post :: "mpi_env \<Rightarrow> int \<Rightarrow> int \<Rightarrow> int \<Rightarrow> rma_globals \<Rightarrow> rma_result" where
  "parcoach_rma_mpi_win_post env grp asrt win g =
     bindE (rma_analyzer_init_comm_check_thread (win_f2c env win) g)
       (forward env ''mpi_win_post_'' [Some grp, Some asrt, Some win])"

text \<open>The byte count in the Fortran wrappers: a product of 32-bit integers, widened with its sign.\<close>

definition f_bytes :: "mpi_env \<Rightarrow> nat \<Rightarrow> int \<Rightarrow> u64" where
  "f_bytes env dt n = scast ((word_of_int (type_size env dt) :: i32) * word_of_int n)"

definition f_accesses :: "mpi_env \<Rightarrow> AccessType \<Rightarrow> AccessType \<Rightarrow> rma_op \<Rightarrow> Access \<times> Access" where
  "f_accesses env local_type target_type r =
     (let dbg = mk_DebugInfo (op_line r) (op_filename r) in
      (mk_Access \<lparr>Addr = origin_addr r, MSize = f_bytes env (origin_datatype r) (origin_count r)\<rparr> local_type dbg,
       mk_Access \<lparr>Addr = word_of_int (target_disp r), MSize = f_bytes env (target_datatype r) (target_count r)\<rparr>
         target_type dbg))"

definition parcoach_rma_mpi_put :: "mpi_env \<Rightarrow> rma_op \<Rightarrow> int \<Rightarrow> rma_globals \<Rightarrow> rma_result" where
  "parcoach_rma_mpi_put env r win g =
     (let (la, ta) = f_accesses env RMA_READ RMA_WRITE r in
      bindE (rma_analyzer_update_on_comm_send la ta (target_rank r) (win_f2c env win) g)
        (forward env ''mpi_put_'' (op_args r (win_f2c env win))))"

definition parcoach_rma_mpi_get :: "mpi_env \<Rightarrow> rma_op \<Rightarrow> int \<Rightarrow> rma_globals \<Rightarrow> rma_result" where
  "parcoach_rma_mpi_get env r win g =
     (let (la, ta) = f_accesses env RMA_WRITE RMA_READ r in
      bindE (rma_analyzer_update_on_comm_send la ta (target_rank r) (win_f2c env win) g)
        (forward env ''mpi_get_'' (op_args r (win_f2c env win))))"

definition parcoach_rma_mpi_accumulate ::
  "mpi_env \<Rightarrow> rma_op \<Rightarrow> int \<Rightarrow> int \<Rightarrow> rma_globals \<Rightarrow> rma_result" where
  "parcoach_rma_mpi_accumulate env r oper win g =
     (let (la, ta) = f_accesses env RMA_READ RMA_WRITE r in
      bindE (rma_analyzer_update_on_comm_send la ta (target_rank r) (win_f2c env win) g)
        (forward env ''mpi_accumulate_'' (op_args r (win_f2c env win) @ [Some oper])))"

definition parcoach_rma_mpi_win_unlock_all :: "mpi_env \<Rightarrow> int \<Rightarrow> rma_globals \<Rightarrow> rma_result" where
  "parcoach_rma_mpi_win_unlock_all env win g =
     bindE (rma_analyzer_clear_comm_check_thread env True (win_f2c env win) g)
       (forward env ''mpi_win_unlock_all_'' [Some win])"

definition parcoach_rma_mpi_win_unlock :: "mpi_env \<Rightarrow> int \<Rightarrow> int \<Rightarrow> rma_globals \<Rightarrow> rma_result" where
  "parcoach_rma_mpi_win_unlock env rank win g =
     bindE (rma_analyzer_clear_comm_check_thread env True (win_f2c env win) g)
       (forward env ''mpi_win_unlock_'' [Some rank, Some win])"

definition parcoach_rma_mpi_win_complete :: "mpi_env \<Rightarrow> int \<Rightarrow> rma_globals \<Rightarrow> rma_result" where
  "parcoach_rma_mpi_win_complete env win g =
     bindE (rma_analyzer_clear_comm_check_thread env True (win_f2c env win) g)
       (forward env ''mpi_win_complete_'' [Some win])"

definition parcoach_rma_mpi_win_wait :: "mpi_env \<Rightarrow> int \<Rightarrow> rma_globals \<Rightarrow> rma_result" where
  "parcoach_rma_mpi_win_wait env win g =
     bindE (rma_analyzer_clear_comm_check_thread env True (win_f2c env win) g)
       (forward env ''mpi_win_wait_'' [Some win])"

definition parcoach_rma_mpi_win_free :: "mpi_env \<Rightarrow> int \<Rightarrow> rma_globals \<Rightarrow> rma_result" where
  "parcoach_rma_mpi_win_free env fwin g =
     (let win = win_f2c env fwin in
     bindE (rma_analyzer_get_state win g) (\<lambda>state.
     bindE (if count_fence state > 0 then rma_analyzer_clear_comm_check_thread env False win g else Inr g) (\<lambda>g1.
     bindE (rma_analyzer_stop win g1)
       (forward env ''mpi_win_free_'' [Some fwin]))))"

definition parcoach_rma_mpi_win_flush :: "mpi_env \<Rightarrow> int \<Rightarrow> int \<Rightarrow> rma_globals \<Rightarrow> rma_result" where
  "parcoach_rma_mpi_win_flush env rank win g =
     forward env ''mpi_win_flush_'' [Some rank, Some win] g"

definition parcoach_rma_mpi_barrier :: "mpi_env \<Rightarrow> int \<Rightarrow> rma_globals \<Rightarrow> rma_result" where
  "parcoach_rma_mpi_barrier env comm g =
     bindE (rma_analyzer_clear_comm_check_thread_all_wins env True g) (\<lambda>g1.
     bindE (rma_analyzer_init_comm_check_thread_all_wins g1)
       (forward env ''mpi_barrier_'' [Some comm]))"

section \<open>Runs of a process\<close>

text \<open>
  A process is a sequence of events: calls of the wrappers by the program, and
  iterations of the checking thread of a window in between.
\<close>

datatype rma_event =
    Ev_create u64 u64 int MPI_Comm MPI_Win
  | Ev_allocate u64 int MPI_Comm u64 MPI_Win
  | Ev_lock_all int MPI_Win
  | Ev_lock int int int MPI_Win
  | Ev_fence int MPI_Win
  | Ev_start int int MPI_Win
  | Ev_post int int MPI_Win
  | Ev_put rma_op MPI_Win
  | Ev_get rma_op MPI_Win
  | Ev_accumulate rma_op int MPI_Win
  | Ev_unlock_all MPI_Win
  | Ev_unlock int MPI_Win
  | Ev_complete MPI_Win
  | Ev_wait MPI_Win
  | Ev_free MPI_Win
  | Ev_flush int MPI_Win
  | Ev_barrier MPI_Comm
  | Ev_store u64 u64 i32 "string option"
  | Ev_load u64 u64 i32 "string option"
  | Ev_thread MPI_Win "(Access \<times> string) option"

definition run_thread_iteration ::
  "MPI_Win \<Rightarrow> (Access \<times> string) option \<Rightarrow> rma_globals \<Rightarrow> rma_error + rma_globals" where
  "run_thread_iteration win outcome g =
     (case map_of (States g) win of
        Some s \<Rightarrow> if joinable s
          then bindE (rma_analyzer_comm_check_thread win [outcome] g) (\<lambda>(_, g'). Inr g') else Inr g
      | None \<Rightarrow> Inr g)"

definition drop_ret :: "rma_result \<Rightarrow> rma_error + rma_globals" where
  "drop_ret m = bindE m (\<lambda>(_, g). Inr g)"

fun rma_step :: "mpi_env \<Rightarrow> int option \<Rightarrow> rma_event \<Rightarrow> rma_globals \<Rightarrow> rma_error + rma_globals" where
  "rma_step env ef (Ev_create base sz unit comm win) g = drop_ret (parcoach_rma_MPI_Win_create env ef base sz unit comm win g)"
| "rma_step env ef (Ev_allocate sz unit comm bp win) g = drop_ret (parcoach_rma_MPI_Win_allocate env ef sz unit comm bp win g)"
| "rma_step env ef (Ev_lock_all asrt win) g = drop_ret (parcoach_rma_MPI_Win_lock_all env asrt win g)"
| "rma_step env ef (Ev_lock lt rank asrt win) g = drop_ret (parcoach_rma_MPI_Win_lock env lt rank asrt win g)"
| "rma_step env ef (Ev_fence asrt win) g = drop_ret (parcoach_rma_MPI_Win_fence env asrt win g)"
| "rma_step env ef (Ev_start grp asrt win) g = drop_ret (parcoach_rma_MPI_Win_start env grp asrt win g)"
| "rma_step env ef (Ev_post grp asrt win) g = drop_ret (parcoach_rma_MPI_Win_post env grp asrt win g)"
| "rma_step env ef (Ev_put r win) g = drop_ret (parcoach_rma_MPI_Put env r win g)"
| "rma_step env ef (Ev_get r win) g = drop_ret (parcoach_rma_MPI_Get env r win g)"
| "rma_step env ef (Ev_accumulate r oper win) g = drop_ret (parcoach_rma_MPI_Accumulate env r oper win g)"
| "rma_step env ef (Ev_unlock_all win) g = drop_ret (parcoach_rma_MPI_Win_unlock_all env win g)"
| "rma_step env ef (Ev_unlock rank win) g = drop_ret (parcoach_rma_MPI_Win_unlock env rank win g)"
| "rma_step env ef (Ev_complete win) g = drop_ret (parcoach_rma_MPI_Win_complete env win g)"
| "rma_step env ef (Ev_wait win) g = drop_ret (parcoach_rma_MPI_Win_wait env win g)"
| "rma_step env ef (Ev_free win) g = drop_ret (parcoach_rma_MPI_Win_free env win g)"
| "rma_step env ef (Ev_flush rank win) g = drop_ret (parcoach_rma_MPI_Win_flush env rank win g)"
| "rma_step env ef (Ev_barrier comm) g = drop_ret (parcoach_rma_MPI_Barrier env comm g)"
| "rma_step env ef (Ev_store addr sz line fname) g = parcoach_rma_store addr sz line fname g"
| "rma_step env ef (Ev_load addr sz line fname) g = parcoach_rma_load addr sz line fname g"
| "rma_step env ef (Ev_thread win outcome) g = run_thread_iteration win outcome g"

definition rma_run :: "mpi_env \<Rightarrow> int option \<Rightarrow> rma_event list \<Rightarrow> rma_globals \<Rightarrow> rma_error + rma_globals" where
  "rma_run env ef = foldE (rma_step env ef)"

lemmas wrapper_defs =
  parcoach_rma_MPI_Win_lock_all_def
  parcoach_rma_MPI_Win_lock_def parcoach_rma_MPI_Win_start_def parcoach_rma_MPI_Win_post_def
  parcoach_rma_MPI_Put_def parcoach_rma_MPI_Get_def parcoach_rma_MPI_Accumulate_def
  parcoach_rma_MPI_Win_unlock_all_def parcoach_rma_MPI_Win_unlock_def parcoach_rma_MPI_Win_complete_def
  parcoach_rma_MPI_Win_wait_def parcoach_rma_MPI_Win_flush_def
  parcoach_rma_store_def parcoach_rma_load_def

lemma drop_ret_Inr: "drop_ret m = Inr g \<longleftrightarrow> (\<exists>ret. m = Inr (ret, g))"
  by (auto simp: drop_ret_def bindE_eq_Inr)

lemma forward_Inr [simp]:
  "forward env f args g = Inr (ret, g') \<longleftrightarrow> ret = pmpi_ret env f \<and> g' = log_call (PMPI f args) g"
  by (auto simp: forward_def)

lemma count_fence_inv:
  assumes "rma_inv g" "map_of (States g) win = Some s"
  shows "rma_inv (put_state win (s\<lparr>count_fence := n\<rparr>) g)"
  using rma_inv_state [OF assms] by (intro rma_inv_put_state [OF assms]) (auto simp: state_ok_def)

lemma fence_inv:
  assumes "rma_inv g" "parcoach_rma_MPI_Win_fence env asrt win g = Inr (ret, g')"
  shows "rma_inv g'"
  using assms
  by (auto simp: parcoach_rma_MPI_Win_fence_def bindE_eq_Inr split: if_splits
      dest!: init_comm_check_thread_inv [rotated] intro!: count_fence_inv
      intro: clear_comm_check_thread_inv)

lemma forwarded_inv:
  assumes "bindE m (forward env f args) = Inr (ret, g')" "\<And>g1. m = Inr g1 \<Longrightarrow> rma_inv g1"
  shows "rma_inv g'"
  using assms by (auto simp: bindE_eq_Inr)

lemma sequenced_inv:
  assumes "bindE m k = Inr r" "\<And>g1. m = Inr g1 \<Longrightarrow> rma_inv g1"
    "\<And>g1. rma_inv g1 \<Longrightarrow> k g1 = Inr r \<Longrightarrow> P"
  shows P
  using assms by (auto simp: bindE_eq_Inr)

lemma free_inv:
  assumes "rma_inv g" "parcoach_rma_MPI_Win_free env win g = Inr (ret, g')"
  shows "rma_inv g'"
proof -
  obtain s :: rma_analyzer_state where "bindE (if count_fence s > 0
      then rma_analyzer_clear_comm_check_thread env False win g else Inr g) (\<lambda>g1.
     bindE (rma_analyzer_stop win g1) (forward env ''PMPI_Win_free'' [Some (int win)])) = Inr (ret, g')"
    using assms(2) unfolding parcoach_rma_MPI_Win_free_def by (auto simp only: bindE_eq_Inr)
  then show ?thesis
  proof (rule sequenced_inv)
    fix g1
    assume "(if count_fence s > 0 then rma_analyzer_clear_comm_check_thread env False win g else Inr g) = Inr g1"
    then show "rma_inv g1"
      using assms(1) by (auto split: if_splits intro: clear_comm_check_thread_inv)
  next
    fix g1 assume "rma_inv g1"
      "bindE (rma_analyzer_stop win g1) (forward env ''PMPI_Win_free'' [Some (int win)]) = Inr (ret, g')"
    then show "rma_inv g'" by (auto elim!: forwarded_inv intro: stop_inv)
  qed
qed

lemma barrier_inv:
  assumes "rma_inv g" "parcoach_rma_MPI_Barrier env comm g = Inr (ret, g')"
  shows "rma_inv g'"
  using assms(2) unfolding parcoach_rma_MPI_Barrier_def
  by (rule sequenced_inv) (auto elim!: forwarded_inv intro: init_all_wins_inv clear_all_wins_inv [OF assms(1)])

lemma thread_iteration_inv:
  assumes "rma_inv g" "run_thread_iteration win outcome g = Inr g'"
  shows "rma_inv g'"
  using assms comm_check_thread_inv [OF _ assms(1), of win "[outcome]"]
  by (auto simp: run_thread_iteration_def bindE_eq_Inr simp del: rma_analyzer_comm_check_thread.simps
      split: option.splits if_splits)

lemma rma_step_inv:
  assumes "rma_inv g" "rma_step env ef e g = Inr g'"
  shows "rma_inv g'"
proof (cases e)
  case (Ev_create base sz unit comm win)
  with assms show ?thesis
    by (auto simp: drop_ret_Inr parcoach_rma_MPI_Win_create_def bindE_eq_Inr intro: start_inv)
next
  case (Ev_allocate sz unit comm bp win)
  with assms show ?thesis
    by (auto simp: drop_ret_Inr parcoach_rma_MPI_Win_allocate_def bindE_eq_Inr intro: start_inv)
qed (use assms in \<open>auto simp: drop_ret_Inr wrapper_defs split: prod.splits elim!: forwarded_inv
      intro: fence_inv free_inv barrier_inv thread_iteration_inv init_comm_check_thread_inv
        clear_comm_check_thread_inv update_on_comm_send_inv save_interval_all_wins_inv\<close>)

section \<open>Sweeps over all windows\<close>

text \<open>
  An operation on one window that leaves the other windows alone and relates
  the state before to the state after. Run over all windows it relates each.
\<close>

locale window_op =
  fixes f :: "MPI_Win \<Rightarrow> rma_globals \<Rightarrow> rma_error + rma_globals"
    and R :: "rma_analyzer_state \<Rightarrow> rma_analyzer_state \<Rightarrow> bool"
    and ok :: "rma_globals \<Rightarrow> bool"
  assumes op_ok: "ok g \<Longrightarrow> f k g = Inr g' \<Longrightarrow> ok g'"
    and op_frame: "ok g \<Longrightarrow> f k g = Inr g' \<Longrightarrow> w \<noteq> k \<Longrightarrow> map_of (States g') w = map_of (States g) w"
    and op_effect: "ok g \<Longrightarrow> f k g = Inr g' \<Longrightarrow>
      \<exists>s s'. map_of (States g) k = Some s \<and> map_of (States g') k = Some s' \<and> R s s'"
begin

lemma sweep_frame:
  "foldE f ks g = Inr g' \<Longrightarrow> ok g \<Longrightarrow> w \<notin> set ks \<Longrightarrow> map_of (States g') w = map_of (States g) w"
proof (induction ks arbitrary: g)
  case (Cons k ks)
  then obtain g1 where "f k g = Inr g1" "foldE f ks g1 = Inr g'"
    by (auto simp: bindE_eq_Inr)
  with Cons op_ok op_frame show ?case by auto
qed simp

lemma sweep_effect:
  "foldE f ks g = Inr g' \<Longrightarrow> ok g \<Longrightarrow> distinct ks \<Longrightarrow> w \<in> set ks \<Longrightarrow>
   \<exists>s s'. map_of (States g) w = Some s \<and> map_of (States g') w = Some s' \<and> R s s'"
proof (induction ks arbitrary: g)
  case (Cons k ks)
  then obtain g1 where step: "f k g = Inr g1" "foldE f ks g1 = Inr g'"
    by (auto simp: bindE_eq_Inr)
  have ok1: "ok g1" using Cons.prems(2) step(1) by (rule op_ok)
  show ?case
  proof (cases "w = k")
    case True
    with Cons.prems(3) sweep_frame [OF step(2) ok1, of w] op_effect [OF Cons.prems(2) step(1)]
    show ?thesis by simp
  next
    case False
    with Cons.prems have "\<exists>s s'. map_of (States g1) w = Some s \<and> map_of (States g') w = Some s' \<and> R s s'"
      using Cons.IH [OF step(2) ok1] by simp
    with False op_frame [OF Cons.prems(2) step(1)] show ?thesis by simp
  qed
qed simp

lemma sweep_ok: "foldE f ks g = Inr g' \<Longrightarrow> ok g \<Longrightarrow> ok g'"
  by (erule foldE_inv) (auto intro: op_ok)

end

lemma comm_check_thread_frame:
  "rma_analyzer_comm_check_thread win outs g = Inr (fin, g') \<Longrightarrow> map_of (States g) win = Some s \<Longrightarrow>
   (\<forall>w. w \<noteq> win \<longrightarrow> map_of (States g') w = map_of (States g) w)
   \<and> (\<exists>ivs n. map_of (States g') win = Some (s\<lparr>Intervals := ivs, recv_count := n\<rparr>))"
proof (induction win outs g arbitrary: s rule: rma_analyzer_comm_check_thread.induct)
  case (1 win g)
  then show ?case
    by (auto intro!: exI [of _ "Intervals s"] exI [of _ "recv_count s"])
next
  case (2 win outcome outs g)
  have gs: "rma_analyzer_get_state win g = Inr s" using "2.prems"(2) by simp
  obtain p s' where c: "rma_analyzer_check_communication s outcome = (p, s')"
    by (cases "rma_analyzer_check_communication s outcome")
  obtain n where s': "s' = s\<lparr>recv_count := n\<rparr>"
    using check_communication_frame [OF c] by blast
  show ?case
  proof (cases p)
    case Poll_exit
    with "2.prems" gs c show ?thesis
      by (auto simp: s' intro!: exI [of _ "Intervals s"] exI [of _ n])
  next
    case Poll_again
    with "2.prems"(1) gs c have "rma_analyzer_comm_check_thread win outs (put_state win s' g) = Inr (fin, g')"
      by simp
    with "2.IH"(1) [OF c [unfolded Poll_again, symmetric] _ this, of s'] "2.prems"(2) show ?thesis
      by (auto simp: s')
  next
    case (Poll_received Acc)
    with "2.prems"(1) gs c obtain g1 where
      sv: "rma_analyzer_save_interval Acc win (put_state win s' g) = Inr g1" and
      rest: "rma_analyzer_comm_check_thread win outs g1 = Inr (fin, g')"
      by (auto simp: bindE_eq_Inr)
    from sv "2.prems"(2) have g1: "map_of (States g1) win = Some (s'\<lparr>Intervals := insert_access Acc (Intervals s')\<rparr>)"
      "w \<noteq> win \<Longrightarrow> map_of (States g1) w = map_of (States g) w" for w
      by (auto simp: save_interval_Inr)
    from "2.IH"(2) [OF c [unfolded Poll_received, symmetric] _ rest g1(1)] g1(2) show ?thesis
      by (auto simp: s')
  qed
qed

text \<open>The relations of the three sweeps.\<close>

definition saved :: "Access \<Rightarrow> rma_analyzer_state \<Rightarrow> rma_analyzer_state \<Rightarrow> bool" where
  "saved Acc s s' \<longleftrightarrow>
     (if active_epoch s > 0
      then getConflictingIntervals (Intervals s) Acc = []
        \<and> s' = s\<lparr>Intervals := insert_access Acc (Intervals s)\<rparr>
      else s' = s)"

definition cleared :: "rma_analyzer_state \<Rightarrow> rma_analyzer_state \<Rightarrow> bool" where
  "cleared s s' \<longleftrightarrow>
     (if active_epoch s > 0
      then \<not> joinable s' \<and> active_epoch s' = 0 \<and> Intervals s' = [] \<and> recv_count s' = 0 \<and> from_sync s' = 1
        \<and> count_epoch s' = count_epoch s \<and> array s' = array s
      else s' = s)"

definition restarted :: "rma_analyzer_state \<Rightarrow> rma_analyzer_state \<Rightarrow> bool" where
  "restarted s s' \<longleftrightarrow>
     (if \<not> active_epoch s > 0 \<and> from_sync s = 1
      then s' = s\<lparr>array := replicate (length (array s)) 0, thread_end := 0,
                  count_epoch := count_epoch s + 1, active_epoch := 1, joinable := True\<rparr>
      else s' = s)"

definition save_one where
  "save_one Acc = (\<lambda>k g. bindE (rma_analyzer_get_state k g) (\<lambda>State.
         bindE (rma_analyzer_is_active_epoch (state_win State) g) (\<lambda>active.
           if active then rma_analyzer_save_interval Acc (state_win State) g else Inr g)))"

definition clear_one where
  "clear_one env do_reduce = (\<lambda>k g. bindE (rma_analyzer_get_state k g) (\<lambda>State.
         bindE (rma_analyzer_is_active_epoch (state_win State) g) (\<lambda>active.
           if active
           then bindE (rma_analyzer_clear_comm_check_thread env do_reduce (state_win State) g)
                  (\<lambda>g'. bindE (rma_analyzer_get_state k g') (\<lambda>State'.
                     Inr (put_state k (State'\<lparr>from_sync := 1\<rparr>) g')))
           else Inr g)))"

definition init_one where
  "init_one = (\<lambda>k g. bindE (rma_analyzer_get_state k g) (\<lambda>State.
         bindE (rma_analyzer_is_active_epoch (state_win State) g) (\<lambda>active.
           if \<not> active \<and> from_sync State = 1
           then rma_analyzer_init_comm_check_thread (state_win State) g else Inr g)))"

lemma rma_inv_state_win: "rma_inv g \<Longrightarrow> map_of (States g) k = Some s \<Longrightarrow> state_win s = k"
  using rma_inv_state by (auto simp: state_ok_def)

lemma is_active_epoch_Inr [simp]:
  "rma_analyzer_is_active_epoch w g = Inr b \<longleftrightarrow> (\<exists>s. map_of (States g) w = Some s \<and> b = (active_epoch s > 0))"
  by (auto simp: rma_analyzer_is_active_epoch_def bindE_eq_Inr)

interpretation save_sweep: window_op "save_one Acc" "saved Acc" rma_inv
proof unfold_locales
  fix g k g' assume inv: "rma_inv g" and op: "save_one Acc k g = Inr g'"
  then obtain s where s: "map_of (States g) k = Some s" "state_win s = k"
    by (auto simp: save_one_def bindE_eq_Inr dest: rma_inv_state_win)
  show "rma_inv g'"
    using op inv s by (auto simp: save_one_def bindE_eq_Inr split: if_splits intro: save_interval_inv)
  show "map_of (States g') w = map_of (States g) w" if "w \<noteq> k" for w
    using op s that by (auto simp: save_one_def bindE_eq_Inr save_interval_Inr split: if_splits)
  show "\<exists>s s'. map_of (States g) k = Some s \<and> map_of (States g') k = Some s' \<and> saved Acc s s'"
    using op s by (auto simp: save_one_def bindE_eq_Inr save_interval_Inr saved_def split: if_splits)
qed

lemma clear_comm_check_thread_effect:
  assumes "rma_analyzer_clear_comm_check_thread env red win g = Inr g'" "map_of (States g) win = Some s"
  shows "(\<forall>w. w \<noteq> win \<longrightarrow> map_of (States g') w = map_of (States g) w)
   \<and> map_of (States g') win = Some (s\<lparr>expected := (if red then reduce_sum env win (array s) else 0),
        thread_end := 1, joinable := False, recv_count := 0, active_epoch := 0, Intervals := []\<rparr>)"
proof (rule clear_comm_check_thread_Inr [OF assms(1)])
  fix s0 s2 :: rma_analyzer_state and g1
  let ?s1 = "s0\<lparr>expected := (if red then reduce_sum env win (array s0) else 0), thread_end := 1\<rparr>"
  assume s0: "map_of (States g) win = Some s0"
    and run: "rma_analyzer_comm_check_thread win (incoming env win (count_epoch s0)) (put_state win ?s1 g) = Inr (True, g1)"
    and s2: "map_of (States g1) win = Some s2"
    and g': "g' = put_state win (s2\<lparr>joinable := False, recv_count := 0, active_epoch := 0, Intervals := []\<rparr>) g1"
  have "map_of (States (put_state win ?s1 g)) win = Some ?s1" using s0 by simp
  from comm_check_thread_frame [OF run this] s0 s2 assms(2) show ?thesis
    by (auto simp: g')
qed

interpretation clear_sweep: window_op "clear_one env red" cleared rma_inv
proof unfold_locales
  fix g k g' assume inv: "rma_inv g" and op: "clear_one env red k g = Inr g'"
  then obtain s where s: "map_of (States g) k = Some s" "state_win s = k"
    by (auto simp: clear_one_def bindE_eq_Inr dest: rma_inv_state_win)
  show "rma_inv g'"
    using op inv s by (auto simp: clear_one_def bindE_eq_Inr split: if_splits
        intro!: from_sync_inv intro: clear_comm_check_thread_inv)
  show "map_of (States g') w = map_of (States g) w" if "w \<noteq> k" for w
    using op s that clear_comm_check_thread_effect [OF _ s(1)]
    by (auto simp: clear_one_def bindE_eq_Inr split: if_splits)
  show "\<exists>s s'. map_of (States g) k = Some s \<and> map_of (States g') k = Some s' \<and> cleared s s'"
    using op s clear_comm_check_thread_effect [OF _ s(1)]
    by (auto simp: clear_one_def bindE_eq_Inr cleared_def split: if_splits)
qed

interpretation init_sweep: window_op init_one restarted rma_inv
proof unfold_locales
  fix g k g' assume inv: "rma_inv g" and op: "init_one k g = Inr g'"
  then obtain s where s: "map_of (States g) k = Some s" "state_win s = k"
    by (auto simp: init_one_def bindE_eq_Inr dest: rma_inv_state_win)
  show "rma_inv g'"
    using op inv s by (auto simp: init_one_def bindE_eq_Inr split: if_splits intro: init_comm_check_thread_inv)
  show "map_of (States g') w = map_of (States g) w" if "w \<noteq> k" for w
    using op s that by (auto simp: init_one_def bindE_eq_Inr rma_analyzer_init_comm_check_thread_def
        split: if_splits)
  show "\<exists>s s'. map_of (States g) k = Some s \<and> map_of (States g') k = Some s' \<and> restarted s s'"
    using op s by (auto simp: init_one_def bindE_eq_Inr restarted_def
        rma_analyzer_init_comm_check_thread_def split: if_splits)
qed

lemma distinct_windows: "rma_inv g \<Longrightarrow> distinct (map fst (States g))"
  by (simp add: rma_inv_def keys_ordered_def strict_sorted_iff)

lemma window_in_keys: "map_of m w = Some s \<Longrightarrow> w \<in> set (map fst m)"
  by (force dest: map_of_SomeD)

lemma keys_after_clear:
  assumes "rma_inv g" "foldE (clear_one env red) (map fst (States g)) g = Inr g1"
    "map_of (States g) w = Some s"
  obtains s1 where "map_of (States g1) w = Some s1" "cleared s s1"
  using clear_sweep.sweep_effect [OF assms(2,1) distinct_windows [OF assms(1)] window_in_keys [OF assms(3)]]
    assms(3) by auto

section \<open>Properties\<close>

text \<open>C19: every state a process reaches through any sequence of wrapper calls, recorded
  loads and stores and iterations of the checking threads satisfies the
  analyser's invariant: each window is filed under its own handle with ordered
  accesses, its checking thread is alive exactly while an epoch is open, and no
  two windows share a tag range.\<close>

theorem reachable_rma_inv:
  assumes "rma_run env ef events init_globals = Inr g"
  shows "rma_inv g"
  using assms unfolding rma_run_def by (rule foldE_inv) (auto intro: rma_step_inv)

lemmas rma_eval = rma_run_def drop_ret_def forward_def log_call_def parcoach_rma_MPI_Win_create_def
  parcoach_rma_MPI_Barrier_def wrapper_defs rma_analyzer_start_def rma_analyzer_get_tag_range_id_def
  init_globals_def rma_constants new_rma_state_def demo_env_def rma_analyzer_init_comm_check_thread_def
  rma_analyzer_get_state_def put_state_def map_store_def rma_analyzer_clear_comm_check_thread_def
  rma_analyzer_check_communication_def rma_analyzer_clear_comm_check_thread_all_wins_def
  rma_analyzer_init_comm_check_thread_all_wins_def rma_analyzer_is_active_epoch_def Let_def

theorem reachable_rma_inv_witness:
  "\<exists>g. rma_run demo_env None [Ev_create 4096 64 1 0 7, Ev_lock_all 0 7, Ev_unlock_all 7] init_globals = Inr g
     \<and> rma_inv g"
proof -
  have "\<exists>g. rma_run demo_env None [Ev_create 4096 64 1 0 7, Ev_lock_all 0 7, Ev_unlock_all 7] init_globals = Inr g"
    by (simp add: rma_eval)
  then show ?thesis using reachable_rma_inv by blast
qed

text \<open>A successful barrier closes and reopens the epoch of every window that has one:
  the recorded accesses are dropped, the epoch counter grows by one and the
  checking thread runs again. A window without an epoch is left alone unless a
  barrier has once interrupted one of its epochs; then an epoch is opened.\<close>

theorem barrier_effect:
  assumes "rma_inv g" "parcoach_rma_MPI_Barrier env comm g = Inr (ret, g')"
    and "map_of (States g) w = Some s"
  shows "\<exists>s'. map_of (States g') w = Some s'
    \<and> (if active_epoch s > 0
       then joinable s' \<and> active_epoch s' = 1 \<and> Intervals s' = [] \<and> count_epoch s' = count_epoch s + 1
       else if from_sync s = 1
       then joinable s' \<and> active_epoch s' = 1 \<and> Intervals s' = Intervals s \<and> count_epoch s' = count_epoch s + 1
       else s' = s)"
proof -
  obtain g1 g2 where cl: "foldE (clear_one env True) (map fst (States g)) g = Inr g1"
    and ini: "foldE init_one (map fst (States g1)) g1 = Inr g2" and g': "States g' = States g2"
    using assms(2) by (auto simp: parcoach_rma_MPI_Barrier_def bindE_eq_Inr clear_one_def init_one_def
        rma_analyzer_clear_comm_check_thread_all_wins_def rma_analyzer_init_comm_check_thread_all_wins_def)
  have inv1: "rma_inv g1" using clear_sweep.sweep_ok [OF cl assms(1)] .
  obtain s1 where s1: "map_of (States g1) w = Some s1" "cleared s s1"
    using keys_after_clear [OF assms(1) cl assms(3)] .
  obtain s2 where "map_of (States g2) w = Some s2" "restarted s1 s2"
    using init_sweep.sweep_effect [OF ini inv1 distinct_windows [OF inv1] window_in_keys [OF s1(1)]] s1(1)
    by auto
  with s1(2) show ?thesis
    by (auto simp: g' cleared_def restarted_def split: if_splits)
qed

theorem barrier_effect_witness:
  "\<exists>(g :: rma_globals) ret g' s'. parcoach_rma_MPI_Barrier demo_env 0 g = Inr (ret, g')
     \<and> map_of (States g') 7 = Some s' \<and> active_epoch s' = 1 \<and> count_epoch s' = 2"
proof -
  obtain g s where run: "rma_run demo_env None [Ev_create 4096 64 1 0 7, Ev_lock_all 0 7] init_globals = Inr g"
    and s: "map_of (States g) 7 = Some s" "active_epoch s = 1" "count_epoch s = 1"
    and bar: "\<exists>ret g'. parcoach_rma_MPI_Barrier demo_env 0 g = Inr (ret, g')"
    by (simp add: rma_eval)
  from bar obtain ret g' where "parcoach_rma_MPI_Barrier demo_env 0 g = Inr (ret, g')" by blast
  moreover from barrier_effect [OF _ this s(1)] run s have "\<exists>s'. map_of (States g') 7 = Some s'
      \<and> active_epoch s' = 1 \<and> count_epoch s' = 2"
    using foldE_inv [OF run [unfolded rma_run_def], of rma_inv] rma_step_inv by auto
  ultimately show ?thesis by blast
qed


text \<open>A recorded store that does not abort enters the written bytes as a local write
  into the accesses of every window with an open epoch, after no conflict was
  found there, and changes no other window.\<close>

theorem store_recorded_in_open_epochs:
  assumes "rma_inv g" "parcoach_rma_store addr sz line fname g = Inr g'" "map_of (States g) w = Some s"
  shows "map_of (States g') w = Some (if active_epoch s > 0
      then s\<lparr>Intervals := insert_access
             \<lparr>Itv = Interval addr (addr + sz div 8 - 1), Type = LOCAL_WRITE, Dbg = mk_DebugInfo line fname\<rparr>
             (Intervals s)\<rparr>
      else s)"
proof -
  let ?A = "\<lparr>Itv = Interval addr (addr + sz div 8 - 1), Type = LOCAL_WRITE, Dbg = mk_DebugInfo line fname\<rparr>"
  have "foldE (save_one ?A) (map fst (States g)) g = Inr g'"
    using assms(2) by (simp add: parcoach_rma_store_def rma_analyzer_save_interval_all_wins_def
        save_one_def mk_Access_def)
  from save_sweep.sweep_effect [OF this assms(1) distinct_windows [OF assms(1)] window_in_keys [OF assms(3)]] assms(3)
  show ?thesis by (auto simp: saved_def split: if_splits)
qed

theorem store_recorded_in_open_epochs_witness:
  "\<exists>(g :: rma_globals) g' s'. parcoach_rma_store 100 32 5 None g = Inr g'
     \<and> map_of (States g') 7 = Some s' \<and> map Itv (Intervals s') = [Interval 100 103]"
proof -
  obtain g s where run: "rma_run demo_env None [Ev_create 4096 64 1 0 7, Ev_lock_all 0 7] init_globals = Inr g"
    and s: "map_of (States g) 7 = Some s" "active_epoch s = 1" "Intervals s = []"
    and st: "\<exists>g'. parcoach_rma_store 100 32 5 None g = Inr g'"
    by (simp add: rma_eval rma_analyzer_save_interval_all_wins_def rma_analyzer_save_interval_def
        getConflictingIntervals_def getIntersectingIntervals_def upper_bound_before_def upper_bound_from_def)
  from st obtain g' where g': "parcoach_rma_store 100 32 5 None g = Inr g'" by blast
  have "rma_inv g"
    using foldE_inv [OF run [unfolded rma_run_def], of rma_inv] rma_step_inv by auto
  from store_recorded_in_open_epochs [OF this g' s(1)] s g' show ?thesis
    by (intro exI [of _ g] exI [of _ g']) auto
qed

text \<open>The Fortran and the C wrappers hand the same local and remote access to the
  analyser when the datatype sizes and counts are non-negative and the byte
  counts fit in a signed 32-bit integer.\<close>

theorem fortran_c_same_accesses:
  assumes "0 \<le> type_size env (origin_datatype r)" "0 \<le> origin_count r"
    "type_size env (origin_datatype r) * origin_count r < 2 ^ 31"
    and "0 \<le> type_size env (target_datatype r)" "0 \<le> target_count r"
    "type_size env (target_datatype r) * target_count r < 2 ^ 31"
    and "type_size env (origin_datatype r) < 2 ^ 31" "type_size env (target_datatype r) < 2 ^ 31"
  shows "f_accesses env lt tt r = c_accesses env lt tt r"
proof -
  have "f_bytes env dt n = c_bytes env dt n"
    if "0 \<le> type_size env dt" "0 \<le> n" "type_size env dt * n < 2 ^ 31" "type_size env dt < 2 ^ 31" for dt n
  proof -
    have "scast (word_of_int (type_size env dt * n) :: i32) = (word_of_int (type_size env dt * n) :: u64)"
      using that by (intro scast_word_of_int) simp_all
    moreover have "ucast (word_of_int (type_size env dt) :: i32) = (word_of_int (type_size env dt) :: u64)"
      using that by (intro ucast_word_of_int) simp_all
    ultimately show ?thesis
      by (simp add: f_bytes_def c_bytes_def)
  qed
  with assms show ?thesis
    by (simp add: f_accesses_def c_accesses_def)
qed

theorem fortran_c_same_accesses_witness:
  "f_accesses demo_env RMA_READ RMA_WRITE \<lparr>origin_addr = 4096, origin_count = 10, origin_datatype = 0,
     target_rank = 1, target_disp = 3, target_count = 10, target_datatype = 0, op_line = 12, op_filename = None\<rparr>
   = c_accesses demo_env RMA_READ RMA_WRITE \<lparr>origin_addr = 4096, origin_count = 10, origin_datatype = 0,
     target_rank = 1, target_disp = 3, target_count = 10, target_datatype = 0, op_line = 12, op_filename = None\<rparr>"
  by (rule fortran_c_same_accesses) (simp_all add: demo_env_def)

text \<open>C22: a put that does not abort found no conflict for the bytes it reads, records them
  as a remote read in its window, sends the written interval and the file name
  to the target under the window's tag of the current epoch before the put is
  forwarded, counts one more message for that target, and leaves every other
  window as it was.\<close>

theorem put_records_sends_counts:
  assumes "parcoach_rma_MPI_Put env r win g = Inr (ret, g')" "map_of (States g) win = Some s"
    and "c_accesses env RMA_READ RMA_WRITE r = (la, ta)"
  shows "getConflictingIntervals (Intervals s) la = []
    \<and> map_of (States g') win = Some (s\<lparr>Intervals := insert_access la (Intervals s),
        array := (array s)[nat (target_rank r) := array s ! nat (target_rank r) + 1]\<rparr>)
    \<and> mpi_log g' = mpi_log g @
        [MPI_Send_access (target_rank r) (mpi_tag s + count_epoch s) ta,
         MPI_Send_string (target_rank r) RMA_ANALYZER_STRING_MPI_TAG (Filename (Dbg ta)),
         PMPI ''PMPI_Put'' (op_args r win)]
    \<and> (\<forall>w. w \<noteq> win \<longrightarrow> map_of (States g') w = map_of (States g) w)"
proof -
  obtain g1 where upd: "rma_analyzer_update_on_comm_send la ta (target_rank r) win g = Inr g1"
    and g': "g' = log_call (PMPI ''PMPI_Put'' (op_args r win)) g1"
    using assms(1,3) by (auto simp: parcoach_rma_MPI_Put_def bindE_eq_Inr)
  from upd show ?thesis
  proof (rule update_on_comm_send_Inr)
    fix g0 and s0 :: rma_analyzer_state
    assume "rma_analyzer_save_interval la win g = Inr g0" "map_of (States g0) win = Some s0"
      and "g1 = put_state win (s0\<lparr>array := (array s0)[nat (target_rank r) := array s0 ! nat (target_rank r) + 1]\<rparr>)
       (log_call (MPI_Send_string (target_rank r) RMA_ANALYZER_STRING_MPI_TAG (Filename (Dbg ta)))
         (log_call (MPI_Send_access (target_rank r) (mpi_tag s0 + count_epoch s0) ta) g0))"
    with assms(2) show ?thesis
      by (auto simp: save_interval_Inr g' log_call_def)
  qed
qed

definition demo_put :: rma_op where
  "demo_put = \<lparr>origin_addr = 4096, origin_count = 2, origin_datatype = 0, target_rank = 1, target_disp = 3,
     target_count = 2, target_datatype = 0, op_line = 12, op_filename = Some ''a.c''\<rparr>"

theorem put_records_sends_counts_witness:
  "\<exists>(g :: rma_globals) ret g' s'. parcoach_rma_MPI_Put demo_env demo_put 7 g = Inr (ret, g')
     \<and> map_of (States g') 7 = Some s' \<and> array s' = [0, 1] \<and> length (mpi_log g') = 5"
proof -
  obtain g s where run: "rma_run demo_env None [Ev_create 4096 64 1 0 7, Ev_lock_all 0 7] init_globals = Inr g"
    and s: "map_of (States g) 7 = Some s" "array s = [0, 0]" "length (mpi_log g) = 2"
    and st: "\<exists>ret g'. parcoach_rma_MPI_Put demo_env demo_put 7 g = Inr (ret, g')"
    by (simp add: rma_eval rma_analyzer_update_on_comm_send_def rma_analyzer_save_interval_def c_accesses_def
        getConflictingIntervals_def getIntersectingIntervals_def upper_bound_before_def upper_bound_from_def
        demo_put_def numeral_2_eq_2)
  from st obtain ret g' where g': "parcoach_rma_MPI_Put demo_env demo_put 7 g = Inr (ret, g')" by blast
  obtain la ta where acc: "c_accesses demo_env RMA_READ RMA_WRITE demo_put = (la, ta)"
    by (cases "c_accesses demo_env RMA_READ RMA_WRITE demo_put")
  from put_records_sends_counts [OF g' s(1) acc] s g' show ?thesis
    by (intro exI [of _ g] exI [of _ ret] exI [of _ g']) (simp add: demo_put_def)
qed

end
