(* ===== verification/RMA_Epoch.thy ===== *)
theory RMA_Epoch
  imports RMA_Wrappers
begin

text \<open>
  The end of an epoch across the processes of a communicator. Each process
  counts the messages it sends to every other process in \<open>array\<close>; at the end
  of the epoch \<open>rma_analyzer_clear_comm_check_thread\<close> sums these counts with
  one reduction per process, and each checking thread leaves its loop when it
  has counted that many messages. The step relation interleaves the sends, the
  iterations of the checking threads, the entry into the closing routine and
  the completion of its reductions. Of MPI it uses what the standard
  guarantees: a message that was sent stays in flight until it is received,
  in no fixed order between different senders, and a reduction with sum
  delivers at its root the sum of what all processes contribute, once all have
  entered it.
\<close>

record epoch_sys =
  procs :: "nat \<Rightarrow> rma_analyzer_state"
  flight :: "nat \<Rightarrow> (Access \<times> string) list"
  closing :: "nat set"
  stopped :: "nat set"

definition expected_total :: "nat \<Rightarrow> epoch_sys \<Rightarrow> nat \<Rightarrow> int" where
  "expected_total N s j = (\<Sum>i<N. array (procs s i) ! j)"

definition count_send :: "nat \<Rightarrow> rma_analyzer_state \<Rightarrow> rma_analyzer_state" where
  "count_send j p = p\<lparr>array := (array p)[j := array p ! j + 1]\<rparr>"

definition epoch_init :: "nat \<Rightarrow> epoch_sys \<Rightarrow> bool" where
  "epoch_init N s \<longleftrightarrow> (\<forall>i<N. array (procs s i) = replicate N 0 \<and> recv_count (procs s i) = 0
      \<and> thread_end (procs s i) = 0 \<and> flight s i = []) \<and> closing s = {} \<and> stopped s = {}"

inductive epoch_step :: "nat \<Rightarrow> epoch_sys \<Rightarrow> epoch_sys \<Rightarrow> bool" for N :: nat where
  send: "i < N \<Longrightarrow> j < N \<Longrightarrow> i \<notin> closing s \<Longrightarrow>
    epoch_step N s (s\<lparr>procs := (procs s)(i := count_send j (procs s i)),
                     flight := (flight s)(j := flight s j @ [m])\<rparr>)"
| recv: "j < N \<Longrightarrow> j \<notin> stopped s \<Longrightarrow> flight s j = before @ m # after \<Longrightarrow>
    rma_analyzer_check_communication (procs s j) (Some m) = (Poll_received a, p') \<Longrightarrow>
    epoch_step N s (s\<lparr>procs := (procs s)(j := p'), flight := (flight s)(j := before @ after)\<rparr>)"
| idle: "j < N \<Longrightarrow> j \<notin> stopped s \<Longrightarrow>
    rma_analyzer_check_communication (procs s j) None = (Poll_again, p') \<Longrightarrow>
    epoch_step N s (s\<lparr>procs := (procs s)(j := p')\<rparr>)"
| enter_close: "i < N \<Longrightarrow> epoch_step N s (s\<lparr>closing := insert i (closing s)\<rparr>)"
| reduced: "j < N \<Longrightarrow> {..<N} \<subseteq> closing s \<Longrightarrow> j \<notin> stopped s \<Longrightarrow>
    epoch_step N s (s\<lparr>procs := (procs s)(j := (procs s j)\<lparr>expected := expected_total N s j, thread_end := 1\<rparr>)\<rparr>)"
| stop: "j < N \<Longrightarrow> j \<notin> stopped s \<Longrightarrow>
    rma_analyzer_check_communication (procs s j) outcome = (Poll_exit, p') \<Longrightarrow>
    epoch_step N s (s\<lparr>procs := (procs s)(j := p'), stopped := insert j (stopped s)\<rparr>)"

inductive epoch_reachable :: "nat \<Rightarrow> epoch_sys \<Rightarrow> bool" for N :: nat where
  init: "epoch_init N s \<Longrightarrow> epoch_reachable N s"
| step: "epoch_reachable N s \<Longrightarrow> epoch_step N s t \<Longrightarrow> epoch_reachable N t"

section \<open>The counting invariant\<close>

text \<open>
  For every process: what the others have counted as sent to it is what it has
  received plus what is in flight; it learns the total only once nobody sends
  any more; a stopped thread has nothing in flight.
\<close>

definition epoch_inv :: "nat \<Rightarrow> epoch_sys \<Rightarrow> bool" where
  "epoch_inv N s \<longleftrightarrow>
     (\<forall>i<N. length (array (procs s i)) = N) \<and>
     (\<forall>j<N. j \<notin> stopped s \<longrightarrow>
        expected_total N s j = recv_count (procs s j) + int (length (flight s j))) \<and>
     (\<forall>j<N. thread_end (procs s j) = 1 \<longrightarrow>
        {..<N} \<subseteq> closing s \<and> expected (procs s j) = expected_total N s j) \<and>
     (\<forall>j<N. j \<in> stopped s \<longrightarrow> {..<N} \<subseteq> closing s \<and> flight s j = [])"

lemma poll_cases:
  assumes "rma_analyzer_check_communication p outcome = (r, p')"
  shows "(r = Poll_exit \<and> thread_end p = 1 \<and> recv_count p = expected p \<and> p' = p\<lparr>recv_count := 0\<rparr>)
    \<or> (r = Poll_again \<and> outcome = None \<and> p' = p)
    \<or> (\<exists>a m. r = Poll_received a \<and> outcome = Some m \<and> p' = p\<lparr>recv_count := recv_count p + 1\<rparr>)"
  using assms by (auto simp: rma_analyzer_check_communication_def split: if_splits option.splits prod.splits)

lemma expected_total_frame:
  "(\<And>i. i < N \<Longrightarrow> array (procs t i) = array (procs s i)) \<Longrightarrow> expected_total N t j = expected_total N s j"
  by (simp add: expected_total_def)

lemma expected_total_send:
  assumes "i < N" "j < N" "length (array (procs s i)) = N" "procs t = (procs s)(i := count_send j (procs s i))"
  shows "expected_total N t k = expected_total N s k + (if k = j then 1 else 0)"
proof -
  have "expected_total N t k = (\<Sum>l<N. array (procs s l) ! k + (if l = i then (if k = j then 1 else 0) else 0))"
    unfolding expected_total_def assms(4)
    using assms(1-3) by (intro sum.cong) (auto simp: count_send_def nth_list_update)
  also have "\<dots> = expected_total N s k + (if k = j then 1 else 0)"
    using assms(1) by (simp add: expected_total_def sum.distrib)
  finally show ?thesis .
qed

lemma epoch_inv_init: "epoch_init N s \<Longrightarrow> epoch_inv N s"
  by (auto simp: epoch_init_def epoch_inv_def expected_total_def)

lemma epoch_inv_step:
  assumes "epoch_step N s t" "epoch_inv N s"
  shows "epoch_inv N t"
  using assms
proof cases
  case (send i j m)
  let ?t = "s\<lparr>procs := (procs s)(i := count_send j (procs s i)), flight := (flight s)(j := flight s j @ [m])\<rparr>"
  have len: "length (array (procs s i)) = N" using assms(2) send by (simp add: epoch_inv_def)
  have "expected_total N ?t k = expected_total N s k + (if k = j then 1 else 0)" for k
    by (rule expected_total_send [OF send(2,3) len]) simp
  moreover have "\<not> {..<N} \<subseteq> closing s" using send by auto
  ultimately show ?thesis
    using assms(2) send by (auto simp: epoch_inv_def count_send_def)
next
  case (recv j before m after a p')
  from poll_cases [OF recv(5)] have p': "p' = (procs s j)\<lparr>recv_count := recv_count (procs s j) + 1\<rparr>" by auto
  have "expected_total N t k = expected_total N s k" for k
    by (rule expected_total_frame) (auto simp: recv(1) p')
  then show ?thesis
    using assms(2) recv by (auto simp: epoch_inv_def p')
next
  case (idle j p')
  from poll_cases [OF idle(4)] have "p' = procs s j" by auto
  with idle(1) have "t = s" by simp
  with assms(2) show ?thesis by simp
next
  case (enter_close i)
  have "expected_total N t k = expected_total N s k" for k
    by (rule expected_total_frame) (simp add: enter_close(1))
  then show ?thesis
    using assms(2) enter_close by (auto simp: epoch_inv_def)
next
  case (reduced j)
  have "expected_total N t k = expected_total N s k" for k
    by (rule expected_total_frame) (simp add: reduced(1))
  then show ?thesis
    using assms(2) reduced by (auto simp: epoch_inv_def)
next
  case (stop j outcome p')
  from poll_cases [OF stop(4)] have p': "p' = (procs s j)\<lparr>recv_count := 0\<rparr>"
    and ex: "thread_end (procs s j) = 1" "recv_count (procs s j) = expected (procs s j)" by auto
  have "expected_total N t k = expected_total N s k" for k
    by (rule expected_total_frame) (auto simp: stop(1) p')
  moreover have "flight s j = []"
    using assms(2) stop ex by (auto simp: epoch_inv_def)
  ultimately show ?thesis
    using assms(2) stop ex by (auto simp: epoch_inv_def p')
qed

lemma epoch_reachable_inv: "epoch_reachable N s \<Longrightarrow> epoch_inv N s"
  by (induction rule: epoch_reachable.induct) (auto intro: epoch_inv_init epoch_inv_step)

section \<open>Properties\<close>

text \<open>C17: whenever the checking thread of a process has left its loop, no message to that
  process is in flight and no process can send another one in this epoch: at
  the end of an epoch every remote access has been received and checked.\<close>

theorem stopped_thread_lost_nothing:
  assumes "epoch_reachable N s" "j < N" "j \<in> stopped s"
  shows "flight s j = [] \<and> (\<forall>i<N. i \<in> closing s)"
  using epoch_reachable_inv [OF assms(1)] assms(2,3) by (auto simp: epoch_inv_def)

text \<open>C20: once the reductions have told a process how many messages to expect, its
  checking thread leaves the loop at its next iteration exactly when nothing
  is in flight to it: it neither leaves early nor waits for a message that
  was never sent.\<close>

theorem thread_exits_iff_drained:
  assumes "epoch_reachable N s" "j < N" "j \<notin> stopped s" "thread_end (procs s j) = 1"
  shows "fst (rma_analyzer_check_communication (procs s j) None) = Poll_exit \<longleftrightarrow> flight s j = []"
  using epoch_reachable_inv [OF assms(1)] assms(2-4)
  by (auto simp: epoch_inv_def rma_analyzer_check_communication_def)

text \<open>A run of two processes: one message, both close, the receiver drains and stops.\<close>

definition demo_proc :: rma_analyzer_state where
  "demo_proc = (new_rma_state demo_env 4096 64 0 7 1 65535)\<lparr>joinable := True, active_epoch := 1\<rparr>"

definition demo_sys :: epoch_sys where
  "demo_sys = \<lparr>procs = (\<lambda>_. demo_proc), flight = (\<lambda>_. []), closing = {}, stopped = {}\<rparr>"

definition demo_access :: Access where
  "demo_access = \<lparr>Itv = Interval 0 3, Type = RMA_WRITE, Dbg = default_DebugInfo\<rparr>"

lemma demo_sys_init: "epoch_init 2 demo_sys"
  by (simp add: epoch_init_def demo_sys_def demo_proc_def new_rma_state_def demo_env_def numeral_2_eq_2)

lemma demo_run:
  "\<exists>s. epoch_reachable 2 s \<and> 1 \<notin> stopped s \<and> thread_end (procs s 1) = 1 \<and> flight s 1 = [(demo_access, ''a.c'')]
     \<and> recv_count (procs s 1) = 0 \<and> expected (procs s 1) = 1"
proof -
  define s1 where "s1 = demo_sys\<lparr>procs := (procs demo_sys)(0 := count_send 1 (procs demo_sys 0)),
      flight := (flight demo_sys)(1 := flight demo_sys 1 @ [(demo_access, ''a.c'')])\<rparr>"
  define s2 where "s2 = s1\<lparr>closing := insert 0 (closing s1)\<rparr>"
  define s3 where "s3 = s2\<lparr>closing := insert 1 (closing s2)\<rparr>"
  define s4 where "s4 = s3\<lparr>procs := (procs s3)(1 := (procs s3 1)\<lparr>expected := expected_total 2 s3 1, thread_end := 1\<rparr>)\<rparr>"
  have "epoch_reachable 2 s1"
    unfolding s1_def
    by (rule epoch_reachable.step [OF epoch_reachable.init [OF demo_sys_init] epoch_step.send])
      (simp_all add: demo_sys_def)
  then have "epoch_reachable 2 s2"
    unfolding s2_def by (rule epoch_reachable.step) (simp add: epoch_step.enter_close)
  then have "epoch_reachable 2 s3"
    unfolding s3_def by (rule epoch_reachable.step) (simp add: epoch_step.enter_close)
  then have "epoch_reachable 2 s4"
    unfolding s4_def
    by (rule epoch_reachable.step [OF _ epoch_step.reduced])
      (auto simp: s3_def s2_def s1_def demo_sys_def lessThan_def)
  then show ?thesis
    by (intro exI [of _ s4])
      (simp add: s4_def s3_def s2_def s1_def demo_sys_def demo_proc_def new_rma_state_def demo_env_def
        expected_total_def count_send_def numeral_2_eq_2)
qed

theorem thread_exits_iff_drained_witness:
  "\<exists>s. epoch_reachable 2 s \<and> fst (rma_analyzer_check_communication (procs s 1) None) \<noteq> Poll_exit"
proof -
  obtain s where s: "epoch_reachable 2 s" "1 \<notin> stopped s" "thread_end (procs s 1) = 1"
    "flight s 1 = [(demo_access, ''a.c'')]"
    using demo_run by blast
  from thread_exits_iff_drained [OF s(1) _ s(2,3)] s show ?thesis by auto
qed

theorem stopped_thread_lost_nothing_witness:
  "\<exists>s. epoch_reachable 2 s \<and> 1 \<in> stopped s \<and> flight s 1 = []"
proof -
  obtain s where s: "epoch_reachable 2 s" "1 \<notin> stopped s" "thread_end (procs s 1) = 1"
    "flight s 1 = [(demo_access, ''a.c'')]" "recv_count (procs s 1) = 0" "expected (procs s 1) = 1"
    using demo_run by blast
  obtain a p where rc: "rma_analyzer_check_communication (procs s 1) (Some (demo_access, ''a.c'')) = (Poll_received a, p)"
    and p: "p = (procs s 1)\<lparr>recv_count := 1\<rparr>"
    using s by (auto simp: rma_analyzer_check_communication_def)
  define t where "t = s\<lparr>procs := (procs s)(1 := p), flight := (flight s)(1 := [] @ [])\<rparr>"
  have t: "epoch_reachable 2 t"
    unfolding t_def by (rule epoch_reachable.step [OF s(1)], rule epoch_step.recv [OF _ s(2) _ rc]) (simp_all add: s [simplified])
  define u where "u = t\<lparr>procs := (procs t)(1 := (procs t 1)\<lparr>recv_count := 0\<rparr>), stopped := insert 1 (stopped t)\<rparr>"
  have u: "epoch_reachable 2 u"
    unfolding u_def
    by (rule epoch_reachable.step [OF t], rule epoch_step.stop [where outcome = None])
      (simp_all add: t_def p s [simplified] rma_analyzer_check_communication_def)
  from stopped_thread_lost_nothing [OF u, of 1] u show ?thesis
    by (auto simp: u_def)
qed

end
