(* ===== verification/Collective.thy ===== *)
theory Collective
  imports Prelude
begin

text \<open>
  Collective operations: the registry of
  \<open>src/aSSA/Collectives.cpp\<close> and the \<open>.def\<close> files it includes, lookup by
  function name under the activated paradigm (\<open>src/aSSA/Options.cpp\<close>), and
  the communicator of a call. The registry is the one of a build with all
  paradigms enabled.

  LLVM values are given by their identity; a load carries the value of its
  pointer operand, which is what the search for a communicator follows.
\<close>

section \<open>Values and calls\<close>

type_synonym bb = nat
type_synonym fn = nat

datatype val = LoadInst nat val | OtherValue nat

record call_inst =
  ci_id :: nat
  ci_callee :: "fn option"
  ci_args :: "val list"

section \<open>Paradigms and options\<close>

datatype Paradigm = MPI | OMP | CUDA | RMA | UPC

text \<open>\<open>check\<close> is the value of the option \<open>-check\<close>; the older flags, tested in this
  order, override it.\<close>

record options =
  opt_check :: Paradigm
  opt_mpi :: bool
  opt_omp :: bool
  opt_upc :: bool
  opt_cuda :: bool

definition ActivatedParadigm :: "options \<Rightarrow> Paradigm" where
  "ActivatedParadigm opts =
     (if opt_mpi opts then MPI else if opt_omp opts then OMP else if opt_upc opts then UPC
      else if opt_cuda opts then CUDA else opt_check opts)"

definition isActivated :: "options \<Rightarrow> Paradigm \<Rightarrow> bool" where
  "isActivated opts P \<longleftrightarrow> P = ActivatedParadigm opts"

section \<open>The registry\<close>

record Collective =
  Name :: string
  Kind :: string
  par :: Paradigm
  CommArgId :: int

definition MPIRegistry :: "(string \<times> int) list" where
  "MPIRegistry =
  [(''MPI_Barrier'', 0), (''MPI_Comm_split'', 0), (''MPI_Comm_create'', 0),
   (''MPI_Comm_dup'', 0), (''MPI_Comm_dup_with_info'', 0), (''MPI_Ibarrier'', 0),
   (''MPI_Bcast'', 4), (''MPI_Ibcast'', 4), (''MPI_Allreduce'', 5),
   (''MPI_Reduce_scatter'', 5), (''MPI_Reduce_scatter_block'', 5), (''MPI_Scan'', 5),
   (''MPI_Exscan'', 5), (''MPI_Iallreduce'', 5), (''MPI_Ireduce_scatter_block'', 5),
   (''MPI_Ireduce_scatter'', 5), (''MPI_Iscan'', 5), (''MPI_Iexscan'', 5),
   (''MPI_Reduce'', 6), (''MPI_Ireduce'', 6), (''MPI_Allgather'', 6),
   (''MPI_Alltoall'', 6), (''MPI_Iallgather'', 6), (''MPI_Ialltoall'', 6),
   (''MPI_Scatter'', 7), (''MPI_Gather'', 7), (''MPI_Igather'', 7),
   (''MPI_Allgatherv'', 7), (''MPI_Iscatter'', 7), (''MPI_Iallgatherv'', 7),
   (''MPI_Scatterv'', 8), (''MPI_Gatherv'', 8), (''MPI_Alltoallv'', 8),
   (''MPI_Alltoallw'', 8), (''MPI_Igatherv'', 8), (''MPI_Iscatterv'', 8),
   (''MPI_Ialltoallv'', 8), (''MPI_Ialltoallw'', 8), (''MPI_Finalize'', - 1)]"

definition OMPRegistry :: "string list" where
  "OMPRegistry = [''__kmpc_barrier'']"

definition UPCRegistry :: "string list" where
  "UPCRegistry =
  [''_upcr_wait'', ''_upcr_all_broadcast'', ''_upcr_all_reduceD'',
   ''_upcr_all_gather'', ''_upcr_all_scatter'', ''_upcr_all_reduceC'',
   ''_upcr_all_reduceUC'', ''_upcr_all_reduceS'', ''_upcr_all_reduceUS'',
   ''_upcr_all_reduceI'', ''_upcr_all_reduceUI'', ''_upcr_all_reduceL'',
   ''_upcr_all_reduceUL'', ''_upcr_all_reduceF'', ''_upcr_all_reduceLD'']"

definition CUDARegistry :: "(string \<times> string) list" where
  "CUDARegistry = [(''Barrier'', ''llvm.nvvm.barrier0'')]"

definition RegistryData :: "(string \<times> Collective) list" where
  "RegistryData =
     map (\<lambda>(n, a). (n, \<lparr>Name = n, Kind = n, par = MPI, CommArgId = a\<rparr>)) MPIRegistry
   @ map (\<lambda>n. (n, \<lparr>Name = n, Kind = n, par = OMP, CommArgId = - 1\<rparr>)) OMPRegistry
   @ map (\<lambda>n. (n, \<lparr>Name = n, Kind = n, par = UPC, CommArgId = - 1\<rparr>)) UPCRegistry
   @ map (\<lambda>(n, f). (n, \<lparr>Name = f, Kind = n, par = CUDA, CommArgId = - 1\<rparr>)) CUDARegistry"

definition enabled :: "options \<Rightarrow> Collective \<Rightarrow> bool" where
  "enabled opts C = isActivated opts (par C)"

definition Collective_find :: "options \<Rightarrow> string \<Rightarrow> Collective option" where
  "Collective_find opts fname =
     (case map_of RegistryData fname of
        Some C \<Rightarrow> if enabled opts C then Some C else None
      | None \<Rightarrow> None)"

definition isCollective :: "options \<Rightarrow> string \<Rightarrow> bool" where
  "isCollective opts fname \<longleftrightarrow> Collective_find opts fname \<noteq> None"

section \<open>Communicators\<close>

fun strip_loads :: "val \<Rightarrow> val" where
  "strip_loads (LoadInst i p) = strip_loads p"
| "strip_loads (OtherValue v) = OtherValue v"

text \<open>A negative argument position means that the collective has no communicator. An
  argument position past the end of the call is an assertion failure in LLVM,
  \<open>None\<close> on the outer level here.\<close>

definition getCommunicator :: "Collective \<Rightarrow> call_inst \<Rightarrow> val option option" where
  "getCommunicator C CI =
     (if CommArgId C < 0 then Some None
      else if nat (CommArgId C) < length (ci_args CI)
      then Some (Some (strip_loads (ci_args CI ! nat (CommArgId C))))
      else None)"

section \<open>Properties\<close>

lemma strip_loads_no_load: "\<exists>v. strip_loads x = OtherValue v"
  by (induction x) auto

text \<open>Looking up a function name that is registered for the activated paradigm yields
  the collective of that name, and nothing else is ever found: for MPI the
  lookup succeeds exactly on the names of the MPI registry, and the collective
  found carries the communicator position of its entry.\<close>

theorem find_mpi_iff:
  "Collective_find \<lparr>opt_check = MPI, opt_mpi = b, opt_omp = False, opt_upc = False, opt_cuda = False\<rparr> fname = Some C
   \<longleftrightarrow> (\<exists>a. (fname, a) \<in> set MPIRegistry \<and> C = \<lparr>Name = fname, Kind = fname, par = MPI, CommArgId = a\<rparr>)"
proof -
  have dist: "distinct (map fst RegistryData)"
    unfolding RegistryData_def MPIRegistry_def OMPRegistry_def UPCRegistry_def CUDARegistry_def by simp
  have "map_of RegistryData fname = Some C \<and> par C = MPI \<longleftrightarrow>
      (\<exists>a. (fname, a) \<in> set MPIRegistry \<and> C = \<lparr>Name = fname, Kind = fname, par = MPI, CommArgId = a\<rparr>)"
    unfolding map_of_eq_Some_iff [OF dist] by (auto simp: RegistryData_def)
  then show ?thesis
    by (auto simp: Collective_find_def enabled_def isActivated_def ActivatedParadigm_def split: option.splits)
qed

text \<open>With CUDA activated, the registry is keyed by the short name and not by the
  function name, so the barrier intrinsic itself is never recognised.\<close>

theorem cuda_barrier_not_found:
  "Collective_find \<lparr>opt_check = CUDA, opt_mpi = False, opt_omp = False, opt_upc = False, opt_cuda = c\<rparr>
     ''llvm.nvvm.barrier0'' = None
   \<and> Collective_find \<lparr>opt_check = CUDA, opt_mpi = False, opt_omp = False, opt_upc = False, opt_cuda = c\<rparr>
     ''Barrier'' = Some \<lparr>Name = ''llvm.nvvm.barrier0'', Kind = ''Barrier'', par = CUDA, CommArgId = - 1\<rparr>"
  by (simp add: Collective_find_def RegistryData_def MPIRegistry_def OMPRegistry_def UPCRegistry_def
      CUDARegistry_def enabled_def isActivated_def ActivatedParadigm_def)

end
