(* ===== verification/Collective_List.thy ===== *)
theory Collective_List
  imports Collective
begin

text \<open>
  Lists of collectives (\<open>src/include/parcoach/CollectiveList.h\<close>,
  \<open>src/aSSA/CollectiveList.cpp\<close>): the elements (a collective, the marker for
  "not a valid set", the nested list of a loop), extension on both ends, the
  printed form on which equality is defined, the test whether the neighbours
  of a block disagree, and the list a basic block contributes.
\<close>

section \<open>Lists\<close>

datatype Element = CollElement Collective | NavsElement | CollListElement CollectiveList
  and CollectiveList = CollectiveList (LoopHeader: "bb option") (List: "Element list")

definition empty_CL :: CollectiveList where
  "empty_CL = CollectiveList None []"

fun elem_navs :: "Element \<Rightarrow> bool"
  and navs :: "CollectiveList \<Rightarrow> bool" where
  "elem_navs (CollElement C) = False"
| "elem_navs NavsElement = True"
| "elem_navs (CollListElement cl) = navs cl"
| "navs (CollectiveList h []) = False"
| "navs (CollectiveList h (e # es)) = elem_navs e"

definition with_header :: "bb \<Rightarrow> CollectiveList \<Rightarrow> CollectiveList" where
  "with_header Header LoopList = CollectiveList (Some Header) (List LoopList)"

text \<open>What \<open>add\<close> inserts for a list: nothing, one nested element for the list of a loop,
  the copied elements otherwise.\<close>

definition add :: "CollectiveList \<Rightarrow> Element list" where
  "add Other =
     (if List Other \<noteq> []
      then if LoopHeader Other \<noteq> None then [CollListElement Other] else List Other
      else [])"

definition extendWith :: "CollectiveList \<Rightarrow> CollectiveList \<Rightarrow> CollectiveList" where
  "extendWith cl Other = CollectiveList (LoopHeader cl) (List cl @ add Other)"

definition prependWith :: "CollectiveList \<Rightarrow> CollectiveList \<Rightarrow> CollectiveList" where
  "prependWith cl Other = CollectiveList (LoopHeader cl) (add Other @ List cl)"

definition extendWith_elem :: "CollectiveList \<Rightarrow> Element \<Rightarrow> CollectiveList" where
  "extendWith_elem cl e = CollectiveList (LoopHeader cl) (List cl @ [e])"

section \<open>Printed form and equality\<close>

fun join_comma :: "string list \<Rightarrow> string" where
  "join_comma [] = ''''"
| "join_comma [s] = s"
| "join_comma (s # t # ts) = s @ '', '' @ join_comma (t # ts)"

text \<open>\<open>pr\<close> prints a block as an operand.\<close>

fun elem_toString :: "(bb \<Rightarrow> string) \<Rightarrow> Element \<Rightarrow> string"
  and toString :: "(bb \<Rightarrow> string) \<Rightarrow> CollectiveList \<Rightarrow> string" where
  "elem_toString pr (CollElement C) = Name C"
| "elem_toString pr NavsElement = ''NAVS''"
| "elem_toString pr (CollListElement cl) = toString pr cl"
| "toString pr (CollectiveList h es) =
     (case h of None \<Rightarrow> '''' | Some b \<Rightarrow> ''*'' @ pr b)
     @ ''('' @ join_comma (map (elem_toString pr) es) @ '')''"

definition CL_eq :: "(bb \<Rightarrow> string) \<Rightarrow> CollectiveList \<Rightarrow> CollectiveList \<Rightarrow> bool" where
  "CL_eq pr a b \<longleftrightarrow> toString pr a = toString pr b"

section \<open>Neighbours and blocks\<close>

type_synonym BBToCollListMap = "bb \<Rightarrow> CollectiveList option"

text \<open>\<open>std::adjacent_find\<close> over the neighbours; a missing entry of the map is created
  empty by its subscript operator.\<close>

definition lookup_CL :: "BBToCollListMap \<Rightarrow> bb \<Rightarrow> CollectiveList" where
  "lookup_CL Computed b = (case Computed b of None \<Rightarrow> empty_CL | Some cl \<Rightarrow> cl)"

fun adjacent_differ :: "('a \<Rightarrow> 'a \<Rightarrow> bool) \<Rightarrow> 'a list \<Rightarrow> bool" where
  "adjacent_differ ne (a # b # rest) = (ne a b \<or> adjacent_differ ne (b # rest))"
| "adjacent_differ ne _ = False"

definition NeighborsAreNAVS :: "(bb \<Rightarrow> string) \<Rightarrow> BBToCollListMap \<Rightarrow> bb list \<Rightarrow> bool" where
  "NeighborsAreNAVS pr Computed Neighbors =
     adjacent_differ (\<lambda>A B. \<not> CL_eq pr (lookup_CL Computed A) (lookup_CL Computed B)) Neighbors"

definition shouldIgnore :: "call_inst \<Rightarrow> Collective \<Rightarrow> val option \<Rightarrow> bool" where
  "shouldIgnore CI Coll Comm =
     (if par Coll \<noteq> MPI \<or> Comm = None then False
      else case getCommunicator Coll CI of
        Some (Some CommForCollective) \<Rightarrow> Some CommForCollective \<noteq> Comm
      | _ \<Rightarrow> False)"

text \<open>The parts of the module the construction reads.\<close>

record module_info =
  fn_name :: "fn \<Rightarrow> string"
  fn_entry :: "fn \<Rightarrow> bb"
  bb_calls :: "bb \<Rightarrow> call_inst list"
  indirect_callees :: "nat \<Rightarrow> fn list option"

definition isIntrinsicDbgFunction :: "string \<Rightarrow> bool" where
  "isIntrinsicDbgFunction name \<longleftrightarrow> take 8 name = ''llvm.dbg''"

definition ActOnFunction ::
  "options \<Rightarrow> module_info \<Rightarrow> BBToCollListMap \<Rightarrow> val option \<Rightarrow> call_inst \<Rightarrow> fn \<Rightarrow> CollectiveList \<Rightarrow> CollectiveList" where
  "ActOnFunction opts m CollLists Comm CI F Current =
     (case Collective_find opts (fn_name m F) of
        Some Coll \<Rightarrow>
          if \<not> shouldIgnore CI Coll Comm then extendWith_elem Current (CollElement Coll) else Current
      | None \<Rightarrow>
          (case CollLists (fn_entry m F) of
             Some ListForFunc \<Rightarrow> extendWith Current ListForFunc
           | None \<Rightarrow> Current))"

definition act_on_call ::
  "options \<Rightarrow> module_info \<Rightarrow> BBToCollListMap \<Rightarrow> val option \<Rightarrow> call_inst \<Rightarrow> CollectiveList \<Rightarrow> CollectiveList" where
  "act_on_call opts m CollLists Comm CI Current =
     (case ci_callee CI of
        Some F \<Rightarrow> ActOnFunction opts m CollLists Comm CI F Current
      | None \<Rightarrow>
          (case indirect_callees m (ci_id CI) of
             None \<Rightarrow> Current
           | Some fs \<Rightarrow> fold (\<lambda>F cur. if isIntrinsicDbgFunction (fn_name m F) then cur
                                   else ActOnFunction opts m CollLists Comm CI F cur) fs Current))"

definition CreateFromBB ::
  "options \<Rightarrow> module_info \<Rightarrow> BBToCollListMap \<Rightarrow> bool \<Rightarrow> bb \<Rightarrow> val option \<Rightarrow> CollectiveList" where
  "CreateFromBB opts m CollLists NeighborsNAVS BB Comm =
     (if NeighborsNAVS then extendWith_elem empty_CL NavsElement
      else fold (act_on_call opts m CollLists Comm) (bb_calls m BB) empty_CL)"

section \<open>Unambiguous printing\<close>

text \<open>Characters a collective's name is made of.\<close>

definition name_char :: "char \<Rightarrow> bool" where
  "name_char c \<longleftrightarrow> c \<notin> set ''(), *''"

definition plain_name :: "string \<Rightarrow> bool" where
  "plain_name s \<longleftrightarrow> s \<noteq> '''' \<and> s \<noteq> ''NAVS'' \<and> (\<forall>c\<in>set s. name_char c)"

text \<open>Lists as the construction builds them: registered collectives, and every nested
  list has a loop header.\<close>

fun wf_elem :: "Element \<Rightarrow> bool"
  and wf_CL :: "CollectiveList \<Rightarrow> bool" where
  "wf_elem (CollElement C) \<longleftrightarrow> (\<exists>k. (k, C) \<in> set RegistryData)"
| "wf_elem NavsElement \<longleftrightarrow> True"
| "wf_elem (CollListElement cl) \<longleftrightarrow> LoopHeader cl \<noteq> None \<and> wf_CL cl"
| "wf_CL (CollectiveList h es) \<longleftrightarrow> (\<forall>e\<in>set es. wf_elem e)"

lemma registry_names:
  "(k, C) \<in> set RegistryData \<Longrightarrow> plain_name (Name C)"
  unfolding RegistryData_def MPIRegistry_def OMPRegistry_def UPCRegistry_def CUDARegistry_def
  by (auto simp: plain_name_def name_char_def)

lemma registry_name_unique:
  assumes "(k, C) \<in> set RegistryData" "(k', C') \<in> set RegistryData" "Name C = Name C'"
  shows "C = C'"
proof -
  have "distinct (map (\<lambda>(k, C). Name C) RegistryData)"
    unfolding RegistryData_def MPIRegistry_def OMPRegistry_def UPCRegistry_def CUDARegistry_def by simp
  then show ?thesis
    using assms by (auto dest: eq_key_imp_eq_value simp: distinct_map inj_on_def)
qed

definition stops :: "string \<Rightarrow> bool" where
  "stops r \<longleftrightarrow> (\<exists>c rest. r = c # rest \<and> \<not> name_char c)"

lemma name_prefix_unique:
  assumes "\<forall>c\<in>set s. name_char c" "\<forall>c\<in>set s'. name_char c" "stops r" "stops r'" "s @ r = s' @ r'"
  shows "s = s' \<and> r = r'"
proof -
  have *: "takeWhile name_char (u @ v) = u" if "\<forall>c\<in>set u. name_char c" "stops v" for u v
    using that by (auto simp: stops_def takeWhile_append)
  have "s = s'" using * [OF assms(1,3)] * [OF assms(2,4)] assms(5) by simp
  with assms(5) show ?thesis by simp
qed

lemma paren_prefix_unique:
  assumes "CHR ''('' \<notin> set s" "CHR ''('' \<notin> set s'" "s @ CHR ''('' # r = s' @ CHR ''('' # r'"
  shows "s = s' \<and> r = r'"
proof -
  have *: "takeWhile (\<lambda>c. c \<noteq> CHR ''('') (u @ CHR ''('' # v) = u" if "CHR ''('' \<notin> set u" for u v
    using that by (auto simp: takeWhile_append)
  have "s = s'" using * [OF assms(1), of r] * [OF assms(2), of r'] assms(3) by simp
  with assms(3) show ?thesis by simp
qed

lemma navs_name [simp]: "\<forall>c\<in>set ''NAVS''. name_char c"
  by (simp add: name_char_def)

lemma elem_first_char:
  assumes "wf_elem e"
  shows "\<exists>c rest. elem_toString pr e = c # rest \<and> (name_char c \<longleftrightarrow> (\<forall>cl. e \<noteq> CollListElement cl)) \<and> c \<noteq> CHR '')''"
proof (cases e)
  case (CollElement C)
  with assms have "plain_name (Name C)" by (auto dest: registry_names)
  with CollElement show ?thesis by (cases "Name C") (auto simp: plain_name_def name_char_def)
next
  case NavsElement
  then show ?thesis by (simp add: name_char_def)
next
  case (CollListElement cl)
  with assms show ?thesis by (cases cl) (auto simp: name_char_def)
qed

definition join_tail :: "string list \<Rightarrow> string \<Rightarrow> string" where
  "join_tail ss r = (if ss = [] then CHR '')'' # r else '', '' @ join_comma ss @ CHR '')'' # r)"

lemma join_Cons: "join_comma (s # ss) @ CHR '')'' # r = s @ join_tail ss r"
  by (cases ss) (auto simp: join_tail_def)

lemma stops_join_tail [simp]: "stops (join_tail ss r)"
  by (auto simp: join_tail_def stops_def name_char_def)

lemma join_unique:
  assumes "join_comma (map (elem_toString pr) es) @ CHR '')'' # r = join_comma (map (elem_toString pr) es') @ CHR '')'' # r'"
    and "\<forall>e\<in>set es. wf_elem e" "\<forall>e\<in>set es'. wf_elem e"
    and "\<And>e e' s s'. e \<in> set es \<Longrightarrow> wf_elem e' \<Longrightarrow> stops s \<Longrightarrow> stops s' \<Longrightarrow>
      elem_toString pr e @ s = elem_toString pr e' @ s' \<Longrightarrow> e = e' \<and> s = s'"
  shows "es = es' \<and> r = r'"
  using assms
proof (induction es arbitrary: es')
  case Nil
  show ?case
  proof (cases es')
    case (Cons e' rest)
    with Nil elem_first_char [of e' pr] show ?thesis by (auto simp: join_Cons)
  qed (use Nil in simp)
next
  case (Cons e es)
  obtain e' rest where es': "es' = e' # rest"
    using Cons.prems elem_first_char [of e pr] by (cases es') (auto simp: join_Cons)
  have "e = e' \<and> join_tail (map (elem_toString pr) es) r = join_tail (map (elem_toString pr) rest) r'"
    using Cons.prems(1-3) by (intro Cons.prems(4)) (simp_all add: es' join_Cons)
  moreover have "es = rest \<and> r = r'"
    if "join_tail (map (elem_toString pr) es) r = join_tail (map (elem_toString pr) rest) r'"
  proof (cases "es = []")
    case True
    with that show ?thesis by (cases rest) (auto simp: join_tail_def)
  next
    case False
    with that have "join_comma (map (elem_toString pr) es) @ CHR '')'' # r
        = join_comma (map (elem_toString pr) rest) @ CHR '')'' # r'" "rest \<noteq> []"
      by (auto simp: join_tail_def split: if_splits)
    then show ?thesis
    proof (intro Cons.IH)
      fix e e' s s'
      assume "e \<in> set es" "wf_elem e'" "stops s" "stops s'" "elem_toString pr e @ s = elem_toString pr e' @ s'"
      then show "e = e' \<and> s = s'" by (intro Cons.prems(4)) simp_all
    qed (use Cons.prems(2,3) es' in simp_all)
  qed
  ultimately show ?case by (simp add: es')
qed

definition operand_printer :: "(bb \<Rightarrow> string) \<Rightarrow> bool" where
  "operand_printer pr \<longleftrightarrow> inj pr \<and> (\<forall>b. CHR ''('' \<notin> set (pr b))"

lemma printed_unique:
  assumes "operand_printer pr"
  shows "wf_elem e \<Longrightarrow> wf_elem e' \<Longrightarrow> stops r \<Longrightarrow> stops r' \<Longrightarrow>
      elem_toString pr e @ r = elem_toString pr e' @ r' \<Longrightarrow> e = e' \<and> r = r'"
    and "wf_CL cl \<Longrightarrow> wf_CL cl' \<Longrightarrow> toString pr cl @ s = toString pr cl' @ s' \<Longrightarrow> cl = cl' \<and> s = s'"
proof (induction e and cl arbitrary: e' r r' and cl' s s')
  case (CollElement C)
  then have C: "\<forall>c\<in>set (Name C). name_char c" "Name C \<noteq> ''NAVS''"
    by (auto dest: registry_names simp: plain_name_def)
  show ?case
  proof (cases e')
    case (CollElement C')
    then have "\<forall>c\<in>set (Name C'). name_char c"
      using CollElement.prems by (auto dest: registry_names simp: plain_name_def)
    with C CollElement CollElement.prems registry_name_unique show ?thesis
      using name_prefix_unique [of "Name C" "Name C'" r r'] by auto
  next
    case NavsElement
    with C CollElement.prems show ?thesis
      using name_prefix_unique [of "Name C" "''NAVS''" r r'] by auto
  next
    case (CollListElement cl)
    with CollElement.prems elem_first_char [of "CollElement C" pr] elem_first_char [of e' pr] show ?thesis
      by auto
  qed
next
  case NavsElement
  show ?case
  proof (cases e')
    case (CollElement C')
    then have "\<forall>c\<in>set (Name C'). name_char c" "Name C' \<noteq> ''NAVS''"
      using NavsElement.prems by (auto dest: registry_names simp: plain_name_def)
    with NavsElement.prems CollElement show ?thesis
      using name_prefix_unique [of "''NAVS''" "Name C'" r r'] by auto
  next
    case (CollListElement cl)
    with NavsElement.prems elem_first_char [of "NavsElement" pr] elem_first_char [of e' pr] show ?thesis
      by auto
  qed (use NavsElement.prems in simp)
next
  case (CollListElement cl)
  show ?case
  proof (cases e')
    case (CollListElement cl')
    with CollListElement.IH [of cl' r r'] CollListElement.prems show ?thesis by auto
  qed (use CollListElement.prems elem_first_char [of "CollListElement cl" pr] elem_first_char [of e' pr] in auto)
next
  case (CollectiveList h es)
  obtain h' es' where cl': "cl' = CollectiveList h' es'" by (cases cl')
  let ?body = "\<lambda>es. join_comma (map (elem_toString pr) es)"
  have "h = h' \<and> ?body es @ CHR '')'' # s = ?body es' @ CHR '')'' # s'"
  proof (cases h; cases h')
    fix b b' assume h: "h = Some b" "h' = Some b'"
    have "pr b = pr b' \<and> ?body es @ CHR '')'' # s = ?body es' @ CHR '')'' # s'"
      using CollectiveList.prems(3) assms paren_prefix_unique [of "pr b" "pr b'" "?body es @ CHR '')'' # s"]
      by (simp add: cl' h operand_printer_def)
    with h assms show ?thesis by (auto simp: operand_printer_def inj_def)
  qed (use CollectiveList.prems(3) in \<open>auto simp: cl'\<close>)
  moreover have "es = es' \<and> s = s'" if "?body es @ CHR '')'' # s = ?body es' @ CHR '')'' # s'"
    using that CollectiveList.prems by (rule_tac join_unique) (auto simp: cl' dest: CollectiveList.IH)
  ultimately show ?case by (simp add: cl')
qed

lemma adjacent_differ_iff:
  assumes "equivp eq"
  shows "adjacent_differ (\<lambda>a b. \<not> eq a b) xs \<longleftrightarrow> (\<exists>a\<in>set xs. \<exists>b\<in>set xs. \<not> eq a b)"
proof (induction xs rule: induct_list012)
  case (3 a b rest)
  have all: "eq x y" if "eq a b" "\<forall>x\<in>set (b # rest). \<forall>y\<in>set (b # rest). eq x y"
    "x \<in> set (a # b # rest)" "y \<in> set (a # b # rest)" for x y
  proof -
    have "eq b z" if "z \<in> set (a # b # rest)" for z
      using that \<open>eq a b\<close> \<open>\<forall>x\<in>set (b # rest). \<forall>y\<in>set (b # rest). eq x y\<close> equivp_symp [OF assms] by auto
    then show ?thesis
      using that(3,4) equivp_symp [OF assms] equivp_transp [OF assms] by blast
  qed
  have "adjacent_differ (\<lambda>a b. \<not> eq a b) (a # b # rest)
      \<longleftrightarrow> \<not> eq a b \<or> (\<exists>x\<in>set (b # rest). \<exists>y\<in>set (b # rest). \<not> eq x y)"
    using 3 by simp
  also have "\<dots> \<longleftrightarrow> (\<exists>x\<in>set (a # b # rest). \<exists>y\<in>set (a # b # rest). \<not> eq x y)"
    using all by (meson list.set_intros)
  finally show ?case .
qed (use equivp_reflp [OF assms] in auto)

section \<open>Properties\<close>



lemma neighbors_iff:
  "NeighborsAreNAVS pr Computed Neighbors \<longleftrightarrow>
     (\<exists>A\<in>set Neighbors. \<exists>B\<in>set Neighbors.
        toString pr (lookup_CL Computed A) \<noteq> toString pr (lookup_CL Computed B))"
proof -
  let ?eq = "\<lambda>A B. CL_eq pr (lookup_CL Computed A) (lookup_CL Computed B)"
  have "equivp ?eq"
    by (rule equivpI) (auto simp: reflp_def symp_def transp_def CL_eq_def)
  from adjacent_differ_iff [OF this, of Neighbors] show ?thesis
    by (simp add: NeighborsAreNAVS_def CL_eq_def)
qed

end
