(* ===== verification/CFG_Visitor.thy ===== *)
theory CFG_Visitor
  imports Collective_List "HOL-Library.AList"
begin

text \<open>
  The two traversals of \<open>src/include/parcoach/CFGVisitors.h\<close>: the visit of the
  loops of a function from the innermost outwards, which also computes the
  successors of each loop as a whole, and the visit of the blocks of a
  function from its exits upwards, in which a loop is entered through its
  header only. Both postpone a block until the blocks it depends on are done,
  so neither is known to end on an arbitrary graph: they run on fuel, and a
  dereference of a map iterator that is not there is the error
  \<open>Bad_iterator\<close>.
\<close>

section \<open>Graphs, loops, visitor state\<close>

datatype NodeState = UNVISITED | PUSHED | VISITED

datatype visit_error = Out_of_fuel | Bad_iterator

record cfg =
  succs :: "bb \<Rightarrow> bb list"
  preds :: "bb \<Rightarrow> bb list"
  blocks_of :: "bb list"

text \<open>An LLVM loop: its header, all its blocks, its sub-loops, and the pair of incoming
  block and back edge when \<open>getIncomingAndBackEdge\<close> finds one.\<close>

datatype loop = Loop (header: bb) (loop_blocks: "bb list") (subloops: "loop list")
  (in_back: "(bb \<times> bb) option")

definition contains :: "loop \<Rightarrow> bb \<Rightarrow> bool" where
  "contains L b \<longleftrightarrow> b \<in> set (loop_blocks L)"

record LoopAggregationInfo =
  LoopHeaderToSuccessors :: "(bb \<times> bb list) list"
  LoopHeaderToIncomingBlock :: "bb \<Rightarrow> bb option"
  LoopSuccessorToLoopHeader :: "bb \<Rightarrow> bb option"

definition LAI_clear :: LoopAggregationInfo where
  "LAI_clear = \<lparr>LoopHeaderToSuccessors = [], LoopHeaderToIncomingBlock = Map.empty,
                LoopSuccessorToLoopHeader = Map.empty\<rparr>"

text \<open>The subscript operator of the map creates an empty entry; \<open>SmallSetVector::insert\<close>
  keeps the first occurrence.\<close>

definition header_succs :: "LoopAggregationInfo \<Rightarrow> bb \<Rightarrow> bb list" where
  "header_succs lai b = (case map_of (LoopHeaderToSuccessors lai) b of None \<Rightarrow> [] | Some xs \<Rightarrow> xs)"

definition set_vector_insert :: "'a \<Rightarrow> 'a list \<Rightarrow> 'a list" where
  "set_vector_insert x xs = (if x \<in> set xs then xs else xs @ [x])"

section \<open>The loop visitor\<close>

definition ComputeReversedMap :: "LoopAggregationInfo \<Rightarrow> LoopAggregationInfo" where
  "ComputeReversedMap lai =
     lai\<lparr>LoopSuccessorToLoopHeader :=
        fold (\<lambda>(Header, Successors) m. fold (\<lambda>Succ m. m(Succ \<mapsto> Header)) Successors m)
          (LoopHeaderToSuccessors lai) (LoopSuccessorToLoopHeader lai)\<rparr>"

definition EnqueueBB_loop ::
  "loop \<Rightarrow> bb \<Rightarrow> bb list \<times> (bb \<Rightarrow> NodeState) \<times> LoopAggregationInfo
     \<Rightarrow> bb list \<times> (bb \<Rightarrow> NodeState) \<times> LoopAggregationInfo" where
  "EnqueueBB_loop L b = (\<lambda>(q, vis, lai).
     if vis b = UNVISITED
     then if contains L b then (q @ [b], vis(b := PUSHED), lai)
          else (q, vis, lai\<lparr>LoopHeaderToSuccessors :=
                  AList.update (header L) (set_vector_insert b (header_succs lai (header L)))
                    (LoopHeaderToSuccessors lai)\<rparr>)
     else (q, vis, lai))"

fun loop_bfs ::
  "cfg \<Rightarrow> (bb \<Rightarrow> loop option) \<Rightarrow> (loop \<Rightarrow> bb \<Rightarrow> LoopAggregationInfo \<Rightarrow> 's \<Rightarrow> 's) \<Rightarrow> loop \<Rightarrow> nat
     \<Rightarrow> bb list \<Rightarrow> (bb \<Rightarrow> NodeState) \<Rightarrow> LoopAggregationInfo \<Rightarrow> 's
     \<Rightarrow> visit_error + LoopAggregationInfo \<times> 's" where
  "loop_bfs G LI visitBB L 0 q vis lai s = Inl Out_of_fuel"
| "loop_bfs G LI visitBB L (Suc n) [] vis lai s = Inr (lai, s)"
| "loop_bfs G LI visitBB L (Suc n) (BB # q) vis lai s =
     (if LoopHeaderToIncomingBlock lai BB = None \<and> \<not> (\<forall>p\<in>set (preds G BB). vis p = VISITED)
      then loop_bfs G LI visitBB L n (q @ [BB]) vis lai s
      else
        let vis1 = vis(BB := VISITED); s1 = visitBB L BB lai s in
        (case LI BB of
           Some l \<Rightarrow>
             if BB \<noteq> header L \<and> BB = header l
             then let (q2, vis2, lai2) = fold (EnqueueBB_loop L) (header_succs lai (header l)) (q, vis1, lai);
                      lai3 = lai2\<lparr>LoopHeaderToSuccessors := AList.delete (header l) (LoopHeaderToSuccessors lai2)\<rparr>
                  in loop_bfs G LI visitBB L n q2 vis2 lai3 s1
             else let (q2, vis2, lai2) = fold (EnqueueBB_loop L) (succs G BB) (q, vis1, lai)
                  in loop_bfs G LI visitBB L n q2 vis2 lai2 s1
         | None \<Rightarrow>
             let (q2, vis2, lai2) = fold (EnqueueBB_loop L) (succs G BB) (q, vis1, lai)
             in loop_bfs G LI visitBB L n q2 vis2 lai2 s1))"

text \<open>The visit of one loop, its sub-loops first; a loop without a single incoming block
  and back edge is registered without successors and ignored.\<close>

fun Visit_loop ::
  "cfg \<Rightarrow> (bb \<Rightarrow> loop option) \<Rightarrow> (loop \<Rightarrow> bb \<Rightarrow> LoopAggregationInfo \<Rightarrow> 's \<Rightarrow> 's) \<Rightarrow> (loop \<Rightarrow> 's \<Rightarrow> 's)
     \<Rightarrow> nat \<Rightarrow> loop \<Rightarrow> LoopAggregationInfo \<times> 's \<Rightarrow> visit_error + LoopAggregationInfo \<times> 's" where
  "Visit_loop G LI visitBB endOfLoop fuel (Loop h bs subs ib) st =
     bindE (foldE (Visit_loop G LI visitBB endOfLoop fuel) subs st) (\<lambda>(lai, s).
       let lai1 = lai\<lparr>LoopHeaderToSuccessors := AList.update h [] (LoopHeaderToSuccessors lai)\<rparr> in
       case ib of
         None \<Rightarrow> Inr (lai1, s)
       | Some (Incoming, BackEdge) \<Rightarrow>
           let lai2 = lai1\<lparr>LoopHeaderToIncomingBlock := (LoopHeaderToIncomingBlock lai1)(h \<mapsto> Incoming)\<rparr> in
           bindE (loop_bfs G LI visitBB (Loop h bs subs ib) fuel [h] ((\<lambda>_. UNVISITED)(h := PUSHED)) lai2 s)
             (\<lambda>(lai3, s3). Inr (lai3, endOfLoop (Loop h bs subs ib) s3)))"

definition Visit_loops ::
  "cfg \<Rightarrow> (bb \<Rightarrow> loop option) \<Rightarrow> loop list \<Rightarrow> (loop \<Rightarrow> bb \<Rightarrow> LoopAggregationInfo \<Rightarrow> 's \<Rightarrow> 's) \<Rightarrow> (loop \<Rightarrow> 's \<Rightarrow> 's)
     \<Rightarrow> nat \<Rightarrow> 's \<Rightarrow> visit_error + LoopAggregationInfo \<times> 's" where
  "Visit_loops G LI top_loops visitBB endOfLoop fuel s =
     bindE (foldE (Visit_loop G LI visitBB endOfLoop fuel) top_loops (LAI_clear, s)) (\<lambda>(lai, s').
       Inr (ComputeReversedMap lai, s'))"

section \<open>The block visitor\<close>

text \<open>Successors and predecessors with each loop seen as its header.\<close>

definition is_loop_header :: "LoopAggregationInfo \<Rightarrow> bb \<Rightarrow> bool" where
  "is_loop_header Res BB \<longleftrightarrow> map_of (LoopHeaderToSuccessors Res) BB \<noteq> None"

definition visit_succs :: "cfg \<Rightarrow> LoopAggregationInfo \<Rightarrow> bb \<Rightarrow> bb list" where
  "visit_succs G Res BB = (if is_loop_header Res BB then header_succs Res BB else succs G BB)"

definition visit_preds :: "cfg \<Rightarrow> (bb \<Rightarrow> loop option) \<Rightarrow> LoopAggregationInfo \<Rightarrow> bb \<Rightarrow> bb list option" where
  "visit_preds G LI Res BB =
     (if is_loop_header Res BB
      then (case LoopHeaderToIncomingBlock Res BB of None \<Rightarrow> None | Some p \<Rightarrow> Some [p])
      else case LoopSuccessorToLoopHeader Res BB of
        Some Header \<Rightarrow>
          (case LI Header of
             None \<Rightarrow> None
           | Some L \<Rightarrow> Some (Header # filter (\<lambda>p. \<not> contains L p) (preds G BB)))
      | None \<Rightarrow> Some (preds G BB))"

definition EnqueueBB :: "bb \<Rightarrow> bb list \<times> (bb \<Rightarrow> NodeState) \<Rightarrow> bb list \<times> (bb \<Rightarrow> NodeState)" where
  "EnqueueBB Current = (\<lambda>(q, vis).
     if vis Current = UNVISITED then (q @ [Current], vis(Current := PUSHED)) else (q, vis))"

fun visit_queue ::
  "(bb \<Rightarrow> bb list) \<Rightarrow> (bb \<Rightarrow> bb list option) \<Rightarrow> (bb \<Rightarrow> 's \<Rightarrow> 's) \<Rightarrow> nat
     \<Rightarrow> bb list \<Rightarrow> (bb \<Rightarrow> NodeState) \<Rightarrow> 's \<Rightarrow> visit_error + (bb \<Rightarrow> NodeState) \<times> 's" where
  "visit_queue sx px visitBB 0 q vis s = Inl Out_of_fuel"
| "visit_queue sx px visitBB (Suc n) [] vis s = Inr (vis, s)"
| "visit_queue sx px visitBB (Suc n) (BB # q) vis s =
     (if \<not> (\<forall>x\<in>set (sx BB). vis x = VISITED) then visit_queue sx px visitBB n (q @ [BB]) vis s
      else case px BB of
        None \<Rightarrow> Inl Bad_iterator
      | Some ps \<Rightarrow>
          let (q', vis') = fold EnqueueBB ps (q, vis(BB := VISITED))
          in visit_queue sx px visitBB n q' vis' (visitBB BB s))"

definition exits_of :: "cfg \<Rightarrow> bb list" where
  "exits_of G = filter (\<lambda>b. succs G b = []) (blocks_of G)"

definition Visit_cfg ::
  "cfg \<Rightarrow> (bb \<Rightarrow> loop option) \<Rightarrow> LoopAggregationInfo \<Rightarrow> (bb \<Rightarrow> bool \<Rightarrow> 's \<Rightarrow> 's) \<Rightarrow> nat \<Rightarrow> 's
     \<Rightarrow> visit_error + (bb \<Rightarrow> NodeState) \<times> 's" where
  "Visit_cfg G LI Res visitBB fuel s =
     visit_queue (visit_succs G Res) (visit_preds G LI Res) (\<lambda>b. visitBB b (is_loop_header Res b)) fuel
       (exits_of G) (\<lambda>b. if b \<in> set (exits_of G) then PUSHED else UNVISITED) s"

section \<open>The block visitor ends and visits every block once\<close>

lemma fold_EnqueueBB:
  "\<exists>new. fold EnqueueBB ps (q, vis) = (q @ new, \<lambda>b. if b \<in> set new then PUSHED else vis b)
     \<and> distinct new \<and> set new = {p \<in> set ps. vis p = UNVISITED}"
proof (induction ps arbitrary: q vis)
  case Nil
  show ?case by auto
next
  case (Cons p ps)
  show ?case
  proof (cases "vis p = UNVISITED")
    case True
    obtain new where new: "fold EnqueueBB ps (q @ [p], vis(p := PUSHED))
        = ((q @ [p]) @ new, \<lambda>b. if b \<in> set new then PUSHED else (vis(p := PUSHED)) b)"
      "distinct new" "set new = {x \<in> set ps. (vis(p := PUSHED)) x = UNVISITED}"
      using Cons by blast
    have step: "EnqueueBB p (q, vis) = (q @ [p], vis(p := PUSHED))"
      using True by (simp add: EnqueueBB_def)
    have upd: "(\<lambda>b. if b \<in> set new then PUSHED else (vis(p := PUSHED)) b)
        = (\<lambda>b. if b \<in> set (p # new) then PUSHED else vis b)"
      by auto
    have "fold EnqueueBB (p # ps) (q, vis)
        = (q @ (p # new), \<lambda>b. if b \<in> set (p # new) then PUSHED else vis b)"
      using new(1) by (simp add: step upd del: fun_upd_apply)
    moreover have "distinct (p # new)" "set (p # new) = {x \<in> set (p # ps). vis x = UNVISITED}"
      using True new(2,3) by auto
    ultimately show ?thesis by blast
  next
    case False
    then show ?thesis
      using Cons [of q vis] by (auto simp: EnqueueBB_def)
  qed
qed

text \<open>
  The graphs the visit is made for: the blocks \<open>V\<close>, on which loops seen as
  their header leave no cycle (\<open>rank\<close> decreases along the successors), whose
  successors and predecessors agree, and in which every block without
  successor is an exit the queue starts with.
\<close>

definition traversable ::
  "bb list \<Rightarrow> (bb \<Rightarrow> nat) \<Rightarrow> (bb \<Rightarrow> bb list) \<Rightarrow> (bb \<Rightarrow> bb list option) \<Rightarrow> bb list \<Rightarrow> bool" where
  "traversable V rank sx px exits \<longleftrightarrow>
     (\<forall>b\<in>set V. \<forall>x\<in>set (sx b). x \<in> set V \<and> rank x < rank b
         \<and> b \<in> set (the (px x))) \<and>
     (\<forall>b\<in>set V. px b \<noteq> None \<and> set (the (px b)) \<subseteq> set V) \<and>
     distinct exits \<and> set exits \<subseteq> set V \<and> (\<forall>b\<in>set V. sx b = [] \<longrightarrow> b \<in> set exits)"

fun after_succs :: "(bb \<Rightarrow> bb list) \<Rightarrow> bb list \<Rightarrow> bool" where
  "after_succs sx [] \<longleftrightarrow> True"
| "after_succs sx (b # bs) \<longleftrightarrow> set (sx b) \<subseteq> set bs \<and> after_succs sx bs"

lemma traversable_succ:
  assumes "traversable V rank sx px exits" "b \<in> set V" "x \<in> set (sx b)"
  shows "x \<in> set V" "rank x < rank b" "px x = Some ps \<Longrightarrow> b \<in> set ps"
  using assms unfolding traversable_def by (blast, blast, metis option.sel)

lemma traversable_pred:
  assumes "traversable V rank sx px exits" "b \<in> set V"
  obtains ps where "px b = Some ps" "set ps \<subseteq> set V"
  using assms unfolding traversable_def by (metis option.collapse)

text \<open>The invariant of the queue loop; \<open>d\<close> is the list of visited blocks, last first.\<close>

definition queue_inv ::
  "bb list \<Rightarrow> (bb \<Rightarrow> bb list) \<Rightarrow> bb list \<Rightarrow> (bb \<Rightarrow> NodeState) \<Rightarrow> bb list \<Rightarrow> bool" where
  "queue_inv V sx q vis d \<longleftrightarrow>
     distinct (d @ q) \<and> set d \<union> set q \<subseteq> set V \<and> after_succs sx d \<and>
     (\<forall>b. vis b = VISITED \<longleftrightarrow> b \<in> set d) \<and> (\<forall>b. vis b = PUSHED \<longleftrightarrow> b \<in> set q) \<and>
     (\<forall>b\<in>set V. vis b = UNVISITED \<longrightarrow> sx b \<noteq> [] \<and> (\<forall>x\<in>set (sx b). x \<notin> set d))"

definition ready :: "(bb \<Rightarrow> bb list) \<Rightarrow> bb list \<Rightarrow> bb \<Rightarrow> bool" where
  "ready sx d b \<longleftrightarrow> set (sx b) \<subseteq> set d"

lemma queue_invD:
  assumes "queue_inv V sx q vis d"
  shows "distinct (d @ q)" "set d \<subseteq> set V" "set q \<subseteq> set V" "after_succs sx d"
    "vis b = VISITED \<longleftrightarrow> b \<in> set d" "vis b = PUSHED \<longleftrightarrow> b \<in> set q"
    "b \<in> set V \<Longrightarrow> vis b = UNVISITED \<Longrightarrow> sx b \<noteq> []"
    "b \<in> set V \<Longrightarrow> vis b = UNVISITED \<Longrightarrow> x \<in> set (sx b) \<Longrightarrow> x \<notin> set d"
  using assms by (simp_all add: queue_inv_def)

lemma queue_inv_progress:
  assumes T: "traversable V rank sx px exits" and I: "queue_inv V sx q vis d" and "set d \<noteq> set V"
  shows "\<exists>b\<in>set q. ready sx d b"
proof -
  have "\<exists>b. b \<in> set V - set d"
    using queue_invD(2) [OF I] assms(3) by blast
  then obtain b where b: "b \<in> set V - set d" "\<forall>x. x \<in> set V - set d \<longrightarrow> rank b \<le> rank x"
    using ex_has_least_nat [of "\<lambda>x. x \<in> set V - set d" _ rank] by blast
  have r: "set (sx b) \<subseteq> set d"
  proof
    fix x assume x: "x \<in> set (sx b)"
    show "x \<in> set d"
      using traversable_succ(1,2) [OF T _ x] b by force
  qed
  have "vis b = PUSHED"
  proof (cases "vis b")
    case UNVISITED
    then have "sx b \<noteq> []" "\<forall>x\<in>set (sx b). x \<notin> set d"
      using queue_invD(7,8) [OF I] b by blast+
    with r show ?thesis by (cases "sx b") auto
  qed (use queue_invD(5) [OF I] b in auto)
  then have "b \<in> set q"
    using queue_invD(6) [OF I] by blast
  with r show ?thesis
    unfolding ready_def by blast
qed

lemma queue_inv_rotate: "queue_inv V sx (b # q) vis d \<Longrightarrow> queue_inv V sx (q @ [b]) vis d"
  by (auto simp: queue_inv_def)

lemma queue_inv_visit:
  assumes T: "traversable V rank sx px exits" and I: "queue_inv V sx (b # q) vis d" and r: "ready sx d b"
    and ps: "px b = Some ps"
    and new: "distinct new" "set new = {p \<in> set ps. (vis(b := VISITED)) p = UNVISITED}"
  shows "queue_inv V sx (q @ new) (\<lambda>x. if x \<in> set new then PUSHED else (vis(b := VISITED)) x) (b # d)"
proof -
  note D = queue_invD [OF I]
  have V: "b \<in> set V" "set ps \<subseteq> set V"
    using D(3) traversable_pred [OF T, of b] ps by auto
  have n: "x \<noteq> b \<and> vis x = UNVISITED" if "x \<in> set new" for x
    using that new(2) by (auto split: if_splits)
  have fresh: "set new \<inter> set d = {}" "set new \<inter> set (b # q) = {}"
    using n D(5) D(6) by (metis NodeState.distinct(1,3) disjoint_iff)+
  have 1: "distinct ((b # d) @ q @ new)"
    using D(1) new(1) fresh by auto
  have 2: "set (b # d) \<union> set (q @ new) \<subseteq> set V"
    using D(2,3) V new(2) by auto
  have 3: "after_succs sx (b # d)"
    using D(4) r by (simp add: ready_def)
  let ?vis = "\<lambda>x. if x \<in> set new then PUSHED else (vis(b := VISITED)) x"
  have 4: "?vis x = VISITED \<longleftrightarrow> x \<in> set (b # d)" for x
    using D(5) [of x] fresh by auto
  have 5: "?vis x = PUSHED \<longleftrightarrow> x \<in> set (q @ new)" for x
    using D(6) [of x] D(1) by auto
  have 6: "sx x \<noteq> [] \<and> (\<forall>y\<in>set (sx x). y \<notin> set (b # d))" if x: "x \<in> set V" "?vis x = UNVISITED" for x
  proof -
    have u: "vis x = UNVISITED" "x \<notin> set new" "x \<noteq> b"
      using x(2) by (auto split: if_splits)
    then have "x \<notin> set ps"
      using new(2) by auto
    then have "b \<notin> set (sx x)"
      using traversable_succ(3) [OF T x(1) _ ps] by blast
    then show ?thesis
      using D(7,8) [OF x(1) u(1)] by auto
  qed
  from 1 2 3 4 5 6 show ?thesis by (simp add: queue_inv_def)
qed

definition queue_measure :: "bb list \<Rightarrow> (bb \<Rightarrow> bb list) \<Rightarrow> bb list \<Rightarrow> bb list \<Rightarrow> nat" where
  "queue_measure V sx q d =
     card (set V - set d) * (card (set V) + 1) + length (takeWhile (\<lambda>b. \<not> ready sx d b) q)"

lemma measure_rotate:
  assumes "\<not> ready sx d b" "\<exists>x\<in>set q. ready sx d x"
  shows "queue_measure V sx (q @ [b]) d < queue_measure V sx (b # q) d"
  using assms by (auto simp: queue_measure_def takeWhile_append)

lemma measure_visit:
  assumes "queue_inv V sx (q @ new) vis' (b # d)" "b \<in> set V" "b \<notin> set d"
  shows "queue_measure V sx (q @ new) (b # d) < queue_measure V sx (b # q) d"
proof -
  let ?n = "card (set V) + 1"
  have "length (takeWhile (\<lambda>x. \<not> ready sx (b # d) x) (q @ new)) \<le> length (q @ new)"
    by (rule length_takeWhile_le)
  also have "\<dots> = card (set (q @ new))"
    using assms(1) distinct_card [of "q @ new"] by (simp add: queue_inv_def)
  also have "\<dots> \<le> card (set V)"
    using assms(1) by (intro card_mono) (auto simp: queue_inv_def)
  finally have *: "length (takeWhile (\<lambda>x. \<not> ready sx (b # d) x) (q @ new)) < ?n" by simp
  have "set V - set d = insert b (set V - set (b # d))" "b \<notin> set V - set (b # d)"
    using assms by auto
  then have "card (set V - set d) = Suc (card (set V - set (b # d)))"
    by (metis card_insert_disjoint finite_Diff finite_set)
  with * show ?thesis by (simp add: queue_measure_def)
qed

lemma visit_queue_correct:
  assumes T: "traversable V rank sx px exits"
  shows "queue_inv V sx q vis d \<Longrightarrow> queue_measure V sx q d < n \<Longrightarrow>
    \<exists>order vis'. visit_queue sx px f n q vis s = Inr (vis', fold f order s) \<and>
      queue_inv V sx [] vis' (rev order @ d) \<and> set (order @ d) = set V"
proof (induction n arbitrary: q vis d s)
  case 0
  then show ?case by simp
next
  case (Suc n)
  show ?case
  proof (cases q)
    case Nil
    then have "set d = set V"
      using queue_inv_progress [OF T Suc.prems(1)] by auto
    with Nil Suc.prems show ?thesis by (intro exI [of _ "[]"]) auto
  next
    case (Cons b q')
    note I = Suc.prems(1) [unfolded Cons]
    have b: "b \<in> set V" "b \<notin> set d"
      using I by (auto simp: queue_inv_def)
    have cond: "(\<forall>x\<in>set (sx b). vis x = VISITED) \<longleftrightarrow> ready sx d b"
      using I by (auto simp: queue_inv_def ready_def)
    show ?thesis
    proof (cases "ready sx d b")
      case False
      have "\<exists>x\<in>set q'. ready sx d x"
        using queue_inv_progress [OF T I] b False by auto
      from measure_rotate [OF False this] Suc.prems(2)
      have "queue_measure V sx (q' @ [b]) d < n"
        unfolding Cons by (metis less_Suc_eq less_trans_Suc not_less_eq)
      with Suc.IH [OF queue_inv_rotate [OF I]] False show ?thesis
        by (simp add: Cons cond)
    next
      case True
      obtain ps where ps: "px b = Some ps"
        using traversable_pred [OF T b(1)] by blast
      obtain new where new: "fold EnqueueBB ps (q', vis(b := VISITED))
          = (q' @ new, \<lambda>x. if x \<in> set new then PUSHED else (vis(b := VISITED)) x)"
        "distinct new" "set new = {p \<in> set ps. (vis(b := VISITED)) p = UNVISITED}"
        using fold_EnqueueBB by blast
      note I' = queue_inv_visit [OF T I True ps new(2,3)]
      from measure_visit [OF I' b] Suc.prems(2)
      have "queue_measure V sx (q' @ new) (b # d) < n"
        unfolding Cons by simp
      from Suc.IH [OF I' this, of "f b s"] obtain order vis' where
        ord: "visit_queue sx px f n (q' @ new) (\<lambda>x. if x \<in> set new then PUSHED else (vis(b := VISITED)) x) (f b s)
              = Inr (vis', fold f order (f b s))"
          "queue_inv V sx [] vis' (rev order @ b # d)" "set (order @ b # d) = set V"
        by blast
      have "visit_queue sx px f (Suc n) q vis s = Inr (vis', fold f (b # order) s)"
        using True ps new(1) ord(1) unfolding Cons visit_queue.simps cond by simp
      moreover have "queue_inv V sx [] vis' (rev (b # order) @ d)" "set ((b # order) @ d) = set V"
        using ord(2,3) by auto
      ultimately show ?thesis by blast
    qed
  qed
qed

lemma queue_inv_start:
  assumes "traversable V rank sx px exits"
  shows "queue_inv V sx exits (\<lambda>b. if b \<in> set exits then PUSHED else UNVISITED) []"
  using assms by (auto simp: queue_inv_def traversable_def)

lemma queue_measure_start:
  assumes "traversable V rank sx px exits"
  shows "queue_measure V sx exits [] < (card (set V) + 1) ^ 2"
proof -
  have "length (takeWhile (\<lambda>b. \<not> ready sx [] b) exits) \<le> length exits"
    by (rule length_takeWhile_le)
  also have "\<dots> = card (set exits)"
    using assms distinct_card [of exits] by (simp add: traversable_def)
  also have "\<dots> \<le> card (set V)"
    using assms by (intro card_mono) (auto simp: traversable_def)
  finally show ?thesis
    by (simp add: queue_measure_def power2_eq_square)
qed

lemma visit_cfg_order:
  assumes "traversable V rank (visit_succs G Res) (visit_preds G LI Res) (exits_of G)"
    and "(card (set V) + 1) ^ 2 \<le> fuel"
  shows "\<exists>order vis. Visit_cfg G LI Res f fuel s
           = Inr (vis, fold (\<lambda>b. f b (is_loop_header Res b)) order s) \<and>
         distinct order \<and> set order = set V \<and> after_succs (visit_succs G Res) (rev order)"
proof -
  have "queue_measure V (visit_succs G Res) (exits_of G) [] < fuel"
    using queue_measure_start [OF assms(1)] assms(2) by linarith
  from visit_queue_correct [OF assms(1) queue_inv_start [OF assms(1)] this,
      of "\<lambda>b. f b (is_loop_header Res b)" s]
  show ?thesis
    unfolding Visit_cfg_def queue_inv_def by fastforce
qed

text \<open>C35: On a function whose blocks, with each loop collapsed to its header, form an acyclic
  graph with matching predecessors, \<open>CFGVisitor::Visit\<close> ends: a number of queue steps
  quadratic in the number of blocks is enough, although a block whose successors are not done
  is pushed back. It visits every block exactly once, and each block after all its
  successors, so that the collective lists of the successors are known when a block is
  visited.\<close>

theorem visit_cfg_complete:
  assumes "traversable V rank (visit_succs G Res) (visit_preds G LI Res) (exits_of G)"
    and "(card (set V) + 1) ^ 2 \<le> fuel"
  shows "\<exists>order vis. Visit_cfg G LI Res f fuel s
           = Inr (vis, fold (\<lambda>b. f b (is_loop_header Res b)) order s) \<and>
         distinct order \<and> set order = set V \<and> after_succs (visit_succs G Res) (rev order)"
  using visit_cfg_order [OF assms] .

text \<open>A function with one loop: block 0 enters the loop of header 1 and body 2, which leaves
  to block 3. The loop visitor gives the loop its successor 3.\<close>

definition demo_cfg :: cfg where
  "demo_cfg = \<lparr>succs = (\<lambda>b. if b = 0 then [1] else if b = 1 then [2, 3] else if b = 2 then [1] else []),
     preds = (\<lambda>b. if b = 1 then [0, 2] else if b = 2 then [1] else if b = 3 then [1] else []),
     blocks_of = [0, 1, 2, 3]\<rparr>"

definition demo_loop :: loop where
  "demo_loop = Loop 1 [1, 2] [] (Some (0, 2))"

definition demo_LI :: "bb \<Rightarrow> loop option" where
  "demo_LI b = (if b = 1 \<or> b = 2 then Some demo_loop else None)"

definition demo_Res :: LoopAggregationInfo where
  "demo_Res = \<lparr>LoopHeaderToSuccessors = [(1, [3])], LoopHeaderToIncomingBlock = [1 \<mapsto> 0],
     LoopSuccessorToLoopHeader = [3 \<mapsto> 1]\<rparr>"

lemma demo_loops:
  "Visit_loops demo_cfg demo_LI [demo_loop] (\<lambda>L b lai s. s @ [b]) (\<lambda>L s. s) 5 [] = Inr (demo_Res, [1, 2])"
  by (simp add: Visit_loops_def demo_cfg_def demo_loop_def demo_LI_def demo_Res_def LAI_clear_def
      EnqueueBB_loop_def contains_def header_succs_def set_vector_insert_def ComputeReversedMap_def
      eval_nat_numeral)

theorem visit_cfg_complete_witness:
  "\<exists>order vis. Visit_cfg demo_cfg demo_LI demo_Res (\<lambda>b h s. s @ [(b, h)]) 16 []
      = Inr (vis, fold (\<lambda>b s. s @ [(b, is_loop_header demo_Res b)]) order []) \<and>
     distinct order \<and> set order = set [0, 1, 3] \<and> after_succs (visit_succs demo_cfg demo_Res) (rev order)"
proof (rule visit_cfg_complete [where rank = "\<lambda>b. if b = 0 then 2 else if b = 1 then 1 else 0"])
  show "traversable [0, 1, 3] (\<lambda>b. if b = 0 then 2 else if b = 1 then 1 else 0)
     (visit_succs demo_cfg demo_Res) (visit_preds demo_cfg demo_LI demo_Res) (exits_of demo_cfg)"
    by (simp add: traversable_def visit_succs_def visit_preds_def is_loop_header_def header_succs_def
        exits_of_def demo_cfg_def demo_Res_def demo_LI_def demo_loop_def contains_def)
qed (simp add: power2_eq_square)

section \<open>The loop visitor does not end on some nested loops\<close>

text \<open>A queue in which every block waits for a predecessor that is neither visited nor queued
  is rotated for ever.\<close>

definition waits :: "cfg \<Rightarrow> LoopAggregationInfo \<Rightarrow> (bb \<Rightarrow> NodeState) \<Rightarrow> bb \<Rightarrow> bool" where
  "waits G lai vis b \<longleftrightarrow>
     LoopHeaderToIncomingBlock lai b = None \<and> (\<exists>p\<in>set (preds G b). vis p \<noteq> VISITED)"

lemma loop_bfs_stuck:
  "q \<noteq> [] \<Longrightarrow> \<forall>b\<in>set q. waits G lai vis b \<Longrightarrow> loop_bfs G LI visitBB L n q vis lai s = Inl Out_of_fuel"
proof (induction n arbitrary: q)
  case 0
  show ?case by simp
next
  case (Suc n)
  then obtain b q' where "q = b # q'" "waits G lai vis b" by (cases q) auto
  with Suc show ?case by (auto simp: waits_def)
qed

text \<open>An outer loop of header 1 and latch 4 whose body is a do-while loop: header 2, latch 3,
  left from 3 to 4.\<close>

definition nested_cfg :: cfg where
  "nested_cfg = \<lparr>succs = (\<lambda>b. if b = 0 then [1] else if b = 1 then [2, 5] else if b = 2 then [3]
        else if b = 3 then [2, 4] else if b = 4 then [1] else []),
     preds = (\<lambda>b. if b = 1 then [0, 4] else if b = 2 then [1, 3] else if b = 3 then [2]
        else if b = 4 then [3] else if b = 5 then [1] else []),
     blocks_of = [0, 1, 2, 3, 4, 5]\<rparr>"

definition inner_loop :: loop where
  "inner_loop = Loop 2 [2, 3] [] (Some (1, 3))"

definition outer_loop :: loop where
  "outer_loop = Loop 1 [1, 2, 3, 4] [inner_loop] (Some (0, 4))"

definition nested_LI :: "bb \<Rightarrow> loop option" where
  "nested_LI b = (if b = 2 \<or> b = 3 then Some inner_loop else if b = 1 \<or> b = 4 then Some outer_loop else None)"

lemma inner_loop_bfs:
  "loop_bfs nested_cfg nested_LI f inner_loop n [2] ((\<lambda>_. UNVISITED)(2 := PUSHED))
     \<lparr>LoopHeaderToSuccessors = [(2, [])], LoopHeaderToIncomingBlock = [2 \<mapsto> 1],
      LoopSuccessorToLoopHeader = Map.empty\<rparr> s
   = (if n < 3 then Inl Out_of_fuel
      else Inr (\<lparr>LoopHeaderToSuccessors = [(2, [4])], LoopHeaderToIncomingBlock = [2 \<mapsto> 1],
                 LoopSuccessorToLoopHeader = Map.empty\<rparr>,
        f inner_loop 3 \<lparr>LoopHeaderToSuccessors = [(2, [])], LoopHeaderToIncomingBlock = [2 \<mapsto> 1],
                 LoopSuccessorToLoopHeader = Map.empty\<rparr>
         (f inner_loop 2 \<lparr>LoopHeaderToSuccessors = [(2, [])], LoopHeaderToIncomingBlock = [2 \<mapsto> 1],
                 LoopSuccessorToLoopHeader = Map.empty\<rparr> s)))"
proof -
  consider "n = 0" | "n = 1" | "n = 2" | m where "n = Suc (Suc (Suc m))"
    by (metis One_nat_def Suc_1 not0_implies_Suc)
  then show ?thesis
    by cases (simp_all add: nested_cfg_def nested_LI_def inner_loop_def outer_loop_def EnqueueBB_loop_def contains_def
        header_succs_def set_vector_insert_def numeral_2_eq_2)
qed

lemma outer_loop_stuck:
  "loop_bfs nested_cfg nested_LI f outer_loop n [1] ((\<lambda>_. UNVISITED)(1 := PUSHED))
     \<lparr>LoopHeaderToSuccessors = [(2, [4]), (1, [])], LoopHeaderToIncomingBlock = [2 \<mapsto> 1, 1 \<mapsto> 0],
      LoopSuccessorToLoopHeader = Map.empty\<rparr> s = Inl Out_of_fuel"
proof -
  consider "n = 0" | "n = 1" | m where "n = Suc (Suc m)"
    by (metis One_nat_def not0_implies_Suc)
  then show ?thesis
  proof cases
    case 3
    then show ?thesis
      by (simp add: nested_LI_def inner_loop_def outer_loop_def EnqueueBB_loop_def contains_def
          header_succs_def set_vector_insert_def loop_bfs_stuck waits_def nested_cfg_def)
  qed (simp_all add: nested_cfg_def nested_LI_def inner_loop_def outer_loop_def EnqueueBB_loop_def contains_def
        header_succs_def set_vector_insert_def)
qed

text \<open>C37: \<open>LoopVisitor::Visit\<close> does not end on a do-while loop nested in another loop, whatever
  the visitor does: the block the inner loop leaves to waits for its predecessor, the latch
  of the inner loop, which the visit of the outer loop never visits, since it jumps from the
  header of the inner loop to the successors of the loop. No amount of fuel is enough.\<close>

theorem nested_loop_visit_diverges:
  "Visit_loops nested_cfg nested_LI [outer_loop] visitBB endOfLoop fuel s = Inl Out_of_fuel"
proof -
  have h: "\<exists>s'. Visit_loop nested_cfg nested_LI visitBB endOfLoop fuel inner_loop (LAI_clear, s) = Inl Out_of_fuel
    \<or> Visit_loop nested_cfg nested_LI visitBB endOfLoop fuel inner_loop (LAI_clear, s)
      = Inr (\<lparr>LoopHeaderToSuccessors = [(2, [4])], LoopHeaderToIncomingBlock = [2 \<mapsto> 1],
              LoopSuccessorToLoopHeader = Map.empty\<rparr>, s')"
    using inner_loop_bfs [of visitBB fuel s]
    by (simp add: inner_loop_def LAI_clear_def split: if_splits)
  then obtain s' where
    "Visit_loop nested_cfg nested_LI visitBB endOfLoop fuel inner_loop (LAI_clear, s) = Inl Out_of_fuel
    \<or> Visit_loop nested_cfg nested_LI visitBB endOfLoop fuel inner_loop (LAI_clear, s)
      = Inr (\<lparr>LoopHeaderToSuccessors = [(2, [4])], LoopHeaderToIncomingBlock = [2 \<mapsto> 1],
              LoopSuccessorToLoopHeader = Map.empty\<rparr>, s')" by blast
  then have "Visit_loop nested_cfg nested_LI visitBB endOfLoop fuel outer_loop (LAI_clear, s) = Inl Out_of_fuel"
    using outer_loop_stuck [of visitBB fuel s'] by (auto simp: outer_loop_def)
  then show ?thesis by (simp add: Visit_loops_def)
qed

end
