(* ===== verification/RMA_Instrument.thy ===== *)
theory RMA_Instrument
  imports CFG_Visitor
begin

text \<open>
  The pass that prepares a function for the run-time library
  (\<open>src/src/rma/RMAInstrumentation.cpp\<close>) and its statistics
  (\<open>RMAStatisticsAnalysis.cpp\<close>): calls of MPI are replaced by calls of the
  wrappers, and loads and stores in epochs are preceded by a call that
  records them.

  An instruction is its number, its operation and its debug location. The inserted
  calls return nothing, so nothing refers to them and they have no number; a replaced
  call keeps the number, since all uses are redirected to it. Calls and invokes are told apart because the pass
  replaces calls only. Reading the erased call after its replacement is
  undefined; here it is neither a store nor a load.
\<close>

section \<open>Code\<close>

datatype rval = Val nat | Int64 u64 | Int32 i32 | Str string | NullValue

datatype rop =
    RCall "string option" "rval list"
  | RInvoke "string option" "rval list"
  | RStore rval u64
  | RLoad rval u64
  | ROther

text \<open>A call has the name of its callee when it is direct; a store and a load have their pointer and
  the size of the accessed type in bits.\<close>

record rinst =
  ri_id :: "nat option"
  ri_op :: rop
  ri_dbg :: "(i32 \<times> string) option"

definition call_name :: "rinst \<Rightarrow> string option" where
  "call_name I = (case ri_op I of RCall f args \<Rightarrow> f | RInvoke f args \<Rightarrow> f | _ \<Rightarrow> None)"

section \<open>Statistics\<close>

record Statistics =
  sGet :: nat
  sPut :: nat
  sAcc :: nat
  sWin :: nat
  sFree :: nat
  sFence :: nat
  sFlush :: nat
  sLock :: nat
  sLockall :: nat
  sUnlock :: nat
  sUnlockall :: nat
  sBarrier :: nat
  sMpi :: nat

definition no_statistics :: Statistics where
  "no_statistics = \<lparr>sGet = 0, sPut = 0, sAcc = 0, sWin = 0, sFree = 0, sFence = 0, sFlush = 0, sLock = 0, sLockall = 0,
     sUnlock = 0, sUnlockall = 0, sBarrier = 0, sMpi = 0\<rparr>"

definition CountMPIfuncs :: "string \<Rightarrow> Statistics \<Rightarrow> Statistics" where
  "CountMPIfuncs FName Res =
     (if FName = ''MPI_Get'' \<or> FName = ''mpi_get_'' then Res\<lparr>sGet := Suc (sGet Res)\<rparr>
      else if FName = ''MPI_Put'' \<or> FName = ''mpi_put_'' then Res\<lparr>sPut := Suc (sPut Res)\<rparr>
      else if FName = ''MPI_Win_create'' \<or> FName = ''mpi_win_create_'' then Res\<lparr>sWin := Suc (sWin Res)\<rparr>
      else if FName = ''MPI_Win_allocate'' \<or> FName = ''mpi_win_allocate_'' then Res\<lparr>sWin := Suc (sWin Res)\<rparr>
      else if FName = ''MPI_Accumulate'' \<or> FName = ''mpi_accumulate_'' then Res\<lparr>sAcc := Suc (sAcc Res)\<rparr>
      else if FName = ''MPI_Win_fence'' \<or> FName = ''mpi_win_fence_'' then Res\<lparr>sFence := Suc (sFence Res)\<rparr>
      else if FName = ''MPI_Win_flush'' \<or> FName = ''mpi_win_flush_'' then Res\<lparr>sFlush := Suc (sFlush Res)\<rparr>
      else if FName = ''MPI_Win_lock'' \<or> FName = ''mpi_win_lock_'' then Res\<lparr>sLock := Suc (sLock Res)\<rparr>
      else if FName = ''MPI_Win_unlock'' \<or> FName = ''mpi_win_unlock_'' then Res\<lparr>sUnlock := Suc (sUnlock Res)\<rparr>
      else if FName = ''MPI_Win_unlock_all'' \<or> FName = ''mpi_win_unlock_all_'' then Res\<lparr>sUnlockall := Suc (sUnlockall Res)\<rparr>
      else if FName = ''MPI_Win_lock_all'' \<or> FName = ''mpi_win_lock_all_'' then Res\<lparr>sLockall := Suc (sLockall Res)\<rparr>
      else if FName = ''MPI_Win_free'' \<or> FName = ''mpi_win_free_'' then Res\<lparr>sFree := Suc (sFree Res)\<rparr>
      else if FName = ''MPI_Barrier'' \<or> FName = ''mpi_barrier_'' then Res\<lparr>sBarrier := Suc (sBarrier Res)\<rparr>
      else Res)"

definition RMAStatistics :: "rinst list \<Rightarrow> Statistics" where
  "RMAStatistics Is = fold (\<lambda>I Res. case call_name I of
       None \<Rightarrow> Res
     | Some FName \<Rightarrow> if take 4 FName = ''MPI_'' \<or> take 4 FName = ''mpi_''
         then CountMPIfuncs FName (Res\<lparr>sMpi := Suc (sMpi Res)\<rparr>) else Res) Is no_statistics"

definition getTotalRMA :: "Statistics \<Rightarrow> nat" where
  "getTotalRMA s = sWin s + sPut s + sGet s + sFence s + sAcc s + sLock s + sLockall s + sUnlock s + sUnlockall s + sFree s + sFlush s"

definition getTotalOneSided :: "Statistics \<Rightarrow> nat" where
  "getTotalOneSided s = sPut s + sGet s + sAcc s"

lemma one_sided_step: "getTotalOneSided (CountMPIfuncs n s) = getTotalOneSided s +
    (if n \<in> set [''MPI_Get'', ''mpi_get_'', ''MPI_Put'', ''mpi_put_'', ''MPI_Accumulate'', ''mpi_accumulate_''] then 1 else 0)"
  by (simp add: CountMPIfuncs_def getTotalOneSided_def)

text \<open>The count that decides whether a function is analysed: it has a direct call to a one-sided operation.\<close>

lemma one_sided_iff:
  "getTotalOneSided (RMAStatistics Is) \<noteq> 0 \<longleftrightarrow>
     (\<exists>I\<in>set Is. call_name I \<in> Some ` set [''MPI_Get'', ''mpi_get_'', ''MPI_Put'', ''mpi_put_'', ''MPI_Accumulate'', ''mpi_accumulate_''])"
proof -
  let ?N = "[''MPI_Get'', ''mpi_get_'', ''MPI_Put'', ''mpi_put_'', ''MPI_Accumulate'', ''mpi_accumulate_'']"
  let ?f = "\<lambda>I Res. case call_name I of None \<Rightarrow> Res | Some FName \<Rightarrow> if take 4 FName = ''MPI_'' \<or> take 4 FName = ''mpi_''
         then CountMPIfuncs FName (Res\<lparr>sMpi := Suc (sMpi Res)\<rparr>) else Res"
  have same: "getTotalOneSided (s\<lparr>sMpi := k\<rparr>) = getTotalOneSided s" for s k by (simp add: getTotalOneSided_def)
  have "getTotalOneSided (?f I s) = getTotalOneSided s + (if call_name I \<in> Some ` set ?N then 1 else 0)" for I s
    by (cases "call_name I") (auto simp: one_sided_step same)
  then have "getTotalOneSided (fold ?f Is s) = getTotalOneSided s + length (filter (\<lambda>I. call_name I \<in> Some ` set ?N) Is)" for s
    by (induction Is arbitrary: s) auto
  moreover have "getTotalOneSided no_statistics = 0" by (simp add: getTotalOneSided_def no_statistics_def)
  ultimately show ?thesis unfolding RMAStatistics_def by (simp add: filter_empty_conv)
qed

section \<open>Calls\<close>

text \<open>The functions with a wrapper, in C and in Fortran, and whether they change the epoch.\<close>

definition InstrumentedFunctions :: "(string \<times> string \<times> bool) list" where
  "InstrumentedFunctions =
     [(''MPI_Accumulate'', ''mpi_accumulate_'', False), (''MPI_Barrier'', ''mpi_barrier_'', False),
      (''MPI_Get'', ''mpi_get_'', False), (''MPI_Put'', ''mpi_put_'', False),
      (''MPI_Win_create'', ''mpi_win_create_'', False), (''MPI_Win_allocate'', ''mpi_win_allocate_'', False),
      (''MPI_Win_fence'', ''mpi_win_fence_'', True), (''MPI_Win_flush'', ''mpi_win_flush_'', False),
      (''MPI_Win_free'', ''mpi_win_free_'', False), (''MPI_Win_lock'', ''mpi_win_lock_'', True),
      (''MPI_Win_lock_all'', ''mpi_win_lock_all_'', True), (''MPI_Win_unlock'', ''mpi_win_unlock_'', True),
      (''MPI_Win_unlock_all'', ''mpi_win_unlock_all_'', True)]"

definition getInstrumentationInfo :: "string option \<Rightarrow> bool \<times> bool" where
  "getInstrumentationInfo f = (case f of
     None \<Rightarrow> (False, False)
   | Some n \<Rightarrow> (case find (\<lambda>(CName, FName, ChangesEpoch). n = CName \<or> n = FName) InstrumentedFunctions of
        None \<Rightarrow> (False, False) | Some (CName, FName, ChangesEpoch) \<Rightarrow> (True, ChangesEpoch)))"

definition ParcoachPrefix :: string where "ParcoachPrefix = ''parcoach_rma_''"

definition getInstrumentedName :: "string \<Rightarrow> string" where
  "getInstrumentedName f = ParcoachPrefix @ f"

definition location_args :: "(i32 \<times> string) option \<Rightarrow> rval list" where
  "location_args Dbg = (case Dbg of None \<Rightarrow> [Int32 0, Str ''?''] | Some (Line, Filename) \<Rightarrow> [Int32 Line, Str Filename])"

definition createInstrumentedCall :: "rinst \<Rightarrow> string \<Rightarrow> rval list \<Rightarrow> rinst" where
  "createInstrumentedCall CB f Args = CB\<lparr>ri_op := RCall (Some (getInstrumentedName f)) (Args @ location_args (ri_dbg CB))\<rparr>"

definition insertInstrumentationCall :: "rinst \<Rightarrow> rval \<Rightarrow> u64 \<Rightarrow> string \<Rightarrow> rinst" where
  "insertInstrumentationCall I Addr Bits InstName =
     \<lparr>ri_id = None, ri_op = RCall (Some (ParcoachPrefix @ InstName)) ([Addr, Int64 Bits] @ location_args (ri_dbg I)), ri_dbg = ri_dbg I\<rparr>"

section \<open>A block\<close>

record counters =
  CountLoad :: int
  CountStore :: int
  CountInstLoad :: int
  CountInstStore :: int

definition resetCounters :: counters where
  "resetCounters = \<lparr>CountLoad = 0, CountStore = 0, CountInstLoad = 0, CountInstStore = 0\<rparr>"

definition instrument_inst :: "bool \<Rightarrow> rinst \<Rightarrow> rinst list \<times> bool \<times> counters \<Rightarrow> rinst list \<times> bool \<times> counters" where
  "instrument_inst InEpoch I s = (case s of (out, NewEpoch, cs) \<Rightarrow> (case ri_op I of
     RCall (Some f) Args \<Rightarrow> (case getInstrumentationInfo (Some f) of (shouldInstrument, changesEpoch) \<Rightarrow>
       if shouldInstrument then (out @ [createInstrumentedCall I f Args], changesEpoch, cs) else (out @ [I], NewEpoch, cs))
   | RStore Addr Bits \<Rightarrow>
       if InEpoch \<or> NewEpoch
       then (out @ [insertInstrumentationCall I Addr Bits ''store'', I], NewEpoch,
             cs\<lparr>CountInstStore := CountInstStore cs + 1, CountStore := CountStore cs + 1\<rparr>)
       else (out @ [I], NewEpoch, cs\<lparr>CountStore := CountStore cs + 1\<rparr>)
   | RLoad Addr Bits \<Rightarrow>
       if InEpoch \<or> NewEpoch
       then (out @ [insertInstrumentationCall I Addr Bits ''load'', I], NewEpoch,
             cs\<lparr>CountInstLoad := CountInstLoad cs + 1, CountLoad := CountLoad cs + 1\<rparr>)
       else (out @ [I], NewEpoch, cs\<lparr>CountLoad := CountLoad cs + 1\<rparr>)
   | _ \<Rightarrow> (out @ [I], NewEpoch, cs)))"

definition instrumentBb :: "rinst list \<Rightarrow> bool \<Rightarrow> counters \<Rightarrow> rinst list \<times> bool \<times> counters" where
  "instrumentBb Bb InEpoch cs = (case fold (instrument_inst InEpoch) Bb ([], False, cs) of
     (out, NewEpoch, cs') \<Rightarrow> (out, if NewEpoch then \<not> InEpoch else InEpoch, cs'))"

section \<open>A function\<close>

datatype Color = WHITE | GREY | BLACK

datatype instr_error = Instr_out_of_fuel

record instr_state =
  in_code :: "bb \<Rightarrow> rinst list"
  in_color :: "bb \<Rightarrow> Color"
  in_epoch :: bool
  in_queue :: "bb list"
  in_counts :: counters

definition hasWhiteSucc :: "cfg \<Rightarrow> bb \<Rightarrow> instr_state \<Rightarrow> bool" where
  "hasWhiteSucc G BB st = list_ex (\<lambda>Succ. in_color st Succ = WHITE) (succs G BB)"

definition visit_white :: "bb \<Rightarrow> instr_state \<Rightarrow> instr_state" where
  "visit_white Succ st = (if in_color st Succ = WHITE
     then (case instrumentBb (in_code st Succ) (in_epoch st) (in_counts st) of (out, InEpoch, cs) \<Rightarrow>
        st\<lparr>in_queue := Succ # in_queue st, in_code := (in_code st)(Succ := out), in_epoch := InEpoch, in_counts := cs,
           in_color := (in_color st)(Succ := GREY)\<rparr>)
     else st)"

fun instrument_loop :: "cfg \<Rightarrow> nat \<Rightarrow> instr_state \<Rightarrow> instr_error + instr_state" where
  "instrument_loop G k st = (case in_queue st of
     [] \<Rightarrow> Inr st
   | Header # Unvisited \<Rightarrow> (case k of
        0 \<Rightarrow> Inl Instr_out_of_fuel
      | Suc k' \<Rightarrow> instrument_loop G k'
          (if hasWhiteSucc G Header st then fold visit_white (succs G Header) st
           else st\<lparr>in_queue := Unvisited, in_color := (in_color st)(Header := BLACK)\<rparr>)))"

declare instrument_loop.simps [simp del]

definition instrumentMemAccessesIt :: "nat \<Rightarrow> cfg \<Rightarrow> bb \<Rightarrow> (bb \<Rightarrow> rinst list) \<Rightarrow> counters \<Rightarrow> instr_error + instr_state" where
  "instrumentMemAccessesIt fuel G Entry code cs =
     instrument_loop G fuel (visit_white Entry
       \<lparr>in_code = code, in_color = (\<lambda>_. WHITE), in_epoch = False, in_queue = [], in_counts = cs\<rparr>)"

section \<open>The walk\<close>

text \<open>White blocks are as they were, the others are instrumented; grey blocks are on the queue; a
  black block has no white successor.\<close>

definition instrumented :: "rinst list \<Rightarrow> rinst list \<Rightarrow> bool" where
  "instrumented Bb out \<longleftrightarrow> (\<exists>InEpoch cs. out = fst (instrumentBb Bb InEpoch cs))"

definition walk_inv :: "cfg \<Rightarrow> bb \<Rightarrow> (bb \<Rightarrow> rinst list) \<Rightarrow> instr_state \<Rightarrow> bool" where
  "walk_inv G Entry code st \<longleftrightarrow>
     (\<forall>b. in_color st b = WHITE \<longrightarrow> in_code st b = code b) \<and> (\<forall>b. in_color st b \<noteq> WHITE \<longrightarrow> instrumented (code b) (in_code st b)) \<and>
     (\<forall>b. in_color st b \<noteq> WHITE \<longrightarrow> (Entry, b) \<in> {(x, y). y \<in> set (succs G x)}\<^sup>*) \<and>
     (\<forall>b. in_color st b = GREY \<longrightarrow> b \<in> set (in_queue st)) \<and> (\<forall>b\<in>set (in_queue st). in_color st b \<noteq> WHITE) \<and>
     (\<forall>b. in_color st b = BLACK \<longrightarrow> (\<forall>y\<in>set (succs G b). in_color st y \<noteq> WHITE))"

definition whites :: "bb set \<Rightarrow> instr_state \<Rightarrow> nat" where
  "whites V st = card {b \<in> V. in_color st b = WHITE}"

definition todo :: "bb set \<Rightarrow> instr_state \<Rightarrow> nat" where
  "todo V st = 2 * whites V st + length (in_queue st)"

lemma visit_white_inv:
  assumes "walk_inv G Entry code st" "(Entry, b) \<in> {(x, y). y \<in> set (succs G x)}\<^sup>*"
  shows "walk_inv G Entry code (visit_white b st)"
proof (cases "in_color st b = WHITE")
  case True
  obtain out InEpoch cs where i: "instrumentBb (in_code st b) (in_epoch st) (in_counts st) = (out, InEpoch, cs)"
    by (metis prod_cases3)
  have "in_code st b = code b" using assms(1) True by (simp add: walk_inv_def)
  then have "instrumented (code b) out" using i unfolding instrumented_def by (metis fst_conv)
  then show ?thesis using True assms i by (auto simp: visit_white_def walk_inv_def)
next
  case False
  then show ?thesis using assms(1) by (simp add: visit_white_def)
qed

lemma visit_whites_inv:
  assumes "walk_inv G Entry code st" "\<forall>b\<in>set bs. (Entry, b) \<in> {(x, y). y \<in> set (succs G x)}\<^sup>*"
  shows "walk_inv G Entry code (fold visit_white bs st)"
  using assms by (induction bs arbitrary: st) (simp_all add: visit_white_inv)

lemma visit_whites_color: "in_color st x \<noteq> WHITE \<Longrightarrow> in_color (fold visit_white bs st) x \<noteq> WHITE"
  by (induction bs arbitrary: st) (auto simp: visit_white_def split: prod.splits)

lemma visit_white_todo:
  assumes "finite V" "b \<in> V"
  shows "todo V (visit_white b st) \<le> todo V st \<and> (in_color st b = WHITE \<longrightarrow> todo V (visit_white b st) < todo V st)"
proof (cases "in_color st b = WHITE")
  case True
  have "{x \<in> V. x \<noteq> b \<and> in_color st x = WHITE} = {x \<in> V. in_color st x = WHITE} - {b}" by auto
  then have "card {x \<in> V. x \<noteq> b \<and> in_color st x = WHITE} < card {x \<in> V. in_color st x = WHITE}"
    using assms True by (intro psubset_card_mono) auto
  moreover have "{x \<in> V. ((in_color st)(b := GREY)) x = WHITE} = {x \<in> V. x \<noteq> b \<and> in_color st x = WHITE}" by auto
  ultimately show ?thesis using True by (simp add: todo_def whites_def visit_white_def split: prod.splits)
qed (simp add: visit_white_def)

lemma visit_whites_todo:
  assumes "finite V" "set bs \<subseteq> V"
  shows "todo V (fold visit_white bs st) \<le> todo V st \<and> ((\<exists>b\<in>set bs. in_color st b = WHITE) \<longrightarrow> todo V (fold visit_white bs st) < todo V st)"
  using assms(2)
proof (induction bs arbitrary: st)
  case (Cons b bs)
  have "b \<in> V" using Cons.prems by simp
  note step = visit_white_todo [OF assms(1) this, of st]
  show ?case
  proof (cases "in_color st b = WHITE")
    case True
    then show ?thesis using step Cons.IH [of "visit_white b st"] Cons.prems by auto
  next
    case False
    then have "visit_white b st = st" by (simp add: visit_white_def)
    then show ?thesis using False Cons.IH [of st] Cons.prems by simp
  qed
qed simp

lemma instrument_loop_ends:
  assumes V: "finite V" "\<And>x. x \<in> V \<Longrightarrow> set (succs G x) \<subseteq> V" and sub: "{b. (Entry, b) \<in> {(x, y). y \<in> set (succs G x)}\<^sup>*} \<subseteq> V"
  shows "walk_inv G Entry code st \<Longrightarrow> todo V st \<le> k \<Longrightarrow> \<exists>st'. instrument_loop G k st = Inr st' \<and> walk_inv G Entry code st' \<and> in_queue st' = [] \<and>
    (\<forall>x. in_color st x \<noteq> WHITE \<longrightarrow> in_color st' x \<noteq> WHITE)"
proof (induction k arbitrary: st)
  case 0
  then show ?case by (simp add: todo_def instrument_loop.simps [of _ _ st])
next
  case (Suc k)
  show ?case
  proof (cases "in_queue st")
    case Nil
    then show ?thesis using Suc.prems by (simp add: instrument_loop.simps [of _ _ st])
  next
    case (Cons h q)
    have r: "(Entry, h) \<in> {(x, y). y \<in> set (succs G x)}\<^sup>*" using Suc.prems(1) Cons by (auto simp: walk_inv_def)
    show ?thesis
    proof (cases "hasWhiteSucc G h st")
      case True
      let ?st = "fold visit_white (succs G h) st"
      have succ: "\<forall>b\<in>set (succs G h). (Entry, b) \<in> {(x, y). y \<in> set (succs G x)}\<^sup>*"
        using r by (auto intro: rtrancl_into_rtrancl)
      have "h \<in> V" using sub r by blast
      then have "todo V ?st < todo V st" using visit_whites_todo [OF V(1) V(2), of h st] True by (auto simp: hasWhiteSucc_def list_ex_iff)
      then have "todo V ?st \<le> k" using Suc.prems(2) by simp
      then show ?thesis using visit_whites_color Suc.IH [OF visit_whites_inv [OF Suc.prems(1) succ]] True Cons
        by (auto simp: instrument_loop.simps [of _ _ st])
    next
      case False
      let ?st = "st\<lparr>in_queue := q, in_color := (in_color st)(h := BLACK)\<rparr>"
      have "walk_inv G Entry code ?st"
        using Suc.prems(1) Cons False by (auto simp: walk_inv_def hasWhiteSucc_def list_ex_iff)
      moreover have "{b \<in> V. b \<noteq> h \<and> in_color st b = WHITE} \<subseteq> {b \<in> V. in_color st b = WHITE}" by blast
      then have "whites V ?st \<le> whites V st" unfolding whites_def using V(1)
        by (intro card_mono) (auto split: if_splits)
      then have "todo V ?st \<le> k" using Suc.prems(2) Cons by (simp add: todo_def)
      moreover have "in_color st h \<noteq> WHITE" using Suc.prems(1) Cons by (simp add: walk_inv_def)
      ultimately show ?thesis using Suc.IH [of ?st] False Cons by (fastforce simp: instrument_loop.simps [of _ _ st])
    qed
  qed
qed

section \<open>Taking the instrumentation out\<close>

definition strip_inst :: "rinst \<Rightarrow> rinst option" where
  "strip_inst I = (case ri_op I of
     RCall (Some f) Args \<Rightarrow>
       if take (length ParcoachPrefix) f \<noteq> ParcoachPrefix then Some I
       else let g = drop (length ParcoachPrefix) f
            in if g = ''load'' \<or> g = ''store'' then None else Some (I\<lparr>ri_op := RCall (Some g) (take (length Args - 2) Args)\<rparr>)
   | _ \<Rightarrow> Some I)"

definition strip :: "rinst list \<Rightarrow> rinst list" where
  "strip = List.map_filter strip_inst"

text \<open>Code that does not call the run-time library yet.\<close>

definition not_instrumented :: "rinst list \<Rightarrow> bool" where
  "not_instrumented = list_all (\<lambda>I. \<forall>f Args. ri_op I = RCall (Some f) Args \<longrightarrow> take (length ParcoachPrefix) f \<noteq> ParcoachPrefix)"

lemma strip_append: "strip (xs @ ys) = strip xs @ strip ys"
  by (simp add: strip_def List.map_filter_def)

lemma strip_clean: "not_instrumented xs \<Longrightarrow> strip xs = xs"
proof (induction xs)
  case (Cons I xs)
  have "strip_inst I = Some I" using Cons.prems by (auto simp: not_instrumented_def strip_inst_def split: rop.splits option.splits)
  then show ?case using Cons by (simp add: strip_def map_filter_simps not_instrumented_def)
qed (simp add: strip_def map_filter_simps)

lemma strip_inserted: "strip (xs @ [insertInstrumentationCall I A B ''store'', J]) = strip xs @ strip [J]"
    "strip (xs @ [insertInstrumentationCall I A B ''load'', J]) = strip xs @ strip [J]"
  by (simp_all add: strip_append [of xs] insertInstrumentationCall_def) (simp_all add: strip_def map_filter_simps strip_inst_def)

lemma instrumented_not_mem: "getInstrumentationInfo (Some f) = (True, c) \<Longrightarrow> f \<noteq> ''load'' \<and> f \<noteq> ''store''"
  by (auto simp: getInstrumentationInfo_def InstrumentedFunctions_def)

lemma strip_call:
  assumes "getInstrumentationInfo (Some f) = (True, c)" "ri_op I = RCall (Some f) Args"
  shows "strip [createInstrumentedCall I f Args] = [I]"
proof -
  have "length (location_args (ri_dbg I)) = 2" by (simp add: location_args_def split: option.splits prod.splits)
  moreover have "I\<lparr>ri_op := RCall (Some f) Args\<rparr> = I" using assms(2) by (cases I) simp
  ultimately show ?thesis using instrumented_not_mem [OF assms(1)]
    by (simp add: strip_def map_filter_simps strip_inst_def createInstrumentedCall_def getInstrumentedName_def Let_def)
qed

lemma strip_step:
  assumes "instrument_inst InEpoch I (out, n, cs) = (out', n', cs')" "not_instrumented [I]"
  shows "strip out' = strip out @ [I]"
proof -
  have same: "strip (out @ [I]) = strip out @ [I]" using strip_clean [OF assms(2)] by (simp add: strip_append)
  show ?thesis
  proof (cases "ri_op I")
    case (RCall f Args)
    show ?thesis
    proof (cases f)
      case (Some g)
      show ?thesis
      proof (cases "fst (getInstrumentationInfo f)")
        case True
        then obtain c where "getInstrumentationInfo (Some g) = (True, c)" using Some by (metis prod.collapse)
        then show ?thesis using assms(1) RCall Some strip_call [of g c I Args] by (auto simp: instrument_inst_def strip_append)
      qed (use assms(1) RCall Some same in \<open>auto simp: instrument_inst_def split: prod.splits\<close>)
    qed (use assms(1) RCall same in \<open>auto simp: instrument_inst_def\<close>)
  qed (use assms(1) same strip_clean [OF assms(2)] in \<open>auto simp: instrument_inst_def strip_inserted split: if_splits\<close>)
qed

lemma strip_fold:
  assumes "fold (instrument_inst InEpoch) Bb (out, n, cs) = (out', n', cs')" "not_instrumented Bb"
  shows "strip out' = strip out @ Bb"
  using assms
proof (induction Bb arbitrary: out n cs)
  case (Cons I Bb)
  obtain o1 n1 c1 where 1: "instrument_inst InEpoch I (out, n, cs) = (o1, n1, c1)" by (metis prod_cases3)
  have c: "not_instrumented [I]" "not_instrumented Bb" using Cons.prems(2) by (auto simp: not_instrumented_def)
  show ?case using Cons.IH [of o1 n1 c1] Cons.prems(1) 1 strip_step [OF 1 c(1)] c(2) by simp
qed simp

lemma strip_instrumented: "instrumented Bb out \<Longrightarrow> not_instrumented Bb \<Longrightarrow> strip out = Bb"
proof -
  assume "instrumented Bb out" "not_instrumented Bb"
  then obtain E cs where "out = fst (instrumentBb Bb E cs)" by (auto simp: instrumented_def)
  moreover obtain o1 n1 c1 where "fold (instrument_inst E) Bb ([], False, cs) = (o1, n1, c1)" by (metis prod_cases3)
  ultimately show ?thesis using strip_fold [of E Bb "[]" False cs o1 n1 c1] \<open>not_instrumented Bb\<close>
    by (simp add: instrumentBb_def strip_def map_filter_simps)
qed

section \<open>Properties\<close>

lemma instrumentation_ends:
  assumes "finite V" "\<And>x. x \<in> V \<Longrightarrow> set (succs G x) \<subseteq> V" "Entry \<in> V" "2 * card V \<le> fuel"
  shows "\<exists>st. instrumentMemAccessesIt fuel G Entry code cs = Inr st \<and> (\<forall>b.
    if (Entry, b) \<in> {(x, y). y \<in> set (succs G x)}\<^sup>* then instrumented (code b) (in_code st b) else in_code st b = code b)"
proof -
  let ?R = "{(x, y). y \<in> set (succs G x)}"
  let ?init = "\<lparr>in_code = code, in_color = (\<lambda>_. WHITE), in_epoch = False, in_queue = [], in_counts = cs\<rparr>"
  let ?st = "visit_white Entry ?init"
  have "?R\<^sup>* `` V \<subseteq> V" using assms(2) by (intro equalityD1 [OF Image_closed_trancl]) auto
  then have sub: "{b. (Entry, b) \<in> ?R\<^sup>*} \<subseteq> V" using assms(3) by blast
  have inv: "walk_inv G Entry code ?st" by (rule visit_white_inv) (simp_all add: walk_inv_def)
  have "todo V ?init \<le> fuel" using assms(4) by (simp add: todo_def whites_def)
  then have "todo V ?st \<le> fuel" using visit_white_todo [OF assms(1,3), of ?init] by linarith
  then obtain st where st: "instrument_loop G fuel ?st = Inr st" "walk_inv G Entry code st" "in_queue st = []"
      "\<forall>x. in_color ?st x \<noteq> WHITE \<longrightarrow> in_color st x \<noteq> WHITE"
    using instrument_loop_ends [OF assms(1,2) sub inv] by blast
  have "in_color st b \<noteq> WHITE" if "(Entry, b) \<in> ?R\<^sup>*" for b
    using that
  proof induction
    case base
    show ?case using st(4) by (simp add: visit_white_def split: prod.splits)
  next
    case (step x y)
    then have "in_color st x = BLACK" using st(2,3) by (cases "in_color st x") (auto simp: walk_inv_def)
    then show ?case using st(2) step(2) by (auto simp: walk_inv_def)
  qed
  then show ?thesis using st(1,2) by (auto simp: instrumentMemAccessesIt_def walk_inv_def)
qed

text \<open>C28: the depth-first walk ends within two turns per block. It instruments each block that the entry reaches
  and leaves the others alone; and it only adds: without the inserted calls, and with the wrappers
  renamed back, the code of every block is what it was.\<close>

theorem instrumentation_roundtrip:
  assumes "finite V" "\<And>x. x \<in> V \<Longrightarrow> set (succs G x) \<subseteq> V" "Entry \<in> V" "2 * card V \<le> fuel" "\<And>b. not_instrumented (code b)"
  shows "\<exists>st. instrumentMemAccessesIt fuel G Entry code cs = Inr st \<and> (\<forall>b. strip (in_code st b) = code b \<and>
    (if (Entry, b) \<in> {(x, y). y \<in> set (succs G x)}\<^sup>* then \<exists>InEpoch cs. in_code st b = fst (instrumentBb (code b) InEpoch cs)
     else in_code st b = code b))"
proof -
  obtain st where st: "instrumentMemAccessesIt fuel G Entry code cs = Inr st"
      "\<And>b. if (Entry, b) \<in> {(x, y). y \<in> set (succs G x)}\<^sup>* then instrumented (code b) (in_code st b) else in_code st b = code b"
    using instrumentation_ends [OF assms(1-4)] by blast
  have "strip (in_code st b) = code b" for b
    using st(2) [of b] strip_instrumented [OF _ assms(5)] strip_clean [OF assms(5)] by (auto split: if_splits)
  with st show ?thesis unfolding instrumented_def by blast
qed

text \<open>A lock, a put, a store to the same memory and an unlock, in the entry block.\<close>

definition epoch_code :: "rinst list" where
  "epoch_code = map (\<lambda>(v, c). \<lparr>ri_id = v, ri_op = c, ri_dbg = None\<rparr>)
     [(Some 1, RCall (Some ''MPI_Win_lock'') [Val 100]), (Some 2, RCall (Some ''MPI_Put'') [Val 101]),
      (Some 4, RStore (Val 101) 32), (Some 3, RCall (Some ''MPI_Win_unlock'') [Val 100])]"

definition straight_cfg :: cfg where
  "straight_cfg = \<lparr>succs = (\<lambda>b. if b = 0 then [1] else []), preds = (\<lambda>b. if b = 1 then [0] else []), blocks_of = [0, 1]\<rparr>"

theorem instrumentation_roundtrip_witness:
  "\<exists>st. instrumentMemAccessesIt 4 straight_cfg 0 (\<lambda>_. epoch_code) resetCounters = Inr st \<and> strip (in_code st 1) = epoch_code"
proof -
  have "not_instrumented epoch_code" by (simp add: not_instrumented_def epoch_code_def ParcoachPrefix_def)
  then have "\<exists>st. instrumentMemAccessesIt 4 straight_cfg 0 (\<lambda>_. epoch_code) resetCounters = Inr st \<and> (\<forall>b. strip (in_code st b) = epoch_code \<and>
    (if (0, b) \<in> {(x, y). y \<in> set (succs straight_cfg x)}\<^sup>* then \<exists>InEpoch cs. in_code st b = fst (instrumentBb epoch_code InEpoch cs)
     else in_code st b = epoch_code))"
    by (intro instrumentation_roundtrip [of "{0, 1}"]) (auto simp: straight_cfg_def)
  then show ?thesis by blast
qed


end
