(* ===== verification/Local_Concurrency.thy ===== *)
theory Local_Concurrency
  imports RMA_Instrument
begin

text \<open>
  The static detection of local data races in one function
  (\<open>src/src/rma/LocalConcurrencyAnalysis.cpp\<close>): each block carries the memory
  that puts and gets have accessed since the last synchronisation, and a
  later access to the same or to aliasing memory is reported when one of the two
  writes.

  The alias analysis is an argument: the test is whether its answer differs from
  \<open>NoAlias\<close>. The map of a block is an association list; its order stands for the
  order of the hash table, on which only the order of the reports depends. The
  two loops of the code have the same body and differ in the tests for waiting and for
  skipping a successor, which are arguments here. A call of a put or a get without
  arguments fails an assertion of LLVM.
\<close>

section \<open>State\<close>

datatype ACCESS = READ | WRITE

datatype lc_error = LC_Assertion | LC_out_of_fuel

record lc_mem =
  BBToMemAccess :: "bb \<Rightarrow> (rval \<times> rinst) list"
  Results :: "(rinst \<times> rinst) list"

record lc_marks =
  ColorMap :: "bb \<Rightarrow> Color"
  LheaderMap :: "bb \<Rightarrow> bool"
  LlatchMap :: "bb \<Rightarrow> bool"

definition call_access :: "string option \<Rightarrow> ACCESS" where
  "call_access f = (if f = Some ''MPI_Get'' \<or> f = Some ''mpi_get_'' then WRITE else READ)"

definition getInstructionType :: "rinst \<Rightarrow> ACCESS" where
  "getInstructionType I = (case ri_op I of
     RCall f Args \<Rightarrow> call_access f | RInvoke f Args \<Rightarrow> call_access f | RStore Mem Bits \<Rightarrow> WRITE | RLoad Mem Bits \<Rightarrow> READ | ROther \<Rightarrow> READ)"

section \<open>A block\<close>

definition is_one_sided :: "string \<Rightarrow> bool" where
  "is_one_sided n \<longleftrightarrow> n = ''MPI_Get'' \<or> n = ''MPI_Put'' \<or> n = ''mpi_put_'' \<or> n = ''mpi_get_''"

definition is_sync :: "string \<Rightarrow> bool" where
  "is_sync n \<longleftrightarrow> n = ''MPI_Win_flush'' \<or> n = ''MPI_Win_flush_all'' \<or> n = ''MPI_Win_fence'' \<or> n = ''MPI_Win_flush_local'' \<or>
     n = ''MPI_Win_unlock_all'' \<or> n = ''mpi_win_unlock_all_'' \<or> n = ''mpi_win_flush_'' \<or> n = ''mpi_win_flush_all_'' \<or> n = ''mpi_win_fence_''"

definition report :: "rinst \<Rightarrow> rinst \<Rightarrow> lc_mem \<Rightarrow> lc_mem" where
  "report I J st = st\<lparr>Results := set_vector_insert (I, J) (Results st)\<rparr>"

definition races :: "rinst \<Rightarrow> rinst \<Rightarrow> bool" where
  "races I J \<longleftrightarrow> getInstructionType J = WRITE \<or> getInstructionType I = WRITE"

definition check_aliases :: "(rval \<Rightarrow> rval \<Rightarrow> bool) \<Rightarrow> rinst \<Rightarrow> rval \<Rightarrow> (rval \<times> rinst) list \<Rightarrow> lc_mem \<Rightarrow> lc_mem" where
  "check_aliases aa I Mem = fold (\<lambda>(m, J) st. if aa m Mem \<and> races I J then report I J st else st)"

definition check_access :: "(rval \<Rightarrow> rval \<Rightarrow> bool) \<Rightarrow> bb \<Rightarrow> rinst \<Rightarrow> rval \<Rightarrow> bool \<Rightarrow> lc_mem \<Rightarrow> lc_mem" where
  "check_access aa BB I Mem IsLoadOrStore st = (case map_of (BBToMemAccess st BB) Mem of
     Some PrevAccess \<Rightarrow>
       if races I PrevAccess then report I PrevAccess st
       else if IsLoadOrStore then st
       else st\<lparr>BBToMemAccess := (BBToMemAccess st)(BB := AList.update Mem I (BBToMemAccess st BB))\<rparr>
   | None \<Rightarrow>
       let st1 = check_aliases aa I Mem (BBToMemAccess st BB) st
       in if IsLoadOrStore then st1
          else st1\<lparr>BBToMemAccess := (BBToMemAccess st1)(BB := BBToMemAccess st1 BB @ [(Mem, I)])\<rparr>)"

definition check_call_inst :: "(rval \<Rightarrow> rval \<Rightarrow> bool) \<Rightarrow> bb \<Rightarrow> rinst \<Rightarrow> string option \<Rightarrow> rval list \<Rightarrow> lc_mem \<Rightarrow> lc_error + lc_mem" where
  "check_call_inst aa BB I f Args st = (case f of
     None \<Rightarrow> Inr st
   | Some n \<Rightarrow>
       if is_one_sided n then (case Args of [] \<Rightarrow> Inl LC_Assertion | Mem # Rest \<Rightarrow> Inr (check_access aa BB I Mem False st))
       else if is_sync n then Inr (st\<lparr>BBToMemAccess := (BBToMemAccess st)(BB := [])\<rparr>)
       else Inr st)"

definition analyze_inst :: "(rval \<Rightarrow> rval \<Rightarrow> bool) \<Rightarrow> bb \<Rightarrow> rinst \<Rightarrow> lc_mem \<Rightarrow> lc_error + lc_mem" where
  "analyze_inst aa BB I st = (case ri_op I of
     RCall f Args \<Rightarrow> check_call_inst aa BB I f Args st
   | RInvoke f Args \<Rightarrow> check_call_inst aa BB I f Args st
   | RStore Mem Bits \<Rightarrow> Inr (check_access aa BB I Mem True st)
   | RLoad Mem Bits \<Rightarrow> Inr (check_access aa BB I Mem True st)
   | ROther \<Rightarrow> Inr st)"

definition analyzeBB :: "(rval \<Rightarrow> rval \<Rightarrow> bool) \<Rightarrow> (bb \<Rightarrow> rinst list) \<Rightarrow> bb \<Rightarrow> lc_mem \<Rightarrow> lc_error + lc_mem" where
  "analyzeBB aa code BB = foldE (analyze_inst aa BB) (code BB)"

section \<open>A function\<close>

text \<open>The insertion of a range keeps the entries that are there.\<close>

definition insert_accesses :: "(rval \<times> rinst) list \<Rightarrow> (rval \<times> rinst) list \<Rightarrow> (rval \<times> rinst) list" where
  "insert_accesses new old = fold (\<lambda>(m, I) l. if map_of l m = None then l @ [(m, I)] else l) new old"

definition propagate :: "bb \<Rightarrow> bb \<Rightarrow> lc_mem \<Rightarrow> lc_mem" where
  "propagate Header Succ st = st\<lparr>BBToMemAccess := (BBToMemAccess st)(Succ :=
     insert_accesses (BBToMemAccess st Header) (BBToMemAccess st Succ))\<rparr>"

definition mustWait :: "cfg \<Rightarrow> lc_marks \<Rightarrow> bb \<Rightarrow> bool" where
  "mustWait G mk BB \<longleftrightarrow> \<not> LheaderMap mk BB \<and> list_ex (\<lambda>Pred. ColorMap mk Pred \<noteq> BLACK) (preds G BB)"

definition mustWaitLoop :: "cfg \<Rightarrow> loop \<Rightarrow> lc_marks \<Rightarrow> bb \<Rightarrow> bool" where
  "mustWaitLoop G L mk BB \<longleftrightarrow> list_ex (\<lambda>Pred. \<not> (Pred = BB \<or> LlatchMap mk Pred) \<and> ColorMap mk Pred \<noteq> BLACK \<and> contains L Pred) (preds G BB)"

definition visit_succ :: "(bb \<Rightarrow> bb \<Rightarrow> bool) \<Rightarrow> bb \<Rightarrow> bb \<Rightarrow> lc_marks \<times> bb list \<times> lc_mem \<Rightarrow> lc_marks \<times> bb list \<times> lc_mem" where
  "visit_succ skip Header Succ s = (case s of (mk, Unvisited, mem) \<Rightarrow>
     if skip Header Succ then s
     else if ColorMap mk Succ = WHITE then (mk\<lparr>ColorMap := (ColorMap mk)(Succ := GREY)\<rparr>, Unvisited @ [Succ], propagate Header Succ mem)
     else (mk, Unvisited, propagate Header Succ mem))"

definition visit_block :: "(rval \<Rightarrow> rval \<Rightarrow> bool) \<Rightarrow> cfg \<Rightarrow> (bb \<Rightarrow> rinst list) \<Rightarrow> (lc_marks \<Rightarrow> bb \<Rightarrow> bb \<Rightarrow> bool) \<Rightarrow> bb
     \<Rightarrow> lc_marks \<times> bb list \<times> lc_mem \<Rightarrow> lc_error + lc_marks \<times> bb list \<times> lc_mem" where
  "visit_block aa G code skip Header s = (case s of (mk, Unvisited, mem) \<Rightarrow>
     bindE (analyzeBB aa code Header mem) (\<lambda>mem1.
       case fold (visit_succ (skip mk) Header) (succs G Header) (mk\<lparr>ColorMap := (ColorMap mk)(Header := GREY)\<rparr>, Unvisited, mem1) of
         (mk2, Unvisited2, mem2) \<Rightarrow> Inr (mk2\<lparr>ColorMap := (ColorMap mk2)(Header := BLACK)\<rparr>, Unvisited2, mem2)))"

fun lcd_queue :: "(rval \<Rightarrow> rval \<Rightarrow> bool) \<Rightarrow> cfg \<Rightarrow> (bb \<Rightarrow> rinst list) \<Rightarrow> (lc_marks \<Rightarrow> bb \<Rightarrow> bool) \<Rightarrow> (lc_marks \<Rightarrow> bb \<Rightarrow> bb \<Rightarrow> bool)
     \<Rightarrow> nat \<Rightarrow> lc_marks \<times> bb list \<times> lc_mem \<Rightarrow> lc_error + lc_marks \<times> lc_mem" where
  "lcd_queue aa G code wait skip k (mk, [], mem) = Inr (mk, mem)"
| "lcd_queue aa G code wait skip 0 (mk, Header # Unvisited, mem) = Inl LC_out_of_fuel"
| "lcd_queue aa G code wait skip (Suc k) (mk, Header # Unvisited, mem) =
     (if ColorMap mk Header = BLACK then lcd_queue aa G code wait skip k (mk, Unvisited, mem)
      else if wait mk Header then lcd_queue aa G code wait skip k (mk, Unvisited @ [Header], mem)
      else bindE (visit_block aa G code skip Header (mk, Unvisited, mem)) (lcd_queue aa G code wait skip k))"

text \<open>The one predecessor of the header in the loop, if there is one only.\<close>

definition getLoopLatch :: "cfg \<Rightarrow> loop \<Rightarrow> bb option" where
  "getLoopLatch G L = (case filter (contains L) (preds G (header L)) of [Latch] \<Rightarrow> Some Latch | _ \<Rightarrow> None)"

definition back_edge :: "lc_marks \<Rightarrow> bb \<Rightarrow> bb \<Rightarrow> bool" where
  "back_edge mk Header Succ \<longleftrightarrow> LlatchMap mk Header \<and> LheaderMap mk Succ"

fun bfsLoop :: "(rval \<Rightarrow> rval \<Rightarrow> bool) \<Rightarrow> cfg \<Rightarrow> (bb \<Rightarrow> rinst list) \<Rightarrow> nat \<Rightarrow> loop \<Rightarrow> lc_marks \<times> lc_mem \<Rightarrow> lc_error + lc_marks \<times> lc_mem" where
  "bfsLoop aa G code fuel (Loop h bs subs ib) s =
     (let L = Loop h bs subs ib in
      bindE (foldE (bfsLoop aa G code fuel) subs s) (\<lambda>(mk, mem).
      bindE (lcd_queue aa G code (\<lambda>mk b. mustWaitLoop G L mk b \<and> b \<noteq> h) (\<lambda>mk Header Succ. \<not> contains L Succ \<or> back_edge mk Header Succ) fuel
               (mk\<lparr>LheaderMap := (LheaderMap mk)(h := True)\<rparr>, [h], mem)) (\<lambda>(mk2, mem2).
        Inr (mk2\<lparr>ColorMap := (\<lambda>b. if b \<in> set bs then WHITE else ColorMap mk2 b),
                 LlatchMap := (case getLoopLatch G L of None \<Rightarrow> LlatchMap mk2 | Some Latch \<Rightarrow> (LlatchMap mk2)(Latch := True))\<rparr>, mem2))))"

definition no_marks :: lc_marks where
  "no_marks = \<lparr>ColorMap = (\<lambda>_. WHITE), LheaderMap = (\<lambda>_. False), LlatchMap = (\<lambda>_. False)\<rparr>"

definition no_accesses :: lc_mem where
  "no_accesses = \<lparr>BBToMemAccess = (\<lambda>_. []), Results = []\<rparr>"

definition analyze :: "(rval \<Rightarrow> rval \<Rightarrow> bool) \<Rightarrow> cfg \<Rightarrow> loop list \<Rightarrow> bb \<Rightarrow> (bb \<Rightarrow> rinst list) \<Rightarrow> nat \<Rightarrow> lc_error + lc_mem" where
  "analyze aa G LI Entry code fuel =
     bindE (foldE (bfsLoop aa G code fuel) LI (no_marks, no_accesses)) (\<lambda>(mk, mem).
     bindE (lcd_queue aa G code (mustWait G) back_edge fuel (mk, [Entry], mem)) (\<lambda>(mk2, mem2). Inr mem2))"

definition LocalConcurrencyAnalysis :: "(rval \<Rightarrow> rval \<Rightarrow> bool) \<Rightarrow> cfg \<Rightarrow> loop list \<Rightarrow> bb \<Rightarrow> (bb \<Rightarrow> rinst list) \<Rightarrow> nat \<Rightarrow> lc_error + (rinst \<times> rinst) list" where
  "LocalConcurrencyAnalysis aa G LI Entry code fuel = bindE (analyze aa G LI Entry code fuel) (\<lambda>mem. Inr (Results mem))"

section \<open>The pass\<close>

text \<open>One function of the module: its statistics, the reports, which are computed when it has one-sided
  calls, and the code for the run-time analysis. The printed messages are left out.\<close>

datatype pass_error = Detection lc_error | Instrumentation instr_error

definition run_on_function :: "(rval \<Rightarrow> rval \<Rightarrow> bool) \<Rightarrow> cfg \<Rightarrow> loop list \<Rightarrow> bb \<Rightarrow> (bb \<Rightarrow> rinst list) \<Rightarrow> nat
     \<Rightarrow> pass_error + Statistics \<times> (rinst \<times> rinst) list \<times> instr_state" where
  "run_on_function aa G LI Entry code fuel =
     (let Stats = RMAStatistics (concat (map code (blocks_of G))) in
      bindE (if getTotalOneSided Stats \<noteq> 0
             then (case LocalConcurrencyAnalysis aa G LI Entry code fuel of Inl e \<Rightarrow> Inl (Detection e) | Inr Res \<Rightarrow> Inr Res)
             else Inr []) (\<lambda>Res.
        case instrumentMemAccessesIt fuel G Entry code resetCounters of Inl e \<Rightarrow> Inl (Instrumentation e) | Inr st \<Rightarrow> Inr (Stats, Res, st)))"

section \<open>Reports are conflicts\<close>

definition rma_access :: "rinst \<Rightarrow> rval \<Rightarrow> bool" where
  "rma_access I m \<longleftrightarrow> (\<exists>n Rest. is_one_sided n \<and> (ri_op I = RCall (Some n) (m # Rest) \<or> ri_op I = RInvoke (Some n) (m # Rest)))"

definition mem_access :: "rinst \<Rightarrow> rval \<Rightarrow> bool" where
  "mem_access I m \<longleftrightarrow> rma_access I m \<or> (\<exists>Bits. ri_op I = RStore m Bits \<or> ri_op I = RLoad m Bits)"

definition conflict :: "(rval \<Rightarrow> rval \<Rightarrow> bool) \<Rightarrow> rinst \<Rightarrow> rinst \<Rightarrow> bool" where
  "conflict aa I J \<longleftrightarrow> races I J \<and> (\<exists>m1 m2. mem_access I m1 \<and> rma_access J m2 \<and> (m1 = m2 \<or> aa m2 m1))"

definition lc_sound :: "(rval \<Rightarrow> rval \<Rightarrow> bool) \<Rightarrow> rinst set \<Rightarrow> lc_mem \<Rightarrow> bool" where
  "lc_sound aa Is st \<longleftrightarrow> (\<forall>b m J. (m, J) \<in> set (BBToMemAccess st b) \<longrightarrow> rma_access J m \<and> J \<in> Is) \<and>
     (\<forall>I J. (I, J) \<in> set (Results st) \<longrightarrow> conflict aa I J \<and> I \<in> Is \<and> J \<in> Is)"

lemma set_vector_insert_set [simp]: "set (set_vector_insert x xs) = insert x (set xs)"
  by (auto simp: set_vector_insert_def)

lemma aliases_keep [simp]: "BBToMemAccess (check_aliases aa I Mem l st) = BBToMemAccess st"
  unfolding check_aliases_def by (induction l arbitrary: st) (auto simp: report_def split: prod.splits)

lemma aliases_results: "set (Results (check_aliases aa I Mem l st)) = set (Results st) \<union> {(I, J) | J m. (m, J) \<in> set l \<and> aa m Mem \<and> races I J}"
  unfolding check_aliases_def by (induction l arbitrary: st) (auto simp: report_def split: prod.splits)

lemma set_alist_update: "set (AList.update k v l) \<subseteq> insert (k, v) (set l)"
  by (induction l) auto

lemma sound_report: "lc_sound aa Is st \<Longrightarrow> conflict aa I J \<Longrightarrow> I \<in> Is \<Longrightarrow> J \<in> Is \<Longrightarrow> lc_sound aa Is (report I J st)"
  by (simp add: lc_sound_def report_def)

lemma sound_map:
  assumes "lc_sound aa Is st" "set l \<subseteq> insert (m, J) (set (BBToMemAccess st b))" "rma_access J m" "J \<in> Is"
  shows "lc_sound aa Is (st\<lparr>BBToMemAccess := (BBToMemAccess st)(b := l)\<rparr>)"
  using assms by (auto simp: lc_sound_def)

lemma sound_aliases:
  assumes "lc_sound aa Is st" "mem_access I Mem" "I \<in> Is" "set l \<subseteq> set (BBToMemAccess st b)"
  shows "lc_sound aa Is (check_aliases aa I Mem l st)"
  using assms by (fastforce simp: lc_sound_def aliases_results conflict_def)

lemma access_sound:
  assumes "lc_sound aa Is st" "mem_access I Mem" "\<not> ls \<Longrightarrow> rma_access I Mem" "I \<in> Is"
  shows "lc_sound aa Is (check_access aa BB I Mem ls st)"
proof (cases "map_of (BBToMemAccess st BB) Mem")
  case (Some P)
  then have P: "rma_access P Mem" "P \<in> Is" using assms(1) by (auto simp: lc_sound_def dest!: map_of_SomeD)
  show ?thesis
  proof (cases "races I P")
    case True
    then have "conflict aa I P" using P assms(2) by (auto simp: conflict_def)
    then show ?thesis using True Some P assms by (simp add: check_access_def sound_report)
  next
    case False
    then show ?thesis using Some assms sound_map [OF assms(1) set_alist_update] by (simp add: check_access_def)
  qed
next
  case None
  have "lc_sound aa Is (check_aliases aa I Mem (BBToMemAccess st BB) st)" using sound_aliases [OF assms(1,2,4)] by blast
  from this sound_map [OF this, of "BBToMemAccess st BB @ [(Mem, I)]" Mem I BB] show ?thesis
    using None assms by (simp add: check_access_def Let_def)
qed

lemma inst_sound:
  assumes "lc_sound aa Is st" "analyze_inst aa BB I st = Inr st'" "I \<in> Is"
  shows "lc_sound aa Is st'"
proof -
  have clear: "lc_sound aa Is (st\<lparr>BBToMemAccess := (BBToMemAccess st)(BB := [])\<rparr>)" using assms(1) by (simp add: lc_sound_def)
  show ?thesis
  proof (cases "ri_op I")
    case (RCall f Args)
    then show ?thesis using assms clear access_sound [OF assms(1)]
      by (auto simp: analyze_inst_def check_call_inst_def mem_access_def rma_access_def split: option.splits list.splits if_splits)
  next
    case (RInvoke f Args)
    then show ?thesis using assms clear access_sound [OF assms(1)]
      by (auto simp: analyze_inst_def check_call_inst_def mem_access_def rma_access_def split: option.splits list.splits if_splits)
  next
    case (RStore Mem Bits)
    then show ?thesis using assms access_sound [OF assms(1), of I Mem True BB] by (auto simp: analyze_inst_def mem_access_def)
  next
    case (RLoad Mem Bits)
    then show ?thesis using assms access_sound [OF assms(1), of I Mem True BB] by (auto simp: analyze_inst_def mem_access_def)
  qed (use assms in \<open>simp add: analyze_inst_def\<close>)
qed

lemma block_sound:
  assumes "analyzeBB aa code BB st = Inr st'" "lc_sound aa Is st" "set (code BB) \<subseteq> Is"
  shows "lc_sound aa Is st'"
  using foldE_inv [OF assms(1) [unfolded analyzeBB_def], of "lc_sound aa Is"] assms(2,3) inst_sound by blast

lemma set_insert_accesses: "set (insert_accesses new old) \<subseteq> set new \<union> set old"
proof (induction new arbitrary: old)
  case (Cons p new)
  show ?case using Cons [of "case p of (m, I) \<Rightarrow> if map_of old m = None then old @ [(m, I)] else old"]
    by (auto simp: insert_accesses_def split: prod.splits if_splits)
qed (simp add: insert_accesses_def)

lemma propagate_sound: "lc_sound aa Is st \<Longrightarrow> lc_sound aa Is (propagate h b st)"
  using set_insert_accesses [of "BBToMemAccess st h" "BBToMemAccess st b"] unfolding lc_sound_def propagate_def by auto

lemma succs_sound: "lc_sound aa Is (snd (snd s)) \<Longrightarrow> lc_sound aa Is (snd (snd (fold (visit_succ skip h) bs s)))"
  by (induction bs arbitrary: s) (auto simp: visit_succ_def propagate_sound split: prod.splits)

lemma visit_block_sound:
  assumes "visit_block aa G code skip h (mk, q, mem) = Inr (mk', q', mem')" "lc_sound aa Is mem" "set (code h) \<subseteq> Is"
  shows "lc_sound aa Is mem'"
proof -
  obtain mem1 where 1: "analyzeBB aa code h mem = Inr mem1"
      "mem' = snd (snd (fold (visit_succ (skip mk) h) (succs G h) (mk\<lparr>ColorMap := (ColorMap mk)(h := GREY)\<rparr>, q, mem1)))"
    using assms(1) by (auto simp: visit_block_def bindE_eq_Inr case_prod_beta)
  have "lc_sound aa Is mem1" by (rule block_sound [OF 1(1) assms(2,3)])
  then show ?thesis unfolding 1(2) by (intro succs_sound) simp
qed

lemma queue_sound:
  assumes "\<And>b. set (code b) \<subseteq> Is"
  shows "lcd_queue aa G code wait skip k (mk, q, mem) = Inr (mk', mem') \<Longrightarrow> lc_sound aa Is mem \<Longrightarrow> lc_sound aa Is mem'"
proof (induction k arbitrary: mk q mem)
  case 0
  then show ?case by (cases q) auto
next
  case (Suc k)
  show ?case
  proof (cases q)
    case (Cons h q')
    consider "lcd_queue aa G code wait skip k (mk, q', mem) = Inr (mk', mem')" | "lcd_queue aa G code wait skip k (mk, q' @ [h], mem) = Inr (mk', mem')"
      | mk1 q1 mem1 where "visit_block aa G code skip h (mk, q', mem) = Inr (mk1, q1, mem1)" "lcd_queue aa G code wait skip k (mk1, q1, mem1) = Inr (mk', mem')"
      using Suc.prems(1) Cons by (auto simp: bindE_eq_Inr split: if_splits)
    then show ?thesis
    proof cases
      case 3
      then show ?thesis using Suc.IH visit_block_sound [OF 3(1) Suc.prems(2) assms] by blast
    qed (use Suc.IH Suc.prems(2) in blast)+
  qed (use Suc.prems in simp)
qed

lemma loop_sound:
  assumes "\<And>b. set (code b) \<subseteq> Is"
  shows "bfsLoop aa G code fuel L s = Inr s' \<Longrightarrow> lc_sound aa Is (snd s) \<Longrightarrow> lc_sound aa Is (snd s')"
proof (induction L arbitrary: s s')
  case (Loop h bs subs ib)
  obtain mk mem mk2 mem2 where
    1: "foldE (bfsLoop aa G code fuel) subs s = Inr (mk, mem)" and
    2: "lcd_queue aa G code (\<lambda>mk b. mustWaitLoop G (Loop h bs subs ib) mk b \<and> b \<noteq> h)
        (\<lambda>mk Header Succ. \<not> contains (Loop h bs subs ib) Succ \<or> back_edge mk Header Succ) fuel
        (mk\<lparr>LheaderMap := (LheaderMap mk)(h := True)\<rparr>, [h], mem) = Inr (mk2, mem2)" "snd s' = mem2"
    using Loop.prems(1) by (auto simp: bindE_eq_Inr Let_def)
  have "lc_sound aa Is (snd (mk, mem))"
    by (rule foldE_inv [OF 1, of "\<lambda>s. lc_sound aa Is (snd s)"]) (use Loop in blast)+
  then show ?case using queue_sound [OF assms 2(1)] 2(2) by simp
qed

section \<open>Writes after one-sided accesses\<close>

definition keys :: "lc_mem \<Rightarrow> bb \<Rightarrow> rval set" where
  "keys st b = fst ` set (BBToMemAccess st b)"

definition syncs :: "rinst \<Rightarrow> bool" where
  "syncs I \<longleftrightarrow> (\<exists>n. call_name I = Some n \<and> is_sync n)"

definition grows_to :: "bb \<Rightarrow> lc_mem \<Rightarrow> lc_mem \<Rightarrow> bool" where
  "grows_to BB st st' \<longleftrightarrow> set (Results st) \<subseteq> set (Results st') \<and> (\<forall>b. b \<noteq> BB \<longrightarrow> BBToMemAccess st' b = BBToMemAccess st b)"

lemma grows_to_refl [simp]: "grows_to BB st st"
  by (simp add: grows_to_def)

lemma grows_to_trans: "grows_to BB st st' \<Longrightarrow> grows_to BB st' st'' \<Longrightarrow> grows_to BB st st''"
  by (auto simp: grows_to_def)

lemma access_grows: "grows_to BB st (check_access aa BB I Mem ls st)"
  by (auto simp: check_access_def grows_to_def report_def Let_def aliases_results split: option.splits)

lemma access_keys:
  "keys (check_access aa BB I Mem ls st) BB = keys st BB \<union> (if ls then {} else {Mem})"
proof (cases "map_of (BBToMemAccess st BB) Mem")
  case (Some P)
  then have "Mem \<in> keys st BB" unfolding keys_def by (metis domI dom_map_of_conv_image_fst)
  then show ?thesis using Some by (auto simp: check_access_def keys_def report_def dom_update)
qed (auto simp: check_access_def keys_def Let_def)

lemma access_reports:
  assumes "getInstructionType I = WRITE" "m \<in> keys st BB" "Mem = m \<or> aa m Mem"
  shows "\<exists>J. (I, J) \<in> set (Results (check_access aa BB I Mem ls st))"
proof (cases "map_of (BBToMemAccess st BB) Mem")
  case (Some P)
  then show ?thesis using assms(1) by (auto simp: check_access_def races_def report_def)
next
  case None
  then have "Mem \<noteq> m" using assms(2) by (auto simp: keys_def map_of_eq_None_iff)
  then obtain J where "(m, J) \<in> set (BBToMemAccess st BB)" "aa m Mem" using assms(2,3) by (auto simp: keys_def)
  then show ?thesis using None assms(1) by (auto simp: check_access_def Let_def aliases_results races_def)
qed

text \<open>One instruction: which keys stay and come, and what a write reports.\<close>

lemma inst_effect:
  assumes "analyze_inst aa BB I st = Inr st'"
  shows "grows_to BB st st'" "\<not> syncs I \<Longrightarrow> keys st BB \<subseteq> keys st' BB" "rma_access I m \<Longrightarrow> m \<in> keys st' BB"
    "getInstructionType I = WRITE \<Longrightarrow> mem_access I m1 \<Longrightarrow> m2 \<in> keys st BB \<Longrightarrow> m1 = m2 \<or> aa m2 m1 \<Longrightarrow> \<exists>J. (I, J) \<in> set (Results st')"
proof -
  have clear: "grows_to BB st (st\<lparr>BBToMemAccess := (BBToMemAccess st)(BB := [])\<rparr>)" by (simp add: grows_to_def)
  show "grows_to BB st st'"
    using assms clear access_grows by (auto simp: analyze_inst_def check_call_inst_def split: rop.splits option.splits if_splits list.splits)
  show "keys st BB \<subseteq> keys st' BB" if "\<not> syncs I"
    using assms that by (auto simp: analyze_inst_def check_call_inst_def access_keys syncs_def call_name_def split: rop.splits option.splits if_splits list.splits)
  show "m \<in> keys st' BB" if "rma_access I m"
    using assms that by (auto simp: analyze_inst_def check_call_inst_def access_keys rma_access_def)
  show "\<exists>J. (I, J) \<in> set (Results st')"
    if "getInstructionType I = WRITE" "mem_access I m1" "m2 \<in> keys st BB" "m1 = m2 \<or> aa m2 m1"
    using assms that(2) access_reports [where ?aa = aa and ?Mem = m1, OF that(1,3,4)] by (auto simp: analyze_inst_def check_call_inst_def mem_access_def rma_access_def)
qed

lemma insts_effect:
  assumes "foldE (analyze_inst aa BB) Is st = Inr st'"
  shows "grows_to BB st st'" "\<not> list_ex syncs Is \<Longrightarrow> keys st BB \<subseteq> keys st' BB"
proof -
  show "grows_to BB st st'"
    by (rule foldE_inv [OF assms, of "grows_to BB st"]) (simp, use grows_to_trans [of BB st] inst_effect(1) in blast)
  show "keys st BB \<subseteq> keys st' BB" if "\<not> list_ex syncs Is"
    by (rule foldE_inv [OF assms, of "\<lambda>s. keys st BB \<subseteq> keys s BB"]) (simp, use that inst_effect(2) in \<open>unfold list_ex_iff, blast\<close>)
qed

text \<open>Inside of a block: the memory that is known to be accessed before an instruction.\<close>

definition before :: "rinst list \<Rightarrow> rval set \<Rightarrow> rval set" where
  "before Is K = (if list_ex syncs Is then {} else K) \<union> {m. \<exists>us J vs. Is = us @ J # vs \<and> rma_access J m \<and> \<not> list_ex syncs vs}"

lemma before_keys:
  assumes "foldE (analyze_inst aa BB) Is st = Inr st'" "K \<subseteq> keys st BB"
  shows "before Is K \<subseteq> keys st' BB"
proof -
  have "m \<in> keys st' BB" if split: "Is = us @ J # vs" and "rma_access J m" "\<not> list_ex syncs vs" for m us J vs
  proof -
    obtain s1 s2 where s: "analyze_inst aa BB J s1 = Inr s2" "foldE (analyze_inst aa BB) vs s2 = Inr st'"
      using assms(1) unfolding split by (auto simp: foldE_append bindE_eq_Inr)
    show ?thesis using inst_effect(3) [OF s(1) that(2)] insts_effect(2) [OF s(2) that(3)] by blast
  qed
  moreover have "K \<subseteq> keys st' BB" if "\<not> list_ex syncs Is" using insts_effect(2) [OF assms(1) that] assms(2) by blast
  ultimately show ?thesis unfolding before_def by (auto split: if_splits)
qed

lemma block_reports:
  assumes "foldE (analyze_inst aa BB) (us @ I # vs) st = Inr st'" "K \<subseteq> keys st BB" "m2 \<in> before us K"
    "getInstructionType I = WRITE" "mem_access I m1" "m1 = m2 \<or> aa m2 m1"
  shows "\<exists>J. (I, J) \<in> set (Results st')"
proof -
  obtain s1 s2 where s: "foldE (analyze_inst aa BB) us st = Inr s1" "analyze_inst aa BB I s1 = Inr s2" "foldE (analyze_inst aa BB) vs s2 = Inr st'"
    using assms(1) by (auto simp: foldE_append bindE_eq_Inr)
  have "m2 \<in> keys s1 BB" using before_keys [OF s(1) assms(2)] assms(3) by blast
  then show ?thesis using inst_effect(4) [OF s(2) assms(4,5) _ assms(6)] insts_effect(1) [OF s(3)] by (auto simp: grows_to_def)
qed

section \<open>Functions without loops\<close>

text \<open>What the visit of a block does to the maps.\<close>

definition visit_once :: "(rval \<Rightarrow> rval \<Rightarrow> bool) \<Rightarrow> cfg \<Rightarrow> (bb \<Rightarrow> rinst list) \<Rightarrow> bb \<Rightarrow> lc_mem \<Rightarrow> lc_error + lc_mem" where
  "visit_once aa G code h mem = bindE (analyzeBB aa code h mem) (\<lambda>mem1. Inr (fold (propagate h) (succs G h) mem1))"

lemma insert_accesses_keys: "fst ` set (insert_accesses new old) = fst ` set new \<union> fst ` set old"
proof (induction new arbitrary: old)
  case (Cons p new)
  obtain m I where p: "p = (m, I)" by fastforce
  let ?old = "if map_of old m = None then old @ [(m, I)] else old"
  have "fst ` set ?old = insert m (fst ` set old)" by (auto simp: map_of_eq_None_iff)
  then show ?case using Cons [of ?old] p by (simp add: insert_accesses_def)
qed (simp add: insert_accesses_def)

lemma propagate_keys: "keys (propagate h b st) c = keys st c \<union> (if c = b then keys st h else {})"
  by (auto simp: keys_def propagate_def insert_accesses_keys)

lemma propagates_keys: "h \<notin> set bs \<Longrightarrow> keys (fold (propagate h) bs st) c = keys st c \<union> (if c \<in> set bs then keys st h else {})"
proof (induction bs arbitrary: st)
  case (Cons b bs)
  show ?case using Cons.IH [of "propagate h b st"] Cons.prems by (auto simp: propagate_keys)
qed simp

lemma propagates_results [simp]: "Results (fold (propagate h) bs st) = Results st"
  by (induction bs arbitrary: st) (simp_all add: propagate_def)

text \<open>Memory that a put or a get accesses on some way to the end of a block, with no synchronisation after it.\<close>

inductive exposed :: "cfg \<Rightarrow> (bb \<Rightarrow> rinst list) \<Rightarrow> bb \<Rightarrow> rval \<Rightarrow> bool" for G code where
  own: "m \<in> before (code b) {} \<Longrightarrow> exposed G code b m"
| pass: "exposed G code a m \<Longrightarrow> b \<in> set (succs G a) \<Longrightarrow> \<not> list_ex syncs (code b) \<Longrightarrow> exposed G code b m"

definition entering :: "cfg \<Rightarrow> (bb \<Rightarrow> rinst list) \<Rightarrow> bb \<Rightarrow> rval set" where
  "entering G code b = {m. \<exists>a. b \<in> set (succs G a) \<and> exposed G code a m}"

lemma exposed_before: "exposed G code b m \<Longrightarrow> m \<in> before (code b) (entering G code b)"
  by (erule exposed.cases) (auto simp: before_def entering_def)

text \<open>The maps after the visits of some blocks: what is exposed at their ends has come to their successors.\<close>

definition arrived :: "cfg \<Rightarrow> (bb \<Rightarrow> rinst list) \<Rightarrow> bb set \<Rightarrow> lc_mem \<Rightarrow> bool" where
  "arrived G code D st \<longleftrightarrow> (\<forall>a\<in>D. \<forall>m. exposed G code a m \<longrightarrow> (\<forall>c\<in>set (succs G a). c \<notin> D \<longrightarrow> m \<in> keys st c))"

lemma visit_arrived:
  assumes "visit_once aa G code h st = Inr st'" "arrived G code D st" "h \<notin> D" "\<And>a. h \<in> set (succs G a) \<Longrightarrow> a \<in> D"
  shows "arrived G code (insert h D) st'" "set (Results st) \<subseteq> set (Results st')"
    "code h = us @ I # vs \<Longrightarrow> m2 \<in> before us (entering G code h) \<Longrightarrow> getInstructionType I = WRITE \<Longrightarrow> mem_access I m1 \<Longrightarrow>
      m1 = m2 \<or> aa m2 m1 \<Longrightarrow> \<exists>J. (I, J) \<in> set (Results st')"
proof -
  obtain st1 where 1: "foldE (analyze_inst aa h) (code h) st = Inr st1" "st' = fold (propagate h) (succs G h) st1"
    using assms(1) by (auto simp: visit_once_def analyzeBB_def bindE_eq_Inr)
  have self: "h \<notin> set (succs G h)" using assms(3,4) by blast
  have e: "entering G code h \<subseteq> keys st h" using assms(2-4) by (auto simp: entering_def arrived_def)
  show "set (Results st) \<subseteq> set (Results st')" using insts_effect(1) [OF 1(1)] 1(2) by (simp add: grows_to_def)
  have same: "keys st1 c = keys st c" if "c \<noteq> h" for c using insts_effect(1) [OF 1(1)] that by (simp add: grows_to_def keys_def)
  have own: "m \<in> keys st1 h" if "exposed G code h m" for m using before_keys [OF 1(1) e] exposed_before [OF that] by blast
  have "m \<in> keys st' c" if "a \<in> insert h D" "exposed G code a m" "c \<in> set (succs G a)" "c \<notin> insert h D" for a m c
  proof (cases "a = h")
    case True
    then show ?thesis using that own 1(2) propagates_keys [OF self] by simp
  next
    case False
    then have "m \<in> keys st c" using that assms(2) by (auto simp: arrived_def)
    then show ?thesis using that(4) same 1(2) propagates_keys [OF self] by simp
  qed
  then show "arrived G code (insert h D) st'" by (auto simp: arrived_def)
  show "\<exists>J. (I, J) \<in> set (Results st')" if "code h = us @ I # vs" "m2 \<in> before us (entering G code h)" "getInstructionType I = WRITE"
      "mem_access I m1" "m1 = m2 \<or> aa m2 m1"
    using block_reports [OF 1(1) [unfolded that(1)] e that(2-5)] 1(2) by simp
qed

text \<open>Visits in an order in which every block comes after its predecessors.\<close>

lemma visits_report:
  assumes "foldE (visit_once aa G code) order st = Inr st'" "arrived G code D st" "distinct order" "set order \<inter> D = {}"
    and closed: "after_succs (preds G) (rev order @ d)" "set d = D" and G: "\<And>a b. b \<in> set (succs G a) \<Longrightarrow> a \<in> set (preds G b)"
    and w: "b \<in> set order" "code b = us @ I # vs" "m2 \<in> before us (entering G code b)" "getInstructionType I = WRITE" "mem_access I m1" "m1 = m2 \<or> aa m2 m1"
  shows "\<exists>J. (I, J) \<in> set (Results st')"
  using assms(1-4) closed w(1)
proof (induction order arbitrary: st D d)
  case (Cons h order)
  obtain st1 where 1: "visit_once aa G code h st = Inr st1" "foldE (visit_once aa G code) order st1 = Inr st'"
    using Cons.prems(1) by (auto simp: bindE_eq_Inr)
  have a: "after_succs sx (xs @ ys) \<Longrightarrow> after_succs sx ys" for sx xs ys by (induction xs) auto
  have "after_succs (preds G) (h # d)" using Cons.prems(5) a [of "preds G" "rev order" "h # d"] by simp
  then have pre: "a \<in> D" if "h \<in> set (succs G a)" for a using G [OF that] Cons.prems(6) by auto
  have h: "h \<notin> D" using Cons.prems(4) by simp
  note visited = visit_arrived [OF 1(1) Cons.prems(2) h pre]
  show ?case
  proof (cases "b = h")
    case True
    then obtain J where J: "(I, J) \<in> set (Results st1)" using visited(3) w(2-6) by blast
    have "set (Results st1) \<subseteq> set (Results st')"
    proof (rule foldE_inv [OF 1(2), of "\<lambda>s. set (Results st1) \<subseteq> set (Results s)"])
      fix x s t assume "set (Results st1) \<subseteq> set (Results s)" "visit_once aa G code x s = Inr t"
      moreover from this obtain s1 where "foldE (analyze_inst aa x) (code x) s = Inr s1" "t = fold (propagate x) (succs G x) s1"
        by (auto simp: visit_once_def analyzeBB_def bindE_eq_Inr)
      ultimately show "set (Results st1) \<subseteq> set (Results t)" using insts_effect(1) [of aa x "code x" s s1] by (auto simp: grows_to_def)
    qed simp
    then show ?thesis using J by blast
  next
    case False
    have "set order \<inter> insert h D = {}" using Cons.prems(3,4) by auto
    then show ?thesis using Cons.IH [OF 1(2) visited(1), of "h # d"] Cons.prems(3,5,6,7) False by simp
  qed
qed simp

text \<open>Without loops the walk is the queue-driven visit of the blocks, from the entry downwards.\<close>

fun node_state :: "Color \<Rightarrow> NodeState" where
  "node_state WHITE = UNVISITED" | "node_state GREY = PUSHED" | "node_state BLACK = VISITED"

lemma node_state_iff [simp]: "node_state c = UNVISITED \<longleftrightarrow> c = WHITE" "node_state c = VISITED \<longleftrightarrow> c = BLACK"
  by (cases c; simp)+

definition coloured :: "(bb \<Rightarrow> Color) \<Rightarrow> lc_marks" where
  "coloured c = no_marks\<lparr>ColorMap := c\<rparr>"

lemma coloured_simps [simp]: "ColorMap (coloured c) = c" "LheaderMap (coloured c) b = False" "LlatchMap (coloured c) b = False"
    "coloured c\<lparr>ColorMap := d\<rparr> = coloured d"
  by (simp_all add: coloured_def no_marks_def)

lemma visit_succ_step: "visit_succ (\<lambda>_ _. False) h b (coloured c, q, mem) =
    (if c b = WHITE then (coloured (c(b := GREY)), q @ [b], propagate h b mem) else (coloured c, q, propagate h b mem))"
  by (simp add: visit_succ_def)

lemma EnqueueBB_step: "EnqueueBB b (q, v) = (if v b = UNVISITED then (q @ [b], v(b := PUSHED)) else (q, v))"
  by (simp add: EnqueueBB_def)

lemma visit_succs_sim:
  assumes "\<forall>b. v b = UNVISITED \<longleftrightarrow> c b = WHITE"
  shows "fold (visit_succ (\<lambda>_ _. False) h) bs (coloured c, q, mem) =
      (coloured (\<lambda>b. if c b = WHITE \<and> b \<in> set bs then GREY else c b), fst (fold EnqueueBB bs (q, v)), fold (propagate h) bs mem)"
    and "snd (fold EnqueueBB bs (q, v)) = (\<lambda>b. if v b = UNVISITED \<and> b \<in> set bs then PUSHED else v b)"
  using assms
proof (induction bs arbitrary: c v q mem)
  case (Cons b bs)
  { case 1
    show ?case
    proof (cases "c b = WHITE")
      case True
      have "(\<lambda>x. if (c(b := GREY)) x = WHITE \<and> x \<in> set bs then GREY else (c(b := GREY)) x) = (\<lambda>x. if c x = WHITE \<and> x \<in> set (b # bs) then GREY else c x)"
        using True by auto
      moreover have "\<forall>x. (v(b := PUSHED)) x = UNVISITED \<longleftrightarrow> (c(b := GREY)) x = WHITE" using 1 by auto
      from Cons.IH(1) [OF this] have "fold (visit_succ (\<lambda>_ _. False) h) bs (coloured (c(b := GREY)), q @ [b], propagate h b mem) =
          (coloured (\<lambda>x. if (c(b := GREY)) x = WHITE \<and> x \<in> set bs then GREY else (c(b := GREY)) x),
           fst (fold EnqueueBB bs (q @ [b], v(b := PUSHED))), fold (propagate h) bs (propagate h b mem))" .
      ultimately show ?thesis using True 1 by (simp add: visit_succ_step EnqueueBB_step del: fun_upd_apply)
    next
      case False
      have "(\<lambda>x. if c x = WHITE \<and> x \<in> set bs then GREY else c x) = (\<lambda>x. if c x = WHITE \<and> x \<in> set (b # bs) then GREY else c x)"
        using False by auto
      then show ?thesis using False 1 Cons.IH(1) [OF 1, of q "propagate h b mem"] by (simp add: visit_succ_step EnqueueBB_step)
    qed
  next
    case 2
    show ?case
    proof (cases "v b = UNVISITED")
      case True
      have "\<forall>x. (v(b := PUSHED)) x = UNVISITED \<longleftrightarrow> (c(b := GREY)) x = WHITE" using 2 by auto
      then have "snd (fold EnqueueBB bs (q @ [b], v(b := PUSHED))) = (\<lambda>x. if (v(b := PUSHED)) x = UNVISITED \<and> x \<in> set bs then PUSHED else (v(b := PUSHED)) x)"
        by (rule Cons.IH(2))
      also have "\<dots> = (\<lambda>x. if v x = UNVISITED \<and> x \<in> set (b # bs) then PUSHED else v x)" using True by auto
      finally show ?thesis using True by (simp add: EnqueueBB_step)
    next
      case False
      then show ?thesis using Cons.IH(2) [OF 2, of q] by (auto simp: EnqueueBB_step fun_eq_iff)
    qed }
qed simp_all

lemma visit_queue_error: "visit_queue sx px (\<lambda>b r. bindE r (f b)) n q vis (Inl e) = Inr (vis', r) \<Longrightarrow> r = Inl e"
proof (induction n arbitrary: q vis)
  case (Suc n)
  then show ?case by (cases q) (auto simp: Let_def split: if_splits option.splits prod.splits)
qed simp

lemma visit_block_coloured:
  assumes "visit_once aa G code h mem = Inr mem'" "h \<notin> set (succs G h)"
    "fold EnqueueBB (succs G h) (q, (node_state \<circ> c)(h := VISITED)) = (q', vis')"
  shows "\<exists>c'. visit_block aa G code back_edge h (coloured c, q, mem) = Inr (coloured c', q', mem') \<and> vis' = node_state \<circ> c'"
proof -
  obtain mem1 where 1: "analyzeBB aa code h mem = Inr mem1" "mem' = fold (propagate h) (succs G h) mem1"
    using assms(1) by (auto simp: visit_once_def bindE_eq_Inr)
  have skip: "back_edge (coloured c) = (\<lambda>_ _. False)" by (simp add: fun_eq_iff back_edge_def)
  let ?v = "(node_state \<circ> c)(h := VISITED)"
  have agree: "\<forall>b. ?v b = UNVISITED \<longleftrightarrow> (c(h := GREY)) b = WHITE" by simp
  define c' where "c' = (\<lambda>b. if (c(h := GREY)) b = WHITE \<and> b \<in> set (succs G h) then GREY else (c(h := GREY)) b)(h := BLACK)"
  have "vis' = (\<lambda>b. if ?v b = UNVISITED \<and> b \<in> set (succs G h) then PUSHED else ?v b)"
    using visit_succs_sim(2) [of ?v "c(h := GREY)" "succs G h" q] agree assms(3) by (simp del: fun_upd_apply)
  then have "vis' = node_state \<circ> c'" using assms(2) by (auto simp: c'_def fun_eq_iff)
  moreover have "visit_block aa G code back_edge h (coloured c, q, mem) = Inr (coloured c', q', mem')"
    using 1 visit_succs_sim(1) [of ?v "c(h := GREY)" h "succs G h" q mem1] agree assms(3)
    by (simp add: visit_block_def skip c'_def del: fun_upd_apply)
  ultimately show ?thesis by blast
qed

lemma lcd_queue_visit:
  assumes G: "\<And>h. h \<notin> set (succs G h)"
  shows "visit_queue (preds G) (\<lambda>b. Some (succs G b)) (\<lambda>b r. bindE r (visit_once aa G code b)) n q (node_state \<circ> c) (Inr mem) = Inr (vis', Inr mem') \<Longrightarrow>
    distinct q \<Longrightarrow> \<forall>b\<in>set q. c b = GREY \<Longrightarrow> \<exists>mk. lcd_queue aa G code (mustWait G) back_edge n (coloured c, q, mem) = Inr (mk, mem')"
proof (induction n arbitrary: q c mem)
  case (Suc n)
  show ?case
  proof (cases q)
    case Nil
    then show ?thesis using Suc.prems(1) by simp
  next
    case (Cons h q1)
    have h: "c h \<noteq> BLACK" using Suc.prems(3) Cons by auto
    show ?thesis
    proof (cases "\<forall>p\<in>set (preds G h). c p = BLACK")
      case False
      then have w: "mustWait G (coloured c) h" by (auto simp: mustWait_def list_ex_iff)
      have "visit_queue (preds G) (\<lambda>b. Some (succs G b)) (\<lambda>b r. bindE r (visit_once aa G code b)) n (q1 @ [h]) (node_state \<circ> c) (Inr mem) = Inr (vis', Inr mem')"
        using Suc.prems(1) False unfolding Cons by (simp add: comp_def)
      from Suc.IH [OF this] Suc.prems(2,3) Cons h w show ?thesis by simp
    next
      case True
      then have w: "\<not> mustWait G (coloured c) h" by (auto simp: mustWait_def list_ex_iff)
      obtain q2 vis2 where f: "fold EnqueueBB (succs G h) (q1, (node_state \<circ> c)(h := VISITED)) = (q2, vis2)" by fastforce
      have step: "visit_queue (preds G) (\<lambda>b. Some (succs G b)) (\<lambda>b r. bindE r (visit_once aa G code b)) n q2 vis2 (visit_once aa G code h mem) = Inr (vis', Inr mem')"
        using Suc.prems(1) Cons True f by (simp add: comp_def)
      then obtain mem1 where m: "visit_once aa G code h mem = Inr mem1" using visit_queue_error by (cases "visit_once aa G code h mem") fastforce+
      from visit_block_coloured [OF m G f] obtain c' where
        c': "visit_block aa G code back_edge h (coloured c, q1, mem) = Inr (coloured c', q2, mem1)" "vis2 = node_state \<circ> c'" by blast
      obtain new where new: "q2 = q1 @ new" "vis2 = (\<lambda>b. if b \<in> set new then PUSHED else ((node_state \<circ> c)(h := VISITED)) b)" "distinct new"
          "set new = {p \<in> set (succs G h). ((node_state \<circ> c)(h := VISITED)) p = UNVISITED}"
        using fold_EnqueueBB [of "succs G h" q1 "(node_state \<circ> c)(h := VISITED)"] f by auto
      have "distinct q2" using new Suc.prems(2,3) Cons by auto
      moreover have "c' b = GREY" if "b \<in> set q2" for b
      proof -
        have "node_state (c' b) = PUSHED" using that new(1,2) c'(2) Suc.prems(2,3) Cons by (auto simp: fun_eq_iff)
        then show ?thesis by (cases "c' b") auto
      qed
      moreover have "visit_queue (preds G) (\<lambda>b. Some (succs G b)) (\<lambda>b r. bindE r (visit_once aa G code b)) n q2 (node_state \<circ> c') (Inr mem1) = Inr (vis', Inr mem')"
        using step unfolding m c'(2) .
      ultimately have "\<exists>mk. lcd_queue aa G code (mustWait G) back_edge n (coloured c', q2, mem1) = Inr (mk, mem')" using Suc.IH by blast
      then show ?thesis using c'(1) Cons h w by simp
    qed
  qed
qed simp

lemma visits_fold: "foldE f xs s = Inr t \<Longrightarrow> fold (\<lambda>b r. bindE r (f b)) xs (Inr s) = Inr t"
  by (induction xs arbitrary: s) (auto simp: bindE_eq_Inr)

text \<open>Puts and gets have their arguments.\<close>

definition calls_ok :: "rinst list \<Rightarrow> bool" where
  "calls_ok = list_all (\<lambda>I. \<forall>n Args. is_one_sided n \<and> (ri_op I = RCall (Some n) Args \<or> ri_op I = RInvoke (Some n) Args) \<longrightarrow> Args \<noteq> [])"

lemma visit_succeeds: "calls_ok (code h) \<Longrightarrow> \<exists>mem'. visit_once aa G code h mem = Inr mem'"
proof -
  assume ok: "calls_ok (code h)"
  have i: "\<exists>st'. analyze_inst aa h I st = Inr st'" if "I \<in> set (code h)" for I st
    using ok that by (auto simp: calls_ok_def list_all_iff analyze_inst_def check_call_inst_def split: rop.splits option.splits list.splits)
  have "\<exists>st'. foldE (analyze_inst aa h) Is st = Inr st'" if "set Is \<subseteq> set (code h)" for Is st
    using that by (induction Is arbitrary: st) (simp, metis bindE_Inr foldE.simps(2) i insert_subset list.simps(15))
  from this [OF order_refl, of mem] obtain st' where "foldE (analyze_inst aa h) (code h) mem = Inr st'" ..
  then show ?thesis by (simp add: visit_once_def analyzeBB_def)
qed

text \<open>Control flow without loops: \<open>V\<close> are the blocks, \<open>rank\<close> grows along the edges, and the entry is the one
  block without predecessors.\<close>

definition loop_free :: "cfg \<Rightarrow> bb list \<Rightarrow> (bb \<Rightarrow> nat) \<Rightarrow> bb \<Rightarrow> bool" where
  "loop_free G V rank Entry \<longleftrightarrow> traversable V rank (preds G) (\<lambda>b. Some (succs G b)) [Entry] \<and> preds G Entry = [] \<and>
     (\<forall>a b. b \<in> set (succs G a) \<longrightarrow> a \<in> set (preds G b)) \<and> (\<forall>h. h \<notin> set (succs G h))"

lemma analyze_order:
  assumes "loop_free G V rank Entry" "(card (set V) + 1) ^ 2 \<le> fuel" "\<And>b. calls_ok (code b)"
  shows "\<exists>order mem. analyze aa G [] Entry code fuel = Inr mem \<and> foldE (visit_once aa G code) order no_accesses = Inr mem \<and>
    distinct order \<and> set order = set V \<and> after_succs (preds G) (rev order)"
proof -
  have T: "traversable V rank (preds G) (\<lambda>b. Some (succs G b)) [Entry]" and entry: "preds G Entry = []"
    and self: "\<And>h. h \<notin> set (succs G h)"
    using assms(1) by (auto simp: loop_free_def)
  let ?c = "\<lambda>b. if b = Entry then GREY else WHITE"
  have start: "(\<lambda>b. if b \<in> set [Entry] then PUSHED else UNVISITED) = node_state \<circ> ?c" by auto
  have "queue_measure V (preds G) [Entry] [] < fuel" using queue_measure_start [OF T] assms(2) by linarith
  from visit_queue_correct [OF T queue_inv_start [OF T] this, of "\<lambda>b r. bindE r (visit_once aa G code b)" "Inr no_accesses"]
  obtain order vis' where o: "visit_queue (preds G) (\<lambda>b. Some (succs G b)) (\<lambda>b r. bindE r (visit_once aa G code b)) fuel [Entry] (node_state \<circ> ?c) (Inr no_accesses)
      = Inr (vis', fold (\<lambda>b r. bindE r (visit_once aa G code b)) order (Inr no_accesses))" "queue_inv V (preds G) [] vis' (rev order)" "set order = set V"
    unfolding start by auto
  have "\<exists>mem. foldE (visit_once aa G code) xs s = Inr mem" for xs s
    by (induction xs arbitrary: s) (simp, metis assms(3) bindE_Inr foldE.simps(2) visit_succeeds)
  then obtain mem where m: "foldE (visit_once aa G code) order no_accesses = Inr mem" by blast
  obtain mk where q: "lcd_queue aa G code (mustWait G) back_edge fuel (coloured ?c, [Entry], no_accesses) = Inr (mk, mem)"
    using lcd_queue_visit [OF self, of aa code fuel "[Entry]" ?c no_accesses vis' mem] o(1) visits_fold [OF m] by auto
  have "lcd_queue aa G code (mustWait G) back_edge fuel (no_marks, [Entry], no_accesses) = lcd_queue aa G code (mustWait G) back_edge fuel (coloured ?c, [Entry], no_accesses)"
  proof (cases fuel)
    case (Suc k)
    have "(\<lambda>_. WHITE)(Entry := GREY) = ?c(Entry := GREY)" by auto
    moreover have "back_edge no_marks = back_edge (coloured ?c)" by (simp add: fun_eq_iff back_edge_def no_marks_def coloured_def)
    ultimately have "visit_block aa G code back_edge Entry (no_marks, [], no_accesses) = visit_block aa G code back_edge Entry (coloured ?c, [], no_accesses)"
      by (simp add: visit_block_def coloured_def no_marks_def del: fun_upd_apply)
    moreover have "\<not> mustWait G mk Entry" for mk by (simp add: mustWait_def entry)
    ultimately show ?thesis using Suc by (simp add: no_marks_def)
  qed simp
  then have "analyze aa G [] Entry code fuel = Inr mem" using q by (simp add: analyze_def)
  then show ?thesis using m o(2,3) by (auto simp: queue_inv_def)
qed

section \<open>Properties\<close>

text \<open>C27: every pair that the analysis of a function reports, with or without loops, is a conflict between two
  instructions of the function: the second is a put or a get, the first accesses the same or aliasing memory, and one of
  the two writes it.\<close>

theorem reports_are_conflicts:
  assumes "LocalConcurrencyAnalysis aa G LI Entry code fuel = Inr Res" "(I, J) \<in> set Res"
  shows "(\<exists>b. I \<in> set (code b)) \<and> (\<exists>b. J \<in> set (code b)) \<and> (getInstructionType I = WRITE \<or> getInstructionType J = WRITE) \<and>
    (\<exists>m1 m2. mem_access I m1 \<and> rma_access J m2 \<and> (m1 = m2 \<or> aa m2 m1))"
proof -
  let ?Is = "\<Union>b. set (code b)"
  obtain mk mem mk2 mem2 where 1: "foldE (bfsLoop aa G code fuel) LI (no_marks, no_accesses) = Inr (mk, mem)"
    and 2: "lcd_queue aa G code (mustWait G) back_edge fuel (mk, [Entry], mem) = Inr (mk2, mem2)" "Res = Results mem2"
    using assms(1) by (auto simp: LocalConcurrencyAnalysis_def analyze_def bindE_eq_Inr)
  have sub: "set (code b) \<subseteq> ?Is" for b by blast
  have "lc_sound aa ?Is (snd (mk, mem))"
  proof (rule foldE_inv [OF 1, of "\<lambda>s. lc_sound aa ?Is (snd s)"])
    show "lc_sound aa ?Is (snd (no_marks, no_accesses))" by (simp add: lc_sound_def no_accesses_def)
    show "lc_sound aa ?Is (snd t)" if "lc_sound aa ?Is (snd s)" "bfsLoop aa G code fuel L s = Inr t" for L s t
      using loop_sound [of code ?Is aa G fuel L s t] sub that by blast
  qed
  then have "lc_sound aa ?Is mem2" using queue_sound [of code ?Is, OF sub 2(1)] by simp
  then show ?thesis using assms(2) 2(2) by (auto simp: lc_sound_def conflict_def races_def)
qed

text \<open>Block 0 branches to 1 and 2, which join in 3. One branch puts from a buffer; what the others do is a
  parameter.\<close>

definition fork_cfg :: cfg where
  "fork_cfg = \<lparr>succs = (\<lambda>b. if b = 0 then [1, 2] else if b = 1 \<or> b = 2 then [3] else []),
     preds = (\<lambda>b. if b = 3 then [1, 2] else if b = 1 \<or> b = 2 then [0] else []), blocks_of = [0, 1, 2, 3]\<rparr>"

definition put_inst :: rinst where
  "put_inst = \<lparr>ri_id = Some 1, ri_op = RCall (Some ''MPI_Put'') [Val 7], ri_dbg = None\<rparr>"

definition get_inst :: rinst where
  "get_inst = \<lparr>ri_id = Some 2, ri_op = RCall (Some ''MPI_Get'') [Val 7], ri_dbg = None\<rparr>"

definition fork_code :: "rinst list \<Rightarrow> rop \<Rightarrow> bb \<Rightarrow> rinst list" where
  "fork_code other final b = (if b = 1 then [put_inst] else if b = 2 then other else if b = 3 then [\<lparr>ri_id = Some 3, ri_op = final, ri_dbg = None\<rparr>] else [])"

lemmas fork_defs = fork_cfg_def put_inst_def get_inst_def fork_code_def
lemmas lcd_defs = LocalConcurrencyAnalysis_def analyze_def no_marks_def no_accesses_def visit_block_def visit_succ_def analyzeBB_def analyze_inst_def
  check_call_inst_def check_access_def check_aliases_def is_one_sided_def is_sync_def report_def races_def getInstructionType_def call_access_def
  propagate_def insert_accesses_def mustWait_def back_edge_def set_vector_insert_def

theorem reports_are_conflicts_witness:
  "\<exists>I J m1 m2. (I, J) \<in> set (case LocalConcurrencyAnalysis (\<lambda>_ _. False) fork_cfg [] 0 (fork_code [] (RStore (Val 7) 32)) 25 of Inl e \<Rightarrow> [] | Inr Res \<Rightarrow> Res) \<and>
    mem_access I m1 \<and> rma_access J m2 \<and> m1 = m2"
proof -
  let ?I = "\<lparr>ri_id = Some 3, ri_op = RStore (Val 7) 32, ri_dbg = None\<rparr>"
  have r: "LocalConcurrencyAnalysis (\<lambda>_ _. False) fork_cfg [] 0 (fork_code [] (RStore (Val 7) 32)) 25 = Inr [(?I, put_inst)]"
    by (simp add: fork_defs lcd_defs eval_nat_numeral)
  have "(?I, put_inst) \<in> set [(?I, put_inst)]" by simp
  from reports_are_conflicts [OF r this] show ?thesis unfolding r by auto
qed

text \<open>C26: in a function without loops the analysis ends within quadratically many turns, and it reports every
  write that follows a put or a get to the same or to aliasing memory, in the same block or along
  a path of blocks, with no synchronisation in between.\<close>

theorem local_write_reported:
  assumes "loop_free G V rank Entry" "(card (set V) + 1) ^ 2 \<le> fuel" "\<And>b. calls_ok (code b)"
    and "b \<in> set V" "code b = us @ I # vs" "getInstructionType I = WRITE" "mem_access I m1"
    and "m2 \<in> before us (entering G code b)" "m1 = m2 \<or> aa m2 m1"
  shows "\<exists>Res J. LocalConcurrencyAnalysis aa G [] Entry code fuel = Inr Res \<and> (I, J) \<in> set Res"
proof -
  obtain order mem where o: "analyze aa G [] Entry code fuel = Inr mem" "foldE (visit_once aa G code) order no_accesses = Inr mem"
      "distinct order" "set order = set V" "after_succs (preds G) (rev order)"
    using analyze_order [of G V rank Entry fuel code aa] assms(1-3) by blast
  have "\<exists>J. (I, J) \<in> set (Results mem)"
  proof (rule visits_report [OF o(2) _ o(3), of "{}" "[]"])
    show "a \<in> set (preds G b)" if "b \<in> set (succs G a)" for a b using assms(1) that by (simp add: loop_free_def)
    show "b \<in> set order" using assms(4) o(4) by simp
  qed (use assms(5-9) o(5) in \<open>simp_all add: arrived_def\<close>)
  then show ?thesis using o(1) by (auto simp: LocalConcurrencyAnalysis_def)
qed

lemma fork_loop_free: "loop_free fork_cfg [0, 1, 2, 3] (\<lambda>b. b) 0"
  by (auto simp: loop_free_def traversable_def fork_cfg_def)

theorem local_write_reported_witness:
  "\<exists>Res J. LocalConcurrencyAnalysis (\<lambda>_ _. False) fork_cfg [] 0 (fork_code [] (RStore (Val 7) 32)) 25 = Inr Res \<and>
    (\<lparr>ri_id = Some 3, ri_op = RStore (Val 7) 32, ri_dbg = None\<rparr>, J) \<in> set Res"
proof (rule local_write_reported [OF fork_loop_free, where b = 3 and us = "[]" and vs = "[]" and ?m1.0 = "Val 7" and ?m2.0 = "Val 7"])
  have "rma_access put_inst (Val 7)" by (simp add: rma_access_def put_inst_def is_one_sided_def)
  then have "Val 7 \<in> before (fork_code [] (RStore (Val 7) 32) 1) {}"
    by (auto simp: before_def fork_code_def intro!: exI [of _ "[]"] exI [of _ put_inst])
  then have "exposed fork_cfg (fork_code [] (RStore (Val 7) 32)) 1 (Val 7)" by (rule exposed.own)
  moreover have "(3 :: nat) \<in> set (succs fork_cfg 1)" by (simp add: fork_cfg_def)
  ultimately show "Val 7 \<in> before [] (entering fork_cfg (fork_code [] (RStore (Val 7) 32)) 3)"
    by (auto simp: before_def entering_def)
  show "calls_ok (fork_code [] (RStore (Val 7) 32) b)" for b by (simp add: calls_ok_def fork_code_def put_inst_def)
qed (simp_all add: fork_code_def getInstructionType_def mem_access_def power2_eq_square)

text \<open>C31: a race is missed when another path hides it: the block that joins the branches keeps the first entry of a
  memory only, so a load after a get on one branch and a put on the other is not reported.\<close>

theorem merged_access_missed:
  "LocalConcurrencyAnalysis aa fork_cfg [] 0 (fork_code [get_inst] (RLoad (Val 7) 32)) 25 = Inr [] \<and>
    getInstructionType get_inst = WRITE \<and> rma_access get_inst (Val 7) \<and> Val 7 \<in> entering fork_cfg (fork_code [get_inst] (RLoad (Val 7) 32)) 3"
proof -
  have a: "rma_access get_inst (Val 7)" by (simp add: rma_access_def get_inst_def is_one_sided_def)
  then have "Val 7 \<in> before (fork_code [get_inst] (RLoad (Val 7) 32) 2) {}"
    by (auto simp: before_def fork_code_def intro!: exI [of _ "[]"] exI [of _ get_inst])
  then have "exposed fork_cfg (fork_code [get_inst] (RLoad (Val 7) 32)) 2 (Val 7)" by (rule exposed.own)
  then have "Val 7 \<in> entering fork_cfg (fork_code [get_inst] (RLoad (Val 7) 32)) 3"
    by (auto simp: entering_def fork_cfg_def intro!: exI [of _ 2])
  moreover have "LocalConcurrencyAnalysis aa fork_cfg [] 0 (fork_code [get_inst] (RLoad (Val 7) 32)) 25 = Inr []"
    by (simp add: fork_defs lcd_defs eval_nat_numeral)
  ultimately show ?thesis using a by (simp add: getInstructionType_def get_inst_def call_access_def)
qed

text \<open>Block 2 cannot be reached and leads to block 1, which waits for it.\<close>

definition dead_pred_cfg :: cfg where
  "dead_pred_cfg = \<lparr>succs = (\<lambda>b. if b = 0 \<or> b = 2 then [1] else []), preds = (\<lambda>b. if b = 1 then [0, 2] else []), blocks_of = [0, 1, 2]\<rparr>"

lemma queue_stuck: "wait mk b \<Longrightarrow> ColorMap mk b \<noteq> BLACK \<Longrightarrow> lcd_queue aa G code wait skip k (mk, [b], mem) = Inl LC_out_of_fuel"
  by (induction k) simp_all

text \<open>The analysis does not end on a function with a block that has an unreachable predecessor.\<close>

theorem unreachable_predecessor_diverges:
  "LocalConcurrencyAnalysis aa dead_pred_cfg [] 0 (\<lambda>_. []) fuel = Inl LC_out_of_fuel"
proof (cases fuel)
  case (Suc k)
  let ?mk = "no_marks\<lparr>ColorMap := (\<lambda>_. WHITE)(0 := GREY, 1 := GREY, 0 := BLACK)\<rparr>"
  have "visit_block aa dead_pred_cfg (\<lambda>_. []) back_edge 0 (no_marks, [], no_accesses) = Inr (?mk, [1], propagate 0 1 no_accesses)"
    by (simp add: visit_block_def visit_succ_def analyzeBB_def dead_pred_cfg_def back_edge_def no_marks_def)
  moreover have "mustWait dead_pred_cfg ?mk 1" by (simp add: mustWait_def dead_pred_cfg_def no_marks_def)
  moreover have "\<not> mustWait dead_pred_cfg no_marks 0" by (simp add: mustWait_def dead_pred_cfg_def)
  ultimately show ?thesis using Suc queue_stuck [of "mustWait dead_pred_cfg" ?mk 1]
    by (simp add: LocalConcurrencyAnalysis_def analyze_def no_marks_def)
qed (simp add: LocalConcurrencyAnalysis_def analyze_def)

end
