(* ===== verification/Warnings.thy ===== *)
theory Warnings
  imports Collective
begin

text \<open>
  Warnings (\<open>src/include/parcoach/Warning.h\<close>, \<open>src/aSSA/Warning.cpp\<close>) and
  their form in the analysis database
  (\<open>src/aSSA/SerializableWarning.cpp\<close>): source locations with their order,
  the sorted list of conditionals, the printed message, and the translation
  between the database and JSON values.
\<close>

section \<open>Locations\<close>

record Location =
  Filename :: string
  Line :: int

text \<open>A missing debug location is printed as line 0 of the file "?".\<close>

definition mk_Location :: "(string \<times> int) option \<Rightarrow> Location" where
  "mk_Location DL = (case DL of
     Some (file, line) \<Rightarrow> \<lparr>Filename = file, Line = line\<rparr> | None \<Rightarrow> \<lparr>Filename = ''?'', Line = 0\<rparr>)"

fun string_less :: "string \<Rightarrow> string \<Rightarrow> bool" where
  "string_less _ [] \<longleftrightarrow> False"
| "string_less [] (_ # _) \<longleftrightarrow> True"
| "string_less (c # cs) (d # ds) \<longleftrightarrow>
     (of_char c :: nat) < of_char d \<or> c = d \<and> string_less cs ds"

definition Location_less :: "Location \<Rightarrow> Location \<Rightarrow> bool" where
  "Location_less a b \<longleftrightarrow>
     string_less (Filename a) (Filename b) \<or>
     \<not> string_less (Filename b) (Filename a) \<and> Line a < Line b"

section \<open>Warnings\<close>

record Warning =
  MissedFunction :: string
  Where :: Location
  Conditionals :: "Location list"

definition sort_locations :: "Location list \<Rightarrow> Location list" where
  "sort_locations xs = fold (multiset_insert Location_less) xs []"

definition mk_Warning :: "string \<Rightarrow> (string \<times> int) option \<Rightarrow> Location list \<Rightarrow> Warning" where
  "mk_Warning F DL C = \<lparr>MissedFunction = F, Where = mk_Location DL, Conditionals = sort_locations C\<rparr>"

fun nat_str :: "nat \<Rightarrow> string" where
  "nat_str n = (if n < 10 then [char_of (48 + n)] else nat_str (n div 10) @ [char_of (48 + n mod 10)])"

declare nat_str.simps [simp del]

definition int_str :: "int \<Rightarrow> string" where
  "int_str i = (if i < 0 then ''-'' @ nat_str (nat (- i)) else nat_str (nat i))"

definition Warning_toString :: "Warning \<Rightarrow> string" where
  "Warning_toString W =
     MissedFunction W @ '' line '' @ int_str (Line (Where W))
     @ '' possibly not called by all processes because of conditional(s) line(s) ''
     @ concat (map (\<lambda>Loc. '' '' @ int_str (Line Loc) @ '' ('' @ Filename Loc @ '')'') (Conditionals W))
     @ '' (Call Ordering Error)''"

section \<open>The analysis database\<close>

datatype json = JNumber int | JString string | JArray "json list" | JObject "(string \<times> json) list"

record TextRange =
  tr_Line :: int

record SonarLocation =
  sl_Filename :: string
  sl_Range :: TextRange
  sl_Message :: string

record SonarWarning =
  sw_Message :: SonarLocation
  sw_Conditionals :: "SonarLocation list"

record Database =
  Issues :: "SonarWarning list"

definition createWarningMessage :: "string \<Rightarrow> string" where
  "createWarningMessage F = F @ '' may not be called by all MPI processes''"

definition mk_SonarWarning :: "Warning \<Rightarrow> SonarWarning" where
  "mk_SonarWarning W =
     \<lparr>sw_Message = \<lparr>sl_Filename = Filename (Where W), sl_Range = \<lparr>tr_Line = Line (Where W)\<rparr>,
                    sl_Message = createWarningMessage (MissedFunction W)\<rparr>,
      sw_Conditionals = map (\<lambda>Cond. \<lparr>sl_Filename = Filename Cond, sl_Range = \<lparr>tr_Line = Line Cond\<rparr>,
                    sl_Message = ''because this condition depends on the rank''\<rparr>) (Conditionals W)\<rparr>"

definition Database_append :: "Database \<Rightarrow> Warning list \<Rightarrow> Database" where
  "Database_append DB Ws = DB\<lparr>Issues := Issues DB @ map mk_SonarWarning Ws\<rparr>"

definition toJSON_range :: "TextRange \<Rightarrow> json" where
  "toJSON_range R = JObject [(''startLine'', JNumber (tr_Line R))]"

definition toJSON_location :: "SonarLocation \<Rightarrow> json" where
  "toJSON_location L = JObject [(''filePath'', JString (sl_Filename L)), (''textRange'', toJSON_range (sl_Range L)),
     (''message'', JString (sl_Message L))]"

definition toJSON_warning :: "SonarWarning \<Rightarrow> json" where
  "toJSON_warning W = JObject [(''engineId'', JString ''parcoach''), (''ruleId'', JString ''mpiCollective''),
     (''severity'', JString ''MINOR''), (''type'', JString ''BUG''),
     (''primaryLocation'', toJSON_location (sw_Message W)),
     (''secondaryLocations'', JArray (map toJSON_location (sw_Conditionals W)))]"

definition toJSON_database :: "Database \<Rightarrow> json" where
  "toJSON_database DB = JObject [(''issues'', JArray (map toJSON_warning (Issues DB)))]"

text \<open>\<open>ObjectMapper::map\<close>: the value must be an object with the property, which the reader
  of its type accepts.\<close>

definition obj_map :: "json \<Rightarrow> string \<Rightarrow> (json \<Rightarrow> 'a option) \<Rightarrow> 'a option" where
  "obj_map E k rd = (case E of
     JObject kvs \<Rightarrow> (case map_of kvs k of None \<Rightarrow> None | Some v \<Rightarrow> rd v) | _ \<Rightarrow> None)"

fun as_int :: "json \<Rightarrow> int option" where
  "as_int (JNumber i) = Some i" | "as_int _ = None"

fun as_string :: "json \<Rightarrow> string option" where
  "as_string (JString s) = Some s" | "as_string _ = None"

fun read_all :: "(json \<Rightarrow> 'a option) \<Rightarrow> json list \<Rightarrow> 'a list option" where
  "read_all rd [] = Some []"
| "read_all rd (j # js) = (case rd j of None \<Rightarrow> None
     | Some x \<Rightarrow> (case read_all rd js of None \<Rightarrow> None | Some xs \<Rightarrow> Some (x # xs)))"

fun as_array :: "(json \<Rightarrow> 'a option) \<Rightarrow> json \<Rightarrow> 'a list option" where
  "as_array rd (JArray js) = read_all rd js" | "as_array rd _ = None"

definition fromJSON_range :: "json \<Rightarrow> TextRange option" where
  "fromJSON_range E = (case obj_map E ''startLine'' as_int of None \<Rightarrow> None | Some l \<Rightarrow> Some \<lparr>tr_Line = l\<rparr>)"

definition fromJSON_location :: "json \<Rightarrow> SonarLocation option" where
  "fromJSON_location E = (case obj_map E ''message'' as_string of None \<Rightarrow> None | Some m \<Rightarrow>
     (case obj_map E ''filePath'' as_string of None \<Rightarrow> None | Some f \<Rightarrow>
     (case obj_map E ''textRange'' fromJSON_range of None \<Rightarrow> None | Some r \<Rightarrow>
        Some \<lparr>sl_Filename = f, sl_Range = r, sl_Message = m\<rparr>)))"

definition fromJSON_warning :: "json \<Rightarrow> SonarWarning option" where
  "fromJSON_warning E = (case obj_map E ''primaryLocation'' fromJSON_location of None \<Rightarrow> None | Some m \<Rightarrow>
     (case obj_map E ''secondaryLocations'' (as_array fromJSON_location) of None \<Rightarrow> None | Some cs \<Rightarrow>
        Some \<lparr>sw_Message = m, sw_Conditionals = cs\<rparr>))"

definition fromJSON_database :: "json \<Rightarrow> Database option" where
  "fromJSON_database E = (case obj_map E ''issues'' (as_array fromJSON_warning) of None \<Rightarrow> None
     | Some ws \<Rightarrow> Some \<lparr>Issues = ws\<rparr>)"

text \<open>The serialization pass on a database file: a missing file starts an empty database, an
  unreadable one leaves the file as it is.\<close>

datatype db_file = Missing | Contents json

definition run_serialization :: "bool \<Rightarrow> db_file \<Rightarrow> Warning list \<Rightarrow> db_file" where
  "run_serialization file_given file Ws =
     (if \<not> file_given then file
      else case file of
        Missing \<Rightarrow> Contents (toJSON_database (Database_append \<lparr>Issues = []\<rparr> Ws))
      | Contents j \<Rightarrow>
          (case fromJSON_database j of
             None \<Rightarrow> file
           | Some DB \<Rightarrow> Contents (toJSON_database (Database_append DB Ws))))"

section \<open>Order of locations\<close>

lemma of_char_eq [simp]: "((of_char c :: nat) = of_char d) = (c = d)"
  by (metis char_of_char)

lemma string_less_irrefl: "\<not> string_less s s"
  by (induction s) auto

lemma string_less_trans: "string_less r s \<Longrightarrow> string_less s t \<Longrightarrow> string_less r t"
proof (induction r s arbitrary: t rule: string_less.induct)
  case (2 d ds)
  then show ?case by (cases t) auto
next
  case (3 c cs d ds)
  then show ?case by (cases t) (auto intro: less_trans)
qed simp

lemma string_less_total: "string_less s t \<or> s = t \<or> string_less t s"
proof (induction s t rule: string_less.induct)
  case (1 s)
  then show ?case by (cases s) auto
next
  case (3 c cs d ds)
  then show ?case by (metis linorder_neqE_nat of_char_eq string_less.simps(3))
qed simp

lemma Location_less_alt:
  "Location_less a b \<longleftrightarrow> string_less (Filename a) (Filename b) \<or> Filename a = Filename b \<and> Line a < Line b"
  using string_less_total string_less_irrefl string_less_trans unfolding Location_less_def by metis

interpretation loc: strict_weak_order Location_less
proof
  show "\<not> Location_less x x" for x
    by (simp add: Location_less_alt string_less_irrefl)
  show "Location_less x z" if "Location_less x y" "Location_less y z" for x y z
    using that string_less_trans by (auto simp: Location_less_alt)
  show "\<not> Location_less x z" if "\<not> Location_less x y" "\<not> Location_less y z" for x y z
    using that string_less_total string_less_trans string_less_irrefl
    unfolding Location_less_alt by (metis linorder_not_less order_le_less_trans)
qed

section \<open>Properties\<close>

text \<open>The conditionals of a warning are those it is given, each as often as it is given,
  in the order of their file names and then of their lines.\<close>

theorem warning_conditionals_sorted:
  "mset (Conditionals (mk_Warning F DL C)) = mset C \<and>
   sorted_wrt (\<lambda>a b. \<not> Location_less b a) (Conditionals (mk_Warning F DL C))"
  using loc.ordered_fold_insert [of "[]" C] by (simp add: mk_Warning_def sort_locations_def)

lemma read_all_map: "(\<And>x. rd (wr x) = Some x) \<Longrightarrow> read_all rd (map wr xs) = Some xs"
  by (induction xs) auto

lemma range_roundtrip: "fromJSON_range (toJSON_range r) = Some r"
  by (cases r) (simp add: fromJSON_range_def toJSON_range_def obj_map_def)

lemma location_roundtrip: "fromJSON_location (toJSON_location l) = Some l"
  by (cases l) (simp add: fromJSON_location_def toJSON_location_def obj_map_def range_roundtrip)

lemma warning_roundtrip: "fromJSON_warning (toJSON_warning w) = Some w"
  by (cases w) (simp add: fromJSON_warning_def toJSON_warning_def obj_map_def location_roundtrip read_all_map)

lemma database_roundtrip: "fromJSON_database (toJSON_database DB) = Some DB"
  by (cases DB) (simp add: fromJSON_database_def toJSON_database_def obj_map_def warning_roundtrip read_all_map)

text \<open>Running the serialization pass twice on a database file, on two sets of warnings,
  leaves in the file the issues it held, then those of the first run and then those of the
  second: what is written is read back, and no issue is lost or changed.\<close>

theorem serialization_accumulates:
  "run_serialization True (run_serialization True (Contents (toJSON_database DB)) Ws) Vs
   = Contents (toJSON_database \<lparr>Issues = Issues DB @ map mk_SonarWarning Ws @ map mk_SonarWarning Vs\<rparr>)"
  by (cases DB) (simp add: run_serialization_def database_roundtrip Database_append_def)

end
