(* ===== verification/Coll_Instrument.thy ===== *)
theory Coll_Instrument
  imports RMA_Instrument Warnings
begin

text \<open>
  The pass that inserts run-time checks before collectives
  (\<open>src/src/aSSA/Instrumentation.cpp\<close>), the counts of calls
  (\<open>StatisticsAnalysis.cpp\<close>), the replacement of OpenMP forks
  (\<open>OpenMPInstr.cpp\<close>) and the choice of the passes (\<open>RegisterPasses\<close> of
  \<open>Parcoach.cpp\<close>), for a build with all paradigms.

  A function is the list of its instructions. A warning is found by the number of its
  call. The build stops at a collective of a kind that has no check,
  which is the left value here.
\<close>

section \<open>Checks before collectives\<close>

datatype ci_error = Unhandled_collective

definition getCheckFunctionName :: "Collective option \<Rightarrow> ci_error + string" where
  "getCheckFunctionName c = (case c of
     None \<Rightarrow> Inr ''check_collective_return''
   | Some C \<Rightarrow> (case par C of
        MPI \<Rightarrow> Inr ''check_collective_MPI''
      | OMP \<Rightarrow> Inr ''check_collective_OMP''
      | UPC \<Rightarrow> Inr ''check_collective_UPC''
      | _ \<Rightarrow> Inl Unhandled_collective))"

text \<open>The values of the enumeration are numbered in the order of the registries; \<open>C_Last\<close> ends them.\<close>

definition Kinds :: "string list" where
  "Kinds = map (\<lambda>(n, C). Kind C) RegistryData"

definition OpColor :: "Collective option \<Rightarrow> nat" where
  "OpColor c = (case c of None \<Rightarrow> length Kinds | Some C \<Rightarrow> length (takeWhile (\<lambda>k. k \<noteq> Kind C) Kinds))"

definition insertCC :: "Collective option \<Rightarrow> string \<Rightarrow> i32 \<Rightarrow> string \<Rightarrow> string \<Rightarrow> ci_error + rinst" where
  "insertCC C F OpLine WarningMsg File =
     bindE (getCheckFunctionName C) (\<lambda>FunctionName. Inr
       \<lparr>ri_id = None, ri_op = RCall (Some FunctionName) [Int32 (of_nat (OpColor C)), Str F, Int32 OpLine, Str WarningMsg, Str File],
        ri_dbg = None\<rparr>)"

definition ends_program :: "string \<Rightarrow> bool" where
  "ends_program CalleeName \<longleftrightarrow> CalleeName = ''MPI_Finalize'' \<or> CalleeName = ''MPI_Abort'' \<or> CalleeName = ''abort''"

definition WarningStr :: "(nat \<times> Warning) list \<Rightarrow> rinst \<Rightarrow> string" where
  "WarningStr Warnings CI = (case Option.bind (ri_id CI) (map_of Warnings) of Some W \<Rightarrow> Warning_toString W | None \<Rightarrow> '' '')"

definition check_call_of :: "options \<Rightarrow> (nat \<times> Warning) list \<Rightarrow> rinst \<Rightarrow> rinst list \<times> bool \<Rightarrow> ci_error + rinst list \<times> bool" where
  "check_call_of opts Warnings I s = (case s of (out, Changed) \<Rightarrow> (case ri_op I of
     RCall (Some Callee) Args \<Rightarrow>
       (let OpLine = (case ri_dbg I of Some (l, d) \<Rightarrow> l | None \<Rightarrow> - 1);
            File = (case ri_dbg I of Some (l, d) \<Rightarrow> d | None \<Rightarrow> ''o'') in
        if ends_program Callee
        then bindE (insertCC None Callee OpLine (WarningStr Warnings I) File) (\<lambda>cc. Inr (out @ [cc, I], True))
        else (case Collective_find opts Callee of
           Some Coll \<Rightarrow> bindE (insertCC (Some Coll) Callee OpLine (WarningStr Warnings I) File) (\<lambda>cc. Inr (out @ [cc, I], True))
         | None \<Rightarrow> Inr (out @ [I], Changed)))
   | _ \<Rightarrow> Inr (out @ [I], Changed)))"

definition CollectiveInstrumentation_run :: "options \<Rightarrow> (nat \<times> Warning) list \<Rightarrow> rinst list \<Rightarrow> ci_error + rinst list \<times> bool" where
  "CollectiveInstrumentation_run opts Warnings F = foldE (check_call_of opts Warnings) F ([], False)"

definition ParcoachInstrumentationPass_run :: "options \<Rightarrow> (nat \<times> Warning) list \<Rightarrow> rinst list list \<Rightarrow> ci_error + rinst list list" where
  "ParcoachInstrumentationPass_run opts Warnings M =
     (if Warnings = [] then Inr M
      else foldE (\<lambda>F out. bindE (CollectiveInstrumentation_run opts Warnings F) (\<lambda>(F', Changed). Inr (out @ [F']))) M [])"

section \<open>Counts of calls\<close>

record CallStatistics =
  Functions :: nat
  IndirectCalls :: nat
  DirectCalls :: nat

definition count_call :: "rinst \<Rightarrow> CallStatistics \<Rightarrow> CallStatistics" where
  "count_call I Res = (case ri_op I of
     RCall (Some f) Args \<Rightarrow> Res\<lparr>DirectCalls := Suc (DirectCalls Res)\<rparr>
   | RCall None Args \<Rightarrow> Res\<lparr>IndirectCalls := Suc (IndirectCalls Res)\<rparr>
   | _ \<Rightarrow> Res)"

definition StatisticsAnalysis_run :: "rinst list list \<Rightarrow> CallStatistics" where
  "StatisticsAnalysis_run M = fold (\<lambda>F Res. fold count_call F (Res\<lparr>Functions := Suc (Functions Res)\<rparr>)) M
     \<lparr>Functions = 0, IndirectCalls = 0, DirectCalls = 0\<rparr>"

section \<open>OpenMP forks\<close>

text \<open>The operands of a call are its arguments and the callee. \<open>as_function\<close> tells which operands are
  functions, with their name and number of parameters. Reading an operand or a parameter that is not there,
  and a fork of something that is not a function, fail assertions.\<close>

datatype omp_error = OMP_Assertion

type_synonym shared_vars = "string \<Rightarrow> rval list"

definition replace_fork :: "(rval \<Rightarrow> (string \<times> nat) option) \<Rightarrow> rval \<Rightarrow> rinst \<Rightarrow> rval list \<Rightarrow> shared_vars \<Rightarrow> omp_error + rinst \<times> shared_vars" where
  "replace_fork as_function callee I Args shared =
     (let Ops = Args @ [callee] in
      if length Ops \<le> 2 then Inl OMP_Assertion
      else (case as_function (Ops ! 2) of
         None \<Rightarrow> Inl OMP_Assertion
       | Some (OutlinedFunc, NbParams) \<Rightarrow>
           if NbParams < 2 then Inl OMP_Assertion
           else let Vars = map (\<lambda>i. Ops ! i) [3..<length Ops - 1] in
             Inr (I\<lparr>ri_op := RCall (Some OutlinedFunc) ([NullValue, NullValue] @ Vars)\<rparr>,
                  shared(OutlinedFunc := fold List.insert Vars (shared OutlinedFunc)))))"

definition prepare_inst :: "(rval \<Rightarrow> (string \<times> nat) option) \<Rightarrow> rval \<Rightarrow> rinst \<Rightarrow> rinst list \<times> shared_vars \<Rightarrow> omp_error + rinst list \<times> shared_vars" where
  "prepare_inst as_function fork I s = (case s of (out, shared) \<Rightarrow> (case ri_op I of
     RCall (Some f) Args \<Rightarrow>
       if f = ''__kmpc_fork_call''
       then bindE (replace_fork as_function fork I Args shared) (\<lambda>(I', shared'). Inr (out @ [I'], shared'))
       else Inr (out @ [I], shared)
   | _ \<Rightarrow> Inr (out @ [I], shared)))"

definition PrepareOpenMPInstr_run :: "(rval \<Rightarrow> (string \<times> nat) option) \<Rightarrow> rval \<Rightarrow> rinst list list \<Rightarrow> shared_vars \<Rightarrow> omp_error + rinst list list \<times> shared_vars" where
  "PrepareOpenMPInstr_run as_function fork M shared =
     foldE (\<lambda>F (out, shared). bindE (foldE (prepare_inst as_function fork) F ([], shared)) (\<lambda>(F', shared'). Inr (out @ [F'], shared'))) M ([], shared)"

section \<open>The passes\<close>

datatype pass = UnifyFunctionExitNodes | ShowStats | PrepareOpenMP | EmitDG | RMAInstrumentation | ShowPAInterResult | SonarSerialization
  | ParcoachInstrumentation

datatype register_error = Exit_failure

record pass_flags =
  OptStats :: bool
  OptInstrumInter :: bool
  OptContextInsensitive :: bool
  OptDotGraph :: bool
  OptDotTaintPaths :: bool

definition RegisterPasses :: "options \<Rightarrow> pass_flags \<Rightarrow> register_error + pass list" where
  "RegisterPasses opts fl =
     (if \<not> OptContextInsensitive fl \<and> OptDotTaintPaths fl then Inl Exit_failure
      else if OptStats fl then Inr [UnifyFunctionExitNodes, ShowStats]
      else let MPM = [UnifyFunctionExitNodes] @ (if isActivated opts OMP then [PrepareOpenMP] else []) @ (if OptDotGraph fl then [EmitDG] else []) in
        if isActivated opts RMA then Inr (MPM @ [RMAInstrumentation])
        else Inr (MPM @ [ShowPAInterResult, SonarSerialization] @ (if OptInstrumInter fl then [ParcoachInstrumentation] else [])))"

section \<open>Properties\<close>

definition check_names :: "string list" where
  "check_names = [''check_collective_return'', ''check_collective_MPI'', ''check_collective_OMP'', ''check_collective_UPC'']"

definition is_check :: "rinst \<Rightarrow> bool" where
  "is_check I \<longleftrightarrow> call_name I \<in> Some ` set check_names"

definition needs_check :: "options \<Rightarrow> rinst \<Rightarrow> bool" where
  "needs_check opts I \<longleftrightarrow> (case ri_op I of RCall (Some f) Args \<Rightarrow> ends_program f \<or> isCollective opts f | _ \<Rightarrow> False)"

text \<open>A check announces the function of the call after it: by its name, by the colour of its collective or, for
  the end of the program, by a colour that no collective has, and with the warning of the call.\<close>

definition check_for :: "options \<Rightarrow> (nat \<times> Warning) list \<Rightarrow> rinst \<Rightarrow> rinst \<Rightarrow> bool" where
  "check_for opts Warnings cc I \<longleftrightarrow> (case ri_op I of
     RCall (Some f) Args \<Rightarrow> (\<exists>n c l File. ri_op cc = RCall (Some n) [Int32 c, Str f, Int32 l, Str (WarningStr Warnings I), Str File] \<and>
       (if ends_program f then c = of_nat (length Kinds) else \<exists>C. Collective_find opts f = Some C \<and> Kinds ! unat c = Kind C \<and> unat c < length Kinds))
   | _ \<Rightarrow> False)"

fun well_checked :: "options \<Rightarrow> (nat \<times> Warning) list \<Rightarrow> rinst list \<Rightarrow> bool" where
  "well_checked opts Warnings [] \<longleftrightarrow> True"
| "well_checked opts Warnings (I # out) \<longleftrightarrow>
     (if is_check I then (case out of [] \<Rightarrow> False | J # rest \<Rightarrow> check_for opts Warnings I J \<and> well_checked opts Warnings rest)
      else \<not> needs_check opts I \<and> well_checked opts Warnings out)"

lemma well_checked_append:
  "well_checked opts Ws xs \<Longrightarrow> well_checked opts Ws ys \<Longrightarrow> well_checked opts Ws (xs @ ys)"
  by (induction opts Ws xs rule: well_checked.induct) (auto split: list.splits if_splits)

lemma kinds_distinct: "distinct Kinds"
  unfolding Kinds_def RegistryData_def MPIRegistry_def OMPRegistry_def UPCRegistry_def CUDARegistry_def by simp

lemma kinds_length: "length Kinds = 56"
  unfolding Kinds_def RegistryData_def MPIRegistry_def OMPRegistry_def UPCRegistry_def CUDARegistry_def by simp

lemma find_registered: "Collective_find opts f = Some C \<Longrightarrow> (f, C) \<in> set RegistryData \<and> enabled opts C"
  by (auto simp: Collective_find_def dest: map_of_SomeD split: option.splits if_splits)

lemma color_kind:
  assumes "Collective_find opts f = Some C"
  shows "OpColor (Some C) < length Kinds" "Kinds ! OpColor (Some C) = Kind C"
proof -
  have "Kind C \<in> set Kinds" using find_registered [OF assms] by (force simp: Kinds_def)
  then obtain us vs where k: "Kinds = us @ Kind C # vs" "Kind C \<notin> set us" by (meson split_list_first)
  have w: "takeWhile (\<lambda>k. k \<noteq> Kind C) Kinds = us" unfolding k(1) using k(2) by (subst takeWhile_append2) auto
  show "OpColor (Some C) < length Kinds" "Kinds ! OpColor (Some C) = Kind C"
    unfolding OpColor_def option.case w by (simp_all add: k(1))
qed

lemma color_word: "k \<le> length Kinds \<Longrightarrow> unat (of_nat k :: i32) = k"
  by (simp add: kinds_length unat_of_nat)

lemma insertCC_check:
  assumes "\<And>C. c = Some C \<Longrightarrow> par C \<noteq> CUDA \<and> par C \<noteq> RMA"
  shows "\<exists>n. n \<in> set check_names \<and> insertCC c F l m d = Inr
    \<lparr>ri_id = None, ri_op = RCall (Some n) [Int32 (of_nat (OpColor c)), Str F, Int32 l, Str m, Str d], ri_dbg = None\<rparr>"
  using assms by (cases c) (auto simp: insertCC_def getCheckFunctionName_def check_names_def split: Paradigm.splits)


lemma check_step:
  assumes "\<not> isActivated opts CUDA" "\<not> isActivated opts RMA" "\<not> is_check I"
  shows "\<exists>pre ch'. check_call_of opts Ws I (out, ch) = Inr (out @ pre @ [I], ch') \<and> list_all is_check pre \<and> well_checked opts Ws (pre @ [I])"
proof (cases "needs_check opts I")
  case False
  then have "check_call_of opts Ws I (out, ch) = Inr (out @ [] @ [I], ch)"
    by (auto simp: check_call_of_def needs_check_def isCollective_def Let_def split: rop.splits option.splits)
  then show ?thesis using False assms(3) by (intro exI [of _ "[]"]) simp
next
  case True
  then obtain f Args where f: "ri_op I = RCall (Some f) Args" "ends_program f \<or> isCollective opts f"
    by (auto simp: needs_check_def split: rop.splits option.splits)
  define c where "c = (if ends_program f then None else Collective_find opts f)"
  have reg: "Collective_find opts f = Some C \<and> \<not> ends_program f" if "c = Some C" for C using that by (simp add: c_def split: if_splits)
  then have ok: "c = Some C \<Longrightarrow> par C \<noteq> CUDA \<and> par C \<noteq> RMA" for C
    using assms(1,2) find_registered [of opts f C] by (auto simp: enabled_def)
  define l where "l = (case ri_dbg I of Some (l, d) \<Rightarrow> l | None \<Rightarrow> - 1)"
  define d where "d = (case ri_dbg I of Some (l, d) \<Rightarrow> d | None \<Rightarrow> ''o'')"
  obtain n where n: "n \<in> set check_names" "insertCC c f l (WarningStr Ws I) d = Inr
    \<lparr>ri_id = None, ri_op = RCall (Some n) [Int32 (of_nat (OpColor c)), Str f, Int32 l, Str (WarningStr Ws I), Str d], ri_dbg = None\<rparr>" (is "_ = Inr ?cc")
    using insertCC_check [of c, OF ok] by blast
  have "check_call_of opts Ws I (out, ch) = Inr (out @ [?cc] @ [I], True)"
    using n(2) f by (auto simp: check_call_of_def Let_def l_def [symmetric] d_def [symmetric] c_def isCollective_def)
  moreover have "is_check ?cc" using n(1) by (simp add: is_check_def call_name_def)
  moreover have "check_for opts Ws ?cc I"
  proof (cases c)
    case None
    then have "ends_program f" using f(2) by (auto simp: c_def isCollective_def split: if_splits)
    then show ?thesis using f(1) None by (simp add: check_for_def OpColor_def)
  next
    case (Some C)
    then show ?thesis using f(1) reg [OF Some] color_kind [of opts f C] color_word [of "OpColor (Some C)"] by (simp add: check_for_def)
  qed
  ultimately show ?thesis by (intro exI [of _ "[?cc]"] exI [of _ True]) simp
qed

lemma checks_fold:
  assumes "\<not> isActivated opts CUDA" "\<not> isActivated opts RMA"
  shows "list_all (\<lambda>I. \<not> is_check I) F \<Longrightarrow> \<exists>out' ch'. foldE (check_call_of opts Ws) F (out, ch) = Inr (out @ out', ch') \<and>
    filter (\<lambda>I. \<not> is_check I) out' = F \<and> well_checked opts Ws out'"
proof (induction F arbitrary: out ch)
  case (Cons I F)
  obtain pre ch1 where 1: "check_call_of opts Ws I (out, ch) = Inr (out @ pre @ [I], ch1)" "list_all is_check pre" "well_checked opts Ws (pre @ [I])"
    using check_step [OF assms] Cons.prems by fastforce
  obtain out' ch' where 2: "foldE (check_call_of opts Ws) F (out @ pre @ [I], ch1) = Inr ((out @ pre @ [I]) @ out', ch')"
      "filter (\<lambda>I. \<not> is_check I) out' = F" "well_checked opts Ws out'"
    using Cons.IH [of "out @ pre @ [I]" ch1] Cons.prems by auto
  have "filter (\<lambda>I. \<not> is_check I) pre = []" using 1(2) by (auto simp: list_all_iff)
  then show ?case using 1 2 Cons.prems well_checked_append [OF 1(3) 2(3)] by (intro exI [of _ "pre @ [I] @ out'"] exI [of _ ch']) simp
qed simp

lemma module_fold:
  assumes "\<not> isActivated opts CUDA" "\<not> isActivated opts RMA"
  shows "\<forall>F\<in>set M. list_all (\<lambda>I. \<not> is_check I) F \<Longrightarrow>
    \<exists>M'. foldE (\<lambda>F out. bindE (CollectiveInstrumentation_run opts Ws F) (\<lambda>(F', Changed). Inr (out @ [F']))) M out = Inr (out @ M') \<and>
      map (filter (\<lambda>I. \<not> is_check I)) M' = M \<and> list_all (well_checked opts Ws) M'"
proof (induction M arbitrary: out)
  case (Cons F M)
  obtain F' ch where 1: "CollectiveInstrumentation_run opts Ws F = Inr (F', ch)" "filter (\<lambda>I. \<not> is_check I) F' = F" "well_checked opts Ws F'"
    using checks_fold [OF assms, of F Ws "[]" False] Cons.prems by (auto simp: CollectiveInstrumentation_run_def)
  obtain M' where 2: "foldE (\<lambda>F out. bindE (CollectiveInstrumentation_run opts Ws F) (\<lambda>(F', Changed). Inr (out @ [F']))) M (out @ [F']) = Inr ((out @ [F']) @ M')"
      "map (filter (\<lambda>I. \<not> is_check I)) M' = M" "list_all (well_checked opts Ws) M'"
    using Cons.IH [of "out @ [F']"] Cons.prems by auto
  show ?case using 1 2 by (intro exI [of _ "F' # M'"]) simp
qed simp


text \<open>A reduction with a warning and the end of the program.\<close>

definition reduce_code :: "rinst list" where
  "reduce_code = [\<lparr>ri_id = Some 4, ri_op = RCall (Some ''MPI_Reduce'') [Val 1], ri_dbg = Some (24, ''a.c'')\<rparr>,
     \<lparr>ri_id = Some 5, ri_op = RStore (Val 1) 32, ri_dbg = None\<rparr>, \<lparr>ri_id = None, ri_op = RCall (Some ''MPI_Finalize'') [], ri_dbg = None\<rparr>]"

definition mpi_only :: options where
  "mpi_only = \<lparr>opt_check = MPI, opt_mpi = False, opt_omp = False, opt_upc = False, opt_cuda = False\<rparr>"


text \<open>The numbers in the checks tell the collectives apart, since a number is the position of one function.\<close>

lemma colors_identify:
  assumes "Collective_find opts f = Some C" "Collective_find opts g = Some D" "(of_nat (OpColor (Some C)) :: i32) = of_nat (OpColor (Some D))"
  shows "f = g"
proof -
  have "OpColor (Some C) = OpColor (Some D)"
    using assms(3) color_word color_kind(1) [OF assms(1)] color_kind(1) [OF assms(2)] by (metis less_imp_le)
  then have k: "Kind C = Kind D" using color_kind(2) assms(1,2) by metis
  have "distinct (map (\<lambda>p. Kind (snd p)) RegistryData)" using kinds_distinct by (simp add: Kinds_def case_prod_beta')
  then have "inj_on (\<lambda>p. Kind (snd p)) (set RegistryData)" by (simp add: distinct_map)
  then show ?thesis using k find_registered [OF assms(1)] find_registered [OF assms(2)] by (auto dest!: inj_onD [of _ _ "(f, C)" "(g, D)"])
qed

text \<open>The number of the end of the program is not one of theirs.\<close>

lemma end_color: "Collective_find opts f = Some C \<Longrightarrow> (of_nat (OpColor (Some C)) :: i32) \<noteq> of_nat (OpColor None)"
  using color_word [of "OpColor (Some C)"] color_word [of "length Kinds"] color_kind(1) [of opts f C]
  by (metis OpColor_def less_irrefl less_imp_le option.simps(4) order_refl)

lemma statistics_count:
  "Functions (StatisticsAnalysis_run M) = length M \<and> DirectCalls (StatisticsAnalysis_run M) + IndirectCalls (StatisticsAnalysis_run M) =
     length (filter (\<lambda>I. case ri_op I of RCall f Args \<Rightarrow> True | _ \<Rightarrow> False) (concat M))"
proof -
  let ?call = "\<lambda>I. case ri_op I of RCall f Args \<Rightarrow> True | _ \<Rightarrow> False"
  have one: "Functions (fold count_call F s) = Functions s \<and>
      DirectCalls (fold count_call F s) + IndirectCalls (fold count_call F s) = DirectCalls s + IndirectCalls s + length (filter ?call F)" for F s
  proof (induction F arbitrary: s)
    case (Cons I F)
    show ?case using Cons [of "count_call I s"] by (simp add: count_call_def split: rop.split option.split)
  qed simp
  let ?g = "\<lambda>F Res. fold count_call F (Res\<lparr>Functions := Suc (Functions Res)\<rparr>)"
  have "Functions (fold ?g M s) = Functions s + length M \<and>
      DirectCalls (fold ?g M s) + IndirectCalls (fold ?g M s) = DirectCalls s + IndirectCalls s + length (filter ?call (concat M))" for s
  proof (induction M arbitrary: s)
    case (Cons F M)
    show ?case using Cons [of "?g F s"] one [of F "s\<lparr>Functions := Suc (Functions s)\<rparr>"] by simp
  qed simp
  then show ?thesis by (simp add: StatisticsAnalysis_run_def)
qed

text \<open>A fork of a function with shared variables becomes a call of the function, with two null arguments before them.\<close>

lemma fork_replaced:
  assumes "as_function f = Some (g, Suc (Suc k))"
  shows "replace_fork as_function callee I (a # b # f # Vars) shared = Inr (I\<lparr>ri_op := RCall (Some g) (NullValue # NullValue # Vars)\<rparr>,
    shared(g := fold List.insert Vars (shared g)))"
proof -
  have "map (\<lambda>i. (a # b # f # Vars @ [callee]) ! i) [3..<length Vars + 3] = Vars"
    unfolding map_add_upt [of 3 "length Vars", symmetric] map_map by (rule nth_equalityI) (simp_all add: nth_append)
  then show ?thesis using assms by (simp add: replace_fork_def Let_def numeral_2_eq_2 numeral_3_eq_3)
qed

text \<open>The checks for collectives are not inserted when the RMA analysis is on, whatever the flags.\<close>

lemma rma_passes:
  assumes "isActivated opts RMA" "RegisterPasses opts fl = Inr ps"
  shows "ParcoachInstrumentation \<notin> set ps \<and> ShowPAInterResult \<notin> set ps"
  using assms by (auto simp: RegisterPasses_def Let_def split: if_splits)

end
