(* ===== verification/Tool_Wrapper.thy ===== *)
theory Tool_Wrapper
  imports Prelude "HOL-Library.Sublist"
begin

text \<open>
  The compiler wrapper \<open>parcoachcc\<close> (\<open>src/src/tools/wrapper\<close>): it runs the original
  command, has the compiler emit LLVM code into a temporary file, and runs PARCOACH
  on it; with instrumentation it then compiles the instrumented code.

  What the system answers is a record: where programs are, the exit code of a command after
  the commands that ran before, and the names of temporary files. A run gives the exit code and the commands, in their order.
  Temporary files are removed by their destructors at every return; the removal is left out.
  An option \<open>-o\<close> at the end of the command moves the iterator past the end, which is
  undefined and the left value here.
\<close>

section \<open>Command lines\<close>

type_synonym ArgList = "string list"

datatype wrap_error = Past_the_end

definition ARGS_ARG :: string where "ARGS_ARG = ''--args''"

definition EmitIRArgs :: ArgList where "EmitIRArgs = [''-g'', ''-S'', ''-emit-llvm'', ''-o'']"

definition IsPreventLinkFlag :: "string \<Rightarrow> bool" where
  "IsPreventLinkFlag Arg \<longleftrightarrow> Arg = ''-c'' \<or> Arg = ''-S'' \<or> Arg = ''-E''"

definition BuildParcoachArgs :: "ArgList \<Rightarrow> string \<Rightarrow> string \<Rightarrow> string option \<Rightarrow> ArgList" where
  "BuildParcoachArgs Argv ParcoachBin IRFile OutputFile =
     [ParcoachBin] @ (if ARGS_ARG \<in> set Argv then takeWhile (\<lambda>a. a \<noteq> ARGS_ARG) Argv else []) @ [IRFile] @
     (case OutputFile of None \<Rightarrow> [] | Some f \<Rightarrow> [''-o'', f])"

text \<open>A position in the arguments is the rest of the list from there.\<close>

definition FindProgram :: "(string \<Rightarrow> string option) \<Rightarrow> ArgList \<Rightarrow> (ArgList \<times> string) option" where
  "FindProgram findProgramByName Argv =
     (let ProgArg = (case dropWhile (\<lambda>a. a \<noteq> ARGS_ARG) Argv of [] \<Rightarrow> Argv | a # rest \<Rightarrow> rest) in
      case ProgArg of
        [] \<Rightarrow> None
      | p # rest \<Rightarrow> (case findProgramByName p of None \<Rightarrow> None | Some Program \<Rightarrow> Some (ProgArg, Program)))"

definition BuildOriginalCommandLine :: "ArgList \<times> string \<Rightarrow> ArgList" where
  "BuildOriginalCommandLine FoundProgram = (case FoundProgram of (ProgPos, Program) \<Rightarrow> Program # tl ProgPos)"

fun emit_ir_args :: "ArgList \<Rightarrow> wrap_error + ArgList" where
  "emit_ir_args [] = Inr []"
| "emit_ir_args (a # rest) =
     (if IsPreventLinkFlag a then emit_ir_args rest
      else if a = ''-o'' then (case rest of [] \<Rightarrow> Inl Past_the_end | f # rest' \<Rightarrow> emit_ir_args rest')
      else bindE (emit_ir_args rest) (\<lambda>r. Inr (a # r)))"

definition BuildEmitIRCommandLine :: "ArgList \<Rightarrow> string \<Rightarrow> wrap_error + ArgList" where
  "BuildEmitIRCommandLine OriginalCommandLine IRFileName = (case OriginalCommandLine of
     [] \<Rightarrow> Inl Past_the_end
   | prog # args \<Rightarrow> bindE (emit_ir_args args) (\<lambda>r. Inr (prog # r @ EmitIRArgs @ [IRFileName])))"

section \<open>The wrapper\<close>

record system =
  findParcoach :: "string option"
  findProgram :: "string \<Rightarrow> string option"
  exitCode :: "ArgList list \<Rightarrow> ArgList \<Rightarrow> int"
  tempFile :: "nat \<Rightarrow> string option"

definition isSourceFile :: "string \<Rightarrow> bool" where
  "isSourceFile arg \<longleftrightarrow> suffix ''.c'' arg \<or> suffix ''.cpp'' arg \<or> suffix ''.f90'' arg"

definition shouldInstrument :: "ArgList \<Rightarrow> bool" where
  "shouldInstrument Argv = list_ex (\<lambda>Arg. Arg = ''-check=rma'' \<or> Arg = ''-instrum-inter'') Argv"

text \<open>From the generated code on: PARCOACH, and the compilation of what it wrote.\<close>

definition run_parcoach :: "system \<Rightarrow> ArgList \<Rightarrow> string \<Rightarrow> ArgList \<times> string \<Rightarrow> string \<Rightarrow> ArgList list \<Rightarrow> ArgList list" where
  "run_parcoach sys Argv ParcoachBin FoundProgram IRFile cmds =
     (if shouldInstrument Argv
      then (case tempFile sys 1 of
         None \<Rightarrow> cmds
       | Some OutputFile \<Rightarrow> cmds @ [BuildParcoachArgs Argv ParcoachBin IRFile (Some OutputFile),
           map (\<lambda>a. if isSourceFile a then OutputFile else a) (BuildOriginalCommandLine FoundProgram)])
      else cmds @ [BuildParcoachArgs Argv ParcoachBin IRFile None])"

definition analyze_command :: "system \<Rightarrow> ArgList \<Rightarrow> string \<Rightarrow> ArgList \<times> string \<Rightarrow> int \<Rightarrow> wrap_error + int \<times> ArgList list" where
  "analyze_command sys Argv ParcoachBin FoundProgram OriginalResult =
     (let Original = BuildOriginalCommandLine FoundProgram in
      case tempFile sys 0 of
        None \<Rightarrow> Inr (OriginalResult, [Original])
      | Some IRFile \<Rightarrow> bindE (BuildEmitIRCommandLine Original IRFile) (\<lambda>GenerateIRArgs.
          let Result = exitCode sys [Original] GenerateIRArgs in
          if Result \<noteq> 0 then Inr (Result, [Original, GenerateIRArgs])
          else Inr (OriginalResult, run_parcoach sys Argv ParcoachBin FoundProgram IRFile [Original, GenerateIRArgs])))"

definition wrapper_main :: "system \<Rightarrow> ArgList \<Rightarrow> wrap_error + int \<times> ArgList list" where
  "wrapper_main sys Argv =
     (if Argv = [] then Inr (1, [])
      else (case findParcoach sys of
         None \<Rightarrow> Inr (1, [])
       | Some ParcoachBin \<Rightarrow> (case FindProgram (findProgram sys) Argv of
            None \<Rightarrow> Inr (1, [])
          | Some FoundProgram \<Rightarrow>
              let OriginalProgramArgs = BuildOriginalCommandLine FoundProgram;
                  OriginalResult = exitCode sys [] OriginalProgramArgs;
                  IsLinkerInvocation = \<not> list_ex IsPreventLinkFlag OriginalProgramArgs
              in if OriginalResult \<noteq> 0 \<or> IsLinkerInvocation then Inr (OriginalResult, [OriginalProgramArgs])
                 else analyze_command sys Argv ParcoachBin FoundProgram OriginalResult)))"

section \<open>Properties\<close>

text \<open>An argument that the generation of LLVM code drops: a flag that prevents linking, and the option for the
  output with its file.\<close>

lemma emit_ir_subseq: "emit_ir_args args = Inr r \<Longrightarrow> subseq r args \<and> list_all (\<lambda>a. \<not> IsPreventLinkFlag a \<and> a \<noteq> ''-o'') r"
proof (induction args arbitrary: r rule: emit_ir_args.induct)
  case (2 a rest)
  show ?case
  proof (cases "IsPreventLinkFlag a \<or> a = ''-o''")
    case True
    then show ?thesis using 2 by (auto split: if_splits list.splits intro: subseq_Cons')
  next
    case False
    then show ?thesis using 2 by (auto simp: bindE_eq_Inr)
  qed
qed simp

text \<open>Nothing else is dropped.\<close>

lemma emit_ir_keeps:
  "emit_ir_args args = Inr r \<Longrightarrow> a \<in> set args \<Longrightarrow> \<not> IsPreventLinkFlag a \<Longrightarrow> a \<noteq> ''-o'' \<Longrightarrow>
     a \<in> set r \<or> (\<exists>us vs. args = us @ ''-o'' # a # vs)"
proof (induction args arbitrary: r rule: emit_ir_args.induct)
  case (2 b rest)
  have lift: "\<exists>us vs. b # rest = us @ ''-o'' # a # vs" if "\<exists>us vs. rest = us @ ''-o'' # a # vs" using that by (metis append_Cons)
  consider "IsPreventLinkFlag b" | "\<not> IsPreventLinkFlag b" "b = ''-o''" | "\<not> IsPreventLinkFlag b" "b \<noteq> ''-o''" by blast
  then show ?case
  proof cases
    case 1
    then show ?thesis using 2 lift by auto
  next
    case 2
    then obtain f rest' where f: "rest = f # rest'" "emit_ir_args rest' = Inr r" using "2.prems"(1) by (auto split: list.splits)
    show ?thesis
    proof (cases "a = f")
      case True
      then show ?thesis using f(1) 2(2) by (metis append_Nil)
    next
      case False
      then have "a \<in> set r \<or> (\<exists>us vs. rest' = us @ ''-o'' # a # vs)" using "2.IH"(2) [OF 2 f] "2.prems" f(1) 2(2) by auto
      then show ?thesis using f(1) by (metis append_Cons)
    qed
  next
    case 3
    then obtain x where x: "emit_ir_args rest = Inr x" "r = b # x" using "2.prems"(1) by (auto simp: bindE_eq_Inr)
    show ?thesis
    proof (cases "a = b")
      case False
      then have "a \<in> set x \<or> (\<exists>us vs. rest = us @ ''-o'' # a # vs)" using "2.IH"(3) [OF 3 x(1)] "2.prems" by auto
      then show ?thesis using x(2) lift by auto
    qed (simp add: x(2))
  qed
qed simp


text \<open>C32: the wrapper runs the original command first, and its exit code is that of the original command, unless the compiler then
  fails to generate LLVM code. More runs only when the original command succeeded and does not link: then the second command is
  the original one without the output and the flags that prevent linking, with all the other arguments in
  their order, followed by the flags for LLVM code.\<close>

theorem wrapper_keeps_build:
  assumes "wrapper_main sys Argv = Inr (code, cmds)" "Argv \<noteq> []" "findParcoach sys \<noteq> None" "FindProgram (findProgram sys) Argv = Some FoundProgram"
    and "Original = BuildOriginalCommandLine FoundProgram"
  shows "(cmds = [Original] \<and> code = exitCode sys [] Original) \<or>
    (\<exists>ir r more. exitCode sys [] Original = 0 \<and> list_ex IsPreventLinkFlag Original \<and>
      cmds = Original # (hd Original # r @ EmitIRArgs @ [ir]) # more \<and>
      subseq r (tl Original) \<and> list_all (\<lambda>a. \<not> IsPreventLinkFlag a \<and> a \<noteq> ''-o'') r \<and>
      (\<forall>a\<in>set (tl Original). a \<in> set r \<or> IsPreventLinkFlag a \<or> a = ''-o'' \<or> (\<exists>us vs. tl Original = us @ ''-o'' # a # vs)) \<and>
      (code = 0 \<or> more = [] \<and> code = exitCode sys [Original] (hd Original # r @ EmitIRArgs @ [ir])))"
proof -
  obtain bin where bin: "findParcoach sys = Some bin" using assms(3) by auto
  consider "cmds = [Original]" "code = exitCode sys [] Original"
    | "exitCode sys [] Original = 0" "list_ex IsPreventLinkFlag Original" "analyze_command sys Argv bin FoundProgram 0 = Inr (code, cmds)"
    using assms(1,2,4) bin by (auto simp: wrapper_main_def Let_def assms(5) split: if_splits)
  then show ?thesis
  proof cases
    case 2
    obtain prog args where o: "Original = prog # args" using assms(5) by (cases FoundProgram) (simp add: BuildOriginalCommandLine_def)
    show ?thesis
    proof (cases "tempFile sys 0")
      case None
      then show ?thesis using 2 by (simp add: analyze_command_def assms(5))
    next
      case (Some ir)
      obtain r where r: "emit_ir_args args = Inr r"
        using 2(3) Some o by (auto simp: analyze_command_def Let_def assms(5) [symmetric] BuildEmitIRCommandLine_def bindE_eq_Inr)
      let ?gen = "prog # r @ EmitIRArgs @ [ir]"
      have g: "BuildEmitIRCommandLine Original ir = Inr ?gen" using r o by (simp add: BuildEmitIRCommandLine_def)
      then have "if exitCode sys [Original] ?gen \<noteq> 0 then code = exitCode sys [Original] ?gen \<and> cmds = [Original, ?gen]
        else code = 0 \<and> cmds = run_parcoach sys Argv bin FoundProgram ir [Original, ?gen]"
        using 2(3) Some by (auto simp: analyze_command_def Let_def assms(5) [symmetric] split: if_splits)
      moreover have "\<exists>more. run_parcoach sys Argv bin FoundProgram ir [Original, ?gen] = Original # ?gen # more"
        by (simp add: run_parcoach_def split: option.split)
      ultimately obtain more where "cmds = Original # ?gen # more" "code = 0 \<or> more = [] \<and> code = exitCode sys [Original] ?gen"
        by (auto split: if_splits)
      moreover note emit_ir_subseq [OF r] emit_ir_keeps [OF r]
      ultimately show ?thesis using 2(1,2) o by (intro disjI2 exI [of _ ir] exI [of _ r] exI [of _ more]) auto
    qed
  qed simp
qed

text \<open>A system on which every command succeeds.\<close>

definition demo_system :: system where
  "demo_system = \<lparr>findParcoach = Some ''parcoach'', findProgram = (\<lambda>p. Some (''/usr/bin/'' @ p)), exitCode = (\<lambda>_ _. 0),
     tempFile = (\<lambda>n. Some (if n = 0 then ''ir.ll'' else ''out.ll''))\<rparr>"

lemmas tool_defs = wrapper_main_def analyze_command_def run_parcoach_def FindProgram_def BuildOriginalCommandLine_def
  BuildEmitIRCommandLine_def BuildParcoachArgs_def ARGS_ARG_def EmitIRArgs_def IsPreventLinkFlag_def demo_system_def
  shouldInstrument_def isSourceFile_def suffix_def Let_def

theorem wrapper_keeps_build_witness:
  "\<exists>ir r more. [''/usr/bin/clang'', ''example.c'', ''-g'', ''-S'', ''-emit-llvm'', ''-o'', ''ir.ll''] = ''/usr/bin/clang'' # r @ EmitIRArgs @ [ir] \<and>
    subseq r [''example.c'', ''-c'', ''-o'', ''example.o'']"
proof -
  let ?O = "[''/usr/bin/clang'', ''example.c'', ''-c'', ''-o'', ''example.o'']"
  have "wrapper_main demo_system [''clang'', ''example.c'', ''-c'', ''-o'', ''example.o''] = Inr (0, [?O,
      [''/usr/bin/clang'', ''example.c'', ''-g'', ''-S'', ''-emit-llvm'', ''-o'', ''ir.ll''], [''parcoach'', ''ir.ll'']])"
    by (simp add: tool_defs)
  from wrapper_keeps_build [OF this, of "([''clang'', ''example.c'', ''-c'', ''-o'', ''example.o''], ''/usr/bin/clang'')" ?O]
  show ?thesis by (auto simp: FindProgram_def ARGS_ARG_def BuildOriginalCommandLine_def demo_system_def)
qed

text \<open>A source file whose name does not end in one of three suffixes is not replaced by the instrumented code: the last command is the
  original one, so what is built has no checks.\<close>

theorem cc_source_not_instrumented:
  "wrapper_main demo_system [''-check=rma'', ''--args'', ''clang++'', ''a.cc'', ''-c''] = Inr (0,
     [[''/usr/bin/clang++'', ''a.cc'', ''-c''],
      [''/usr/bin/clang++'', ''a.cc'', ''-g'', ''-S'', ''-emit-llvm'', ''-o'', ''ir.ll''],
      [''parcoach'', ''-check=rma'', ''ir.ll'', ''-o'', ''out.ll''],
      [''/usr/bin/clang++'', ''a.cc'', ''-c'']])"
  by (simp add: tool_defs)

end
