(* ===== verification/Andersen_Nodes.thy ===== *)
theory Andersen_Nodes
  imports Prelude
begin

text \<open>
  The nodes of the points-to analysis
  (\<open>src/include/parcoach/andersen/NodeFactory.h\<close>,
  \<open>src/aSSA/andersen/NodeFactory.cpp\<close>): creation and lookup of the nodes of
  values, objects, returned values and variable arguments, and the merging of
  nodes, whose representatives are found by following the merge targets, in
  the mutable overload with path compression. Values are constants, with the
  expressions the lookup looks into, or instructions and arguments.
\<close>

section \<open>Values\<close>

datatype const_val =
    ConstantPointerNull
  | UndefValue
  | GlobalValue nat
  | GetElementPtr const_val
  | IntToPtr
  | PtrToInt
  | BitCast const_val
  | AddrSpaceCast const_val
  | OtherExpr
  | OtherConst

datatype avalue = ConstV const_val | LocalV nat

datatype anders_error = Unreachable | Assertion | Unsupported | Iterator_invalidated | Solver_out_of_fuel

type_synonym NodeIndex = nat

section \<open>The factory\<close>

datatype AndersNodeType = VALUE_NODE | OBJ_NODE

record AndersNode =
  type :: AndersNodeType
  mergeTarget :: NodeIndex
  value_of :: "avalue option"

record AndersNodeFactory =
  nodes :: "AndersNode list"
  valueNodeMap :: "avalue \<Rightarrow> NodeIndex option"
  objNodeMap :: "avalue \<Rightarrow> NodeIndex option"
  returnMap :: "nat \<Rightarrow> NodeIndex option"
  varargMap :: "nat \<Rightarrow> NodeIndex option"

definition InvalidIndex :: NodeIndex where
  "InvalidIndex = 2 ^ 32 - 1"

definition UniversalPtrIndex :: NodeIndex where "UniversalPtrIndex = 0"
definition UniversalObjIndex :: NodeIndex where "UniversalObjIndex = 1"
definition NullPtrIndex :: NodeIndex where "NullPtrIndex = 2"
definition NullObjectIndex :: NodeIndex where "NullObjectIndex = 3"

definition mk_node :: "AndersNodeType \<Rightarrow> NodeIndex \<Rightarrow> avalue option \<Rightarrow> AndersNode" where
  "mk_node t i v = \<lparr>type = t, mergeTarget = i, value_of = v\<rparr>"

definition init_factory :: AndersNodeFactory where
  "init_factory = \<lparr>nodes = [mk_node VALUE_NODE 0 None, mk_node OBJ_NODE 1 None, mk_node VALUE_NODE 2 None,
       mk_node OBJ_NODE 3 None],
     valueNodeMap = Map.empty, objNodeMap = Map.empty, returnMap = Map.empty, varargMap = Map.empty\<rparr>"

definition getNumNodes :: "AndersNodeFactory \<Rightarrow> nat" where
  "getNumNodes f = length (nodes f)"

definition push_node :: "AndersNodeType \<Rightarrow> avalue option \<Rightarrow> AndersNodeFactory \<Rightarrow> AndersNodeFactory" where
  "push_node t v f = f\<lparr>nodes := nodes f @ [mk_node t (length (nodes f)) v]\<rparr>"

text \<open>A second node for the same value, object, returned value or variable argument fails an
  assertion.\<close>

definition createValueNode :: "avalue option \<Rightarrow> AndersNodeFactory \<Rightarrow> anders_error + NodeIndex \<times> AndersNodeFactory" where
  "createValueNode Val f =
     (let NextIdx = length (nodes f); f1 = push_node VALUE_NODE Val f
      in case Val of
           None \<Rightarrow> Inr (NextIdx, f1)
         | Some v \<Rightarrow> if valueNodeMap f1 v \<noteq> None then Inl Assertion
             else Inr (NextIdx, f1\<lparr>valueNodeMap := (valueNodeMap f1)(v \<mapsto> NextIdx)\<rparr>))"

definition createObjectNode :: "avalue option \<Rightarrow> AndersNodeFactory \<Rightarrow> anders_error + NodeIndex \<times> AndersNodeFactory" where
  "createObjectNode Val f =
     (let NextIdx = length (nodes f); f1 = push_node OBJ_NODE Val f
      in case Val of
           None \<Rightarrow> Inr (NextIdx, f1)
         | Some v \<Rightarrow> if objNodeMap f1 v \<noteq> None then Inl Assertion
             else Inr (NextIdx, f1\<lparr>objNodeMap := (objNodeMap f1)(v \<mapsto> NextIdx)\<rparr>))"

definition createReturnNode :: "nat \<Rightarrow> AndersNodeFactory \<Rightarrow> anders_error + NodeIndex \<times> AndersNodeFactory" where
  "createReturnNode F f =
     (let NextIdx = length (nodes f); f1 = push_node VALUE_NODE (Some (ConstV (GlobalValue F))) f
      in if returnMap f1 F \<noteq> None then Inl Assertion
         else Inr (NextIdx, f1\<lparr>returnMap := (returnMap f1)(F \<mapsto> NextIdx)\<rparr>))"

definition createVarargNode :: "nat \<Rightarrow> AndersNodeFactory \<Rightarrow> anders_error + NodeIndex \<times> AndersNodeFactory" where
  "createVarargNode F f =
     (let NextIdx = length (nodes f); f1 = push_node OBJ_NODE (Some (ConstV (GlobalValue F))) f
      in if varargMap f1 F \<noteq> None then Inl Assertion
         else Inr (NextIdx, f1\<lparr>varargMap := (varargMap f1)(F \<mapsto> NextIdx)\<rparr>))"

definition index_or_invalid :: "NodeIndex option \<Rightarrow> NodeIndex" where
  "index_or_invalid r = (case r of None \<Rightarrow> InvalidIndex | Some i \<Rightarrow> i)"

text \<open>The operand of a constant expression is a constant, so the lookup of its value node
  stays among constants.\<close>

fun getValueNodeForConstant :: "AndersNodeFactory \<Rightarrow> const_val \<Rightarrow> anders_error + NodeIndex" where
  "getValueNodeForConstant f ConstantPointerNull = Inr NullPtrIndex"
| "getValueNodeForConstant f UndefValue = Inr NullPtrIndex"
| "getValueNodeForConstant f (GlobalValue g) = Inr (index_or_invalid (valueNodeMap f (ConstV (GlobalValue g))))"
| "getValueNodeForConstant f (GetElementPtr c) = getValueNodeForConstant f c"
| "getValueNodeForConstant f IntToPtr = Inr UniversalPtrIndex"
| "getValueNodeForConstant f PtrToInt = Inr UniversalPtrIndex"
| "getValueNodeForConstant f (BitCast c) = getValueNodeForConstant f c"
| "getValueNodeForConstant f (AddrSpaceCast c) = getValueNodeForConstant f c"
| "getValueNodeForConstant f OtherExpr = Inl Unreachable"
| "getValueNodeForConstant f OtherConst = Inl Unreachable"

fun getValueNodeFor :: "AndersNodeFactory \<Rightarrow> avalue \<Rightarrow> anders_error + NodeIndex" where
  "getValueNodeFor f (ConstV c) = getValueNodeForConstant f c"
| "getValueNodeFor f (LocalV v) = Inr (index_or_invalid (valueNodeMap f (LocalV v)))"

fun getObjectNodeForConstant :: "AndersNodeFactory \<Rightarrow> const_val \<Rightarrow> anders_error + NodeIndex" where
  "getObjectNodeForConstant f ConstantPointerNull = Inr NullObjectIndex"
| "getObjectNodeForConstant f (GlobalValue g) = Inr (index_or_invalid (objNodeMap f (ConstV (GlobalValue g))))"
| "getObjectNodeForConstant f (GetElementPtr c) = getObjectNodeForConstant f c"
| "getObjectNodeForConstant f IntToPtr = Inr UniversalObjIndex"
| "getObjectNodeForConstant f PtrToInt = Inr UniversalObjIndex"
| "getObjectNodeForConstant f (BitCast c) = getObjectNodeForConstant f c"
| "getObjectNodeForConstant f (AddrSpaceCast c) = getObjectNodeForConstant f c"
| "getObjectNodeForConstant f UndefValue = Inl Unreachable"
| "getObjectNodeForConstant f OtherExpr = Inl Unreachable"
| "getObjectNodeForConstant f OtherConst = Inl Unreachable"

fun getObjectNodeFor :: "AndersNodeFactory \<Rightarrow> avalue \<Rightarrow> anders_error + NodeIndex" where
  "getObjectNodeFor f (ConstV c) = getObjectNodeForConstant f c"
| "getObjectNodeFor f (LocalV v) = Inr (index_or_invalid (objNodeMap f (LocalV v)))"

definition getReturnNodeFor :: "AndersNodeFactory \<Rightarrow> nat \<Rightarrow> NodeIndex" where
  "getReturnNodeFor f F = index_or_invalid (returnMap f F)"

definition getVarargNodeFor :: "AndersNodeFactory \<Rightarrow> nat \<Rightarrow> NodeIndex" where
  "getVarargNodeFor f F = index_or_invalid (varargMap f F)"

section \<open>Merging\<close>

definition target :: "AndersNodeFactory \<Rightarrow> NodeIndex \<Rightarrow> NodeIndex" where
  "target f n = mergeTarget (nodes f ! n)"

definition set_target :: "NodeIndex \<Rightarrow> NodeIndex \<Rightarrow> AndersNodeFactory \<Rightarrow> AndersNodeFactory" where
  "set_target n t f = f\<lparr>nodes := (nodes f)[n := (nodes f ! n)\<lparr>mergeTarget := t\<rparr>]\<rparr>"

definition mergeNode :: "NodeIndex \<Rightarrow> NodeIndex \<Rightarrow> AndersNodeFactory \<Rightarrow> AndersNodeFactory" where
  "mergeNode N0 N1 f = set_target N1 N0 f"

text \<open>The loop that follows the targets to a node that is its own target; the number of
  nodes is fuel enough, since a chain without repetition is no longer.\<close>

fun chase :: "nat \<Rightarrow> AndersNodeFactory \<Rightarrow> NodeIndex \<Rightarrow> NodeIndex" where
  "chase 0 f Ret = Ret"
| "chase (Suc k) f Ret = (if Ret = target f Ret then Ret else chase k f (target f Ret))"

fun path :: "nat \<Rightarrow> AndersNodeFactory \<Rightarrow> NodeIndex \<Rightarrow> NodeIndex list" where
  "path 0 f Ret = []"
| "path (Suc k) f Ret = (if Ret = target f Ret then [] else Ret # path k f (target f Ret))"

text \<open>The constant overload, and the mutable one, which then sets the target of every node on
  the path.\<close>

definition getMergeTarget_const :: "AndersNodeFactory \<Rightarrow> NodeIndex \<Rightarrow> NodeIndex" where
  "getMergeTarget_const f N = chase (getNumNodes f) f (target f N)"

definition getMergeTarget :: "NodeIndex \<Rightarrow> AndersNodeFactory \<Rightarrow> NodeIndex \<times> AndersNodeFactory" where
  "getMergeTarget N f =
     (let Ret0 = target f N in
      if Ret0 \<noteq> N
      then let Ret = chase (getNumNodes f) f Ret0; Path = N # path (getNumNodes f) f Ret0
           in (Ret, fold (\<lambda>Idx. set_target Idx Ret) Path f)
      else (Ret0, f))"

definition getAllocSites :: "avalue list \<Rightarrow> AndersNodeFactory \<Rightarrow> avalue list" where
  "getAllocSites vals f = filter (\<lambda>v. objNodeMap f v \<noteq> None) vals"

section \<open>Well-formed forests\<close>

text \<open>Targets are nodes, and following them decreases a rank until a fixed point is reached.\<close>

definition forest_rank :: "AndersNodeFactory \<Rightarrow> (NodeIndex \<Rightarrow> nat) \<Rightarrow> bool" where
  "forest_rank f r \<longleftrightarrow> (\<forall>n < getNumNodes f. target f n < getNumNodes f \<and>
     r n < getNumNodes f \<and> (target f n \<noteq> n \<longrightarrow> r (target f n) < r n))"

definition wf_factory :: "AndersNodeFactory \<Rightarrow> bool" where
  "wf_factory f \<longleftrightarrow> (\<exists>r. forest_rank f r)"

lemma getNumNodes_set_target [simp]: "getNumNodes (set_target n t f) = getNumNodes f"
  by (simp add: set_target_def getNumNodes_def)

lemma target_set_target [simp]:
  "n < getNumNodes f \<Longrightarrow> target (set_target n t f) m = (if m = n then t else target f m)"
  by (simp add: set_target_def target_def getNumNodes_def nth_list_update)

lemma forest_rankD:
  assumes "forest_rank f r" "n < getNumNodes f"
  shows "target f n < getNumNodes f" "r n < getNumNodes f" "target f n \<noteq> n \<Longrightarrow> r (target f n) < r n"
  using assms unfolding forest_rank_def by blast+

lemma chase_step: "target f n \<noteq> n \<Longrightarrow> chase (Suc k) f n = chase k f (target f n)"
  by (simp add: eq_commute)

lemma chase_fix [simp]: "target f n = n \<Longrightarrow> chase k f n = n"
  by (cases k) simp_all

lemma chase_rank:
  assumes "forest_rank f r" "n < getNumNodes f" "r n \<le> k"
  shows "chase k f n < getNumNodes f \<and> target f (chase k f n) = chase k f n"
  using assms
proof (induction k arbitrary: n)
  case 0
  then have "target f n = n" using forest_rankD(3) by fastforce
  with 0 show ?case by simp
next
  case (Suc k)
  show ?case
  proof (cases "target f n = n")
    case True
    with Suc.prems show ?thesis by (simp del: chase.simps)
  next
    case False
    have "target f n < getNumNodes f" "r (target f n) \<le> k"
      using forest_rankD [OF Suc.prems(1,2)] False Suc.prems(3) by simp_all
    with Suc.IH Suc.prems(1) show ?thesis by (simp only: chase_step [OF False])
  qed
qed

lemma chase_more:
  assumes "forest_rank f r" "n < getNumNodes f" "r n \<le> k" "r n \<le> l"
  shows "chase k f n = chase l f n"
  using assms
proof (induction k arbitrary: n l)
  case 0
  then have "target f n = n" using forest_rankD(3) by fastforce
  then show ?case by simp
next
  case (Suc k)
  show ?case
  proof (cases "target f n = n")
    case True
    then show ?thesis by (simp del: chase.simps)
  next
    case False
    have m: "target f n < getNumNodes f" "r (target f n) < r n"
      using forest_rankD [OF Suc.prems(1,2)] False by simp_all
    then obtain l' where l: "l = Suc l'" using Suc.prems(4) by (cases l) auto
    with m Suc.prems have "r (target f n) \<le> k" "r (target f n) \<le> l'" by simp_all
    from Suc.IH [OF Suc.prems(1) m(1) this] show ?thesis
      by (simp only: l chase_step [OF False])
  qed
qed

text \<open>The representative of a node.\<close>

definition rep :: "AndersNodeFactory \<Rightarrow> NodeIndex \<Rightarrow> NodeIndex" where
  "rep f n = chase (getNumNodes f) f n"

lemma rep_facts:
  assumes "wf_factory f" "n < getNumNodes f"
  shows "rep f n < getNumNodes f" "target f (rep f n) = rep f n" "rep f (target f n) = rep f n"
    "target f n < getNumNodes f"
proof -
  obtain r where r: "forest_rank f r" using assms by (auto simp: wf_factory_def)
  have n: "r n \<le> getNumNodes f" "target f n < getNumNodes f"
    using forest_rankD [OF r assms(2)] by simp_all
  show "rep f n < getNumNodes f" "target f (rep f n) = rep f n" "target f n < getNumNodes f"
    using chase_rank [OF r assms(2) n(1)] n by (simp_all add: rep_def)
  show "rep f (target f n) = rep f n"
  proof (cases "target f n = n")
    case False
    have "chase (Suc (getNumNodes f)) f n = chase (getNumNodes f) f (target f n)"
      by (rule chase_step [OF False])
    moreover have "chase (Suc (getNumNodes f)) f n = chase (getNumNodes f) f n"
      using n(1) by (intro chase_more [OF r assms(2)]) simp_all
    ultimately show ?thesis by (simp add: rep_def)
  qed simp
qed

lemma rep_fix: "target f n = n \<Longrightarrow> rep f n = n"
  by (simp add: rep_def)

lemma getMergeTarget_const_rep:
  "wf_factory f \<Longrightarrow> n < getNumNodes f \<Longrightarrow> getMergeTarget_const f n = rep f n"
  using rep_facts(3) [of f n] by (simp add: getMergeTarget_const_def rep_def)

lemma rep_unique:
  assumes wf: "forest_rank f r" and "\<And>m. m < getNumNodes f \<Longrightarrow> g (target f m) = g m"
    and "\<And>m. m < getNumNodes f \<Longrightarrow> target f m = m \<Longrightarrow> g m = m" and "n < getNumNodes f"
  shows "rep f n = g n"
  using assms(4)
proof (induction "r n" arbitrary: n rule: less_induct)
  case less
  have f: "wf_factory f" using wf by (auto simp: wf_factory_def)
  show ?case
  proof (cases "target f n = n")
    case True
    with less.prems show ?thesis using assms(3) by (simp add: rep_fix)
  next
    case False
    then have "r (target f n) < r n" "target f n < getNumNodes f"
      using forest_rankD [OF wf less.prems] by simp_all
    then have "rep f (target f n) = g (target f n)"
      by (rule less.hyps)
    then show ?thesis
      using rep_facts(3) [OF f less.prems] assms(2) [OF less.prems] by simp
  qed
qed

section \<open>Path compression\<close>

lemma rank_rep:
  assumes r: "forest_rank f r" and "n < getNumNodes f"
  shows "r (rep f n) \<le> r n" "rep f n \<noteq> n \<Longrightarrow> r (rep f n) < r n"
proof -
  have f: "wf_factory f" using r by (auto simp: wf_factory_def)
  have "r (rep f n) \<le> r n \<and> (rep f n \<noteq> n \<longrightarrow> r (rep f n) < r n)" if "n < getNumNodes f" for n
    using that
  proof (induction "r n" arbitrary: n rule: less_induct)
    case less
    show ?case
    proof (cases "target f n = n")
      case False
      note t = forest_rankD [OF r less.prems]
      from less.hyps [OF t(3) [OF False] t(1)] have "r (rep f n) \<le> r (target f n)"
        using rep_facts(3) [OF f less.prems] by simp
      with t(3) [OF False] show ?thesis by simp
    qed (simp add: rep_fix)
  qed
  with assms show "r (rep f n) \<le> r n" "rep f n \<noteq> n \<Longrightarrow> r (rep f n) < r n" by auto
qed

lemma compress_one:
  assumes r: "forest_rank f r" and n: "n < getNumNodes f"
  shows "forest_rank (set_target n (rep f n) f) r"
    "m < getNumNodes f \<Longrightarrow> rep (set_target n (rep f n) f) m = rep f m"
proof -
  have f: "wf_factory f" using r by (auto simp: wf_factory_def)
  show r': "forest_rank (set_target n (rep f n) f) r"
    using forest_rankD [OF r] rank_rep(2) [OF r n] rep_facts(1) [OF f n]
    unfolding forest_rank_def by (auto simp: n)
  show "rep (set_target n (rep f n) f) m = rep f m" if m: "m < getNumNodes f"
  proof (rule rep_unique [OF r'])
    fix k assume k: "k < getNumNodes (set_target n (rep f n) f)"
    then show "rep f (target (set_target n (rep f n) f) k) = rep f k"
      using rep_facts(3) [OF f] rep_fix rep_facts(2) [OF f n] n by auto
    assume "target (set_target n (rep f n) f) k = k"
    then show "rep f k = k"
      using n rep_fix by (auto split: if_splits)
  qed (use m in simp)
qed

lemma compress_path:
  assumes "wf_factory f" "\<forall>i\<in>set ps. i < getNumNodes f \<and> rep f i = R"
  shows "wf_factory (fold (\<lambda>i. set_target i R) ps f) \<and>
    getNumNodes (fold (\<lambda>i. set_target i R) ps f) = getNumNodes f \<and>
    (\<forall>m < getNumNodes f. rep (fold (\<lambda>i. set_target i R) ps f) m = rep f m)"
  using assms
proof (induction ps arbitrary: f)
  case (Cons p ps)
  obtain r where r: "forest_rank f r" using Cons.prems by (auto simp: wf_factory_def)
  have p: "p < getNumNodes f" "rep f p = R" using Cons.prems by auto
  note c = compress_one [OF r p(1), unfolded p(2)]
  have "wf_factory (set_target p R f)" using c(1) by (auto simp: wf_factory_def)
  from Cons.IH [OF this] Cons.prems c(2) show ?case by simp
qed simp

lemma path_rep:
  assumes "wf_factory f" "n < getNumNodes f" "i \<in> set (path k f n)"
  shows "i < getNumNodes f \<and> rep f i = rep f n"
  using assms(2,3)
proof (induction k arbitrary: n)
  case (Suc k)
  show ?case
  proof (cases "i = n")
    case False
    then have "i \<in> set (path k f (target f n))" using Suc.prems(2) by (auto split: if_splits)
    from Suc.IH [OF rep_facts(4) [OF assms(1) Suc.prems(1)] this]
    show ?thesis by (simp only: rep_facts(3) [OF assms(1) Suc.prems(1)])
  qed (use Suc.prems in simp)
qed simp

section \<open>Merging two representatives\<close>

text \<open>Any rank can be replaced by one below the number of nodes.\<close>

lemma wf_factoryI:
  assumes "\<And>n. n < getNumNodes f \<Longrightarrow> target f n < getNumNodes f"
    and "\<And>n. n < getNumNodes f \<Longrightarrow> target f n \<noteq> n \<Longrightarrow> (r (target f n) :: nat) < r n"
  shows "wf_factory f"
proof -
  let ?below = "\<lambda>n. {m. m < getNumNodes f \<and> r m < r n}"
  have "forest_rank f (\<lambda>n. card (?below n))"
    unfolding forest_rank_def
  proof (intro allI impI conjI)
    fix n assume n: "n < getNumNodes f"
    show "target f n < getNumNodes f" using assms(1) n .
    have "?below n \<subset> {..<getNumNodes f}" using n by auto
    from psubset_card_mono [OF _ this] show "card (?below n) < getNumNodes f" by simp
    assume "target f n \<noteq> n"
    then have lt: "r (target f n) < r n" using assms(2) n by blast
    have "?below (target f n) \<subset> ?below n"
      using lt assms(1) [OF n] by (auto dest: less_trans)
    then show "card (?below (target f n)) < card (?below n)"
      by (intro psubset_card_mono) simp_all
  qed
  then show ?thesis by (auto simp: wf_factory_def)
qed

lemma merge_wf:
  assumes f: "wf_factory f" and ab: "a < getNumNodes f" "b < getNumNodes f" "rep f a = a" "rep f b = b" "a \<noteq> b"
  shows "wf_factory (mergeNode a b f)"
    and "m < getNumNodes f \<Longrightarrow> rep (mergeNode a b f) m = (if rep f m = b then a else rep f m)"
proof -
  obtain r where r: "forest_rank f r" using f by (auto simp: wf_factory_def)
  let ?f = "mergeNode a b f"
  let ?r = "\<lambda>n. if rep f n = b then r n + r a + 1 else r n"
  have num: "getNumNodes ?f = getNumNodes f" and tgt: "target ?f n = (if n = b then a else target f n)" for n
    using ab by (simp_all add: mergeNode_def)
  have fix_a: "target f a = a" "target f b = b"
    using rep_facts(2) [OF f ab(1)] rep_facts(2) [OF f ab(2)] ab by simp_all
  show wf: "wf_factory ?f"
  proof (rule wf_factoryI [where r = ?r])
    fix n assume n: "n < getNumNodes ?f"
    then show "target ?f n < getNumNodes ?f"
      using forest_rankD(1) [OF r] ab by (simp add: tgt num)
    assume ne: "target ?f n \<noteq> n"
    show "?r (target ?f n) < ?r n"
      using ne n forest_rankD(3) [OF r, of n] rep_facts(3) [OF f, of n] ab by (auto simp: tgt num)
  qed
  then obtain r' where r': "forest_rank ?f r'" by (auto simp: wf_factory_def)
  show "rep ?f m = (if rep f m = b then a else rep f m)" if "m < getNumNodes f"
  proof (rule rep_unique [OF r'])
    fix k assume k: "k < getNumNodes ?f"
    show "(if rep f (target ?f k) = b then a else rep f (target ?f k)) = (if rep f k = b then a else rep f k)"
      using k rep_facts(3) [OF f, of k] ab by (simp add: tgt num)
    assume "target ?f k = k"
    then have "k \<noteq> b" "target f k = k"
      using ab fix_a by (auto simp: tgt split: if_splits)
    then show "(if rep f k = b then a else rep f k) = k"
      using rep_fix by auto
  qed (use that num in simp)
qed

text \<open>The contract between the merging of nodes and the solver.\<close>

locale merging =
  fixes valid :: "'f \<Rightarrow> bool" and num :: "'f \<Rightarrow> nat" and repr :: "'f \<Rightarrow> nat \<Rightarrow> nat"
    and merge :: "nat \<Rightarrow> nat \<Rightarrow> 'f \<Rightarrow> 'f"
  assumes repr_less: "valid f \<Longrightarrow> n < num f \<Longrightarrow> repr f n < num f"
    and repr_repr: "valid f \<Longrightarrow> n < num f \<Longrightarrow> repr f (repr f n) = repr f n"
    and merge_valid: "valid f \<Longrightarrow> a < num f \<Longrightarrow> b < num f \<Longrightarrow> repr f a = a \<Longrightarrow> repr f b = b \<Longrightarrow> a \<noteq> b \<Longrightarrow>
      valid (merge a b f)"
    and merge_num: "valid f \<Longrightarrow> b < num f \<Longrightarrow> num (merge a b f) = num f"
    and repr_merge: "valid f \<Longrightarrow> a < num f \<Longrightarrow> b < num f \<Longrightarrow> repr f a = a \<Longrightarrow> repr f b = b \<Longrightarrow> a \<noteq> b \<Longrightarrow>
      n < num f \<Longrightarrow> repr (merge a b f) n = (if repr f n = b then a else repr f n)"
begin

text \<open>Merging a sequence of pairs through their representatives.\<close>

lemma merge_pairs:
  assumes "valid f" "\<forall>(x, y)\<in>set ps. x < num f \<and> y < num f"
  defines "step \<equiv> \<lambda>(x, y) f. if repr f x = repr f y then f else merge (repr f x) (repr f y) f"
  shows "valid (fold step ps f) \<and> num (fold step ps f) = num f \<and>
    (\<forall>x < num f. \<forall>y < num f. repr f x = repr f y \<longrightarrow> repr (fold step ps f) x = repr (fold step ps f) y) \<and>
    (\<forall>(x, y)\<in>set ps. repr (fold step ps f) x = repr (fold step ps f) y)"
  using assms(1,2)
proof (induction ps arbitrary: f)
  case (Cons p ps)
  obtain x y where p: "p = (x, y)" by (cases p)
  have xy: "x < num f" "y < num f" using Cons.prems p by auto
  let ?g = "step p f"
  have g: "valid ?g" "num ?g = num f"
    and co: "\<And>u v. u < num f \<Longrightarrow> v < num f \<Longrightarrow> repr f u = repr f v \<Longrightarrow> repr ?g u = repr ?g v"
    and same: "repr ?g x = repr ?g y"
  proof -
    show "valid ?g" "num ?g = num f"
      using merge_valid merge_num repr_less repr_repr Cons.prems(1) xy by (auto simp: step_def p)
    show "\<And>u v. u < num f \<Longrightarrow> v < num f \<Longrightarrow> repr f u = repr f v \<Longrightarrow> repr ?g u = repr ?g v"
      using repr_merge repr_less repr_repr Cons.prems(1) xy by (auto simp: step_def p)
    show "repr ?g x = repr ?g y"
      using repr_merge repr_less repr_repr Cons.prems(1) xy by (auto simp: step_def p)
  qed
  have "\<forall>(x, y)\<in>set ps. x < num ?g \<and> y < num ?g" using Cons.prems(2) g(2) by simp
  note H = Cons.IH [OF g(1) this, unfolded g(2)]
  have IH: "valid (fold step ps ?g)" "num (fold step ps ?g) = num f"
    "\<And>u v. u < num f \<Longrightarrow> v < num f \<Longrightarrow> repr ?g u = repr ?g v \<Longrightarrow> repr (fold step ps ?g) u = repr (fold step ps ?g) v"
    "\<forall>(x, y)\<in>set ps. repr (fold step ps ?g) x = repr (fold step ps ?g) y"
    using H by blast+
  show ?case
  proof -
    have "\<forall>u < num f. \<forall>v < num f. repr f u = repr f v \<longrightarrow> repr (fold step ps ?g) u = repr (fold step ps ?g) v"
      using co IH(3) by blast
    moreover have "\<forall>(u, v)\<in>set (p # ps). repr (fold step ps ?g) u = repr (fold step ps ?g) v"
      using IH(4) IH(3) [OF xy same] by (auto simp: p)
    ultimately show ?thesis
      using IH(1,2) by (simp only: fold_simps)
  qed
qed simp

end

interpretation factory: merging wf_factory getNumNodes rep mergeNode
proof
  show "rep f n < getNumNodes f" "rep f (rep f n) = rep f n" if "wf_factory f" "n < getNumNodes f" for f n
    using rep_facts [OF that] rep_fix by simp_all
  show "getNumNodes (mergeNode a b f) = getNumNodes f" for f a b
    by (simp add: mergeNode_def)
qed (rule merge_wf; assumption)+

section \<open>Properties\<close>

text \<open>\<open>getMergeTarget\<close> with path compression returns the same representative as the constant
  overload, a node that is its own merge target, and although it rewrites the targets along
  the path it leaves the representative of every node as it was and the forest free of
  cycles.\<close>

theorem path_compression_keeps_representatives:
  assumes "wf_factory f" "n < getNumNodes f" "getMergeTarget n f = (R, f')"
  shows "R = getMergeTarget_const f n \<and> target f' R = R \<and> wf_factory f' \<and> getNumNodes f' = getNumNodes f \<and>
    (\<forall>m < getNumNodes f. getMergeTarget_const f' m = getMergeTarget_const f m)"
proof (cases "target f n = n")
  case True
  with assms have "R = n" "f' = f" by (auto simp: getMergeTarget_def)
  with True assms show ?thesis by (simp add: getMergeTarget_const_def)
next
  case False
  let ?R = "rep f n" and ?P = "n # path (getNumNodes f) f (target f n)"
  note t = rep_facts [OF assms(1,2)]
  have R: "chase (getNumNodes f) f (target f n) = ?R"
    using t(3) by (simp add: rep_def)
  have f': "R = ?R" "f' = fold (\<lambda>i. set_target i ?R) ?P f"
    using assms(3) False R by (auto simp: getMergeTarget_def Let_def)
  have "\<forall>i\<in>set ?P. i < getNumNodes f \<and> rep f i = ?R"
    using path_rep [OF assms(1) t(4)] assms(2) by (auto simp: t(3))
  note c = compress_path [OF assms(1) this, folded f'(2)]
  from c have wf': "wf_factory f'" and num: "getNumNodes f' = getNumNodes f"
    and reps: "\<And>m. m < getNumNodes f \<Longrightarrow> rep f' m = rep f m" by blast+
  have "rep f' R = R"
    unfolding f'(1) reps [OF t(1)] by (rule factory.repr_repr [OF assms(1,2)])
  then have "target f' R = R"
    using rep_facts(2) [OF wf', of R] t(1) f'(1) num by simp
  moreover have "getMergeTarget_const f' m = getMergeTarget_const f m" if "m < getNumNodes f" for m
    using that getMergeTarget_const_rep [OF wf', of m] getMergeTarget_const_rep [OF assms(1) that] reps num
    by simp
  ultimately show ?thesis
    using wf' num f'(1) getMergeTarget_const_rep [OF assms(1,2)] by simp
qed

text \<open>Three nodes merged in a chain: 6 into 5, 5 into 4.\<close>

definition chain_factory :: AndersNodeFactory where
  "chain_factory = mergeNode 4 5 (mergeNode 5 6 (push_node VALUE_NODE None
     (push_node VALUE_NODE None (push_node VALUE_NODE None init_factory))))"

lemma wf_init: "wf_factory init_factory"
  by (rule wf_factoryI [where r = "\<lambda>_. 0"])
    (auto simp: getNumNodes_def init_factory_def target_def mk_node_def less_Suc_eq numeral_eq_Suc nth_Cons')

lemma wf_push: "wf_factory f \<Longrightarrow> wf_factory (push_node t v f)"
proof -
  assume "wf_factory f"
  then obtain r where r: "forest_rank f r" by (auto simp: wf_factory_def)
  have [simp]: "getNumNodes (push_node t v f) = Suc (getNumNodes f)"
    "n < getNumNodes f \<Longrightarrow> target (push_node t v f) n = target f n"
    "target (push_node t v f) (getNumNodes f) = getNumNodes f" for n
    by (simp_all add: push_node_def getNumNodes_def target_def nth_append mk_node_def)
  show ?thesis
    by (rule wf_factoryI [where r = r]) (use forest_rankD [OF r] in \<open>auto simp: less_Suc_eq\<close>)
qed

lemma chain_factory_wf: "wf_factory chain_factory"
  by (rule wf_factoryI [where r = "\<lambda>n. if n = 6 then 2 else if n = 5 then 1 else 0"])
    (auto simp: chain_factory_def mergeNode_def set_target_def getNumNodes_def target_def push_node_def
      init_factory_def mk_node_def less_Suc_eq numeral_eq_Suc nth_Cons')

theorem path_compression_keeps_representatives_witness:
  "fst (getMergeTarget 6 chain_factory) = 4 \<and> target (snd (getMergeTarget 6 chain_factory)) 6 = 4 \<and>
   getMergeTarget_const (snd (getMergeTarget 6 chain_factory)) 5 = getMergeTarget_const chain_factory 5"
proof -
  have num: "getNumNodes chain_factory = 7"
    by (simp add: chain_factory_def mergeNode_def set_target_def getNumNodes_def push_node_def init_factory_def)
  have e: "getMergeTarget 6 chain_factory = (4, snd (getMergeTarget 6 chain_factory))"
    "target (snd (getMergeTarget 6 chain_factory)) 6 = 4"
    by (simp_all add: getMergeTarget_def chain_factory_def mergeNode_def set_target_def getNumNodes_def target_def
        push_node_def init_factory_def mk_node_def numeral_eq_Suc Let_def)
  from path_compression_keeps_representatives [OF chain_factory_wf _ e(1)] num e show ?thesis
    by (simp add: prod_eq_iff)
qed

end
