(* ===== verification/Andersen_Solver.thy ===== *)
theory Andersen_Solver
  imports Andersen_Nodes
begin

text \<open>
  Solving of the inclusion constraints
  (\<open>src/aSSA/andersen/ConstraintSolving.cpp\<close> with \<open>Constraint.h\<close>,
  \<open>PtsSet.h\<close>, \<open>CycleDetector.h\<close> and \<open>SparseBitVectorGraph.h\<close> of
  \<open>src/include/parcoach/andersen\<close>): points-to sets, the constraint graph, the
  generic detection of cycles, the offline detection that prepares the
  collapsing of nodes, and the work-list algorithm with its two switches for
  hybrid and for lazy cycle detection.

  The ordered sets of the code are lists in increasing order. The iteration
  orders of its hash tables are arguments. The solver asks for representatives
  through the compressing overload of \<open>getMergeTarget\<close>; compression does not
  change any representative, so the model asks the constant one.
\<close>

section \<open>Constraints and points-to sets\<close>

datatype ConstraintType = ADDR_OF | COPY | LOAD | STORE

record AndersConstraint =
  ctype :: ConstraintType
  dest :: NodeIndex
  src :: NodeIndex

fun set_ins :: "nat \<Rightarrow> nat list \<Rightarrow> nat list" where
  "set_ins x [] = [x]"
| "set_ins x (y # ys) = (if x < y then x # y # ys else if x = y then y # ys else y # set_ins x ys)"

text \<open>\<open>insert\<close> and \<open>unionWith\<close> tell whether the set has changed.\<close>

definition has :: "nat list \<Rightarrow> nat \<Rightarrow> bool" where
  "has s idx \<longleftrightarrow> idx \<in> set s"

definition pts_insert :: "nat \<Rightarrow> nat list \<Rightarrow> bool \<times> nat list" where
  "pts_insert idx s = (\<not> has s idx, set_ins idx s)"

definition pts_contains :: "nat list \<Rightarrow> nat list \<Rightarrow> bool" where
  "pts_contains s t \<longleftrightarrow> (\<forall>x\<in>set t. has s x)"

definition intersectWith :: "nat list \<Rightarrow> nat list \<Rightarrow> bool" where
  "intersectWith s t \<longleftrightarrow> (\<exists>x\<in>set t. has s x)"

definition unionWith :: "nat list \<Rightarrow> nat list \<Rightarrow> bool \<times> nat list" where
  "unionWith s t = (\<not> pts_contains s t, fold set_ins t s)"

section \<open>The constraint graph\<close>

record ConstraintGraphNode =
  idx :: NodeIndex
  copyEdges :: "NodeIndex list"
  loadEdges :: "NodeIndex list"
  storeEdges :: "NodeIndex list"

type_synonym ConstraintGraph = "NodeIndex \<Rightarrow> ConstraintGraphNode option"
type_synonym PtsGraph = "NodeIndex \<Rightarrow> nat list option"

definition new_cnode :: "NodeIndex \<Rightarrow> ConstraintGraphNode" where
  "new_cnode i = \<lparr>idx = i, copyEdges = [], loadEdges = [], storeEdges = []\<rparr>"

definition cnode_or_new :: "ConstraintGraph \<Rightarrow> NodeIndex \<Rightarrow> ConstraintGraphNode" where
  "cnode_or_new g n = (case g n of None \<Rightarrow> new_cnode n | Some c \<Rightarrow> c)"

definition insertCopyEdge :: "NodeIndex \<Rightarrow> NodeIndex \<Rightarrow> ConstraintGraph \<Rightarrow> bool \<times> ConstraintGraph" where
  "insertCopyEdge s d g = (let c = cnode_or_new g s
     in (d \<notin> set (copyEdges c), g(s \<mapsto> c\<lparr>copyEdges := set_ins d (copyEdges c)\<rparr>)))"

definition insertLoadEdge :: "NodeIndex \<Rightarrow> NodeIndex \<Rightarrow> ConstraintGraph \<Rightarrow> bool \<times> ConstraintGraph" where
  "insertLoadEdge s d g = (let c = cnode_or_new g s
     in (d \<notin> set (loadEdges c), g(s \<mapsto> c\<lparr>loadEdges := set_ins d (loadEdges c)\<rparr>)))"

definition insertStoreEdge :: "NodeIndex \<Rightarrow> NodeIndex \<Rightarrow> ConstraintGraph \<Rightarrow> bool \<times> ConstraintGraph" where
  "insertStoreEdge s d g = (let c = cnode_or_new g s
     in (d \<notin> set (storeEdges c), g(s \<mapsto> c\<lparr>storeEdges := set_ins d (storeEdges c)\<rparr>)))"

definition mergeEdges :: "ConstraintGraphNode \<Rightarrow> ConstraintGraphNode \<Rightarrow> ConstraintGraphNode" where
  "mergeEdges c d = c\<lparr>copyEdges := fold set_ins (copyEdges d) (copyEdges c),
     loadEdges := fold set_ins (loadEdges d) (loadEdges c), storeEdges := fold set_ins (storeEdges d) (storeEdges c)\<rparr>"

text \<open>A node merged into one that has no entry is copied with its own index.\<close>

definition mergeNodes :: "NodeIndex \<Rightarrow> NodeIndex \<Rightarrow> ConstraintGraph \<Rightarrow> ConstraintGraph" where
  "mergeNodes dst s g = (case g s of
     None \<Rightarrow> g
   | Some srcNode \<Rightarrow> (case g dst of
        None \<Rightarrow> g(dst \<mapsto> srcNode)
      | Some dstNode \<Rightarrow> g(dst \<mapsto> mergeEdges dstNode srcNode)))"

definition replace_edge :: "NodeIndex \<Rightarrow> NodeIndex \<Rightarrow> NodeIndex list \<Rightarrow> NodeIndex list" where
  "replace_edge oldIdx newIdx es = (if oldIdx \<in> set es then set_ins newIdx (remove1 oldIdx es) else es)"

definition getOrInsertNode :: "NodeIndex \<Rightarrow> ConstraintGraph \<Rightarrow> ConstraintGraph" where
  "getOrInsertNode n g = g(n \<mapsto> cnode_or_new g n)"

definition collapseNodes ::
  "NodeIndex \<Rightarrow> NodeIndex \<Rightarrow> AndersNodeFactory \<times> PtsGraph \<times> ConstraintGraph
     \<Rightarrow> AndersNodeFactory \<times> PtsGraph \<times> ConstraintGraph" where
  "collapseNodes dst s = (\<lambda>(f, pts, g).
     if dst = s then (f, pts, g)
     else (mergeNode dst s f,
           (case pts s of
              None \<Rightarrow> pts
            | Some t \<Rightarrow> pts(dst \<mapsto> snd (unionWith (case pts dst of None \<Rightarrow> [] | Some u \<Rightarrow> u) t)))(s := None),
           (mergeNodes dst s g)(s := None)))"

definition enqueue :: "NodeIndex \<Rightarrow> NodeIndex list \<Rightarrow> NodeIndex list" where
  "enqueue elem q = (if elem \<in> set q then q else q @ [elem])"

section \<open>Detection of cycles\<close>

text \<open>The detector runs on any graph state \<open>'g\<close>, given by the successors of a node, the
  representative of a successor and the two actions on the nodes of a cycle.\<close>

record 'g cd_ops =
  children :: "'g \<Rightarrow> NodeIndex \<Rightarrow> NodeIndex list"
  getRep :: "NodeIndex \<Rightarrow> 'g \<Rightarrow> NodeIndex \<times> 'g"
  processNodeOnCycle :: "NodeIndex \<Rightarrow> NodeIndex \<Rightarrow> 'g \<Rightarrow> 'g"
  processCycleRepNode :: "NodeIndex \<Rightarrow> 'g \<Rightarrow> anders_error + 'g"

record 'g cd_state =
  sccStack :: "NodeIndex list"
  dfsNum :: "NodeIndex \<Rightarrow> nat option"
  inComponent :: "NodeIndex list"
  timestamp :: nat
  gstate :: 'g

definition dfs_num :: "'g cd_state \<Rightarrow> NodeIndex \<Rightarrow> nat" where
  "dfs_num st n = (case dfsNum st n of None \<Rightarrow> 0 | Some k \<Rightarrow> k)"

fun pop_cycle :: "'g cd_ops \<Rightarrow> NodeIndex \<Rightarrow> nat \<Rightarrow> NodeIndex list \<Rightarrow> 'g cd_state \<Rightarrow> 'g cd_state" where
  "pop_cycle ops node myTimeStamp [] st = st\<lparr>sccStack := []\<rparr>"
| "pop_cycle ops node myTimeStamp (cycleNode # rest) st =
     (if dfs_num st cycleNode < myTimeStamp then st\<lparr>sccStack := cycleNode # rest\<rparr>
      else pop_cycle ops node myTimeStamp rest
             (st\<lparr>gstate := processNodeOnCycle ops cycleNode node (gstate st),
                 inComponent := cycleNode # inComponent st\<rparr>))"

text \<open>The depth of the recursion is bounded by the number of nodes.\<close>

fun visit :: "'g cd_ops \<Rightarrow> nat \<Rightarrow> NodeIndex \<Rightarrow> 'g cd_state \<Rightarrow> anders_error + 'g cd_state"
  and visit_children :: "'g cd_ops \<Rightarrow> nat \<Rightarrow> NodeIndex \<Rightarrow> NodeIndex list \<Rightarrow> 'g cd_state
        \<Rightarrow> anders_error + 'g cd_state" where
  "visit ops 0 node st = Inl Solver_out_of_fuel"
| "visit ops (Suc k) node st =
     (let myTimeStamp = timestamp st;
          st1 = st\<lparr>timestamp := Suc myTimeStamp, dfsNum := (dfsNum st)(node \<mapsto> myTimeStamp)\<rparr>
      in bindE (visit_children ops k node (children ops (gstate st1) node) st1) (\<lambda>st2.
           if myTimeStamp \<noteq> dfs_num st2 node then Inr (st2\<lparr>sccStack := node # sccStack st2\<rparr>)
           else let st3 = pop_cycle ops node myTimeStamp (sccStack st2) (st2\<lparr>inComponent := node # inComponent st2\<rparr>)
                in bindE (processCycleRepNode ops node (gstate st3)) (\<lambda>g. Inr (st3\<lparr>gstate := g\<rparr>))))"
| "visit_children ops k node [] st = Inr st"
| "visit_children ops k node (c # cs) st =
     (let (succRep, g) = getRep ops c (gstate st); st1 = st\<lparr>gstate := g\<rparr> in
      bindE (if dfsNum st1 succRep = None then visit ops k succRep st1 else Inr st1) (\<lambda>st2.
        visit_children ops k node cs
          (if succRep \<notin> set (inComponent st2) \<and> dfs_num st2 succRep < dfs_num st2 node
           then st2\<lparr>dfsNum := (dfsNum st2)(node \<mapsto> dfs_num st2 succRep)\<rparr> else st2)))"

definition init_cd :: "'g \<Rightarrow> 'g cd_state" where
  "init_cd g = \<lparr>sccStack = [], dfsNum = Map.empty, inComponent = [], timestamp = 0, gstate = g\<rparr>"

definition runOnNode :: "'g cd_ops \<Rightarrow> nat \<Rightarrow> NodeIndex \<Rightarrow> 'g cd_state \<Rightarrow> anders_error + 'g cd_state" where
  "runOnNode ops fuel node st =
     (let (repNode, g) = getRep ops node (gstate st); st1 = st\<lparr>gstate := g\<rparr>
      in if dfsNum st1 repNode = None then visit ops fuel repNode st1 else Inr st1)"

definition runOnGraph :: "'g cd_ops \<Rightarrow> nat \<Rightarrow> NodeIndex list \<Rightarrow> 'g \<Rightarrow> anders_error + 'g cd_state" where
  "runOnGraph ops fuel order g = foldE (runOnNode ops fuel) order (init_cd g)"

section \<open>Offline detection\<close>

record offline =
  offlineGraph :: "NodeIndex \<Rightarrow> NodeIndex list option"
  collapseMap :: "NodeIndex \<Rightarrow> NodeIndex option"
  mergeMap :: "(NodeIndex \<times> NodeIndex) list"
  scc :: "NodeIndex list"

definition insertEdge :: "NodeIndex \<Rightarrow> NodeIndex \<Rightarrow> (NodeIndex \<Rightarrow> NodeIndex list option) \<Rightarrow> (NodeIndex \<Rightarrow> NodeIndex list option)" where
  "insertEdge s d g = g(s \<mapsto> set_ins d (case g s of None \<Rightarrow> [] | Some ss \<Rightarrow> ss))"

definition buildOfflineConstraintGraph ::
  "AndersNodeFactory \<Rightarrow> AndersConstraint list \<Rightarrow> (NodeIndex \<Rightarrow> NodeIndex list option)" where
  "buildOfflineConstraintGraph f cs =
     fold (\<lambda>c g. let srcTgt = getMergeTarget_const f (src c); dstTgt = getMergeTarget_const f (dest c);
                     ref = (\<lambda>n. n + getNumNodes f)
       in case ctype c of
            ADDR_OF \<Rightarrow> g
          | LOAD \<Rightarrow> insertEdge (ref srcTgt) dstTgt g
          | STORE \<Rightarrow> insertEdge srcTgt (ref dstTgt) g
          | COPY \<Rightarrow> insertEdge srcTgt dstTgt g) cs Map.empty"

definition offline_rep_node :: "nat \<Rightarrow> NodeIndex \<Rightarrow> offline \<Rightarrow> anders_error + offline" where
  "offline_rep_node N node st =
     (if scc st = [] then Inr st
      else let s = set_ins node (scc st); repNode = hd s in
        if \<not> repNode < N then Inl Assertion
        else Inr (fold (\<lambda>cycleNode st.
               if cycleNode > N then st\<lparr>collapseMap := (collapseMap st)(cycleNode - N \<mapsto> repNode)\<rparr>
               else st\<lparr>mergeMap := mergeMap st @ [(cycleNode, repNode)]\<rparr>) (tl s) st\<lparr>scc := []\<rparr>))"

definition offline_ops :: "nat \<Rightarrow> offline cd_ops" where
  "offline_ops N =
     \<lparr>children = (\<lambda>st n. case offlineGraph st n of None \<Rightarrow> [] | Some ss \<Rightarrow> ss),
      getRep = (\<lambda>n st. (n, case offlineGraph st n of None \<Rightarrow> st\<lparr>offlineGraph := (offlineGraph st)(n \<mapsto> [])\<rparr> | Some _ \<Rightarrow> st)),
      processNodeOnCycle = (\<lambda>n r st. st\<lparr>scc := set_ins n (scc st)\<rparr>),
      processCycleRepNode = offline_rep_node N\<rparr>"

text \<open>A key of the merge map that is no node fails the assertion of \<open>mergeNode\<close>.\<close>

definition offline_run ::
  "nat \<Rightarrow> NodeIndex list \<Rightarrow> AndersConstraint list \<Rightarrow> AndersNodeFactory
     \<Rightarrow> anders_error + AndersNodeFactory \<times> (NodeIndex \<Rightarrow> NodeIndex option)" where
  "offline_run fuel order cs f =
     bindE (runOnGraph (offline_ops (getNumNodes f)) fuel order
              \<lparr>offlineGraph = buildOfflineConstraintGraph f cs, collapseMap = Map.empty, mergeMap = [], scc = []\<rparr>) (\<lambda>st.
       bindE (foldE (\<lambda>(k, r) f. if k < getNumNodes f \<and> r < getNumNodes f then Inr (mergeNode r k f) else Inl Assertion)
                (mergeMap (gstate st)) f) (\<lambda>f'.
         Inr (f', collapseMap (gstate st))))"

section \<open>The work-list algorithm\<close>

record solver =
  factory_of :: AndersNodeFactory
  graph :: ConstraintGraph
  ptsGraph :: PtsGraph
  collapse_of :: "NodeIndex \<Rightarrow> NodeIndex option"
  currWorkList :: "NodeIndex list"
  nextWorkList :: "NodeIndex list"
  cycleCandidates :: "NodeIndex list"
  checkedEdges :: "(NodeIndex \<times> NodeIndex) list"

definition pts_of :: "PtsGraph \<Rightarrow> NodeIndex \<Rightarrow> nat list" where
  "pts_of p n = (case p n of None \<Rightarrow> [] | Some s \<Rightarrow> s)"

definition add_constraint ::
  "AndersNodeFactory \<Rightarrow> AndersConstraint \<Rightarrow> ConstraintGraph \<times> PtsGraph \<Rightarrow> ConstraintGraph \<times> PtsGraph" where
  "add_constraint f c = (\<lambda>(g, p).
     let srcTgt = getMergeTarget_const f (src c); dstTgt = getMergeTarget_const f (dest c)
     in case ctype c of
          ADDR_OF \<Rightarrow> (g, p(dstTgt \<mapsto> snd (pts_insert (src c) (pts_of p dstTgt))))
        | LOAD \<Rightarrow> (snd (insertLoadEdge srcTgt dstTgt g), p)
        | STORE \<Rightarrow> (snd (insertStoreEdge dstTgt srcTgt g), p)
        | COPY \<Rightarrow> (snd (insertCopyEdge srcTgt dstTgt g), p))"

definition buildConstraintGraph ::
  "AndersNodeFactory \<Rightarrow> AndersConstraint list \<Rightarrow> ConstraintGraph \<times> PtsGraph \<Rightarrow> ConstraintGraph \<times> PtsGraph" where
  "buildConstraintGraph f cs = fold (add_constraint f) cs"

text \<open>Hybrid cycle detection: everything the node points to is collapsed into the collapse
  target. When the target is the node itself, the set that is being iterated over changes,
  unless nothing is added to it.\<close>

fun hcd_loop ::
  "NodeIndex \<Rightarrow> NodeIndex \<Rightarrow> nat list \<Rightarrow> bool \<Rightarrow> AndersNodeFactory \<times> PtsGraph \<times> ConstraintGraph
     \<Rightarrow> anders_error + bool \<times> AndersNodeFactory \<times> PtsGraph \<times> ConstraintGraph" where
  "hcd_loop ctRep node [] mergeSelf st = Inr (mergeSelf, st)"
| "hcd_loop ctRep node (v # vs) mergeSelf st =
     (let vRep = getMergeTarget_const (fst st) v in
      if vRep = node then hcd_loop ctRep node vs True st
      else if ctRep = node \<and> fst (snd st) vRep \<noteq> None then Inl Iterator_invalidated
      else hcd_loop ctRep node vs mergeSelf (collapseNodes ctRep vRep st))"

text \<open>The load and the store edges of a node, for one pointed-to node; the edges whose end has
  been merged are then renamed.\<close>

definition load_step ::
  "NodeIndex \<Rightarrow> NodeIndex \<Rightarrow> NodeIndex \<Rightarrow> solver \<Rightarrow> solver" where
  "load_step node vRep dst s =
     (let tgtNode = getMergeTarget_const (factory_of s) dst; (changed, g) = insertCopyEdge vRep tgtNode (graph s)
      in s\<lparr>graph := g, nextWorkList := (if changed then enqueue vRep (nextWorkList s) else nextWorkList s)\<rparr>)"

definition store_step ::
  "NodeIndex \<Rightarrow> NodeIndex \<Rightarrow> NodeIndex \<Rightarrow> solver \<Rightarrow> solver" where
  "store_step node vRep dst s =
     (let tgtNode = getMergeTarget_const (factory_of s) dst; (changed, g) = insertCopyEdge tgtNode vRep (graph s)
      in s\<lparr>graph := g, nextWorkList := (if changed then enqueue tgtNode (nextWorkList s) else nextWorkList s)\<rparr>)"

definition renamed :: "AndersNodeFactory \<Rightarrow> NodeIndex list \<Rightarrow> NodeIndex list" where
  "renamed f es = fold (\<lambda>d. let t = getMergeTarget_const f d in if t \<noteq> d then replace_edge d t else (\<lambda>x. x)) es es"

definition edges_of :: "ConstraintGraph \<Rightarrow> NodeIndex \<Rightarrow> ConstraintGraphNode" where
  "edges_of g n = cnode_or_new g n"

definition process_pointee :: "NodeIndex \<Rightarrow> nat \<Rightarrow> solver \<Rightarrow> solver" where
  "process_pointee node v s =
     (let vRep = getMergeTarget_const (factory_of s) v;
          s1 = fold (load_step node vRep) (loadEdges (edges_of (graph s) node)) s;
          c1 = edges_of (graph s1) node;
          s2 = s1\<lparr>graph := (graph s1)(node \<mapsto> c1\<lparr>loadEdges := renamed (factory_of s) (loadEdges c1)\<rparr>)\<rparr>;
          s3 = fold (store_step node vRep) (storeEdges (edges_of (graph s2) node)) s2;
          c3 = edges_of (graph s3) node
      in s3\<lparr>graph := (graph s3)(node \<mapsto> c3\<lparr>storeEdges := renamed (factory_of s) (storeEdges c3)\<rparr>)\<rparr>)"

definition propagate_step :: "bool \<Rightarrow> NodeIndex \<Rightarrow> NodeIndex \<Rightarrow> solver \<Rightarrow> solver" where
  "propagate_step EnableLCD node dst s =
     (let tgtNode = getMergeTarget_const (factory_of s) dst in
      if node = tgtNode then s
      else let ptsSet = pts_of (ptsGraph s) node;
               (isChanged, tgtPtsSet) = unionWith (pts_of (ptsGraph s) tgtNode) ptsSet;
               s1 = s\<lparr>ptsGraph := (ptsGraph s)(tgtNode \<mapsto> tgtPtsSet)\<rparr>
           in if isChanged then s1\<lparr>nextWorkList := enqueue tgtNode (nextWorkList s)\<rparr>
              else if EnableLCD \<and> (node, tgtNode) \<notin> set (checkedEdges s) \<and> ptsSet = tgtPtsSet
              then s1\<lparr>checkedEdges := (node, tgtNode) # checkedEdges s,
                      cycleCandidates := set_ins tgtNode (cycleCandidates s)\<rparr>
              else s1)"

definition process_edges :: "bool \<Rightarrow> NodeIndex \<Rightarrow> solver \<Rightarrow> solver" where
  "process_edges EnableLCD node s =
     (let s1 = fold (process_pointee node) (pts_of (ptsGraph s) node) s;
          s2 = fold (propagate_step EnableLCD node) (copyEdges (edges_of (graph s1) node)) s1;
          c2 = edges_of (graph s2) node;
          moved = filter (\<lambda>d. getMergeTarget_const (factory_of s) d \<noteq> node) (copyEdges c2)
      in s2\<lparr>graph := (graph s2)(node \<mapsto>
             c2\<lparr>copyEdges := fold (\<lambda>d. let t = getMergeTarget_const (factory_of s) d
                                     in if t \<noteq> d then replace_edge d t else (\<lambda>x. x)) moved (copyEdges c2)\<rparr>)\<rparr>)"

text \<open>One turn of the inner loop, on the dequeued node.\<close>

definition process_node :: "bool \<Rightarrow> bool \<Rightarrow> NodeIndex \<Rightarrow> solver \<Rightarrow> anders_error + solver" where
  "process_node EnableHCD EnableLCD node0 s =
     (let node = getMergeTarget_const (factory_of s) node0 in
      if graph s node = None then Inr s
      else case ptsGraph s node of
        None \<Rightarrow> Inr s
      | Some ptsSet \<Rightarrow>
          (case (if EnableHCD then collapse_of s node else None) of
             None \<Rightarrow> Inr (process_edges EnableLCD node s)
           | Some collapseTarget \<Rightarrow>
               let ctRep = getMergeTarget_const (factory_of s) collapseTarget in
               bindE (hcd_loop ctRep node ptsSet False (factory_of s, ptsGraph s, graph s)) (\<lambda>(mergeSelf, st).
                 let (f, p, g) = (if mergeSelf then collapseNodes ctRep node st else st);
                     s1 = s\<lparr>factory_of := f, ptsGraph := p, graph := g\<rparr>
                 in if mergeSelf \<and> ctRep \<noteq> node
                    then Inr (s1\<lparr>nextWorkList := enqueue ctRep (nextWorkList s)\<rparr>)
                    else Inr (process_edges EnableLCD node s1))))"

text \<open>Lazy cycle detection on the candidates of the last iteration.\<close>

definition online_ops :: "(AndersNodeFactory \<times> PtsGraph \<times> ConstraintGraph) cd_ops" where
  "online_ops =
     \<lparr>children = (\<lambda>(f, p, g) n. copyEdges (cnode_or_new g n)),
      getRep = (\<lambda>n (f, p, g). let r = getMergeTarget_const f n in (r, (f, p, getOrInsertNode r g))),
      processNodeOnCycle = (\<lambda>n r st. collapseNodes (getMergeTarget_const (fst st) r) (getMergeTarget_const (fst st) n) st),
      processCycleRepNode = (\<lambda>n st. Inr st)\<rparr>"

definition online_run :: "solver \<Rightarrow> anders_error + solver" where
  "online_run s =
     bindE (foldE (runOnNode online_ops (Suc (getNumNodes (factory_of s)))) (cycleCandidates s)
              (init_cd (factory_of s, ptsGraph s, graph s))) (\<lambda>st.
       let (f, p, g) = gstate st in
       Inr (s\<lparr>factory_of := f, ptsGraph := p, graph := g, cycleCandidates := []\<rparr>))"

fun inner_loop :: "bool \<Rightarrow> bool \<Rightarrow> nat \<Rightarrow> solver \<Rightarrow> anders_error + solver" where
  "inner_loop HCD LCD 0 s = Inl Solver_out_of_fuel"
| "inner_loop HCD LCD (Suc k) s =
     (case currWorkList s of
        [] \<Rightarrow> Inr s
      | node # rest \<Rightarrow> bindE (process_node HCD LCD node (s\<lparr>currWorkList := rest\<rparr>)) (inner_loop HCD LCD k))"

fun outer_loop :: "bool \<Rightarrow> bool \<Rightarrow> nat \<Rightarrow> solver \<Rightarrow> anders_error + solver" where
  "outer_loop HCD LCD 0 s = Inl Solver_out_of_fuel"
| "outer_loop HCD LCD (Suc k) s =
     (if currWorkList s = [] then Inr s
      else bindE (if LCD \<and> cycleCandidates s \<noteq> [] then online_run s else Inr s) (\<lambda>s1.
        bindE (inner_loop HCD LCD k s1) (\<lambda>s2.
          outer_loop HCD LCD k (s2\<lparr>currWorkList := nextWorkList s2, nextWorkList := currWorkList s2\<rparr>))))"

text \<open>\<open>order\<close> is the iteration order of the offline graph, \<open>p\<close> the points-to graph so far.\<close>

definition init_solver ::
  "AndersNodeFactory \<Rightarrow> (NodeIndex \<Rightarrow> NodeIndex option) \<Rightarrow> AndersConstraint list \<Rightarrow> solver" where
  "init_solver f coll cs =
     (let (g, p) = buildConstraintGraph f cs (Map.empty, Map.empty) in
      \<lparr>factory_of = f, graph = g, ptsGraph = p, collapse_of = coll,
       currWorkList = filter (\<lambda>n. p n \<noteq> None \<and> getMergeTarget_const f n = n \<and> g n \<noteq> None) [0..<getNumNodes f],
       nextWorkList = [], cycleCandidates = [], checkedEdges = []\<rparr>)"

definition solveConstraints ::
  "bool \<Rightarrow> bool \<Rightarrow> nat \<Rightarrow> NodeIndex list \<Rightarrow> AndersNodeFactory \<Rightarrow> AndersConstraint list \<Rightarrow> anders_error + solver" where
  "solveConstraints EnableHCD EnableLCD fuel order f cs =
     bindE (if EnableHCD then offline_run (Suc (2 * getNumNodes f)) order cs f else Inr (f, Map.empty))
       (\<lambda>(f', coll). outer_loop EnableHCD EnableLCD fuel (init_solver f' coll cs))"

definition getPointsToSet :: "AndersNodeFactory \<Rightarrow> PtsGraph \<Rightarrow> avalue \<Rightarrow> anders_error + avalue list option" where
  "getPointsToSet f p v =
     bindE (getValueNodeFor f v) (\<lambda>ptrIndex.
       if ptrIndex = InvalidIndex \<or> ptrIndex = UniversalPtrIndex then Inr None
       else case p (getMergeTarget_const f ptrIndex) of
              None \<Rightarrow> Inr (Some [])
            | Some s \<Rightarrow> Inr (Some (List.map_filter
                 (\<lambda>n. if n = NullObjectIndex then None else value_of (nodes f ! n)) s)))"

end
