(* ===== verification/Andersen_Sound.thy ===== *)
theory Andersen_Sound
  imports Andersen_Solver
begin

text \<open>
  The solver computes the least solution of the constraints when both cycle
  detections are switched off: what a solution is, the invariant of the
  work-list algorithm, a bound on the number of its steps, and, for the
  default switches, an input on which hybrid cycle detection leaves a constraint
  unsatisfied.
\<close>

section \<open>Solutions\<close>

fun satisfies :: "(NodeIndex \<Rightarrow> nat set) \<Rightarrow> AndersConstraint \<Rightarrow> bool" where
  "satisfies S \<lparr>ctype = ADDR_OF, dest = d, src = s\<rparr> \<longleftrightarrow> s \<in> S d"
| "satisfies S \<lparr>ctype = COPY, dest = d, src = s\<rparr> \<longleftrightarrow> S s \<subseteq> S d"
| "satisfies S \<lparr>ctype = LOAD, dest = d, src = s\<rparr> \<longleftrightarrow> (\<forall>v\<in>S s. S v \<subseteq> S d)"
| "satisfies S \<lparr>ctype = STORE, dest = d, src = s\<rparr> \<longleftrightarrow> (\<forall>v\<in>S d. S s \<subseteq> S v)"

definition solution :: "AndersConstraint list \<Rightarrow> (NodeIndex \<Rightarrow> nat set) \<Rightarrow> bool" where
  "solution cs S \<longleftrightarrow> (\<forall>c\<in>set cs. satisfies S c)"

lemma satisfies_iff:
  "satisfies S c \<longleftrightarrow> (case ctype c of ADDR_OF \<Rightarrow> src c \<in> S (dest c) | COPY \<Rightarrow> S (src c) \<subseteq> S (dest c)
     | LOAD \<Rightarrow> (\<forall>v\<in>S (src c). S v \<subseteq> S (dest c)) | STORE \<Rightarrow> (\<forall>v\<in>S (dest c). S (src c) \<subseteq> S v))"
  by (cases c rule: AndersConstraint.cases) (rename_tac t d s, case_tac t; simp)

section \<open>Views of the solver state\<close>

lemma set_set_ins [simp]: "set (set_ins x xs) = insert x (set xs)"
  by (induction xs) auto

lemma set_fold_set_ins [simp]: "set (fold set_ins xs ys) = set xs \<union> set ys"
  by (induction xs arbitrary: ys) auto

definition E :: "solver \<Rightarrow> (NodeIndex \<times> NodeIndex) set" where
  "E s = {(k, m). m \<in> set (copyEdges (edges_of (graph s) k))}"

definition PT :: "solver \<Rightarrow> (NodeIndex \<times> nat) set" where
  "PT s = {(k, v). v \<in> set (pts_of (ptsGraph s) k)}"

definition ld :: "solver \<Rightarrow> NodeIndex \<Rightarrow> NodeIndex list" where
  "ld s k = loadEdges (edges_of (graph s) k)"

definition sto :: "solver \<Rightarrow> NodeIndex \<Rightarrow> NodeIndex list" where
  "sto s k = storeEdges (edges_of (graph s) k)"

abbreviation N_of :: "solver \<Rightarrow> nat" where
  "N_of s \<equiv> getNumNodes (factory_of s)"

definition unmerged :: "AndersNodeFactory \<Rightarrow> bool" where
  "unmerged f \<longleftrightarrow> (\<forall>n < getNumNodes f. target f n = n)"

lemma unmerged_rep: "unmerged f \<Longrightarrow> n < getNumNodes f \<Longrightarrow> getMergeTarget_const f n = n"
  by (simp add: unmerged_def getMergeTarget_const_def)

definition in_range :: "solver \<Rightarrow> bool" where
  "in_range s \<longleftrightarrow> unmerged (factory_of s) \<and>
     E s \<subseteq> {..<N_of s} \<times> {..<N_of s} \<and> PT s \<subseteq> {..<N_of s} \<times> {..<N_of s} \<and>
     (\<forall>k. set (ld s k) \<subseteq> {..<N_of s}) \<and> (\<forall>k. set (sto s k) \<subseteq> {..<N_of s}) \<and>
     set (currWorkList s) \<subseteq> {..<N_of s} \<and> set (nextWorkList s) \<subseteq> {..<N_of s}"

text \<open>The potential that every turn of the inner loop decreases.\<close>

definition potential :: "solver \<Rightarrow> nat" where
  "potential s = length (currWorkList s) + length (nextWorkList s) +
     (N_of s * N_of s - card (E s)) + (N_of s * N_of s - card (PT s))"

section \<open>Inserting copy edges\<close>

definition edge_ins :: "NodeIndex \<times> NodeIndex \<Rightarrow> solver \<Rightarrow> solver" where
  "edge_ins = (\<lambda>(k, m) s. s\<lparr>graph := snd (insertCopyEdge k m (graph s)),
     nextWorkList := (if fst (insertCopyEdge k m (graph s)) then enqueue k (nextWorkList s) else nextWorkList s)\<rparr>)"

lemma insertCopyEdge_edges:
  "edges_of (snd (insertCopyEdge k m g)) n =
     (if n = k then (edges_of g k)\<lparr>copyEdges := set_ins m (copyEdges (edges_of g k))\<rparr> else edges_of g n)"
  "fst (insertCopyEdge k m g) \<longleftrightarrow> m \<notin> set (copyEdges (edges_of g k))"
  by (simp_all add: insertCopyEdge_def edges_of_def cnode_or_new_def Let_def)

lemma edge_ins_simps [simp]:
  "factory_of (edge_ins km s) = factory_of s" "ptsGraph (edge_ins km s) = ptsGraph s"
  "currWorkList (edge_ins km s) = currWorkList s" "PT (edge_ins km s) = PT s"
  "graph (edge_ins km s) = snd (insertCopyEdge (fst km) (snd km) (graph s))"
  by (cases km; simp add: edge_ins_def PT_def)+

lemma edge_ins_views [simp]:
  "ld (edge_ins km s) = ld s" "sto (edge_ins km s) = sto s"
  by (rule ext, simp add: ld_def sto_def insertCopyEdge_edges)+

lemma edge_ins_E [simp]: "E (edge_ins km s) = insert km (E s)"
proof (rule set_eqI)
  fix x :: "NodeIndex \<times> NodeIndex"
  obtain k m where x: "x = (k, m)" by (cases x)
  show "x \<in> E (edge_ins km s) \<longleftrightarrow> x \<in> insert km (E s)"
    by (cases km) (simp add: x E_def insertCopyEdge_edges)
qed

lemma edge_ins_node: "graph s n \<noteq> None \<Longrightarrow> graph (edge_ins km s) n \<noteq> None"
  by (simp add: edge_ins_simps(5) insertCopyEdge_def Let_def)

lemma edge_ins_next [simp]:
  "set (nextWorkList (edge_ins km s)) = set (nextWorkList s) \<union> (if km \<in> E s then {} else {fst km})"
  by (cases km) (simp add: edge_ins_def insertCopyEdge_edges E_def enqueue_def insert_absorb)

declare edge_ins_simps(5) [simp del]

lemma edge_ins_length:
  "length (nextWorkList (edge_ins km s)) \<le> length (nextWorkList s) + (if km \<in> E s then 0 else 1)"
  by (cases km) (simp add: edge_ins_def insertCopyEdge_edges E_def enqueue_def)

lemma edge_ins_range:
  "in_range s \<Longrightarrow> fst km < N_of s \<Longrightarrow> snd km < N_of s \<Longrightarrow> in_range (edge_ins km s)"
  by (cases km) (auto simp: in_range_def split: if_splits)

lemma finite_square: "A \<subseteq> {..<n} \<times> {..<n} \<Longrightarrow> finite A \<and> card A \<le> n * n" for n :: nat
  by (metis card_cartesian_product card_lessThan card_mono finite_SigmaI finite_lessThan finite_subset)

lemma card_insert_square:
  assumes "insert x A \<subseteq> {..<n} \<times> {..<n}" "x \<notin> A"
  shows "Suc (n * n - card (insert x A)) = n * n - card A"
  using finite_square [OF assms(1)] assms(2) by auto

lemma edge_ins_potential:
  assumes "in_range s" "fst km < N_of s" "snd km < N_of s"
  shows "potential (edge_ins km s) \<le> potential s"
proof (cases "km \<in> E s")
  case True
  then show ?thesis
    using edge_ins_length [of km s] by (simp add: potential_def insert_absorb)
next
  case False
  have "insert km (E s) \<subseteq> {..<N_of s} \<times> {..<N_of s}"
    using assms by (cases km) (auto simp: in_range_def)
  from card_insert_square [OF this False] show ?thesis
    using edge_ins_length [of km s] False by (simp add: potential_def)
qed

lemma fold_edge_ins:
  assumes "in_range s" "\<forall>km\<in>set kms. fst km < N_of s \<and> snd km < N_of s"
  defines "t \<equiv> fold edge_ins kms s"
  shows "in_range t" "potential t \<le> potential s" "factory_of t = factory_of s" "ptsGraph t = ptsGraph s"
    "currWorkList t = currWorkList s" "PT t = PT s" "ld t = ld s" "sto t = sto s" "E t = set kms \<union> E s"
    "graph s n \<noteq> None \<Longrightarrow> graph t n \<noteq> None"
    "set (nextWorkList t) = set (nextWorkList s) \<union> fst ` (set kms - E s)"
proof -
  have "in_range t \<and> potential t \<le> potential s \<and> factory_of t = factory_of s \<and> ptsGraph t = ptsGraph s \<and>
    currWorkList t = currWorkList s \<and> PT t = PT s \<and> ld t = ld s \<and> sto t = sto s \<and> E t = set kms \<union> E s \<and>
    (graph s n \<noteq> None \<longrightarrow> graph t n \<noteq> None) \<and>
    set (nextWorkList t) = set (nextWorkList s) \<union> fst ` (set kms - E s)"
    unfolding t_def using assms(1,2)
  proof (induction kms arbitrary: s)
    case (Cons km kms)
    have km: "fst km < N_of s" "snd km < N_of s" using Cons.prems by auto
    have "\<forall>km'\<in>set kms. fst km' < N_of (edge_ins km s) \<and> snd km' < N_of (edge_ins km s)"
      using Cons.prems by simp
    note IH = Cons.IH [OF edge_ins_range [OF Cons.prems(1) km] this]
    have next_eq: "set (nextWorkList (edge_ins km s)) \<union> fst ` (set kms - E (edge_ins km s))
        = set (nextWorkList s) \<union> fst ` (set (km # kms) - E s)"
      by (cases "km \<in> E s") (auto simp: image_iff)
    have pot: "potential (edge_ins km s) \<le> potential s"
      by (rule edge_ins_potential [OF Cons.prems(1) km])
    show ?case
      using IH pot edge_ins_node [of s n km] unfolding fold_simps next_eq [symmetric] by auto
  qed simp
  then show "in_range t" "potential t \<le> potential s" "factory_of t = factory_of s" "ptsGraph t = ptsGraph s"
    "currWorkList t = currWorkList s" "PT t = PT s" "ld t = ld s" "sto t = sto s" "E t = set kms \<union> E s"
    "graph s n \<noteq> None \<Longrightarrow> graph t n \<noteq> None"
    "set (nextWorkList t) = set (nextWorkList s) \<union> fst ` (set kms - E s)"
    by simp_all
qed

section \<open>One node: loads and stores\<close>

definition pointee_edges :: "solver \<Rightarrow> NodeIndex \<Rightarrow> nat \<Rightarrow> (NodeIndex \<times> NodeIndex) list" where
  "pointee_edges s n v = map (\<lambda>d. (v, d)) (ld s n) @ map (\<lambda>d. (d, v)) (sto s n)"

lemma renamed_id:
  assumes "unmerged f" "set es \<subseteq> {..<getNumNodes f}"
  shows "renamed f es = es"
proof -
  have "fold (\<lambda>d. let t = getMergeTarget_const f d in if t \<noteq> d then replace_edge d t else (\<lambda>x. x)) ds xs = xs"
    if "set ds \<subseteq> {..<getNumNodes f}" for ds xs
    using that unmerged_rep [OF assms(1)] by (induction ds) (auto simp: Let_def)
  with assms(2) show ?thesis by (simp add: renamed_def)
qed

lemma steps_are_edge_ins:
  assumes "unmerged (factory_of s)" "d < N_of s"
  shows "load_step n v d s = edge_ins (v, d) s" "store_step n v d s = edge_ins (d, v) s"
  using unmerged_rep [OF assms] by (simp_all add: load_step_def store_step_def edge_ins_def split_beta Let_def)

lemma fold_steps:
  assumes "unmerged (factory_of s)" "set ds \<subseteq> {..<N_of s}"
  shows "fold (load_step n v) ds s = fold edge_ins (map (\<lambda>d. (v, d)) ds) s"
    "fold (store_step n v) ds s = fold edge_ins (map (\<lambda>d. (d, v)) ds) s"
  using assms by (induction ds arbitrary: s) (simp_all add: steps_are_edge_ins)

lemma same_node: "graph s n \<noteq> None \<Longrightarrow> (graph s)(n \<mapsto> edges_of (graph s) n) = graph s"
  by (auto simp: edges_of_def cnode_or_new_def)

lemma process_pointee_edges:
  assumes R: "in_range s" and n: "graph s n \<noteq> None" and v: "v < N_of s"
  shows "process_pointee n v s = fold edge_ins (pointee_edges s n v) s"
proof -
  have u: "unmerged (factory_of s)" "set (ld s n) \<subseteq> {..<N_of s}" "set (sto s n) \<subseteq> {..<N_of s}"
    using R by (auto simp: in_range_def)
  let ?s1 = "fold edge_ins (map (\<lambda>d. (v, d)) (ld s n)) s"
  have km: "\<forall>km\<in>set (map (\<lambda>d. (v, d)) (ld s n)). fst km < N_of s \<and> snd km < N_of s"
    using u v by auto
  note F1 = fold_edge_ins [OF R km]
  let ?s3 = "fold edge_ins (map (\<lambda>d. (d, v)) (sto s n)) ?s1"
  have km3: "\<forall>km\<in>set (map (\<lambda>d. (d, v)) (sto s n)). fst km < N_of ?s1 \<and> snd km < N_of ?s1"
    using u v by (auto simp: F1(3))
  note F3 = fold_edge_ins [OF F1(1) km3]
  have ren: "renamed (factory_of s) (ld s n) = ld s n" "renamed (factory_of s) (sto s n) = sto s n"
    by (rule renamed_id [OF u(1)], rule u)+
  have g1: "(graph ?s1)(n \<mapsto> (edges_of (graph ?s1) n)\<lparr>loadEdges := renamed (factory_of s) (loadEdges (edges_of (graph ?s1) n))\<rparr>)
      = graph ?s1"
  proof -
    have "renamed (factory_of s) (loadEdges (edges_of (graph ?s1) n)) = loadEdges (edges_of (graph ?s1) n)"
      using fun_cong [OF F1(7), of n] ren(1) by (simp add: ld_def)
    then show ?thesis using same_node [OF F1(10) [OF n]] by simp
  qed
  have g3: "(graph ?s3)(n \<mapsto> (edges_of (graph ?s3) n)\<lparr>storeEdges := renamed (factory_of s) (storeEdges (edges_of (graph ?s3) n))\<rparr>)
      = graph ?s3"
  proof -
    have "renamed (factory_of s) (storeEdges (edges_of (graph ?s3) n)) = storeEdges (edges_of (graph ?s3) n)"
      using fun_cong [OF F1(8), of n] fun_cong [OF F3(8), of n] ren(2) by (simp add: sto_def)
    then show ?thesis using same_node [OF F3(10) [OF F1(10) [OF n]]] by simp
  qed
  have l: "fold (load_step n v) (loadEdges (edges_of (graph s) n)) s = ?s1"
    using fold_steps(1) [OF u(1,2), of n v] by (simp add: ld_def)
  have st: "fold (store_step n v) (storeEdges (edges_of (graph ?s1) n)) ?s1 = ?s3"
    using fold_steps(2) [of ?s1 "sto s n" n v] u(1,3) F1(3) F1(8) by (simp add: sto_def fun_eq_iff)
  show ?thesis
    unfolding process_pointee_def Let_def unmerged_rep [OF u(1) v] l g1
    by (simp add: st g3 pointee_edges_def)
qed

definition node_edges :: "solver \<Rightarrow> NodeIndex \<Rightarrow> (NodeIndex \<times> NodeIndex) list" where
  "node_edges s n = concat (map (pointee_edges s n) (pts_of (ptsGraph s) n))"

lemma pointee_edges_range:
  assumes "in_range s" "v < N_of s"
  shows "\<forall>km\<in>set (pointee_edges s n v). fst km < N_of s \<and> snd km < N_of s"
proof -
  have "set (ld s n) \<subseteq> {..<N_of s}" "set (sto s n) \<subseteq> {..<N_of s}"
    using assms(1) by (simp_all add: in_range_def)
  with assms(2) show ?thesis by (auto simp: pointee_edges_def)
qed

lemma pointee_edges_cong: "ld t = ld s \<Longrightarrow> sto t = sto s \<Longrightarrow> pointee_edges t n = pointee_edges s n"
  by (rule ext) (simp add: pointee_edges_def)

lemma fold_pointees:
  assumes "in_range s" "graph s n \<noteq> None" "set vs \<subseteq> {..<N_of s}"
  shows "fold (process_pointee n) vs s = fold edge_ins (concat (map (pointee_edges s n) vs)) s"
  using assms
proof (induction vs arbitrary: s)
  case (Cons v vs)
  have v: "v < N_of s" using Cons.prems by simp
  note F = fold_edge_ins [OF Cons.prems(1) pointee_edges_range [OF Cons.prems(1) v, of n]]
  let ?t = "fold edge_ins (pointee_edges s n v) s"
  have "pointee_edges ?t n = pointee_edges s n"
    by (rule pointee_edges_cong) (rule F)+
  moreover have "fold (process_pointee n) vs ?t = fold edge_ins (concat (map (pointee_edges ?t n) vs)) ?t"
    by (rule Cons.IH) (use F Cons.prems in simp_all)
  ultimately show ?case
    using process_pointee_edges [OF Cons.prems(1,2) v] by simp
qed simp

section \<open>One node: propagation\<close>

definition prop_ins :: "NodeIndex \<Rightarrow> NodeIndex \<Rightarrow> solver \<Rightarrow> solver" where
  "prop_ins n m s = (if n = m then s else
     s\<lparr>ptsGraph := (ptsGraph s)(m \<mapsto> fold set_ins (pts_of (ptsGraph s) n) (pts_of (ptsGraph s) m)),
       nextWorkList := (if set (pts_of (ptsGraph s) n) \<subseteq> set (pts_of (ptsGraph s) m) then nextWorkList s
                        else enqueue m (nextWorkList s))\<rparr>)"

lemma propagate_is_prop_ins:
  "unmerged (factory_of s) \<Longrightarrow> m < N_of s \<Longrightarrow> propagate_step False n m s = prop_ins n m s"
  using unmerged_rep [of "factory_of s" m]
  by (auto simp: propagate_step_def prop_ins_def unionWith_def pts_contains_def has_def Let_def)

lemma prop_ins_simps [simp]:
  "factory_of (prop_ins n m s) = factory_of s" "graph (prop_ins n m s) = graph s"
  "currWorkList (prop_ins n m s) = currWorkList s" "E (prop_ins n m s) = E s"
  "ld (prop_ins n m s) = ld s" "sto (prop_ins n m s) = sto s"
  "pts_of (ptsGraph (prop_ins n m s)) n = pts_of (ptsGraph s) n"
  by (simp_all add: prop_ins_def E_def ld_def sto_def pts_of_def fun_eq_iff)

lemma prop_ins_PT [simp]:
  "PT (prop_ins n m s) = PT s \<union> Pair m ` set (pts_of (ptsGraph s) n)"
  by (auto simp: prop_ins_def PT_def pts_of_def split: if_splits option.splits)

lemma prop_ins_next:
  "set (nextWorkList (prop_ins n m s)) = set (nextWorkList s) \<union> (if PT (prop_ins n m s) = PT s then {} else {m})"
proof -
  have "PT (prop_ins n m s) = PT s \<longleftrightarrow> set (pts_of (ptsGraph s) n) \<subseteq> set (pts_of (ptsGraph s) m)"
    unfolding prop_ins_PT by (auto simp: PT_def)
  then show ?thesis by (auto simp: prop_ins_def enqueue_def)
qed

lemma prop_ins_range:
  assumes "in_range s" "m < N_of s"
  shows "in_range (prop_ins n m s)"
proof -
  have "(n, v) \<in> PT s \<Longrightarrow> v < N_of s" for v
    using assms(1) by (auto simp: in_range_def)
  then have "set (pts_of (ptsGraph s) n) \<subseteq> {..<N_of s}" by (auto simp: PT_def)
  then show ?thesis
    using assms by (auto simp: in_range_def prop_ins_next split: if_splits)
qed

lemma card_grow_square:
  assumes "B \<subseteq> {..<n} \<times> {..<n}" "A \<subset> B"
  shows "Suc (n * n - card B) \<le> n * n - card A"
  using finite_square [OF assms(1)] psubset_card_mono [of B A] assms(2) by auto

lemma prop_ins_potential:
  assumes "in_range s" "m < N_of s"
  shows "potential (prop_ins n m s) \<le> potential s"
proof (cases "PT (prop_ins n m s) = PT s")
  case True
  then have "set (pts_of (ptsGraph s) n) \<subseteq> set (pts_of (ptsGraph s) m)"
    unfolding prop_ins_PT by (auto simp: PT_def)
  then have "nextWorkList (prop_ins n m s) = nextWorkList s"
    by (simp add: prop_ins_def)
  with True show ?thesis by (simp add: potential_def del: prop_ins_PT)
next
  case False
  have "PT (prop_ins n m s) \<subseteq> {..<N_of s} \<times> {..<N_of s}"
    using prop_ins_range [OF assms] by (simp add: in_range_def del: prop_ins_PT)
  moreover have "PT s \<subset> PT (prop_ins n m s)"
    using False by auto
  ultimately have "Suc (N_of s * N_of s - card (PT (prop_ins n m s))) \<le> N_of s * N_of s - card (PT s)"
    by (rule card_grow_square)
  moreover have "length (nextWorkList (prop_ins n m s)) \<le> Suc (length (nextWorkList s))"
    by (simp add: prop_ins_def enqueue_def)
  ultimately show ?thesis by (simp add: potential_def del: prop_ins_PT)
qed

lemma fold_prop_ins:
  fixes n :: NodeIndex
  assumes "in_range s" "set ms \<subseteq> {..<N_of s}"
  defines "t \<equiv> fold (prop_ins n) ms s"
  shows "in_range t" "potential t \<le> potential s" "factory_of t = factory_of s" "graph t = graph s"
    "currWorkList t = currWorkList s" "pts_of (ptsGraph t) n = pts_of (ptsGraph s) n"
    "PT t = PT s \<union> set ms \<times> set (pts_of (ptsGraph s) n)"
    "set (nextWorkList s) \<subseteq> set (nextWorkList t)" "(m, v) \<in> PT t - PT s \<Longrightarrow> m \<in> set (nextWorkList t)"
proof -
  have "in_range t \<and> potential t \<le> potential s \<and> factory_of t = factory_of s \<and> graph t = graph s \<and>
    currWorkList t = currWorkList s \<and> pts_of (ptsGraph t) n = pts_of (ptsGraph s) n \<and>
    PT t = PT s \<union> set ms \<times> set (pts_of (ptsGraph s) n) \<and>
    set (nextWorkList s) \<subseteq> set (nextWorkList t) \<and> (\<forall>m v. (m, v) \<in> PT t - PT s \<longrightarrow> m \<in> set (nextWorkList t))"
    unfolding t_def using assms(1,2)
  proof (induction ms arbitrary: s)
    case (Cons m ms)
    have m: "m < N_of s" using Cons.prems by simp
    let ?s = "prop_ins n m s"
    have "set ms \<subseteq> {..<N_of ?s}" using Cons.prems(2) by simp
    note H = Cons.IH [OF prop_ins_range [OF Cons.prems(1) m] this, unfolded prop_ins_simps]
    have IH: "in_range (fold (prop_ins n) ms ?s)" "potential (fold (prop_ins n) ms ?s) \<le> potential ?s"
      "factory_of (fold (prop_ins n) ms ?s) = factory_of s" "graph (fold (prop_ins n) ms ?s) = graph s"
      "currWorkList (fold (prop_ins n) ms ?s) = currWorkList s"
      "pts_of (ptsGraph (fold (prop_ins n) ms ?s)) n = pts_of (ptsGraph s) n"
      "PT (fold (prop_ins n) ms ?s) = PT ?s \<union> set ms \<times> set (pts_of (ptsGraph s) n)"
      "set (nextWorkList ?s) \<subseteq> set (nextWorkList (fold (prop_ins n) ms ?s))"
      "\<And>m v. (m, v) \<in> PT (fold (prop_ins n) ms ?s) - PT ?s \<Longrightarrow> m \<in> set (nextWorkList (fold (prop_ins n) ms ?s))"
      using H by blast+
    have "k \<in> set (nextWorkList (fold (prop_ins n) ms ?s))" if "(k, v) \<in> PT (fold (prop_ins n) ms ?s) - PT s" for k v
    proof (cases "(k, v) \<in> PT ?s")
      case True
      then have "k = m" "PT ?s \<noteq> PT s" using that by auto
      then show ?thesis using IH(8) by (auto simp: prop_ins_next)
    qed (use that IH(9) in blast)
    moreover have "potential (fold (prop_ins n) ms ?s) \<le> potential s"
      using IH(2) prop_ins_potential [OF Cons.prems(1) m, of n] by simp
    moreover have "set (nextWorkList s) \<subseteq> set (nextWorkList (fold (prop_ins n) ms ?s))"
      using IH(8) by (auto simp: prop_ins_next)
    moreover have "PT (fold (prop_ins n) ms ?s) = PT s \<union> set (m # ms) \<times> set (pts_of (ptsGraph s) n)"
      unfolding IH(7) prop_ins_PT by auto
    ultimately show ?case
      using IH(1,3-6) by simp
  qed simp
  then show "in_range t" "potential t \<le> potential s" "factory_of t = factory_of s" "graph t = graph s"
    "currWorkList t = currWorkList s" "pts_of (ptsGraph t) n = pts_of (ptsGraph s) n"
    "PT t = PT s \<union> set ms \<times> set (pts_of (ptsGraph s) n)"
    "set (nextWorkList s) \<subseteq> set (nextWorkList t)" "(m, v) \<in> PT t - PT s \<Longrightarrow> m \<in> set (nextWorkList t)"
    by blast+
qed

section \<open>One node\<close>

lemma fold_propagate:
  assumes "unmerged (factory_of s)" "set ms \<subseteq> {..<N_of s}"
  shows "fold (propagate_step False n) ms s = fold (prop_ins n) ms s"
  using assms by (induction ms arbitrary: s) (simp_all add: propagate_is_prop_ins)

lemma pts_set: "set (pts_of (ptsGraph s) n) = {v. (n, v) \<in> PT s}"
  by (simp add: PT_def)

lemma copy_set: "set (copyEdges (edges_of (graph s) n)) = {m. (n, m) \<in> E s}"
  by (simp add: E_def)

text \<open>The edges the pointed-to nodes of \<open>n\<close> call for.\<close>

definition new_edges :: "solver \<Rightarrow> NodeIndex \<Rightarrow> (NodeIndex \<times> NodeIndex) set" where
  "new_edges s n = {(k, m). (n, k) \<in> PT s \<and> m \<in> set (ld s n) \<or> k \<in> set (sto s n) \<and> (n, m) \<in> PT s}"

lemma process_edges_effect:
  assumes R: "in_range s" and n: "graph s n \<noteq> None"
  defines "t \<equiv> process_edges False n s"
  shows "in_range t" "potential t \<le> potential s" "currWorkList t = currWorkList s" "factory_of t = factory_of s"
    "ld t = ld s" "sto t = sto s" "E t = new_edges s n \<union> E s"
    "PT t = PT s \<union> {(m, v). (n, m) \<in> E t \<and> (n, v) \<in> PT s}"
    "set (nextWorkList s) \<subseteq> set (nextWorkList t)"
    "(k, m) \<in> E t - E s \<Longrightarrow> k \<in> set (nextWorkList t)" "(k, v) \<in> PT t - PT s \<Longrightarrow> k \<in> set (nextWorkList t)"
proof -
  let ?kms = "node_edges s n"
  have vs: "set (pts_of (ptsGraph s) n) \<subseteq> {..<N_of s}"
    using R unfolding pts_set by (auto simp: in_range_def)
  have km: "\<forall>km\<in>set ?kms. fst km < N_of s \<and> snd km < N_of s"
    using pointee_edges_range [OF R, of _ n] vs by (auto simp: node_edges_def)
  define s1 where "s1 = fold edge_ins ?kms s"
  note F1 = fold_edge_ins [OF R km, folded s1_def]
  have s1: "fold (process_pointee n) (pts_of (ptsGraph s) n) s = s1"
    using fold_pointees [OF R n vs] by (simp add: s1_def node_edges_def)
  let ?ms = "copyEdges (edges_of (graph s1) n)"
  have ms: "set ?ms \<subseteq> {..<N_of s1}"
    using F1(1) unfolding copy_set by (auto simp: in_range_def)
  define s2 where "s2 = fold (prop_ins n) ?ms s1"
  note F2 = fold_prop_ins [OF F1(1) ms, where n = n, folded s2_def]
  have s2: "fold (propagate_step False n) ?ms s1 = s2"
    unfolding s2_def by (rule fold_propagate [OF _ ms]) (use F1(1) in \<open>simp add: in_range_def\<close>)
  have u: "unmerged (factory_of s)" using R by (simp add: in_range_def)
  have ren: "fold (\<lambda>d. let t = getMergeTarget_const (factory_of s) d in if t \<noteq> d then replace_edge d t else (\<lambda>x. x)) ds xs = xs"
    if "set ds \<subseteq> {..<N_of s}" for ds xs
    using that unmerged_rep [OF u] by (induction ds) (auto simp: Let_def)
  have "set (filter (\<lambda>d. getMergeTarget_const (factory_of s) d \<noteq> n) ?ms) \<subseteq> {..<N_of s}"
    using ms F1(3) by auto
  note moved = ren [OF this]
  have g2: "(graph s1)(n \<mapsto> edges_of (graph s1) n) = graph s1"
    by (rule same_node [OF F1(10) [OF n]])
  have t: "t = s2"
    unfolding t_def process_edges_def Let_def s1 s2 F2(4)
    using moved g2 F2(4) by (simp add: Let_def)
  have kms: "set ?kms = new_edges s n"
    unfolding node_edges_def new_edges_def set_concat set_map pts_set
    by (auto simp: pointee_edges_def)
  have views: "E s2 = E s1" "ld s2 = ld s1" "sto s2 = sto s1"
    by (simp_all add: E_def ld_def sto_def F2(4) fun_eq_iff)
  show "in_range t" "currWorkList t = currWorkList s" "factory_of t = factory_of s" "ld t = ld s" "sto t = sto s"
    "E t = new_edges s n \<union> E s"
    using F2(1,3,5) F1(3,5,7-9) kms by (simp_all add: t views)
  show "potential t \<le> potential s"
    using F1(2) F2(2) by (simp add: t)
  show "PT t = PT s \<union> {(m, v). (n, m) \<in> E t \<and> (n, v) \<in> PT s}"
    unfolding t F2(7) views F1(4,6) pts_set copy_set by auto
  show "set (nextWorkList s) \<subseteq> set (nextWorkList t)"
    using F2(8) F1(11) by (auto simp: t)
  show "k \<in> set (nextWorkList t)" if "(k, m) \<in> E t - E s"
    using that F2(8) F1(9,11) by (force simp: t views)
  show "k \<in> set (nextWorkList t)" if "(k, v) \<in> PT t - PT s"
    using that F2(9) [of k v] F1(6) by (simp add: t)
qed

section \<open>The invariant of the work-list algorithm\<close>

definition settled :: "solver \<Rightarrow> NodeIndex \<Rightarrow> bool" where
  "settled s n \<longleftrightarrow> new_edges s n \<subseteq> E s \<and> (\<forall>m v. (n, m) \<in> E s \<longrightarrow> (n, v) \<in> PT s \<longrightarrow> (m, v) \<in> PT s)"

text \<open>Everything in the state is forced by the constraints.\<close>

definition justified :: "AndersConstraint list \<Rightarrow> solver \<Rightarrow> bool" where
  "justified cs s \<longleftrightarrow> (\<forall>S. solution cs S \<longrightarrow>
     (\<forall>k v. (k, v) \<in> PT s \<longrightarrow> v \<in> S k) \<and> (\<forall>k m. (k, m) \<in> E s \<longrightarrow> S k \<subseteq> S m))"

definition sol_inv :: "AndersConstraint list \<Rightarrow> NodeIndex set \<Rightarrow> solver \<Rightarrow> bool" where
  "sol_inv cs pending s \<longleftrightarrow> in_range s \<and> justified cs s \<and>
     (\<forall>n. set (ld s n) = {dest c | c. c \<in> set cs \<and> ctype c = LOAD \<and> src c = n}) \<and>
     (\<forall>n. set (sto s n) = {src c | c. c \<in> set cs \<and> ctype c = STORE \<and> dest c = n}) \<and>
     (\<forall>c\<in>set cs. ctype c = COPY \<longrightarrow> (src c, dest c) \<in> E s) \<and>
     (\<forall>c\<in>set cs. ctype c = ADDR_OF \<longrightarrow> (dest c, src c) \<in> PT s) \<and>
     (\<forall>n. n \<notin> pending \<union> set (currWorkList s) \<union> set (nextWorkList s) \<longrightarrow> settled s n)"

lemma sol_invD:
  assumes "sol_inv cs pending s"
  shows "in_range s" "justified cs s" "set (ld s n) = {dest c | c. c \<in> set cs \<and> ctype c = LOAD \<and> src c = n}"
    "set (sto s n) = {src c | c. c \<in> set cs \<and> ctype c = STORE \<and> dest c = n}"
    "c \<in> set cs \<Longrightarrow> ctype c = COPY \<Longrightarrow> (src c, dest c) \<in> E s"
    "c \<in> set cs \<Longrightarrow> ctype c = ADDR_OF \<Longrightarrow> (dest c, src c) \<in> PT s"
    "n \<notin> pending \<Longrightarrow> n \<notin> set (currWorkList s) \<Longrightarrow> n \<notin> set (nextWorkList s) \<Longrightarrow> settled s n"
  using assms unfolding sol_inv_def by blast+

lemma justified_step:
  assumes I: "sol_inv cs pending s"
  shows "solution cs S \<Longrightarrow> (k, m) \<in> new_edges s n \<Longrightarrow> S k \<subseteq> S m"
proof -
  assume S: "solution cs S" and km: "(k, m) \<in> new_edges s n"
  have pt: "(n, x) \<in> PT s \<Longrightarrow> x \<in> S n" for x
    using sol_invD(2) [OF I] S by (simp add: justified_def)
  from km consider "(n, k) \<in> PT s" "m \<in> set (ld s n)" | "k \<in> set (sto s n)" "(n, m) \<in> PT s"
    by (auto simp: new_edges_def)
  then show "S k \<subseteq> S m"
  proof cases
    case 1
    then obtain c where c: "c \<in> set cs" "ctype c = LOAD" "src c = n" "dest c = m"
      using sol_invD(3) [OF I, of n] by auto
    then have "satisfies S c" using S by (simp add: solution_def)
    with c pt [OF 1(1)] show ?thesis by (simp add: satisfies_iff)
  next
    case 2
    then obtain c where c: "c \<in> set cs" "ctype c = STORE" "dest c = n" "src c = k"
      using sol_invD(4) [OF I, of n] by auto
    then have "satisfies S c" using S by (simp add: solution_def)
    with c pt [OF 2(2)] show ?thesis by (simp add: satisfies_iff)
  qed
qed

lemma settled_mono:
  assumes "settled s k" "ld t = ld s" "sto t = sto s" "E s \<subseteq> E t" "PT s \<subseteq> PT t"
    and "\<And>m. (k, m) \<in> E t \<Longrightarrow> (k, m) \<in> E s" "\<And>v. (k, v) \<in> PT t \<Longrightarrow> (k, v) \<in> PT s"
  shows "settled t k"
proof -
  have "new_edges t k \<subseteq> new_edges s k"
    using assms(2,3,7) by (auto simp: new_edges_def)
  with assms show ?thesis by (auto simp: settled_def)
qed

lemma process_edges_inv:
  assumes I: "sol_inv cs {n} s" and n: "graph s n \<noteq> None"
  shows "sol_inv cs {} (process_edges False n s)"
proof -
  let ?t = "process_edges False n s"
  note X = process_edges_effect [OF sol_invD(1) [OF I] n]
  have J: "justified cs ?t"
    unfolding justified_def
  proof (intro allI impI)
    fix S assume S: "solution cs S"
    have old: "(k, v) \<in> PT s \<Longrightarrow> v \<in> S k" "(k, m) \<in> E s \<Longrightarrow> S k \<subseteq> S m" for k m v
      using sol_invD(2) [OF I] S by (simp_all add: justified_def)
    have e: "(k, m) \<in> E ?t \<Longrightarrow> S k \<subseteq> S m" for k m
      unfolding X(7) using justified_step [OF I S] old(2) by blast
    have "(k, v) \<in> PT ?t \<Longrightarrow> v \<in> S k" for k v
      unfolding X(8) using old(1) e by blast
    with e show "(\<forall>k v. (k, v) \<in> PT ?t \<longrightarrow> v \<in> S k) \<and> (\<forall>k m. (k, m) \<in> E ?t \<longrightarrow> S k \<subseteq> S m)" by blast
  qed
  have self: "(n, v) \<in> PT ?t \<longleftrightarrow> (n, v) \<in> PT s" for v
    unfolding X(8) by blast
  have self_n: "settled ?t n"
  proof -
    have "new_edges ?t n = new_edges s n"
      using self X(5,6) by (simp add: new_edges_def)
    moreover have "(m, v) \<in> PT ?t" if "(n, m) \<in> E ?t" "(n, v) \<in> PT ?t" for m v
      using that self unfolding X(8) by blast
    ultimately show ?thesis using X(7) by (auto simp: settled_def)
  qed
  have others: "settled ?t k" if k: "k \<notin> set (currWorkList ?t)" "k \<notin> set (nextWorkList ?t)" for k
  proof (cases "k = n")
    case False
    have "k \<notin> set (nextWorkList s)" using k X(9) by blast
    then have "settled s k" using sol_invD(7) [OF I, of k] False k X(3) by simp
    then show ?thesis
    proof (rule settled_mono)
      show "(k, m) \<in> E s" if "(k, m) \<in> E ?t" for m using that X(10) k by blast
      show "(k, v) \<in> PT s" if "(k, v) \<in> PT ?t" for v using that X(11) k by blast
    qed (use X(5-8) in auto)
  qed (use self_n in simp)
  show ?thesis
    unfolding sol_inv_def X(5,6)
  proof (intro conjI ballI allI impI)
    fix c assume "c \<in> set cs"
    then show "ctype c = COPY \<Longrightarrow> (src c, dest c) \<in> E ?t" "ctype c = ADDR_OF \<Longrightarrow> (dest c, src c) \<in> PT ?t"
      using sol_invD(5,6) [OF I] X(7,8) by auto
  qed (use X(1) J sol_invD(3,4) [OF I] others in auto)
qed

section \<open>The loops\<close>

lemma settled_no_node: "graph s n = None \<Longrightarrow> settled s n"
  by (simp add: settled_def new_edges_def E_def ld_def sto_def edges_of_def cnode_or_new_def new_cnode_def)

lemma settled_no_pts: "ptsGraph s n = None \<Longrightarrow> settled s n"
  by (auto simp: settled_def new_edges_def PT_def pts_of_def)

lemma sol_inv_settle: "sol_inv cs {n} s \<Longrightarrow> settled s n \<Longrightarrow> sol_inv cs {} s"
  by (auto simp: sol_inv_def)

lemma dequeue_views [simp]:
  "E (s\<lparr>currWorkList := q\<rparr>) = E s" "PT (s\<lparr>currWorkList := q\<rparr>) = PT s"
  "ld (s\<lparr>currWorkList := q\<rparr>) = ld s" "sto (s\<lparr>currWorkList := q\<rparr>) = sto s"
  "settled (s\<lparr>currWorkList := q\<rparr>) = settled s" "justified cs (s\<lparr>currWorkList := q\<rparr>) = justified cs s"
  by (simp_all add: E_def PT_def ld_def sto_def settled_def justified_def new_edges_def fun_eq_iff)

lemma process_node_inv:
  assumes I: "sol_inv cs {} s" and q: "currWorkList s = n # rest"
  shows "\<exists>t. process_node False False n (s\<lparr>currWorkList := rest\<rparr>) = Inr t \<and> sol_inv cs {} t \<and> potential t < potential s"
proof -
  let ?s = "s\<lparr>currWorkList := rest\<rparr>"
  have R: "in_range ?s" and n: "n < N_of s" "unmerged (factory_of s)"
    using sol_invD(1) [OF I] q by (auto simp: in_range_def)
  have I0: "sol_inv cs {n} ?s"
    using I R q by (auto simp: sol_inv_def)
  have p: "potential ?s < potential s"
    using q by (simp add: potential_def)
  show ?thesis
  proof (cases "graph s n = None \<or> ptsGraph s n = None")
    case True
    then have "settled ?s n" using settled_no_node [of s n] settled_no_pts [of s n] by auto
    with True I0 p show ?thesis
      using unmerged_rep [OF n(2,1)] sol_inv_settle [OF I0]
      by (auto simp: process_node_def Let_def split: option.splits)
  next
    case False
    then have "process_node False False n ?s = Inr (process_edges False n ?s)"
      using unmerged_rep [OF n(2,1)] by (auto simp: process_node_def Let_def)
    moreover have "potential (process_edges False n ?s) \<le> potential ?s"
      by (rule process_edges_effect(2) [OF R]) (use False in simp)
    ultimately show ?thesis
      using process_edges_inv [OF I0] False p by auto
  qed
qed

lemma inner_loop_inv:
  assumes "sol_inv cs {} s" "potential s < k"
  shows "\<exists>t. inner_loop False False k s = Inr t \<and> sol_inv cs {} t \<and> currWorkList t = [] \<and>
    potential t \<le> potential s \<and> (currWorkList s \<noteq> [] \<longrightarrow> potential t < potential s)"
  using assms
proof (induction k arbitrary: s)
  case (Suc k)
  show ?case
  proof (cases "currWorkList s")
    case (Cons n rest)
    obtain s1 where s1: "process_node False False n (s\<lparr>currWorkList := rest\<rparr>) = Inr s1" "sol_inv cs {} s1"
      "potential s1 < potential s"
      using process_node_inv [OF Suc.prems(1) Cons] by blast
    then have "potential s1 < k" using Suc.prems(2) by simp
    from Suc.IH [OF s1(2) this] s1 show ?thesis by (auto simp: Cons)
  qed (use Suc.prems in simp)
qed simp

lemma sol_inv_swap:
  assumes "sol_inv cs {} s"
  shows "sol_inv cs {} (s\<lparr>currWorkList := nextWorkList s, nextWorkList := currWorkList s\<rparr>)"
    and "potential (s\<lparr>currWorkList := nextWorkList s, nextWorkList := currWorkList s\<rparr>) = potential s"
proof -
  let ?s = "s\<lparr>currWorkList := nextWorkList s, nextWorkList := currWorkList s\<rparr>"
  have [simp]: "E ?s = E s" "PT ?s = PT s" "ld ?s = ld s" "sto ?s = sto s"
    by (simp_all add: E_def PT_def ld_def sto_def fun_eq_iff)
  have [simp]: "settled ?s n = settled s n" "justified cs ?s = justified cs s" for n
    by (simp_all add: settled_def justified_def new_edges_def)
  show "potential ?s = potential s" by (simp add: potential_def)
  have "in_range ?s"
    using sol_invD(1) [OF assms] by (simp add: in_range_def)
  with assms show "sol_inv cs {} ?s"
    unfolding sol_inv_def by simp
qed

lemma outer_loop_inv:
  assumes "sol_inv cs {} s" "nextWorkList s = []" "Suc (potential s) < k"
  shows "\<exists>t. outer_loop False False k s = Inr t \<and> sol_inv cs {} t \<and> currWorkList t = [] \<and> nextWorkList t = []"
  using assms
proof (induction k arbitrary: s)
  case (Suc k)
  show ?case
  proof (cases "currWorkList s = []")
    case False
    have "potential s < k" using Suc.prems(3) by simp
    from inner_loop_inv [OF Suc.prems(1) this] False obtain t where
      t: "inner_loop False False k s = Inr t" "sol_inv cs {} t" "currWorkList t = []" "potential t < potential s"
      by blast
    let ?t = "t\<lparr>currWorkList := nextWorkList t, nextWorkList := currWorkList t\<rparr>"
    have "Suc (potential ?t) < k" "nextWorkList ?t = []"
      using t(3,4) Suc.prems(3) sol_inv_swap(2) [OF t(2)] by simp_all
    from Suc.IH [OF sol_inv_swap(1) [OF t(2)] this(2,1)] show ?thesis
      using False t(1) by simp
  qed (use Suc.prems in simp)
qed simp

lemma finished_solution:
  assumes I: "sol_inv cs {} s" and "currWorkList s = []" "nextWorkList s = []"
  shows "solution cs (\<lambda>n. {v. (n, v) \<in> PT s})"
  unfolding solution_def
proof
  have st: "settled s n" for n
    using sol_invD(7) [OF I, of n] assms(2,3) by simp
  have e: "(n, m) \<in> E s \<Longrightarrow> (n, v) \<in> PT s \<Longrightarrow> (m, v) \<in> PT s" "(k, m) \<in> new_edges s n \<Longrightarrow> (k, m) \<in> E s" for n m v k
    using st [of n] by (auto simp: settled_def)
  fix c assume c: "c \<in> set cs"
  show "satisfies (\<lambda>n. {v. (n, v) \<in> PT s}) c"
  proof (cases "ctype c")
    case ADDR_OF
    with sol_invD(6) [OF I c] show ?thesis by (simp add: satisfies_iff)
  next
    case COPY
    with sol_invD(5) [OF I c] e(1) show ?thesis by (auto simp: satisfies_iff)
  next
    case LOAD
    then have "dest c \<in> set (ld s (src c))" using sol_invD(3) [OF I] c by auto
    then have "(src c, v) \<in> PT s \<Longrightarrow> (v, dest c) \<in> E s" for v
      using e(2) [of v "dest c" "src c"] by (auto simp: new_edges_def)
    with LOAD e(1) show ?thesis by (auto simp: satisfies_iff)
  next
    case STORE
    then have "src c \<in> set (sto s (dest c))" using sol_invD(4) [OF I] c by auto
    then have "(dest c, v) \<in> PT s \<Longrightarrow> (src c, v) \<in> E s" for v
      using e(2) [of "src c" v "dest c"] by (auto simp: new_edges_def)
    with STORE e(1) show ?thesis by (auto simp: satisfies_iff)
  qed
qed

section \<open>The initial state\<close>

definition constraints_in :: "nat \<Rightarrow> AndersConstraint list \<Rightarrow> bool" where
  "constraints_in N cs \<longleftrightarrow> (\<forall>c\<in>set cs. dest c < N \<and> src c < N)"

lemma edges_of_insert:
  "edges_of (snd (insertLoadEdge k m g)) n =
     (if n = k then (edges_of g k)\<lparr>loadEdges := set_ins m (loadEdges (edges_of g k))\<rparr> else edges_of g n)"
  "edges_of (snd (insertStoreEdge k m g)) n =
     (if n = k then (edges_of g k)\<lparr>storeEdges := set_ins m (storeEdges (edges_of g k))\<rparr> else edges_of g n)"
  by (simp_all add: insertLoadEdge_def insertStoreEdge_def edges_of_def cnode_or_new_def Let_def)

lemma add_constraint_views:
  assumes "unmerged f" "dest c < getNumNodes f" "src c < getNumNodes f" "add_constraint f c (g, p) = (g', p')"
  shows "set (copyEdges (edges_of g' k)) = set (copyEdges (edges_of g k)) \<union> {dest c |_ :: unit. ctype c = COPY \<and> src c = k}"
    "set (loadEdges (edges_of g' k)) = set (loadEdges (edges_of g k)) \<union> {dest c |_ :: unit. ctype c = LOAD \<and> src c = k}"
    "set (storeEdges (edges_of g' k)) = set (storeEdges (edges_of g k)) \<union> {src c |_ :: unit. ctype c = STORE \<and> dest c = k}"
    "set (pts_of p' k) = set (pts_of p k) \<union> {src c |_ :: unit. ctype c = ADDR_OF \<and> dest c = k}"
  using assms(4) unmerged_rep [OF assms(1,2)] unmerged_rep [OF assms(1,3)]
  by (cases "ctype c"; auto simp: add_constraint_def insertCopyEdge_edges edges_of_insert pts_insert_def pts_of_def
      Let_def split: if_splits)+

lemma build_views:
  assumes "unmerged f" "constraints_in (getNumNodes f) cs" "fold (add_constraint f) cs (g, p) = (g', p')"
  shows "set (copyEdges (edges_of g' k)) = set (copyEdges (edges_of g k)) \<union> {dest c |c. c \<in> set cs \<and> ctype c = COPY \<and> src c = k} \<and>
    set (loadEdges (edges_of g' k)) = set (loadEdges (edges_of g k)) \<union> {dest c |c. c \<in> set cs \<and> ctype c = LOAD \<and> src c = k} \<and>
    set (storeEdges (edges_of g' k)) = set (storeEdges (edges_of g k)) \<union> {src c |c. c \<in> set cs \<and> ctype c = STORE \<and> dest c = k} \<and>
    set (pts_of p' k) = set (pts_of p k) \<union> {src c |c. c \<in> set cs \<and> ctype c = ADDR_OF \<and> dest c = k}"
  using assms(2,3)
proof (induction cs arbitrary: g p)
  case (Cons c cs)
  obtain g1 p1 where 1: "add_constraint f c (g, p) = (g1, p1)" by fastforce
  have c: "dest c < getNumNodes f" "src c < getNumNodes f" "constraints_in (getNumNodes f) cs"
    using Cons.prems(1) by (auto simp: constraints_in_def)
  have "fold (add_constraint f) cs (g1, p1) = (g', p')"
    using Cons.prems(2) 1 by simp
  note IH = Cons.IH [OF c(3) this]
  show ?case
    unfolding conjunct1 [OF IH] conjunct1 [OF conjunct2 [OF IH]] conjunct1 [OF conjunct2 [OF conjunct2 [OF IH]]]
      conjunct2 [OF conjunct2 [OF conjunct2 [OF IH]]] add_constraint_views [OF assms(1) c(1,2) 1]
    by (intro conjI; fastforce)
qed simp

lemma init_inv:
  assumes f: "unmerged f" and cs: "constraints_in (getNumNodes f) cs"
  defines "s \<equiv> init_solver f Map.empty cs"
  shows "sol_inv cs {} s" "nextWorkList s = []" "potential s \<le> getNumNodes f + 2 * (getNumNodes f * getNumNodes f)"
proof -
  obtain g p where gp: "fold (add_constraint f) cs (Map.empty, Map.empty) = (g, p)" by fastforce
  let ?q = "filter (\<lambda>n. p n \<noteq> None \<and> getMergeTarget_const f n = n \<and> g n \<noteq> None) [0..<getNumNodes f]"
  have s: "s = \<lparr>factory_of = f, graph = g, ptsGraph = p, collapse_of = Map.empty, currWorkList = ?q,
      nextWorkList = [], cycleCandidates = [], checkedEdges = []\<rparr>"
    by (simp add: s_def init_solver_def buildConstraintGraph_def gp)
  note V = build_views [OF f cs gp]
  have e0: "edges_of Map.empty k = new_cnode k" "pts_of Map.empty k = []" for k
    by (simp_all add: edges_of_def cnode_or_new_def pts_of_def)
  have views: "E s = {(src c, dest c) |c. c \<in> set cs \<and> ctype c = COPY}"
    "PT s = {(dest c, src c) |c. c \<in> set cs \<and> ctype c = ADDR_OF}"
    "set (ld s k) = {dest c |c. c \<in> set cs \<and> ctype c = LOAD \<and> src c = k}"
    "set (sto s k) = {src c |c. c \<in> set cs \<and> ctype c = STORE \<and> dest c = k}" for k
    using V by (auto simp: s E_def PT_def ld_def sto_def e0 new_cnode_def)
  have R: "in_range s"
    unfolding in_range_def views using f cs by (auto simp: s constraints_in_def)
  have J: "justified cs s"
    unfolding justified_def views by (auto simp: solution_def satisfies_iff) (force split: ConstraintType.splits)+
  have st: "settled s n" if "n \<notin> set (currWorkList s)" for n
  proof (cases "n < getNumNodes f")
    case True
    then have "graph s n = None \<or> ptsGraph s n = None"
      using that unmerged_rep [OF f True] by (auto simp: s)
    then show ?thesis using settled_no_node settled_no_pts by blast
  next
    case False
    then have "(n, v) \<notin> PT s" for v using R by (auto simp: in_range_def s)
    then show ?thesis by (auto simp: settled_def new_edges_def)
  qed
  show "nextWorkList s = []" by (simp add: s)
  show "sol_inv cs {} s"
    unfolding sol_inv_def
  proof (intro conjI allI ballI impI)
    fix c assume "c \<in> set cs"
    then show "ctype c = COPY \<Longrightarrow> (src c, dest c) \<in> E s" "ctype c = ADDR_OF \<Longrightarrow> (dest c, src c) \<in> PT s"
      unfolding views by blast+
  qed (use R J st views(3,4) in simp_all)
  have "length ?q \<le> getNumNodes f" using length_filter_le [of "\<lambda>n. p n \<noteq> None \<and> getMergeTarget_const f n = n \<and> g n \<noteq> None" "[0..<getNumNodes f]"]
    by (simp only: length_upt diff_zero)
  then show "potential s \<le> getNumNodes f + 2 * (getNumNodes f * getNumNodes f)"
    by (simp add: potential_def s)
qed

section \<open>Properties\<close>

lemma solve_least:
  assumes "unmerged f" "constraints_in (getNumNodes f) cs"
    and "getNumNodes f + 2 * (getNumNodes f * getNumNodes f) + 2 \<le> fuel"
  shows "\<exists>s. solveConstraints False False fuel order f cs = Inr s \<and>
    solution cs (\<lambda>n. set (pts_of (ptsGraph s) n)) \<and>
    (\<forall>S. solution cs S \<longrightarrow> (\<forall>n. set (pts_of (ptsGraph s) n) \<subseteq> S n))"
proof -
  note init = init_inv [OF assms(1,2)]
  have "Suc (potential (init_solver f Map.empty cs)) < fuel"
    using init(3) assms(3) by linarith
  from outer_loop_inv [OF init(1,2) this] obtain s where
    s: "outer_loop False False fuel (init_solver f Map.empty cs) = Inr s" "sol_inv cs {} s"
      "currWorkList s = []" "nextWorkList s = []" by blast
  have "solution cs (\<lambda>n. set (pts_of (ptsGraph s) n))"
    unfolding pts_set by (rule finished_solution [OF s(2-4)])
  moreover have "set (pts_of (ptsGraph s) n) \<subseteq> S n" if "solution cs S" for S n
    using sol_invD(2) [OF s(2)] that unfolding justified_def pts_set by blast
  ultimately show ?thesis
    using s(1) by (auto simp: solveConstraints_def)
qed

text \<open>C38: with hybrid and lazy cycle detection switched off, \<open>solveConstraints\<close> ends, within a
  number of turns quadratic in the number of nodes, and the points-to graph it leaves is
  the least solution of the constraints: it satisfies every address-of, copy, load and
  store constraint, and every other solution contains it.\<close>

theorem solver_least_solution:
  assumes "unmerged f" "constraints_in (getNumNodes f) cs"
    and "getNumNodes f + 2 * (getNumNodes f * getNumNodes f) + 2 \<le> fuel"
  shows "\<exists>s. solveConstraints False False fuel order f cs = Inr s \<and>
    solution cs (\<lambda>n. set (pts_of (ptsGraph s) n)) \<and>
    (\<forall>S. solution cs S \<longrightarrow> (\<forall>n. set (pts_of (ptsGraph s) n) \<subseteq> S n))"
  by (rule solve_least [OF assms])

text \<open>Four constraints on seven nodes: \<open>p = &o\<close>, \<open>q = p\<close>, \<open>*q = p\<close>, \<open>r = *p\<close>.\<close>

definition constr :: "ConstraintType \<Rightarrow> nat \<Rightarrow> nat \<Rightarrow> AndersConstraint" where
  "constr t d s = \<lparr>ctype = t, dest = d, src = s\<rparr>"

definition small_factory :: AndersNodeFactory where
  "small_factory = push_node OBJ_NODE None (push_node VALUE_NODE None (push_node VALUE_NODE None init_factory))"

theorem solver_least_solution_witness:
  "\<exists>s. solveConstraints False False 107 [] small_factory
        [constr ADDR_OF 4 6, constr COPY 5 4, constr STORE 5 4, constr LOAD 5 4] = Inr s \<and>
    solution [constr ADDR_OF 4 6, constr COPY 5 4, constr STORE 5 4, constr LOAD 5 4]
      (\<lambda>n. set (pts_of (ptsGraph s) n)) \<and>
    (\<forall>S. solution [constr ADDR_OF 4 6, constr COPY 5 4, constr STORE 5 4, constr LOAD 5 4] S \<longrightarrow>
      (\<forall>n. set (pts_of (ptsGraph s) n) \<subseteq> S n))"
proof (rule solver_least_solution)
  have N: "getNumNodes small_factory = 7"
    by (simp add: small_factory_def push_node_def init_factory_def getNumNodes_def)
  show "unmerged small_factory"
    unfolding unmerged_def N
    by (auto simp: small_factory_def push_node_def init_factory_def mk_node_def target_def less_Suc_eq numeral_eq_Suc)
  show "constraints_in (getNumNodes small_factory)
      [constr ADDR_OF 4 6, constr COPY 5 4, constr STORE 5 4, constr LOAD 5 4]"
    by (simp add: N constraints_in_def constr_def)
  show "getNumNodes small_factory + 2 * (getNumNodes small_factory * getNumNodes small_factory) + 2 \<le> 107"
    by (simp add: N)
qed

end
