(* ===== verification/Andersen_Collect.thy ===== *)
theory Andersen_Collect
  imports Andersen_Sound
begin

text \<open>
  Collection of the constraints of a module
  (\<open>src/aSSA/andersen/ConstraintCollect.cpp\<close>,
  \<open>src/aSSA/andersen/ExternalLibrary.cpp\<close>): globals and their initializers,
  instructions, direct and indirect calls, the tables of known library
  functions; and the analysis as a whole
  (\<open>Andersen::runOnModule\<close> of \<open>src/aSSA/andersen/Andersen.cpp\<close>).

  An operand is a value with the information whether its type is a pointer. An
  assertion that fails is the error \<open>Assertion\<close>, \<open>llvm_unreachable\<close> the error
  \<open>Unreachable\<close>, an instruction the code does not support \<open>Unsupported\<close>.
\<close>

section \<open>Modules\<close>

type_synonym operand = "avalue \<times> bool"

datatype inttoptr_src = FromPtrToInt avalue | FromAddPtrToInt avalue | FromOther

record call_base =
  cb_callee :: "nat option"
  cb_args :: "operand list"

datatype opcode =
    Alloca
  | Call call_base
  | Ret "operand option"
  | Load avalue
  | Store operand avalue
  | GEP avalue
  | PHI "avalue list"
  | Cast avalue
  | IntToPtrInst inttoptr_src
  | Select avalue avalue
  | VAArg
  | ExtractOrInsertValue
  | NotImplemented
  | OtherInst

record instruction =
  in_id :: nat
  in_ptr :: bool
  in_op :: opcode

record function_decl =
  fd_id :: nat
  fd_name :: string
  fd_external :: bool
  fd_addr_taken :: bool
  fd_ret_ptr :: bool
  fd_vararg :: bool
  fd_args :: "(nat \<times> bool) list"
  fd_body :: "instruction list"

datatype initializer =
    PointerInit const_val
  | ScalarInit
  | NullAggregate
  | UndefAggregate
  | Aggregate "initializer list"

record ir_module =
  m_globals :: "(nat \<times> initializer option) list"
  m_functions :: "function_decl list"

record andersen =
  nodeFactory :: AndersNodeFactory
  constraints :: "AndersConstraint list"

section \<open>Helpers\<close>

definition emplace :: "ConstraintType \<Rightarrow> NodeIndex \<Rightarrow> NodeIndex \<Rightarrow> andersen \<Rightarrow> andersen" where
  "emplace t d s A = A\<lparr>constraints := constraints A @ [\<lparr>ctype = t, dest = d, src = s\<rparr>]\<rparr>"

definition value_node :: "andersen \<Rightarrow> avalue \<Rightarrow> anders_error + NodeIndex" where
  "value_node A v = bindE (getValueNodeFor (nodeFactory A) v)
     (\<lambda>i. if i = InvalidIndex then Inl Assertion else Inr i)"

definition arg_operand :: "call_base \<Rightarrow> nat \<Rightarrow> anders_error + avalue" where
  "arg_operand cb i = (if i < length (cb_args cb) then Inr (fst (cb_args cb ! i)) else Inl Assertion)"

definition new_node ::
  "(AndersNodeFactory \<Rightarrow> anders_error + NodeIndex \<times> AndersNodeFactory) \<Rightarrow> andersen \<Rightarrow> anders_error + NodeIndex \<times> andersen" where
  "new_node create A = bindE (create (nodeFactory A)) (\<lambda>(i, f). Inr (i, A\<lparr>nodeFactory := f\<rparr>))"

abbreviation new_value :: "avalue option \<Rightarrow> andersen \<Rightarrow> anders_error + NodeIndex \<times> andersen" where
  "new_value v \<equiv> new_node (createValueNode v)"

abbreviation new_object :: "avalue \<Rightarrow> andersen \<Rightarrow> anders_error + NodeIndex \<times> andersen" where
  "new_object v \<equiv> new_node (createObjectNode (Some v))"

text \<open>A value node for each member of a list that has pointer type.\<close>

definition new_values :: "(nat \<times> bool) list \<Rightarrow> andersen \<Rightarrow> anders_error + andersen" where
  "new_values = foldE (\<lambda>(v, ptr) A. if ptr
     then bindE (new_value (Some (LocalV v)) A) (\<lambda>(i, A1). Inr A1) else Inr A)"

section \<open>Library functions\<close>

definition noopFuncs :: "string list" where
  "noopFuncs = [''log'', ''log10'', ''exp'', ''exp2'', ''exp10'', ''strcmp'', ''strncmp'', ''strlen'',
     ''atoi'', ''atof'', ''atol'', ''atoll'', ''remove'', ''unlink'', ''rename'', ''memcmp'', ''free'',
     ''execl'', ''execlp'', ''execle'', ''execv'', ''execvp'', ''chmod'', ''puts'', ''write'', ''open'',
     ''create'', ''truncate'', ''chdir'', ''mkdir'', ''rmdir'', ''read'', ''pipe'', ''wait'', ''time'',
     ''stat'', ''fstat'', ''lstat'', ''strtod'', ''strtof'', ''strtold'', ''fopen'', ''fdopen'',
     ''fflush'', ''feof'', ''fileno'', ''clearerr'', ''rewind'', ''ftell'', ''ferror'', ''fgetc'',
     ''fgetc'', ''_IO_getc'', ''fwrite'', ''fread'', ''fgets'', ''ungetc'', ''fputc'', ''fputs'',
     ''putc'', ''ftell'', ''rewind'', ''_IO_putc'', ''fseek'', ''fgetpos'', ''fsetpos'', ''printf'',
     ''fprintf'', ''sprintf'', ''vprintf'', ''vfprintf'', ''vsprintf'', ''scanf'', ''fscanf'',
     ''sscanf'', ''__assert_fail'', ''modf'', ''putchar'', ''isalnum'', ''isalpha'', ''isascii'',
     ''isatty'', ''isblank'', ''iscntrl'', ''isdigit'', ''isgraph'', ''islower'', ''isprint'',
     ''ispunct'', ''isspace'', ''isupper'', ''iswalnum'', ''iswalpha'', ''iswctype'', ''iswdigit'',
     ''iswlower'', ''iswspace'', ''iswprint'', ''iswupper'', ''sin'', ''cos'', ''sinf'', ''cosf'',
     ''asin'', ''acos'', ''tan'', ''atan'', ''fabs'', ''pow'', ''floor'', ''ceil'', ''sqrt'', ''sqrtf'',
     ''hypot'', ''random'', ''tolower'', ''toupper'', ''towlower'', ''towupper'', ''system'', ''clock'',
     ''exit'', ''abort'', ''gettimeofday'', ''settimeofday'', ''sleep'', ''ctime'', ''strspn'',
     ''strcspn'', ''localtime'', ''strftime'', ''qsort'', ''popen'', ''pclose'', ''rand'', ''rand_r'',
     ''srand'', ''seed48'', ''drand48'', ''lrand48'', ''srand48'', ''__isoc99_sscanf'',
     ''__isoc99_fscanf'', ''fclose'', ''close'', ''perror'', ''strerror'', ''__errno_location'',
     ''__ctype_b_loc'', ''abs'', ''difftime'', ''setbuf'', ''_ZdlPv'', ''_ZdaPv'', ''fesetround'',
     ''fegetround'', ''fetestexcept'', ''feraiseexcept'', ''feclearexcept'', ''llvm.bswap.i16'',
     ''llvm.bswap.i32'', ''llvm.ctlz.i64'', ''llvm.lifetime.start'', ''llvm.lifetime.end'',
     ''llvm.stackrestore'', ''memset'', ''llvm.memset.i32'', ''llvm.memset.p0i8.i32'',
     ''llvm.memset.i64'', ''llvm.memset.p0i8.i64'', ''llvm.va_end'', ''setrlimit'', ''getrlimit'']"

definition mallocFuncs :: "string list" where
  "mallocFuncs = [''malloc'', ''valloc'', ''calloc'', ''_Znwj'', ''_ZnwjRKSt9nothrow_t'', ''_Znwm'',
     ''_ZnwmRKSt9nothrow_t'', ''_Znaj'', ''_ZnajRKSt9nothrow_t'', ''_Znam'', ''_ZnamRKSt9nothrow_t'',
     ''strdup'', ''strndup'', ''getenv'', ''memalign'', ''posix_memalign'']"

definition reallocFuncs :: "string list" where
  "reallocFuncs = [''realloc'', ''strtok'', ''strtok_r'']"

definition retArg0Funcs :: "string list" where
  "retArg0Funcs = [''fgets'', ''gets'', ''stpcpy'', ''strcat'', ''strchr'', ''strcpy'', ''strerror_r'',
     ''strncat'', ''strncpy'', ''strpbrk'', ''strptime'', ''strrchr'', ''strstr'', ''getcwd'']"

definition retArg1Funcs :: "string list" where
  "retArg1Funcs = [''signal'']"

definition retArg2Funcs :: "string list" where
  "retArg2Funcs = [''freopen'']"

definition memcpyFuncs :: "string list" where
  "memcpyFuncs = [''llvm.memcpy.i32'', ''llvm.memcpy.p0i8.p0i8.i32'', ''llvm.memcpy.i64'',
     ''llvm.memcpy.p0i8.p0i8.i64'', ''llvm.memmove.i32'', ''llvm.memmove.p0i8.p0i8.i32'',
     ''llvm.memmove.i64'', ''llvm.memmove.p0i8.p0i8.i64'', ''memccpy'', ''memmove'', ''bcopy'']"

definition convertFuncs :: "string list" where
  "convertFuncs = [''strtod'', ''strtof'', ''strtol'', ''strtold'', ''strtoll'', ''strtoul'']"

definition lookupName :: "string list \<Rightarrow> string \<Rightarrow> bool" where
  "lookupName table str = list_ex (\<lambda>s. s = str) table"

text \<open>The constraints of a call \<open>inst\<close> to the external function \<open>f\<close> in the function
  \<open>parentF\<close>; the flag tells whether the function is known.\<close>

definition copy_from_arg :: "nat \<Rightarrow> instruction \<Rightarrow> call_base \<Rightarrow> andersen \<Rightarrow> anders_error + bool \<times> andersen" where
  "copy_from_arg k inst cb A =
     bindE (value_node A (LocalV (in_id inst))) (\<lambda>retIndex.
     bindE (arg_operand cb k) (\<lambda>a. bindE (value_node A a) (\<lambda>argIndex.
       Inr (True, emplace COPY retIndex argIndex A))))"

definition malloc_call :: "instruction \<Rightarrow> call_base \<Rightarrow> string \<Rightarrow> andersen \<Rightarrow> anders_error + bool \<times> andersen" where
  "malloc_call inst cb name A =
     bindE (new_object (LocalV (in_id inst)) A) (\<lambda>(objIndex, A1).
     bindE (getValueNodeFor (nodeFactory A1) (LocalV (in_id inst))) (\<lambda>ptrIndex.
       if ptrIndex = InvalidIndex
       then if name = ''posix_memalign''
            then bindE (arg_operand cb 0) (\<lambda>a. bindE (value_node A1 a) (\<lambda>p.
                   Inr (True, emplace STORE p objIndex A1)))
            else Inl Assertion
       else Inr (True, emplace ADDR_OF ptrIndex objIndex A1)))"

definition memcpy_call :: "instruction \<Rightarrow> call_base \<Rightarrow> andersen \<Rightarrow> anders_error + bool \<times> andersen" where
  "memcpy_call inst cb A =
     bindE (arg_operand cb 0) (\<lambda>a0. bindE (value_node A a0) (\<lambda>arg0Index.
     bindE (arg_operand cb 1) (\<lambda>a1. bindE (value_node A a1) (\<lambda>arg1Index.
     bindE (new_value None A) (\<lambda>(tempIndex, A1).
       let A2 = emplace STORE arg0Index tempIndex (emplace LOAD tempIndex arg1Index A1)
       in bindE (getValueNodeFor (nodeFactory A2) (LocalV (in_id inst))) (\<lambda>retIndex.
            Inr (True, if retIndex \<noteq> InvalidIndex then emplace COPY retIndex arg0Index A2 else A2)))))))"

definition addConstraintForExternalLibrary ::
  "nat \<Rightarrow> instruction \<Rightarrow> call_base \<Rightarrow> string \<Rightarrow> andersen \<Rightarrow> anders_error + bool \<times> andersen" where
  "addConstraintForExternalLibrary parentF inst cb name A =
     (if lookupName noopFuncs name then Inr (True, A)
      else
      let isReallocLike = lookupName reallocFuncs name;
          isNull = (\<lambda>k. bindE (arg_operand cb k) (\<lambda>a. Inr (a = ConstV ConstantPointerNull)))
      in bindE (if isReallocLike then isNull 0 else Inr False) (\<lambda>arg0Null.
      if lookupName mallocFuncs name \<or> (isReallocLike \<and> \<not> arg0Null) then malloc_call inst cb name A
      else if lookupName retArg0Funcs name \<or> (isReallocLike \<and> arg0Null)
      then bindE (getValueNodeFor (nodeFactory A) (LocalV (in_id inst))) (\<lambda>retIndex.
             if retIndex \<noteq> InvalidIndex then copy_from_arg 0 inst cb A else Inr (True, A))
      else if lookupName retArg1Funcs name then copy_from_arg 1 inst cb A
      else if lookupName retArg2Funcs name then copy_from_arg 2 inst cb A
      else if lookupName memcpyFuncs name then memcpy_call inst cb A
      else if lookupName convertFuncs name
      then bindE (isNull 1) (\<lambda>null.
             if null then Inr (True, A)
             else bindE (arg_operand cb 0) (\<lambda>a0. bindE (value_node A a0) (\<lambda>arg0Index.
                  bindE (arg_operand cb 1) (\<lambda>a1. bindE (value_node A a1) (\<lambda>arg1Index.
                    Inr (True, emplace STORE arg0Index arg1Index A))))))
      else if name = ''llvm.va_start''
      then bindE (arg_operand cb 0) (\<lambda>a0. bindE (value_node A a0) (\<lambda>arg0Index.
             let vaIndex = getVarargNodeFor (nodeFactory A) parentF in
             if vaIndex = InvalidIndex then Inl Assertion
             else Inr (True, emplace ADDR_OF arg0Index vaIndex A)))
      else Inr (False, A)))"

section \<open>Calls\<close>

fun formal_actual :: "(nat \<times> bool) list \<Rightarrow> operand list \<Rightarrow> andersen \<Rightarrow> anders_error + operand list \<times> andersen" where
  "formal_actual ((formal, fptr) # fs) ((actual, aptr) # as) A =
     (if fptr
      then bindE (value_node A (LocalV formal)) (\<lambda>fIndex.
             if aptr then bindE (value_node A actual) (\<lambda>aIndex. formal_actual fs as (emplace COPY fIndex aIndex A))
             else formal_actual fs as (emplace COPY fIndex UniversalPtrIndex A))
      else formal_actual fs as A)"
| "formal_actual fs as A = Inr (as, A)"

definition addArgumentConstraintForCall :: "call_base \<Rightarrow> function_decl \<Rightarrow> andersen \<Rightarrow> anders_error + andersen" where
  "addArgumentConstraintForCall cb f A =
     bindE (formal_actual (fd_args f) (cb_args cb) A) (\<lambda>(rest, A1).
       if fd_vararg f
       then foldE (\<lambda>(actual, aptr) A. if aptr
              then bindE (value_node A actual) (\<lambda>aIndex.
                   let vaIndex = getVarargNodeFor (nodeFactory A) (fd_id f) in
                   if vaIndex = InvalidIndex then Inl Assertion else Inr (emplace COPY vaIndex aIndex A))
              else Inr A) rest A1
       else Inr A1)"

text \<open>An unknown function may make its pointer arguments point anywhere.\<close>

definition pollute_args :: "call_base \<Rightarrow> andersen \<Rightarrow> anders_error + andersen" where
  "pollute_args cb =
     foldE (\<lambda>(argVal, aptr) A. if aptr
       then bindE (value_node A argVal) (\<lambda>argIndex. Inr (emplace COPY argIndex UniversalPtrIndex A))
       else Inr A) (cb_args cb)"

definition universal_return :: "instruction \<Rightarrow> andersen \<Rightarrow> anders_error + andersen" where
  "universal_return inst A =
     (if in_ptr inst
      then bindE (value_node A (LocalV (in_id inst))) (\<lambda>retIndex. Inr (emplace COPY retIndex UniversalPtrIndex A))
      else Inr A)"

definition direct_call ::
  "nat \<Rightarrow> instruction \<Rightarrow> call_base \<Rightarrow> function_decl \<Rightarrow> andersen \<Rightarrow> anders_error + andersen" where
  "direct_call parentF inst cb f A =
     (if fd_external f
      then bindE (addConstraintForExternalLibrary parentF inst cb (fd_name f) A) (\<lambda>(known, A1).
             if known then Inr A1
             else bindE (universal_return inst A1) (pollute_args cb))
      else bindE (if in_ptr inst
                  then bindE (value_node A (LocalV (in_id inst))) (\<lambda>retIndex.
                       let fRetIndex = getReturnNodeFor (nodeFactory A) (fd_id f) in
                       if fRetIndex = InvalidIndex then Inl Assertion
                       else Inr (emplace COPY retIndex fRetIndex A))
                  else Inr A) (addArgumentConstraintForCall cb f))"

definition indirect_candidate ::
  "nat \<Rightarrow> instruction \<Rightarrow> call_base \<Rightarrow> function_decl \<Rightarrow> andersen \<Rightarrow> anders_error + andersen" where
  "indirect_candidate parentF inst cb f A =
     (if index_or_invalid (valueNodeMap (nodeFactory A) (ConstV (GlobalValue (fd_id f)))) = InvalidIndex then Inr A
      else if \<not> fd_vararg f \<and> length (fd_args f) \<noteq> length (cb_args cb) then Inr A
      else if fd_external f
      then bindE (addConstraintForExternalLibrary parentF inst cb (fd_name f) A) (\<lambda>(known, A1).
             if known then Inr A1 else pollute_args cb A1)
      else addArgumentConstraintForCall cb f A)"

definition addConstraintForCall ::
  "ir_module \<Rightarrow> nat \<Rightarrow> instruction \<Rightarrow> call_base \<Rightarrow> andersen \<Rightarrow> anders_error + andersen" where
  "addConstraintForCall M parentF inst cb A =
     (case cb_callee cb of
        Some fid \<Rightarrow>
          (case find (\<lambda>f. fd_id f = fid) (m_functions M) of
             Some f \<Rightarrow> direct_call parentF inst cb f A
           | None \<Rightarrow> Inl Assertion)
      | None \<Rightarrow>
          bindE (universal_return inst A) (foldE (indirect_candidate parentF inst cb) (m_functions M)))"

section \<open>Instructions\<close>

definition copy_to_inst :: "instruction \<Rightarrow> avalue \<Rightarrow> andersen \<Rightarrow> anders_error + andersen" where
  "copy_to_inst inst v A =
     bindE (value_node A v) (\<lambda>srcIndex. bindE (value_node A (LocalV (in_id inst))) (\<lambda>dstIndex.
       Inr (emplace COPY dstIndex srcIndex A)))"

fun collectConstraintsForInstruction ::
  "ir_module \<Rightarrow> nat \<Rightarrow> instruction \<Rightarrow> andersen \<Rightarrow> anders_error + andersen" where
  "collectConstraintsForInstruction M F inst A =
     (case in_op inst of
        Alloca \<Rightarrow>
          bindE (value_node A (LocalV (in_id inst))) (\<lambda>valNode.
          bindE (new_object (LocalV (in_id inst)) A) (\<lambda>(objNode, A1).
            Inr (emplace ADDR_OF valNode objNode A1)))
      | Call cb \<Rightarrow> addConstraintForCall M F inst cb A
      | Ret r \<Rightarrow>
          (case r of
             Some (v, True) \<Rightarrow>
               let retIndex = getReturnNodeFor (nodeFactory A) F in
               if retIndex = InvalidIndex then Inl Assertion
               else bindE (value_node A v) (\<lambda>valIndex. Inr (emplace COPY retIndex valIndex A))
           | _ \<Rightarrow> Inr A)
      | Load v \<Rightarrow>
          if in_ptr inst
          then bindE (value_node A v) (\<lambda>opIndex. bindE (value_node A (LocalV (in_id inst))) (\<lambda>valIndex.
                 Inr (emplace LOAD valIndex opIndex A)))
          else Inr A
      | Store (v, vptr) p \<Rightarrow>
          if vptr
          then bindE (value_node A v) (\<lambda>srcIndex. bindE (value_node A p) (\<lambda>dstIndex.
                 Inr (emplace STORE dstIndex srcIndex A)))
          else Inr A
      | GEP v \<Rightarrow> if in_ptr inst then copy_to_inst inst v A else Inl Assertion
      | PHI vs \<Rightarrow>
          if in_ptr inst
          then bindE (value_node A (LocalV (in_id inst))) (\<lambda>dstIndex.
                 foldE (\<lambda>v A. bindE (value_node A v) (\<lambda>srcIndex. Inr (emplace COPY dstIndex srcIndex A))) vs A)
          else Inr A
      | Cast v \<Rightarrow> if in_ptr inst then copy_to_inst inst v A else Inr A
      | IntToPtrInst s \<Rightarrow>
          if \<not> in_ptr inst then Inl Assertion
          else bindE (value_node A (LocalV (in_id inst))) (\<lambda>dstIndex.
            case s of
              FromPtrToInt v \<Rightarrow> bindE (value_node A v) (\<lambda>srcIndex. Inr (emplace COPY dstIndex srcIndex A))
            | FromAddPtrToInt v \<Rightarrow> bindE (value_node A v) (\<lambda>srcIndex. Inr (emplace COPY dstIndex srcIndex A))
            | FromOther \<Rightarrow> Inr (emplace COPY dstIndex UniversalPtrIndex A))
      | Select v w \<Rightarrow>
          if in_ptr inst
          then bindE (value_node A v) (\<lambda>srcIndex1. bindE (value_node A w) (\<lambda>srcIndex2.
               bindE (value_node A (LocalV (in_id inst))) (\<lambda>dstIndex.
                 Inr (emplace COPY dstIndex srcIndex2 (emplace COPY dstIndex srcIndex1 A)))))
          else Inr A
      | VAArg \<Rightarrow>
          if in_ptr inst
          then bindE (value_node A (LocalV (in_id inst))) (\<lambda>dstIndex.
                 let vaIndex = getVarargNodeFor (nodeFactory A) F in
                 if vaIndex = InvalidIndex then Inl Assertion else Inr (emplace COPY dstIndex vaIndex A))
          else Inr A
      | ExtractOrInsertValue \<Rightarrow> if in_ptr inst then Inl Unsupported else Inr A
      | NotImplemented \<Rightarrow> Inl Unsupported
      | OtherInst \<Rightarrow> if in_ptr inst then Inl Unreachable else Inr A)"

section \<open>Globals and the module\<close>

fun addGlobalInitializerConstraints :: "NodeIndex \<Rightarrow> initializer \<Rightarrow> andersen \<Rightarrow> anders_error + andersen" where
  "addGlobalInitializerConstraints objNode (PointerInit c) A =
     bindE (getObjectNodeForConstant (nodeFactory A) c) (\<lambda>rhsNode.
       if rhsNode = InvalidIndex then Inl Assertion else Inr (emplace ADDR_OF objNode rhsNode A))"
| "addGlobalInitializerConstraints objNode ScalarInit A = Inr A"
| "addGlobalInitializerConstraints objNode NullAggregate A = Inr (emplace COPY objNode NullObjectIndex A)"
| "addGlobalInitializerConstraints objNode UndefAggregate A = Inr A"
| "addGlobalInitializerConstraints objNode (Aggregate cs) A = foldE (addGlobalInitializerConstraints objNode) cs A"

definition declare_global :: "nat \<times> initializer option \<Rightarrow> andersen \<Rightarrow> anders_error + andersen" where
  "declare_global = (\<lambda>(g, init) A.
     bindE (new_value (Some (ConstV (GlobalValue g))) A) (\<lambda>(gVal, A1).
     bindE (new_object (ConstV (GlobalValue g)) A1) (\<lambda>(gObj, A2). Inr (emplace ADDR_OF gVal gObj A2))))"

definition optional_node ::
  "bool \<Rightarrow> (AndersNodeFactory \<Rightarrow> anders_error + NodeIndex \<times> AndersNodeFactory) \<Rightarrow> andersen \<Rightarrow> anders_error + andersen" where
  "optional_node b create A = (if b then bindE (new_node create A) (\<lambda>(i, A1). Inr A1) else Inr A)"

definition body_nodes :: "function_decl \<Rightarrow> andersen \<Rightarrow> anders_error + andersen" where
  "body_nodes f A3 =
     (if fd_external f then Inr A3
      else bindE (optional_node (fd_ret_ptr f) (createReturnNode (fd_id f)) A3) (\<lambda>A4.
           bindE (optional_node (fd_vararg f) (createVarargNode (fd_id f)) A4) (new_values (fd_args f))))"

definition declare_function :: "function_decl \<Rightarrow> andersen \<Rightarrow> anders_error + andersen" where
  "declare_function f A =
     bindE (if fd_addr_taken f
            then bindE (new_value (Some (ConstV (GlobalValue (fd_id f)))) A) (\<lambda>(fVal, A1).
                 bindE (new_object (ConstV (GlobalValue (fd_id f))) A1) (\<lambda>(fObj, A2).
                   Inr (emplace ADDR_OF fVal fObj A2)))
            else Inr A) (body_nodes f)"

definition init_global :: "nat \<times> initializer option \<Rightarrow> andersen \<Rightarrow> anders_error + andersen" where
  "init_global = (\<lambda>(g, init) A.
     bindE (getObjectNodeFor (nodeFactory A) (ConstV (GlobalValue g))) (\<lambda>gObj.
       if gObj = InvalidIndex then Inl Assertion
       else case init of
          Some c \<Rightarrow> addGlobalInitializerConstraints gObj c A
        | None \<Rightarrow> Inr (emplace COPY gObj UniversalObjIndex A)))"

definition collectConstraintsForGlobals :: "ir_module \<Rightarrow> andersen \<Rightarrow> anders_error + andersen" where
  "collectConstraintsForGlobals M A =
     bindE (foldE declare_global (m_globals M) A) (\<lambda>A1.
     bindE (foldE declare_function (m_functions M) A1) (foldE init_global (m_globals M)))"

definition collect_function :: "ir_module \<Rightarrow> function_decl \<Rightarrow> andersen \<Rightarrow> anders_error + andersen" where
  "collect_function M f A =
     (if fd_external f then Inr A
      else bindE (new_values (map (\<lambda>i. (in_id i, in_ptr i)) (fd_body f)) A)
             (foldE (collectConstraintsForInstruction M (fd_id f)) (fd_body f)))"

definition initial_constraints :: "AndersConstraint list" where
  "initial_constraints = [constr ADDR_OF UniversalPtrIndex UniversalObjIndex,
     constr STORE UniversalObjIndex UniversalObjIndex, constr ADDR_OF NullPtrIndex NullObjectIndex]"

definition collectConstraints :: "ir_module \<Rightarrow> anders_error + andersen" where
  "collectConstraints M =
     bindE (collectConstraintsForGlobals M \<lparr>nodeFactory = init_factory, constraints = initial_constraints\<rparr>)
       (foldE (collect_function M) (m_functions M))"

definition runOnModule :: "bool \<Rightarrow> bool \<Rightarrow> nat \<Rightarrow> NodeIndex list \<Rightarrow> ir_module \<Rightarrow> anders_error + solver" where
  "runOnModule EnableHCD EnableLCD fuel order M =
     bindE (collectConstraints M) (\<lambda>A.
       solveConstraints EnableHCD EnableLCD fuel order (nodeFactory A) (constraints A))"

section \<open>What is collected is well formed\<close>

definition collected :: "andersen \<Rightarrow> bool" where
  "collected A \<longleftrightarrow> unmerged (nodeFactory A) \<and> 4 \<le> getNumNodes (nodeFactory A) \<and>
     (\<forall>v i. valueNodeMap (nodeFactory A) v = Some i \<longrightarrow> i < getNumNodes (nodeFactory A)) \<and>
     (\<forall>v i. objNodeMap (nodeFactory A) v = Some i \<longrightarrow> i < getNumNodes (nodeFactory A)) \<and>
     (\<forall>v i. returnMap (nodeFactory A) v = Some i \<longrightarrow> i < getNumNodes (nodeFactory A)) \<and>
     (\<forall>v i. varargMap (nodeFactory A) v = Some i \<longrightarrow> i < getNumNodes (nodeFactory A)) \<and>
     constraints_in (getNumNodes (nodeFactory A)) (constraints A)"

abbreviation num_of :: "andersen \<Rightarrow> nat" where
  "num_of A \<equiv> getNumNodes (nodeFactory A)"

lemma num_emplace [simp]: "num_of (emplace t d s A) = num_of A" "nodeFactory (emplace t d s A) = nodeFactory A"
  by (simp_all add: emplace_def)

lemma emplace_collected [inv_intros]:
  "collected A \<Longrightarrow> d < num_of A \<Longrightarrow> s < num_of A \<Longrightarrow> collected (emplace t d s A)"
  by (auto simp: collected_def emplace_def constraints_in_def)

lemma special_lt:
  "collected A \<Longrightarrow> UniversalPtrIndex < num_of A" "collected A \<Longrightarrow> UniversalObjIndex < num_of A"
  "collected A \<Longrightarrow> NullPtrIndex < num_of A" "collected A \<Longrightarrow> NullObjectIndex < num_of A"
  by (auto simp: collected_def UniversalPtrIndex_def UniversalObjIndex_def NullPtrIndex_def NullObjectIndex_def)

lemma lookup_lt:
  assumes "collected A" "i \<noteq> InvalidIndex"
  shows "index_or_invalid (valueNodeMap (nodeFactory A) v) = i \<Longrightarrow> i < num_of A"
    "index_or_invalid (objNodeMap (nodeFactory A) v) = i \<Longrightarrow> i < num_of A"
    "getReturnNodeFor (nodeFactory A) F = i \<Longrightarrow> i < num_of A"
    "getVarargNodeFor (nodeFactory A) F = i \<Longrightarrow> i < num_of A"
  using assms by (auto simp: collected_def index_or_invalid_def getReturnNodeFor_def getVarargNodeFor_def
      split: option.splits)

lemma constant_lt:
  "collected A \<Longrightarrow> getValueNodeForConstant (nodeFactory A) c = Inr i \<Longrightarrow> i \<noteq> InvalidIndex \<Longrightarrow> i < num_of A"
  "collected A \<Longrightarrow> getObjectNodeForConstant (nodeFactory A) c = Inr i \<Longrightarrow> i \<noteq> InvalidIndex \<Longrightarrow> i < num_of A"
  by (induction c) (auto dest: lookup_lt special_lt)

lemma value_lt:
  "collected A \<Longrightarrow> getValueNodeFor (nodeFactory A) v = Inr i \<Longrightarrow> i \<noteq> InvalidIndex \<Longrightarrow> i < num_of A"
  by (cases v) (auto dest: lookup_lt constant_lt)

lemma value_node_lt: "collected A \<Longrightarrow> value_node A v = Inr i \<Longrightarrow> i < num_of A"
  by (auto simp: value_node_def bindE_eq_Inr dest: value_lt split: if_splits)

lemma push_collected:
  assumes "collected A"
  shows "unmerged (push_node t v (nodeFactory A))" "getNumNodes (push_node t v (nodeFactory A)) = Suc (num_of A)"
  using assms by (auto simp: collected_def unmerged_def push_node_def getNumNodes_def target_def nth_append mk_node_def
      less_Suc_eq)

lemma constraints_in_Suc: "constraints_in n cs \<Longrightarrow> constraints_in (Suc n) cs"
  by (auto simp: constraints_in_def)

lemma factory_collected:
  assumes "collected A" "getNumNodes f = Suc (num_of A)" "unmerged f"
    and "\<And>v i. valueNodeMap f v = Some i \<Longrightarrow> valueNodeMap (nodeFactory A) v = Some i \<or> i = num_of A"
    and "\<And>v i. objNodeMap f v = Some i \<Longrightarrow> objNodeMap (nodeFactory A) v = Some i \<or> i = num_of A"
    and "\<And>v i. returnMap f v = Some i \<Longrightarrow> returnMap (nodeFactory A) v = Some i \<or> i = num_of A"
    and "\<And>v i. varargMap f v = Some i \<Longrightarrow> varargMap (nodeFactory A) v = Some i \<or> i = num_of A"
  shows "collected (A\<lparr>nodeFactory := f\<rparr>)"
proof -
  have "valueNodeMap f v = Some i \<Longrightarrow> i < Suc (num_of A)" "objNodeMap f v = Some i \<Longrightarrow> i < Suc (num_of A)"
    "returnMap f w = Some i \<Longrightarrow> i < Suc (num_of A)" "varargMap f w = Some i \<Longrightarrow> i < Suc (num_of A)" for v w i
    using assms unfolding collected_def by (metis less_Suc_eq)+
  then show ?thesis
    using assms(1-3) unfolding collected_def by (auto intro: constraints_in_Suc)
qed

lemma push_simps [simp]:
  "valueNodeMap (push_node t v f) = valueNodeMap f" "objNodeMap (push_node t v f) = objNodeMap f"
  "returnMap (push_node t v f) = returnMap f" "varargMap (push_node t v f) = varargMap f"
  by (simp_all add: push_node_def)

lemma unmerged_update [simp]:
  "unmerged (f\<lparr>valueNodeMap := a\<rparr>) = unmerged f" "getNumNodes (f\<lparr>valueNodeMap := a\<rparr>) = getNumNodes f"
  "unmerged (f\<lparr>objNodeMap := a\<rparr>) = unmerged f" "getNumNodes (f\<lparr>objNodeMap := a\<rparr>) = getNumNodes f"
  "unmerged (f\<lparr>returnMap := b\<rparr>) = unmerged f" "getNumNodes (f\<lparr>returnMap := b\<rparr>) = getNumNodes f"
  "unmerged (f\<lparr>varargMap := b\<rparr>) = unmerged f" "getNumNodes (f\<lparr>varargMap := b\<rparr>) = getNumNodes f"
  by (simp_all add: unmerged_def getNumNodes_def target_def)

lemmas create_defs = createValueNode_def createObjectNode_def createReturnNode_def createVarargNode_def

lemma new_node_collected:
  assumes A: "collected A" and m: "new_node create A = Inr (i, A')"
    and c: "create = createValueNode v \<or> create = createObjectNode v \<or> create = createReturnNode F \<or> create = createVarargNode F"
  shows "collected A' \<and> i = num_of A \<and> num_of A' = Suc (num_of A)"
proof -
  obtain f where f: "create (nodeFactory A) = Inr (i, f)" "A' = A\<lparr>nodeFactory := f\<rparr>"
    using m by (auto simp: new_node_def bindE_eq_Inr)
  have n: "getNumNodes f = Suc (num_of A)"
    using c f(1) push_collected(2) [OF A] by (auto simp: create_defs Let_def split: option.splits if_splits)
  have "collected (A\<lparr>nodeFactory := f\<rparr>)"
    by (rule factory_collected [OF A n])
      (use c f(1) push_collected(1) [OF A] in \<open>auto simp: create_defs Let_def getNumNodes_def
        split: option.splits if_splits\<close>)
  moreover have "i = num_of A"
    using c f(1) by (auto simp: create_defs Let_def getNumNodes_def split: option.splits if_splits)
  ultimately show ?thesis using f(2) n by simp
qed

lemma new_value_collected:
  assumes "collected A" "new_value v A = Inr (i, A')"
  shows "collected A'" "i = num_of A" "num_of A' = Suc (num_of A)"
  using new_node_collected [OF assms, of v] by simp_all

lemma new_object_collected:
  assumes "collected A" "new_object v A = Inr (i, A')"
  shows "collected A'" "i = num_of A" "num_of A' = Suc (num_of A)"
  using new_node_collected [OF assms, of "Some v"] by simp_all

text \<open>The constraints between two looked-up nodes, or one and the universal pointer.\<close>

lemma emplace_values [inv_intros]:
  "collected A \<Longrightarrow> value_node A x = Inr i \<Longrightarrow> value_node A y = Inr j \<Longrightarrow> collected (emplace t i j A)"
  "collected A \<Longrightarrow> value_node A x = Inr i \<Longrightarrow> collected (emplace t i UniversalPtrIndex A)"
  "collected A \<Longrightarrow> value_node A x = Inr i \<Longrightarrow> getReturnNodeFor (nodeFactory A) F = j \<Longrightarrow> j \<noteq> InvalidIndex \<Longrightarrow>
     collected (emplace t i j A)"
  "collected A \<Longrightarrow> value_node A x = Inr i \<Longrightarrow> getVarargNodeFor (nodeFactory A) F = j \<Longrightarrow> j \<noteq> InvalidIndex \<Longrightarrow>
     collected (emplace t i j A)"
  "collected A \<Longrightarrow> value_node A x = Inr i \<Longrightarrow> getReturnNodeFor (nodeFactory A) F = j \<Longrightarrow> j \<noteq> InvalidIndex \<Longrightarrow>
     collected (emplace t j i A)"
  "collected A \<Longrightarrow> value_node A x = Inr i \<Longrightarrow> getVarargNodeFor (nodeFactory A) F = j \<Longrightarrow> j \<noteq> InvalidIndex \<Longrightarrow>
     collected (emplace t j i A)"
  by (blast intro: emplace_collected dest: value_node_lt lookup_lt(3,4) special_lt(1))+

lemma copy_from_arg_collected:
  "collected A \<Longrightarrow> copy_from_arg k inst cb A = Inr (b, A') \<Longrightarrow> collected A'"
  by (auto simp: copy_from_arg_def bindE_eq_Inr intro!: emplace_collected dest: value_node_lt)

lemma malloc_call_collected:
  assumes A: "collected A" and m: "malloc_call inst cb name A = Inr (b, A')"
  shows "collected A'"
proof -
  obtain objIndex A1 ptrIndex where 1: "new_object (LocalV (in_id inst)) A = Inr (objIndex, A1)"
    "getValueNodeFor (nodeFactory A1) (LocalV (in_id inst)) = Inr ptrIndex"
    using m by (auto simp: malloc_call_def bindE_eq_Inr)
  note N = new_object_collected [OF A 1(1)]
  from m 1 consider
      p where "value_node A1 p = Inr ptrIndex" "A' = emplace STORE ptrIndex objIndex A1"
    | a p where "value_node A1 a = Inr p" "A' = emplace STORE p objIndex A1"
    | "ptrIndex \<noteq> InvalidIndex" "A' = emplace ADDR_OF ptrIndex objIndex A1"
    by (auto simp: malloc_call_def bindE_eq_Inr split: if_splits)
  then show ?thesis
    using N value_node_lt [OF N(1)] value_lt [OF N(1) 1(2)] by cases (auto intro!: emplace_collected)
qed

lemma memcpy_call_collected:
  assumes A: "collected A" and m: "memcpy_call inst cb A = Inr (b, A')"
  shows "collected A'"
proof -
  obtain a0 a1 i0 i1 i A1 where 1: "value_node A a0 = Inr i0" "value_node A a1 = Inr i1" "new_value None A = Inr (i, A1)"
    "\<exists>retIndex. getValueNodeFor (nodeFactory A1) (LocalV (in_id inst)) = Inr retIndex \<and>
      A' = (let A2 = emplace STORE i0 i (emplace LOAD i i1 A1)
            in if retIndex \<noteq> InvalidIndex then emplace COPY retIndex i0 A2 else A2)"
    using m by (auto simp: memcpy_call_def bindE_eq_Inr Let_def)
  note N = new_value_collected [OF A 1(3)]
  have "i0 < num_of A1" "i1 < num_of A1" "i < num_of A1"
    using value_node_lt [OF A 1(1)] value_node_lt [OF A 1(2)] N by simp_all
  then show ?thesis
    using 1(4) lookup_lt(1) [OF N(1)] N(1) by (auto simp: Let_def intro!: emplace_collected)
qed

lemma external_collected:
  assumes A: "collected A" and m: "addConstraintForExternalLibrary F inst cb name A = Inr (b, A')"
  shows "collected A'"
proof -
  have conv: "collected A'" if "bindE (arg_operand cb 0) (\<lambda>a0. bindE (value_node A a0) (\<lambda>i0.
      bindE (arg_operand cb 1) (\<lambda>a1. bindE (value_node A a1) (\<lambda>i1. Inr (True, emplace STORE i0 i1 A))))) = Inr (b, A')"
    using that A by (auto simp: bindE_eq_Inr intro!: emplace_collected dest: value_node_lt)
  have va: "collected A'" if "bindE (arg_operand cb 0) (\<lambda>a0. bindE (value_node A a0) (\<lambda>i0.
      let v = getVarargNodeFor (nodeFactory A) F in if v = InvalidIndex then Inl Assertion
      else Inr (True, emplace ADDR_OF i0 v A))) = Inr (b, A')"
    using that A by (auto simp: bindE_eq_Inr Let_def intro!: emplace_collected dest: value_node_lt lookup_lt(4)
        split: if_splits)
  show ?thesis
    using m A malloc_call_collected [OF A] memcpy_call_collected [OF A] copy_from_arg_collected [OF A] conv va
    unfolding addConstraintForExternalLibrary_def Let_def
    by (auto simp: bindE_eq_Inr [of "if _ then _ else _"] bindE_eq_Inr [of "getValueNodeFor _ _"]
        bindE_eq_Inr [of "bindE _ _"] split: if_splits)
qed

lemma formal_actual_collected:
  "collected A \<Longrightarrow> formal_actual fs as A = Inr (r, A') \<Longrightarrow> collected A'"
proof (induction fs as A rule: formal_actual.induct)
  case (1 formal fptr fs actual aptr as A)
  show ?case
  proof (cases fptr)
    case fptr: True
    then obtain i where i: "value_node A (LocalV formal) = Inr i"
      using "1.prems"(2) by (auto simp: bindE_eq_Inr)
    show ?thesis
    proof (cases aptr)
      case True
      then obtain j where j: "value_node A actual = Inr j" "formal_actual fs as (emplace COPY i j A) = Inr (r, A')"
        using "1.prems"(2) fptr i by (auto simp: bindE_eq_Inr)
      show ?thesis
        by (rule "1.IH"(1) [OF fptr True emplace_values(1) [OF "1.prems"(1) i j(1)] j(2)])
    next
      case False
      then have "formal_actual fs as (emplace COPY i UniversalPtrIndex A) = Inr (r, A')"
        using "1.prems"(2) fptr i by simp
      then show ?thesis
        by (rule "1.IH"(2) [OF fptr False emplace_values(2) [OF "1.prems"(1) i]])
    qed
  qed (use 1 in simp)
qed simp_all

lemma argument_collected:
  assumes A: "collected A" and m: "addArgumentConstraintForCall cb f A = Inr A'"
  shows "collected A'"
proof -
  obtain rest A1 where 1: "formal_actual (fd_args f) (cb_args cb) A = Inr (rest, A1)"
    using m by (auto simp: addArgumentConstraintForCall_def bindE_eq_Inr)
  note A1 = formal_actual_collected [OF A 1]
  show ?thesis
  proof (cases "fd_vararg f")
    case True
    with m 1 have "foldE (\<lambda>(actual, aptr) A. if aptr
        then bindE (value_node A actual) (\<lambda>aIndex.
             let vaIndex = getVarargNodeFor (nodeFactory A) (fd_id f) in
             if vaIndex = InvalidIndex then Inl Assertion else Inr (emplace COPY vaIndex aIndex A))
        else Inr A) rest A1 = Inr A'"
      by (simp add: addArgumentConstraintForCall_def)
    then show ?thesis
      by (rule foldE_inv [where P = collected, OF _ A1])
        (auto simp: bindE_eq_Inr Let_def intro!: emplace_collected dest: value_node_lt lookup_lt(4) split: if_splits)
  qed (use m 1 A1 in \<open>simp add: addArgumentConstraintForCall_def\<close>)
qed

lemma pollute_collected: "collected A \<Longrightarrow> pollute_args cb A = Inr A' \<Longrightarrow> collected A'"
  unfolding pollute_args_def
  by (rule foldE_inv [where P = collected])
    (auto simp: bindE_eq_Inr intro!: emplace_collected dest: value_node_lt intro: special_lt split: if_splits)

lemma universal_return_collected: "collected A \<Longrightarrow> universal_return inst A = Inr A' \<Longrightarrow> collected A'"
  by (auto simp: universal_return_def bindE_eq_Inr intro!: emplace_collected dest: value_node_lt intro: special_lt
      split: if_splits)

lemma direct_call_collected:
  "collected A \<Longrightarrow> direct_call F inst cb f A = Inr A' \<Longrightarrow> collected A'"
proof -
  assume A: "collected A" and m: "direct_call F inst cb f A = Inr A'"
  show ?thesis
  proof (cases "fd_external f")
    case True
    with m obtain b A1 where "addConstraintForExternalLibrary F inst cb (fd_name f) A = Inr (b, A1)"
      "b \<and> A' = A1 \<or> (\<exists>A2. universal_return inst A1 = Inr A2 \<and> pollute_args cb A2 = Inr A')"
      by (auto simp: direct_call_def bindE_eq_Inr split: if_splits)
    with A show ?thesis
      using external_collected universal_return_collected pollute_collected by blast
  next
    case False
    with m obtain A1 where "addArgumentConstraintForCall cb f A1 = Inr A'"
      "A1 = A \<or> (\<exists>i. value_node A (LocalV (in_id inst)) = Inr i \<and> getReturnNodeFor (nodeFactory A) (fd_id f) \<noteq> InvalidIndex \<and>
         A1 = emplace COPY i (getReturnNodeFor (nodeFactory A) (fd_id f)) A)"
      by (auto simp: direct_call_def bindE_eq_Inr Let_def split: if_splits)
    with A show ?thesis
      using argument_collected emplace_values(3) by blast
  qed
qed

lemma indirect_collected:
  "collected A \<Longrightarrow> indirect_candidate F inst cb f A = Inr A' \<Longrightarrow> collected A'"
  by (auto simp: indirect_candidate_def bindE_eq_Inr intro: pollute_collected argument_collected external_collected
      split: if_splits)

lemma call_collected:
  "collected A \<Longrightarrow> addConstraintForCall M F inst cb A = Inr A' \<Longrightarrow> collected A'"
  by (auto simp: addConstraintForCall_def bindE_eq_Inr intro: direct_call_collected universal_return_collected
      elim!: foldE_inv [where P = collected] intro: indirect_collected split: option.splits)

lemma copy_to_inst_collected: "collected A \<Longrightarrow> copy_to_inst inst v A = Inr A' \<Longrightarrow> collected A'"
  by (auto simp: copy_to_inst_def bindE_eq_Inr intro: emplace_values(1))

lemma alloca_collected:
  assumes "collected A" "value_node A v = Inr i" "new_object w A = Inr (j, A1)"
  shows "collected (emplace ADDR_OF i j A1)"
  using new_object_collected [OF assms(1,3)] value_node_lt [OF assms(1,2)] by (auto intro!: emplace_collected)

lemma phi_collected:
  assumes "collected A" "value_node A x = Inr i"
    and "foldE (\<lambda>v A. bindE (value_node A v) (\<lambda>j. Inr (emplace COPY i j A))) vs A = Inr A'"
  shows "collected A'"
proof -
  have "collected A' \<and> i < num_of A'"
    by (rule foldE_inv [where P = "\<lambda>B. collected B \<and> i < num_of B", OF assms(3)])
      (use value_node_lt [OF assms(1,2)] assms(1) in \<open>auto simp: bindE_eq_Inr intro!: emplace_collected dest: value_node_lt\<close>)
  then show ?thesis by simp
qed

lemma instruction_collected:
  assumes A: "collected A" and m: "collectConstraintsForInstruction M F inst A = Inr A'"
  shows "collected A'"
proof (cases "in_op inst")
  case Alloca
  with m A show ?thesis by (auto simp: bindE_eq_Inr intro: alloca_collected)
next
  case (Call cb)
  with m A show ?thesis using call_collected by simp
next
  case (Ret r)
  with m A show ?thesis
    by (auto simp: bindE_eq_Inr Let_def intro: emplace_values(5) split: option.splits prod.splits bool.splits if_splits)
next
  case (Store vp p)
  with m A show ?thesis by (cases vp) (auto simp: bindE_eq_Inr intro: emplace_values(1) split: if_splits)
next
  case (PHI vs)
  with m A show ?thesis
    by (auto simp: bindE_eq_Inr split: if_splits elim!: phi_collected)
next
  case (IntToPtrInst s)
  with m A show ?thesis
    by (cases s) (auto simp: bindE_eq_Inr intro: emplace_values(1,2) split: if_splits)
next
  case (Select v w)
  with m A show ?thesis
    by (auto simp: bindE_eq_Inr dest: value_node_lt intro!: emplace_collected split: if_splits)
next
  case VAArg
  with m A show ?thesis by (auto simp: bindE_eq_Inr Let_def intro: emplace_values(4) split: if_splits)
next
  case (Load v)
  with m A show ?thesis by (auto simp: bindE_eq_Inr intro: emplace_values(1) split: if_splits)
qed (use m A in \<open>auto intro: copy_to_inst_collected split: if_splits\<close>)

lemma initializer_collected:
  "collected A \<Longrightarrow> objNode < num_of A \<Longrightarrow> addGlobalInitializerConstraints objNode c A = Inr A' \<Longrightarrow>
   collected A' \<and> num_of A' = num_of A"
proof (induction c arbitrary: A A')
  case (PointerInit c)
  then show ?case
    by (auto simp: bindE_eq_Inr intro!: emplace_collected dest: constant_lt(2) split: if_splits)
next
  case NullAggregate
  then show ?case using special_lt(4) by (auto intro!: emplace_collected)
next
  case (Aggregate cs)
  have "foldE (addGlobalInitializerConstraints objNode) cs A = Inr A'"
    using Aggregate.prems(3) by simp
  then have "collected A' \<and> num_of A' = num_of A"
  proof (rule foldE_inv [where P = "\<lambda>B. collected B \<and> num_of B = num_of A"])
    fix c B B'
    assume "c \<in> set cs" "collected B \<and> num_of B = num_of A" "addGlobalInitializerConstraints objNode c B = Inr B'"
    then show "collected B' \<and> num_of B' = num_of A"
      using Aggregate.IH [of c B B'] Aggregate.prems(2) by simp
  qed (use Aggregate.prems(1) in simp)
  then show ?case .
qed simp_all

lemma declare_collected:
  assumes A: "collected A" and "new_value v A = Inr (i, A1)" "new_object w A1 = Inr (j, A2)"
  shows "collected (emplace ADDR_OF i j A2)"
  using new_value_collected [OF A assms(2)] new_object_collected [OF _ assms(3)] by (auto intro!: emplace_collected)

lemma declare_global_collected: "collected A \<Longrightarrow> declare_global g A = Inr A' \<Longrightarrow> collected A'"
  by (auto simp: declare_global_def bindE_eq_Inr split: prod.splits intro: declare_collected)

lemma new_values_collected: "collected A \<Longrightarrow> new_values vs A = Inr A' \<Longrightarrow> collected A'"
  unfolding new_values_def
  by (erule foldE_inv [where P = collected])
    (auto simp: bindE_eq_Inr split: if_splits dest: new_value_collected(1))

lemma optional_node_collected:
  assumes "collected A" "create = createReturnNode F \<or> create = createVarargNode F" "optional_node b create A = Inr A'"
  shows "collected A'"
  using assms new_node_collected [OF assms(1), of create _ A' undefined F]
  by (auto simp: optional_node_def bindE_eq_Inr split: if_splits)

lemma body_nodes_collected:
  assumes "collected A" "body_nodes f A = Inr A'"
  shows "collected A'"
proof (cases "fd_external f")
  case False
  with assms(2) obtain A1 A2 where
    s: "optional_node (fd_ret_ptr f) (createReturnNode (fd_id f)) A = Inr A1"
    "optional_node (fd_vararg f) (createVarargNode (fd_id f)) A1 = Inr A2" "new_values (fd_args f) A2 = Inr A'"
    by (auto simp: body_nodes_def bindE_eq_Inr)
  have "collected A1" by (rule optional_node_collected [OF assms(1) _ s(1), of "fd_id f"]) simp
  then have "collected A2" by (rule optional_node_collected [OF _ _ s(2), of "fd_id f"]) simp
  then show ?thesis by (rule new_values_collected [OF _ s(3)])
qed (use assms in \<open>simp add: body_nodes_def\<close>)

lemma declare_function_collected:
  "collected A \<Longrightarrow> declare_function f A = Inr A' \<Longrightarrow> collected A'"
  by (auto simp: declare_function_def bindE_eq_Inr split: if_splits intro: declare_collected body_nodes_collected)

lemma init_global_collected:
  assumes A: "collected A" and m: "init_global g A = Inr A'"
  shows "collected A'"
proof -
  obtain n init where g: "g = (n, init)" by (cases g)
  define ob where "ob = index_or_invalid (objNodeMap (nodeFactory A) (ConstV (GlobalValue n)))"
  have inv: "ob \<noteq> InvalidIndex" using m by (auto simp: g init_global_def ob_def)
  have lt: "ob < num_of A" by (rule lookup_lt(2) [OF A inv]) (simp add: ob_def)
  have "(case init of Some c \<Rightarrow> addGlobalInitializerConstraints ob c A | None \<Rightarrow> Inr (emplace COPY ob UniversalObjIndex A)) = Inr A'"
    using m inv unfolding ob_def by (simp add: g init_global_def)
  then show ?thesis
    using initializer_collected [OF A lt, of _ A'] emplace_collected [OF A lt special_lt(2) [OF A], of COPY]
    by (simp split: option.splits)
qed

lemma collect_function_collected: "collected A \<Longrightarrow> collect_function M f A = Inr A' \<Longrightarrow> collected A'"
  by (auto simp: collect_function_def bindE_eq_Inr split: if_splits dest: new_values_collected
      elim!: foldE_inv [where P = collected] intro: instruction_collected)

lemma initial_collected: "collected \<lparr>nodeFactory = init_factory, constraints = initial_constraints\<rparr>"
  by (auto simp: collected_def unmerged_def getNumNodes_def init_factory_def target_def mk_node_def less_Suc_eq
      numeral_eq_Suc constraints_in_def initial_constraints_def constr_def UniversalPtrIndex_def UniversalObjIndex_def
      NullPtrIndex_def NullObjectIndex_def)

lemma collectConstraints_collected: "collectConstraints M = Inr A \<Longrightarrow> collected A"
proof -
  assume "collectConstraints M = Inr A"
  then obtain A1 A2 A3 where s: "foldE declare_global (m_globals M) \<lparr>nodeFactory = init_factory, constraints = initial_constraints\<rparr> = Inr A1"
    "foldE declare_function (m_functions M) A1 = Inr A2" "foldE init_global (m_globals M) A2 = Inr A3"
    "foldE (collect_function M) (m_functions M) A3 = Inr A"
    by (auto simp: collectConstraints_def collectConstraintsForGlobals_def bindE_eq_Inr)
  have "collected A1" by (rule foldE_inv [where P = collected, OF s(1) initial_collected declare_global_collected])
  then have "collected A2" by (rule foldE_inv [where P = collected, OF s(2) _ declare_function_collected])
  then have "collected A3" by (rule foldE_inv [where P = collected, OF s(3) _ init_global_collected])
  then show "collected A" by (rule foldE_inv [where P = collected, OF s(4) _ collect_function_collected])
qed

section \<open>Properties\<close>

lemma analysis_least:
  assumes "collectConstraints M = Inr A" "num_of A + 2 * (num_of A * num_of A) + 2 \<le> fuel"
  shows "\<exists>s. runOnModule False False fuel order M = Inr s \<and>
    solution (constraints A) (\<lambda>n. set (pts_of (ptsGraph s) n)) \<and>
    (\<forall>S. solution (constraints A) S \<longrightarrow> (\<forall>n. set (pts_of (ptsGraph s) n) \<subseteq> S n))"
  using solve_least [OF _ _ assms(2), of "constraints A" order] collectConstraints_collected [OF assms(1)] assms(1)
  by (simp add: runOnModule_def collected_def)

end
