(* ===== verification/Andersen_Analysis.thy ===== *)
theory Andersen_Analysis
  imports Andersen_Collect
begin

text \<open>
  The points-to analysis as a whole: collection only adds nodes and
  constraints, so the solution of what it collects respects every instruction
  of the module.
\<close>

section \<open>Collection only adds\<close>

definition grows :: "andersen \<Rightarrow> andersen \<Rightarrow> bool" where
  "grows A B \<longleftrightarrow> set (constraints A) \<subseteq> set (constraints B) \<and>
     valueNodeMap (nodeFactory A) \<subseteq>\<^sub>m valueNodeMap (nodeFactory B) \<and>
     objNodeMap (nodeFactory A) \<subseteq>\<^sub>m objNodeMap (nodeFactory B) \<and>
     returnMap (nodeFactory A) \<subseteq>\<^sub>m returnMap (nodeFactory B)"

lemma grows_refl [simp]: "grows A A"
  by (simp add: grows_def)

lemma grows_trans [trans]: "grows A B \<Longrightarrow> grows B C \<Longrightarrow> grows A C"
  unfolding grows_def by (blast intro: map_le_trans)

lemma grows_emplace [simp]: "grows A B \<Longrightarrow> grows A (emplace t d s B)"
  by (auto simp: grows_def emplace_def)

lemma grows_create:
  assumes "new_node create A = Inr (i, A')"
    and "create = createValueNode v \<or> create = createObjectNode v \<or> create = createReturnNode F \<or> create = createVarargNode F"
  shows "grows A A'"
  using assms by (auto simp: grows_def new_node_def bindE_eq_Inr create_defs Let_def map_le_def
      split: option.splits if_splits)

lemma grows_new [dest]:
  "new_node (createValueNode v) A = Inr (i, A') \<Longrightarrow> grows A A'"
  "new_node (createObjectNode v) A = Inr (i, A') \<Longrightarrow> grows A A'"
  by (rule grows_create, assumption, blast)+

lemma grows_foldE:
  assumes "foldE f xs A = Inr B" "grows A0 A" "\<And>x A B. x \<in> set xs \<Longrightarrow> f x A = Inr B \<Longrightarrow> grows A B"
  shows "grows A0 B"
  by (rule foldE_inv [where P = "grows A0", OF assms(1,2)]) (auto intro: grows_trans assms(3))

lemma grows_external: "addConstraintForExternalLibrary F inst cb name A = Inr (b, A') \<Longrightarrow> grows A A'"
proof -
  assume m: "addConstraintForExternalLibrary F inst cb name A = Inr (b, A')"
  have "grows A A'" if "malloc_call inst cb name A = Inr (b, A')"
    using that by (auto simp: malloc_call_def bindE_eq_Inr split: if_splits)
  moreover have "grows A A'" if "memcpy_call inst cb A = Inr (b, A')"
    using that by (auto simp: memcpy_call_def bindE_eq_Inr Let_def split: if_splits)
  moreover have "grows A A'" if "copy_from_arg k inst cb A = Inr (b, A')" for k
    using that by (auto simp: copy_from_arg_def bindE_eq_Inr)
  ultimately show ?thesis
    using m unfolding addConstraintForExternalLibrary_def Let_def
    by (auto simp: bindE_eq_Inr split: if_splits)
qed

lemma grows_formal_actual: "formal_actual fs as A = Inr (r, A') \<Longrightarrow> grows A A'"
  by (induction fs as A rule: formal_actual.induct)
    (auto simp: bindE_eq_Inr split: if_splits intro: grows_trans [OF grows_emplace [OF grows_refl]])

lemma grows_argument:
  assumes "addArgumentConstraintForCall cb f A = Inr A'"
  shows "grows A A'"
proof -
  obtain rest A1 where 1: "formal_actual (fd_args f) (cb_args cb) A = Inr (rest, A1)"
    using assms by (auto simp: addArgumentConstraintForCall_def bindE_eq_Inr)
  from assms grows_formal_actual [OF 1] show ?thesis
    unfolding addArgumentConstraintForCall_def 1 bindE_Inr prod.case
    by (auto elim!: grows_foldE simp: bindE_eq_Inr Let_def split: if_splits)
qed

lemma grows_pollute: "pollute_args cb A = Inr A' \<Longrightarrow> grows A A'"
  unfolding pollute_args_def
  by (erule grows_foldE [OF _ grows_refl]) (auto simp: bindE_eq_Inr split: if_splits)

lemma grows_universal: "universal_return inst A = Inr A' \<Longrightarrow> grows A A'"
  by (auto simp: universal_return_def bindE_eq_Inr split: if_splits)

lemma grows_direct: "direct_call F inst cb f A = Inr A' \<Longrightarrow> grows A A'"
  by (auto simp: direct_call_def bindE_eq_Inr Let_def split: if_splits
      dest!: grows_external grows_universal grows_pollute grows_argument intro: grows_trans
        grows_trans [OF grows_emplace [OF grows_refl]])

lemma grows_indirect: "indirect_candidate F inst cb f A = Inr A' \<Longrightarrow> grows A A'"
  by (auto simp: indirect_candidate_def bindE_eq_Inr split: if_splits
      dest!: grows_external grows_pollute grows_argument intro: grows_trans)

lemma grows_call: "addConstraintForCall M F inst cb A = Inr A' \<Longrightarrow> grows A A'"
  by (auto simp: addConstraintForCall_def bindE_eq_Inr split: option.splits
      dest: grows_direct elim!: grows_foldE intro: grows_universal grows_indirect)

lemma grows_instruction: "collectConstraintsForInstruction M F inst A = Inr A' \<Longrightarrow> grows A A'"
proof (cases "in_op inst")
  case (PHI vs)
  assume "collectConstraintsForInstruction M F inst A = Inr A'"
  with PHI show ?thesis
    by (auto simp: bindE_eq_Inr split: if_splits elim!: grows_foldE [OF _ grows_refl])
next
  case (IntToPtrInst s)
  assume "collectConstraintsForInstruction M F inst A = Inr A'"
  with IntToPtrInst show ?thesis
    by (cases s) (auto simp: bindE_eq_Inr split: if_splits)
next
  case (Ret r)
  assume "collectConstraintsForInstruction M F inst A = Inr A'"
  with Ret show ?thesis
    by (auto simp: bindE_eq_Inr Let_def split: if_splits option.splits bool.splits)
next
  case (Store vp p)
  assume "collectConstraintsForInstruction M F inst A = Inr A'"
  with Store show ?thesis
    by (cases vp) (auto simp: bindE_eq_Inr split: if_splits)
qed (auto simp: bindE_eq_Inr copy_to_inst_def Let_def split: if_splits dest: grows_call)

lemma grows_new_values: "new_values vs A = Inr A' \<Longrightarrow> grows A A'"
  unfolding new_values_def
  by (erule grows_foldE [OF _ grows_refl]) (auto simp: bindE_eq_Inr split: if_splits)

lemma grows_function: "collect_function M f A = Inr A' \<Longrightarrow> grows A A'"
  by (auto simp: collect_function_def bindE_eq_Inr split: if_splits elim!: grows_foldE
      intro: grows_new_values grows_instruction)

section \<open>The solution respects the instructions\<close>

lemma index_stable:
  assumes "index_or_invalid (m v) = i" "i \<noteq> InvalidIndex" "m \<subseteq>\<^sub>m m'"
  shows "index_or_invalid (m' v) = i"
  using assms by (auto simp: index_or_invalid_def map_le_def dom_def split: option.splits)

lemma value_stable:
  assumes "value_node A v = Inr i" "grows A B"
  shows "getValueNodeFor (nodeFactory B) v = Inr i"
proof -
  have m: "valueNodeMap (nodeFactory A) \<subseteq>\<^sub>m valueNodeMap (nodeFactory B)" using assms(2) by (simp add: grows_def)
  have l: "getValueNodeFor (nodeFactory A) v = Inr i" "i \<noteq> InvalidIndex"
    using assms(1) by (auto simp: value_node_def bindE_eq_Inr split: if_splits)
  have "getValueNodeForConstant (nodeFactory B) c = Inr i" if "getValueNodeForConstant (nodeFactory A) c = Inr i" for c
    using that index_stable [OF _ l(2) m] by (induction c) auto
  then show ?thesis
    using l index_stable [OF _ l(2) m] by (cases v) auto
qed

definition value_pts :: "AndersNodeFactory \<Rightarrow> (NodeIndex \<Rightarrow> nat set) \<Rightarrow> avalue \<Rightarrow> nat set" where
  "value_pts f S v = (case getValueNodeFor f v of Inl _ \<Rightarrow> {} | Inr i \<Rightarrow> S i)"

text \<open>What each instruction does to pointers, in terms of the sets of objects its operands and
  its result may point to.\<close>

definition call_respected ::
  "ir_module \<Rightarrow> AndersNodeFactory \<Rightarrow> (NodeIndex \<Rightarrow> nat set) \<Rightarrow> instruction \<Rightarrow> call_base \<Rightarrow> bool" where
  "call_respected M f S inst cb \<longleftrightarrow>
     (case cb_callee cb of
        None \<Rightarrow> in_ptr inst \<longrightarrow> S UniversalPtrIndex \<subseteq> value_pts f S (LocalV (in_id inst))
      | Some fid \<Rightarrow>
          (case find (\<lambda>g. fd_id g = fid) (m_functions M) of
             None \<Rightarrow> False
           | Some g \<Rightarrow> \<not> fd_external g \<longrightarrow>
               (in_ptr inst \<longrightarrow> S (getReturnNodeFor f fid) \<subseteq> value_pts f S (LocalV (in_id inst))) \<and>
               (\<forall>((formal, fptr), (actual, aptr)) \<in> set (zip (fd_args g) (cb_args cb)).
                  fptr \<longrightarrow> (if aptr then value_pts f S actual else S UniversalPtrIndex) \<subseteq> value_pts f S (LocalV formal))))"

definition respected ::
  "ir_module \<Rightarrow> AndersNodeFactory \<Rightarrow> (NodeIndex \<Rightarrow> nat set) \<Rightarrow> nat \<Rightarrow> instruction \<Rightarrow> bool" where
  "respected M f S F inst \<longleftrightarrow>
     (let res = value_pts f S (LocalV (in_id inst)) in
      case in_op inst of
        Alloca \<Rightarrow> index_or_invalid (objNodeMap f (LocalV (in_id inst))) \<in> res
      | Call cb \<Rightarrow> call_respected M f S inst cb
      | Ret (Some (v, True)) \<Rightarrow> value_pts f S v \<subseteq> S (getReturnNodeFor f F)
      | Load v \<Rightarrow> in_ptr inst \<longrightarrow> (\<forall>ob \<in> value_pts f S v. S ob \<subseteq> res)
      | Store (v, True) p \<Rightarrow> \<forall>ob \<in> value_pts f S p. value_pts f S v \<subseteq> S ob
      | GEP v \<Rightarrow> value_pts f S v \<subseteq> res
      | PHI vs \<Rightarrow> in_ptr inst \<longrightarrow> (\<forall>v \<in> set vs. value_pts f S v \<subseteq> res)
      | Cast v \<Rightarrow> in_ptr inst \<longrightarrow> value_pts f S v \<subseteq> res
      | IntToPtrInst (FromPtrToInt v) \<Rightarrow> value_pts f S v \<subseteq> res
      | IntToPtrInst (FromAddPtrToInt v) \<Rightarrow> value_pts f S v \<subseteq> res
      | IntToPtrInst FromOther \<Rightarrow> S UniversalPtrIndex \<subseteq> res
      | Select v w \<Rightarrow> in_ptr inst \<longrightarrow> value_pts f S v \<union> value_pts f S w \<subseteq> res
      | _ \<Rightarrow> True)"

lemma emplaced:
  assumes "grows (emplace t d s A) B" "solution (constraints B) S"
  shows "satisfies S \<lparr>ctype = t, dest = d, src = s\<rparr>" "grows A B"
proof -
  show "satisfies S \<lparr>ctype = t, dest = d, src = s\<rparr>"
    using assms by (auto simp: grows_def solution_def emplace_def)
  show "grows A B" by (rule grows_trans [OF _ assms(1)]) simp
qed

lemma emplaced_both:
  "solution (constraints B) S \<Longrightarrow> grows (emplace t d s A) B \<Longrightarrow>
   satisfies S \<lparr>ctype = t, dest = d, src = s\<rparr> \<and> grows A B"
  using emplaced by blast

lemma pts_stable: "value_node A v = Inr i \<Longrightarrow> grows A B \<Longrightarrow> value_pts (nodeFactory B) S v = S i"
  by (simp add: value_pts_def value_stable)

lemma return_stable:
  "getReturnNodeFor (nodeFactory A) F \<noteq> InvalidIndex \<Longrightarrow> grows A B \<Longrightarrow>
   getReturnNodeFor (nodeFactory B) F = getReturnNodeFor (nodeFactory A) F"
  unfolding getReturnNodeFor_def grows_def by (blast intro: index_stable)

lemma copy_respected:
  assumes "value_node A w = Inr i" "value_node A v = Inr j" "grows (emplace COPY i j A) B" "solution (constraints B) S"
  shows "value_pts (nodeFactory B) S v \<subseteq> value_pts (nodeFactory B) S w"
  using emplaced [OF assms(3,4)] pts_stable [OF assms(1)] pts_stable [OF assms(2)] by simp

lemma formal_actual_respected:
  assumes "formal_actual fs as A = Inr (r, A')" "grows A' B" "solution (constraints B) S"
    "((formal, fptr), (actual, aptr)) \<in> set (zip fs as)" fptr
  shows "(if aptr then value_pts (nodeFactory B) S actual else S UniversalPtrIndex)
      \<subseteq> value_pts (nodeFactory B) S (LocalV formal)"
  using assms(1,4)
proof (induction fs as A rule: formal_actual.induct)
  case (1 fm fp fs ac ap as A)
  show ?case
  proof (cases "((formal, fptr), (actual, aptr)) \<in> set (zip fs as)")
    case True
    consider "\<not> fp" "formal_actual fs as A = Inr (r, A')"
      | i j where "fp" "ap" "formal_actual fs as (emplace COPY i j A) = Inr (r, A')"
      | i where "fp" "\<not> ap" "formal_actual fs as (emplace COPY i UniversalPtrIndex A) = Inr (r, A')"
      using "1.prems"(1) by (auto simp: bindE_eq_Inr split: if_splits)
    then show ?thesis
    proof cases
      case 1
      then show ?thesis by (rule "1.IH"(3) [OF _ _ True])
    next
      case 2
      then show ?thesis by (rule "1.IH"(1) [OF _ _ _ True])
    next
      case 3
      then show ?thesis by (rule "1.IH"(2) [OF _ _ _ True])
    qed
  next
    case False
    then have eq: "fm = formal" "fp = fptr" "ac = actual" "ap = aptr" using "1.prems"(2) by auto
    then obtain i where i: "value_node A (LocalV formal) = Inr i"
      using "1.prems"(1) assms(5) by (auto simp: bindE_eq_Inr)
    show ?thesis
    proof (cases aptr)
      case True
      then obtain j where j: "value_node A actual = Inr j" "formal_actual fs as (emplace COPY i j A) = Inr (r, A')"
        using "1.prems"(1) eq assms(5) i by (auto simp: bindE_eq_Inr)
      have "grows (emplace COPY i j A) B" by (rule grows_trans [OF grows_formal_actual [OF j(2)] assms(2)])
      then show ?thesis using copy_respected [OF i j(1) _ assms(3)] True by simp
    next
      case False
      then have f: "formal_actual fs as (emplace COPY i UniversalPtrIndex A) = Inr (r, A')"
        using "1.prems"(1) eq assms(5) i by simp
      have "grows (emplace COPY i UniversalPtrIndex A) B" by (rule grows_trans [OF grows_formal_actual [OF f] assms(2)])
      then show ?thesis using emplaced [OF _ assms(3)] pts_stable [OF i] False by fastforce
    qed
  qed
qed simp_all

lemma argument_respected:
  assumes "addArgumentConstraintForCall cb f A = Inr A'" "grows A' B" "solution (constraints B) S"
    "((formal, fptr), (actual, aptr)) \<in> set (zip (fd_args f) (cb_args cb))" fptr
  shows "(if aptr then value_pts (nodeFactory B) S actual else S UniversalPtrIndex)
      \<subseteq> value_pts (nodeFactory B) S (LocalV formal)"
proof -
  obtain rest A1 where 1: "formal_actual (fd_args f) (cb_args cb) A = Inr (rest, A1)"
    using assms by (auto simp: addArgumentConstraintForCall_def bindE_eq_Inr)
  have "grows A1 A'"
    using assms(1) unfolding addArgumentConstraintForCall_def 1 bindE_Inr prod.case
    by (auto elim!: grows_foldE simp: bindE_eq_Inr Let_def split: if_splits)
  then show ?thesis
    by (rule formal_actual_respected [OF 1 grows_trans [OF _ assms(2)] assms(3-5)])
qed

lemma universal_respected:
  assumes "universal_return inst A = Inr A'" "grows A' B" "solution (constraints B) S" "in_ptr inst"
  shows "S UniversalPtrIndex \<subseteq> value_pts (nodeFactory B) S (LocalV (in_id inst))"
proof -
  obtain i where "value_node A (LocalV (in_id inst)) = Inr i" "A' = emplace COPY i UniversalPtrIndex A"
    using assms(1,4) by (auto simp: universal_return_def bindE_eq_Inr)
  then show ?thesis using emplaced [of COPY i UniversalPtrIndex A B S] assms(2,3) pts_stable by fastforce
qed

lemma return_respected:
  assumes "value_node A v = Inr i" "getReturnNodeFor (nodeFactory A) F \<noteq> InvalidIndex"
    and "grows (emplace COPY i (getReturnNodeFor (nodeFactory A) F) A) B" "solution (constraints B) S"
  shows "S (getReturnNodeFor (nodeFactory B) F) \<subseteq> value_pts (nodeFactory B) S v"
  using emplaced(1) [OF assms(3,4)] pts_stable [OF assms(1) emplaced(2) [OF assms(3,4)]]
    return_stable [OF assms(2) emplaced(2) [OF assms(3,4)]] by simp

lemma call_respects:
  assumes m: "addConstraintForCall M F inst cb A = Inr A'" and B: "grows A' B" "solution (constraints B) S"
  shows "call_respected M (nodeFactory B) S inst cb"
proof (cases "cb_callee cb")
  case None
  with m obtain A1 where 1: "universal_return inst A = Inr A1"
    "foldE (indirect_candidate F inst cb) (m_functions M) A1 = Inr A'"
    by (auto simp: addConstraintForCall_def bindE_eq_Inr)
  have "grows A1 A'" by (rule grows_foldE [OF 1(2) grows_refl grows_indirect])
  then have "in_ptr inst \<Longrightarrow> S UniversalPtrIndex \<subseteq> value_pts (nodeFactory B) S (LocalV (in_id inst))"
    by (rule universal_respected [OF 1(1) grows_trans [OF _ B(1)] B(2)])
  with None show ?thesis by (simp add: call_respected_def)
next
  case (Some fid)
  with m obtain g where g: "find (\<lambda>f. fd_id f = fid) (m_functions M) = Some g" "direct_call F inst cb g A = Inr A'"
    by (auto simp: addConstraintForCall_def split: option.splits)
  have gid: "fd_id g = fid" using g(1) by (auto simp: find_Some_iff)
  show ?thesis
  proof (cases "fd_external g")
    case False
    with g(2) obtain A1 where 1: "addArgumentConstraintForCall cb g A1 = Inr A'"
      "in_ptr inst \<Longrightarrow> \<exists>i. value_node A (LocalV (in_id inst)) = Inr i \<and> getReturnNodeFor (nodeFactory A) fid \<noteq> InvalidIndex \<and>
         A1 = emplace COPY i (getReturnNodeFor (nodeFactory A) fid) A"
      by (auto simp: direct_call_def bindE_eq_Inr Let_def gid split: if_splits)
    have "grows A1 B" by (rule grows_trans [OF grows_argument [OF 1(1)] B(1)])
    then have ret: "in_ptr inst \<Longrightarrow> S (getReturnNodeFor (nodeFactory B) fid) \<subseteq> value_pts (nodeFactory B) S (LocalV (in_id inst))"
      using 1(2) return_respected [OF _ _ _ B(2)] by blast
    have args: "\<forall>((formal, fptr), (actual, aptr)) \<in> set (zip (fd_args g) (cb_args cb)). fptr \<longrightarrow>
        (if aptr then value_pts (nodeFactory B) S actual else S UniversalPtrIndex) \<subseteq> value_pts (nodeFactory B) S (LocalV formal)"
      using argument_respected [OF 1(1) B] by (intro ballI, simp only: split: prod.splits, blast)
    show ?thesis
      unfolding call_respected_def Some g(1) option.case using ret args by blast
  qed (use Some g(1) in \<open>simp add: call_respected_def\<close>)
qed

lemma phi_respected:
  assumes "foldE (\<lambda>v A. bindE (value_node A v) (\<lambda>j. Inr (emplace COPY i j A))) vs A = Inr A'" "grows A' B"
    "solution (constraints B) S" "v \<in> set vs"
  shows "value_pts (nodeFactory B) S v \<subseteq> S i"
  using assms(1,4)
proof (induction vs arbitrary: A)
  case (Cons w vs)
  obtain j where j: "value_node A w = Inr j"
    "foldE (\<lambda>v A. bindE (value_node A v) (\<lambda>j. Inr (emplace COPY i j A))) vs (emplace COPY i j A) = Inr A'"
    using Cons.prems(1) by (auto simp: bindE_eq_Inr)
  have "grows (emplace COPY i j A) A'"
    by (rule grows_foldE [OF j(2) grows_refl]) (auto simp: bindE_eq_Inr)
  then have g: "grows (emplace COPY i j A) B" by (rule grows_trans [OF _ assms(2)])
  have "value_pts (nodeFactory B) S w \<subseteq> S i"
    using emplaced [OF g assms(3)] pts_stable [OF j(1)] by simp
  with Cons.IH [OF j(2)] Cons.prems(2) show ?case by (cases "v = w") auto
qed simp

lemma instruction_respected:
  assumes m: "collectConstraintsForInstruction M F inst A = Inr A'" and B: "grows A' B" "solution (constraints B) S"
  shows "respected M (nodeFactory B) S F inst"
proof (cases "in_op inst")
  case Alloca
  with m obtain i j A1 where 1: "value_node A (LocalV (in_id inst)) = Inr i"
    "new_object (LocalV (in_id inst)) A = Inr (j, A1)" "A' = emplace ADDR_OF i j A1"
    by (auto simp: bindE_eq_Inr)
  note e = emplaced [OF B [unfolded 1(3)]]
  have "objNodeMap (nodeFactory A1) (LocalV (in_id inst)) = Some j"
    using 1(2) by (auto simp: new_node_def bindE_eq_Inr create_defs Let_def split: if_splits)
  then have "index_or_invalid (objNodeMap (nodeFactory B) (LocalV (in_id inst))) = j"
    using e(2) by (force simp: grows_def map_le_def index_or_invalid_def)
  moreover have "value_pts (nodeFactory B) S (LocalV (in_id inst)) = S i"
    using pts_stable [OF 1(1)] grows_trans [OF grows_new(2) [OF 1(2)] e(2)] by simp
  ultimately show ?thesis using e(1) Alloca by (simp add: respected_def)
next
  case (Call cb)
  with m B show ?thesis using call_respects by (simp add: respected_def)
next
  case (Ret r)
  consider v where "r = Some (v, True)" | "\<not> (\<exists>v. r = Some (v, True))" by blast
  then show ?thesis
  proof cases
    case 1
    then obtain i where i: "value_node A v = Inr i" "getReturnNodeFor (nodeFactory A) F \<noteq> InvalidIndex"
      "A' = emplace COPY (getReturnNodeFor (nodeFactory A) F) i A"
      using m Ret by (auto simp: bindE_eq_Inr Let_def split: if_splits)
    then show ?thesis
      using emplaced(1) [OF B [unfolded i(3)]] pts_stable [OF i(1) emplaced(2) [OF B [unfolded i(3)]]]
        return_stable [OF i(2) emplaced(2) [OF B [unfolded i(3)]]] Ret 1 by (simp add: respected_def)
  qed (use Ret in \<open>auto simp: respected_def split: option.splits bool.splits\<close>)
next
  case (Store vp p)
  then obtain v ptr where vp: "vp = (v, ptr)" by (cases vp)
  show ?thesis
  proof (cases ptr)
    case True
    with m Store vp obtain i j where 1: "value_node A v = Inr i" "value_node A p = Inr j" "A' = emplace STORE j i A"
      by (auto simp: bindE_eq_Inr)
    with emplaced [OF B [unfolded 1(3)]] pts_stable Store vp True show ?thesis by (simp add: respected_def)
  qed (use Store vp in \<open>simp add: respected_def\<close>)
next
  case (PHI vs)
  show ?thesis
  proof (cases "in_ptr inst")
    case True
    with m PHI obtain i where 1: "value_node A (LocalV (in_id inst)) = Inr i"
      "foldE (\<lambda>v A. bindE (value_node A v) (\<lambda>j. Inr (emplace COPY i j A))) vs A = Inr A'"
      by (auto simp: bindE_eq_Inr)
    have "grows A B" by (rule grows_trans [OF grows_instruction [OF m] B(1)])
    with phi_respected [OF 1(2) B] pts_stable [OF 1(1)] PHI show ?thesis by (simp add: respected_def)
  qed (use PHI in \<open>simp add: respected_def\<close>)
next
  case (IntToPtrInst s)
  with m B show ?thesis
    by (cases s) (auto simp: respected_def bindE_eq_Inr pts_stable dest!: emplaced_both [OF B(2)] split: if_splits)
next
  case (Load v)
  with m B show ?thesis
    by (auto simp: respected_def bindE_eq_Inr pts_stable dest!: emplaced_both [OF B(2)] split: if_splits; blast)
next
  case (GEP v)
  with m B show ?thesis
    by (auto simp: respected_def copy_to_inst_def bindE_eq_Inr dest: copy_respected split: if_splits)
next
  case (Cast v)
  with m B show ?thesis
    by (auto simp: respected_def copy_to_inst_def bindE_eq_Inr dest: copy_respected split: if_splits)
next
  case (Select v w)
  with m B show ?thesis
    by (auto simp: respected_def bindE_eq_Inr pts_stable dest!: emplaced_both [OF B(2)] split: if_splits)
qed (auto simp: respected_def)

lemma foldE_mem:
  assumes "foldE f xs A = Inr B" "x \<in> set xs" "\<And>x A B. x \<in> set xs \<Longrightarrow> f x A = Inr B \<Longrightarrow> grows A B"
  shows "\<exists>A1 A2. f x A1 = Inr A2 \<and> grows A2 B"
proof -
  obtain ys zs where xs: "xs = ys @ x # zs" using assms(2) by (auto simp: in_set_conv_decomp)
  then obtain A1 A2 where f: "f x A1 = Inr A2" "foldE f zs A2 = Inr B"
    using assms(1) by (auto simp: foldE_append bindE_eq_Inr)
  have "grows A2 B" by (rule grows_foldE [OF f(2) grows_refl]) (use assms(3) xs in auto)
  with f(1) show ?thesis by blast
qed

lemma function_respected:
  assumes "collectConstraints M = Inr A" "solution (constraints A) S"
    "f \<in> set (m_functions M)" "\<not> fd_external f" "inst \<in> set (fd_body f)"
  shows "respected M (nodeFactory A) S (fd_id f) inst"
proof -
  obtain A0 where "foldE (collect_function M) (m_functions M) A0 = Inr A"
    using assms(1) by (auto simp: collectConstraints_def bindE_eq_Inr)
  from foldE_mem [OF this assms(3)] obtain A1 A2 where 1: "collect_function M f A1 = Inr A2" "grows A2 A"
    using grows_function by blast
  then obtain A3 where "foldE (collectConstraintsForInstruction M (fd_id f)) (fd_body f) A3 = Inr A2"
    using assms(4) by (auto simp: collect_function_def bindE_eq_Inr)
  from foldE_mem [OF this assms(5)] obtain A4 A5 where
    2: "collectConstraintsForInstruction M (fd_id f) inst A4 = Inr A5" "grows A5 A2"
    using grows_instruction by blast
  show ?thesis by (rule instruction_respected [OF 2(1) grows_trans [OF 2(2) 1(2)] assms(2)])
qed

section \<open>Properties\<close>


definition demo_module :: ir_module where
  "demo_module = \<lparr>m_globals = [], m_functions =
     [\<lparr>fd_id = 0, fd_name = ''main'', fd_external = False, fd_addr_taken = False, fd_ret_ptr = False,
       fd_vararg = False, fd_args = [], fd_body =
         [\<lparr>in_id = 1, in_ptr = True, in_op = Alloca\<rparr>, \<lparr>in_id = 2, in_ptr = True, in_op = Alloca\<rparr>,
          \<lparr>in_id = 3, in_ptr = False, in_op = Store (LocalV 1, True) (LocalV 2)\<rparr>,
          \<lparr>in_id = 4, in_ptr = True, in_op = Load (LocalV 2)\<rparr>,
          \<lparr>in_id = 5, in_ptr = False, in_op = Ret None\<rparr>]\<rparr>]\<rparr>"

lemmas collect_eval = collectConstraints_def collectConstraintsForGlobals_def declare_function_def declare_global_def
  body_nodes_def optional_node_def new_values_def collect_function_def new_node_def create_defs Let_def value_node_def
  index_or_invalid_def InvalidIndex_def init_factory_def push_node_def mk_node_def getNumNodes_def init_global_def
  copy_to_inst_def

lemma demo_collected: "\<exists>A. collectConstraints demo_module = Inr A \<and> num_of A = 9"
  by (simp add: demo_module_def collect_eval emplace_def)


definition unknown_module :: ir_module where
  "unknown_module = \<lparr>m_globals = [(9, None)], m_functions =
     [\<lparr>fd_id = 0, fd_name = ''main'', fd_external = False, fd_addr_taken = False, fd_ret_ptr = False,
       fd_vararg = False, fd_args = [], fd_body =
         [\<lparr>in_id = 1, in_ptr = True, in_op = IntToPtrInst FromOther\<rparr>,
          \<lparr>in_id = 2, in_ptr = True, in_op = Load (LocalV 1)\<rparr>,
          \<lparr>in_id = 3, in_ptr = True, in_op = Load (ConstV (GlobalValue 9))\<rparr>]\<rparr>]\<rparr>"

lemma unknown_collected:
  "\<exists>A. collectConstraints unknown_module = Inr A \<and> num_of A = 9 \<and>
    getValueNodeFor (nodeFactory A) (LocalV 2) = Inr 7 \<and> getValueNodeFor (nodeFactory A) (LocalV 3) = Inr 8 \<and>
    constraints A = initial_constraints @ [constr ADDR_OF 4 5, constr COPY 5 1, constr COPY 6 0, constr LOAD 7 6, constr LOAD 8 4]"
  by (simp add: unknown_module_def collect_eval emplace_def constr_def UniversalPtrIndex_def UniversalObjIndex_def)

text \<open>The universal object points to nothing: a pointer of unknown origin (an \<open>inttoptr\<close> of an
  arbitrary integer) is dereferenced and a global defined in another translation unit is
  read, and both loaded pointers have an empty points-to set. The initial constraint on the
  universal object is a \<open>STORE\<close>, not the \<open>ADDR_OF\<close> that would make it point to itself, so
  what unknown memory holds is treated as null rather than as anything.\<close>

theorem universal_object_points_to_nothing:
  "\<exists>A s. collectConstraints unknown_module = Inr A \<and> runOnModule False False 173 [] unknown_module = Inr s \<and>
     getValueNodeFor (nodeFactory A) (LocalV 2) = Inr 7 \<and> pts_of (ptsGraph s) 7 = [] \<and>
     getValueNodeFor (nodeFactory A) (LocalV 3) = Inr 8 \<and> pts_of (ptsGraph s) 8 = []"
proof -
  obtain A where A: "collectConstraints unknown_module = Inr A" "num_of A = 9"
    "getValueNodeFor (nodeFactory A) (LocalV 2) = Inr 7" "getValueNodeFor (nodeFactory A) (LocalV 3) = Inr 8"
    "constraints A = initial_constraints @ [constr ADDR_OF 4 5, constr COPY 5 1, constr COPY 6 0, constr LOAD 7 6, constr LOAD 8 4]"
    using unknown_collected by blast
  define S :: "NodeIndex \<Rightarrow> nat set" where
    "S n = (if n = 0 \<or> n = 6 then {1} else if n = 2 then {3} else if n = 4 then {5} else {})" for n
  have "solution (constraints A) S"
    by (simp add: A(5) solution_def satisfies_iff initial_constraints_def constr_def S_def UniversalPtrIndex_def
        UniversalObjIndex_def NullPtrIndex_def NullObjectIndex_def)
  moreover have "S 7 = {}" "S 8 = {}" by (simp_all add: S_def)
  moreover have "num_of A + 2 * (num_of A * num_of A) + 2 \<le> 173" using A(2) by simp
  from analysis_least [OF A(1) this, of "[]"] obtain s where
    "runOnModule False False 173 [] unknown_module = Inr s"
    "\<forall>S. solution (constraints A) S \<longrightarrow> (\<forall>n. set (pts_of (ptsGraph s) n) \<subseteq> S n)" by blast
  ultimately show ?thesis using A(1,3,4) by (metis set_empty subset_empty)
qed

end
