(* ===== verification/Andersen_HCD.thy ===== *)
theory Andersen_HCD
  imports Andersen_Sound
begin

text \<open>
  A run of the solver under its default switches, with hybrid and lazy cycle
  detection, on an input of eight constraints: \<open>p = &v1\<close>, \<open>v2 = &a\<close>, \<open>x = *p\<close>,
  \<open>*p = x\<close>, \<open>z = x\<close>, \<open>r = &v2\<close>, \<open>q = r\<close>, \<open>p = q\<close>, where \<open>p\<close> is node 4, \<open>x\<close> 5, \<open>z\<close> 6,
  \<open>v1\<close> 7, \<open>v2\<close> 8, \<open>a\<close> 9, \<open>r\<close> 10 and \<open>q\<close> 11. The offline detection finds \<open>x\<close> and \<open>*p\<close> on a
  cycle, so that what \<open>p\<close> points to is collapsed into \<open>x\<close>. When \<open>v2\<close> reaches \<open>p\<close>,
  \<open>x\<close> takes over its pointee \<open>a\<close>, but is not put on the work list.
\<close>

section \<open>The input\<close>

definition hcd_cs :: "AndersConstraint list" where
  "hcd_cs = [constr ADDR_OF 4 7, constr ADDR_OF 8 9, constr LOAD 5 4, constr STORE 4 5, constr COPY 6 5,
  constr ADDR_OF 10 8, constr COPY 11 10, constr COPY 4 11]"
definition hcd_nodes :: "nat list \<Rightarrow> AndersNode list" where
  "hcd_nodes ts = map (\<lambda>t. mk_node VALUE_NODE t None) ts"
definition hcd_factory :: "nat \<Rightarrow> nat \<Rightarrow> AndersNodeFactory" where
  "hcd_factory a b = \<lparr>nodes = hcd_nodes [0,1,2,3,4,5,6,a,b,9,10,11], valueNodeMap = Map.empty, objNodeMap = Map.empty, returnMap = Map.empty, varargMap = Map.empty\<rparr>"

lemma hcd_num [simp]: "getNumNodes (hcd_factory a b) = 12"
  by (simp add: hcd_factory_def getNumNodes_def hcd_nodes_def)

lemma hcd_target: "n < 12 \<Longrightarrow> target (hcd_factory a b) n = (if n = 7 then a else if n = 8 then b else n)"
  by (auto simp: hcd_factory_def target_def hcd_nodes_def mk_node_def less_Suc_eq numeral_eq_Suc)

lemma hcd_reps [simp]:
  "n < 12 \<Longrightarrow> a < 12 \<Longrightarrow> b < 12 \<Longrightarrow> a \<in> {5, 7} \<Longrightarrow> b \<in> {5, 8} \<Longrightarrow>
   getMergeTarget_const (hcd_factory a b) n = (if n = 7 then a else if n = 8 then b else n)"
  by (auto simp: getMergeTarget_const_def hcd_target)

lemma hcd_merges [simp]: "mergeNode 5 7 (hcd_factory 7 b) = hcd_factory 5 b" "mergeNode 5 8 (hcd_factory a 8) = hcd_factory a 5"
  by (simp_all add: mergeNode_def set_target_def hcd_factory_def hcd_nodes_def mk_node_def numeral_eq_Suc)


lemmas visit_num = visit.simps(2) [where k = "pred_numeral k" for k, folded numeral_eq_Suc]
lemmas inner_num = inner_loop.simps(2) [where k = "pred_numeral k" for k, folded numeral_eq_Suc]
lemmas outer_num = outer_loop.simps(2) [where k = "pred_numeral k" for k, folded numeral_eq_Suc]

lemma hcd_off_graph: "buildOfflineConstraintGraph (hcd_factory 7 8) hcd_cs = [16 \<mapsto> [5], 5 \<mapsto> [6, 16], 10 \<mapsto> [11], 11 \<mapsto> [4]]"
  by (simp add: buildOfflineConstraintGraph_def hcd_cs_def constr_def insertEdge_def fun_upd_twist)


lemma hcd_off_run: "\<exists>st. runOnGraph (offline_ops 12) 25 [16, 5, 10, 11]
   \<lparr>offlineGraph = [16 \<mapsto> [5], 5 \<mapsto> [6, 16], 10 \<mapsto> [11], 11 \<mapsto> [4]], collapseMap = Map.empty, mergeMap = [], scc = []\<rparr> = Inr st \<and>
   mergeMap (gstate st) = [] \<and> collapseMap (gstate st) = [4 \<mapsto> 5]"
  by (simp add: runOnGraph_def runOnNode_def init_cd_def offline_ops_def visit_num dfs_num_def offline_rep_node_def)

lemma hcd_off: "offline_run 25 [16, 5, 10, 11] hcd_cs (hcd_factory 7 8) = Inr (hcd_factory 7 8, [4 \<mapsto> 5])"
  using hcd_off_run by (auto simp: offline_run_def hcd_off_graph)

definition cn :: "nat \<Rightarrow> nat list \<Rightarrow> nat list \<Rightarrow> nat list \<Rightarrow> ConstraintGraphNode" where
  "cn i c l s = \<lparr>idx = i, copyEdges = c, loadEdges = l, storeEdges = s\<rparr>"

definition hcd_state :: "AndersNodeFactory \<Rightarrow> nat list \<Rightarrow> PtsGraph \<Rightarrow> nat list \<Rightarrow> nat list \<Rightarrow> solver" where
  "hcd_state f c5 p cur nxt = \<lparr>factory_of = f, graph = [4 \<mapsto> cn 4 [] [5] [5], 5 \<mapsto> cn 5 c5 [] [], 10 \<mapsto> cn 10 [11] [] [], 11 \<mapsto> cn 11 [4] [] []],
    ptsGraph = p, collapse_of = [4 \<mapsto> 5], currWorkList = cur, nextWorkList = nxt, cycleCandidates = [], checkedEdges = []\<rparr>"

lemma upt12: "[0..<12] = [0,1,2,3,4,5,6,7,8,9,10,11::nat]" by (simp add: upt_rec numeral_eq_Suc)

lemma hcd_init: "init_solver (hcd_factory 7 8) [4 \<mapsto> 5] hcd_cs
   = hcd_state (hcd_factory 7 8) [6] [4 \<mapsto> [7], 8 \<mapsto> [9], 10 \<mapsto> [8]] [4, 10] []"
  by (simp add: init_solver_def hcd_state_def buildConstraintGraph_def hcd_cs_def constr_def add_constraint_def 
   insertLoadEdge_def insertStoreEdge_def insertCopyEdge_def cnode_or_new_def new_cnode_def pts_insert_def pts_of_def cn_def Let_def fun_upd_twist upt12)

lemmas hcd_eval = hcd_state_def process_node_def process_edges_def process_pointee_def edges_of_def cnode_or_new_def new_cnode_def
  pts_of_def load_step_def store_step_def insertCopyEdge_def renamed_def propagate_step_def unionWith_def pts_contains_def has_def
  cn_def enqueue_def collapseNodes_def mergeNodes_def Let_def fun_upd_twist

lemma hcd_step1: "process_node True True 4 (hcd_state (hcd_factory 7 8) [6] [4 \<mapsto> [7], 8 \<mapsto> [9], 10 \<mapsto> [8]] [10] [])
  = Inr (hcd_state (hcd_factory 5 8) [5, 6] [4 \<mapsto> [7], 8 \<mapsto> [9], 10 \<mapsto> [8]] [10] [5])"
  by (simp add: hcd_eval)

lemma hcd_step2: "process_node True True 10 (hcd_state (hcd_factory 5 8) [5, 6] [4 \<mapsto> [7], 8 \<mapsto> [9], 10 \<mapsto> [8]] [] [5])
  = Inr (hcd_state (hcd_factory 5 8) [5, 6] [4 \<mapsto> [7], 8 \<mapsto> [9], 10 \<mapsto> [8], 11 \<mapsto> [8]] [] [5, 11])"
  by (simp add: hcd_eval)
lemma hcd_step3: "process_node True True 5 (hcd_state (hcd_factory 5 8) [5, 6] [4 \<mapsto> [7], 8 \<mapsto> [9], 10 \<mapsto> [8], 11 \<mapsto> [8]] [11] [])
  = Inr (hcd_state (hcd_factory 5 8) [5, 6] [4 \<mapsto> [7], 8 \<mapsto> [9], 10 \<mapsto> [8], 11 \<mapsto> [8]] [11] [])"
  by (simp add: hcd_eval)
lemma hcd_step4: "process_node True True 11 (hcd_state (hcd_factory 5 8) [5, 6] [4 \<mapsto> [7], 8 \<mapsto> [9], 10 \<mapsto> [8], 11 \<mapsto> [8]] [] [])
  = Inr (hcd_state (hcd_factory 5 8) [5, 6] [4 \<mapsto> [7, 8], 8 \<mapsto> [9], 10 \<mapsto> [8], 11 \<mapsto> [8]] [] [4])"
  by (simp add: hcd_eval)
definition hcd_graph :: ConstraintGraph where "hcd_graph = [4 \<mapsto> cn 4 [] [5] [5], 5 \<mapsto> cn 5 [5, 6] [] [], 10 \<mapsto> cn 10 [11] [] [], 11 \<mapsto> cn 11 [4] [] []]"
definition hcd_pts :: PtsGraph where "hcd_pts = [4 \<mapsto> [7, 8], 5 \<mapsto> [9], 10 \<mapsto> [8], 11 \<mapsto> [8]]"

lemma hcd_maps: "hcd_graph(8 := None) = hcd_graph" "hcd_pts(8 := None) = hcd_pts"
  "([4 \<mapsto> [7, 8::nat], 8 \<mapsto> [9], 10 \<mapsto> [8], 11 \<mapsto> [8]](5 \<mapsto> [9]))(8 := None) = hcd_pts"
  by (simp_all add: hcd_graph_def hcd_pts_def fun_eq_iff)

lemma hcd_graph_pts: "hcd_graph 7 = None" "hcd_graph 8 = None" "hcd_graph 5 \<noteq> None" by (simp_all add: hcd_graph_def)

lemma hcd_second: "hcd_loop 5 4 [7, 8] False (hcd_factory 5 8, [4 \<mapsto> [7, 8], 8 \<mapsto> [9], 10 \<mapsto> [8], 11 \<mapsto> [8]], hcd_graph)
   = Inr (False, hcd_factory 5 5, hcd_pts, hcd_graph)"
  using hcd_maps by (simp add: collapseNodes_def mergeNodes_def unionWith_def hcd_graph_pts)

lemma hcd_step5_edges: "process_edges True 4 (hcd_state (hcd_factory 5 5) [5, 6] hcd_pts [] []) = hcd_state (hcd_factory 5 5) [5, 6] hcd_pts [] []"
  by (simp add: hcd_eval hcd_pts_def)

lemma hcd_step5: "process_node True True 4 (hcd_state (hcd_factory 5 8) [5, 6] [4 \<mapsto> [7, 8], 8 \<mapsto> [9], 10 \<mapsto> [8], 11 \<mapsto> [8]] [] [])
  = Inr (hcd_state (hcd_factory 5 5) [5, 6] hcd_pts [] [])"
  using hcd_second hcd_step5_edges by (simp add: process_node_def hcd_state_def hcd_graph_def)

lemma hcd_lists [simp]: "currWorkList (hcd_state f c p cur nxt) = cur" "nextWorkList (hcd_state f c p cur nxt) = nxt"
  "cycleCandidates (hcd_state f c p cur nxt) = []"
  "(hcd_state f c p cur nxt)\<lparr>currWorkList := a\<rparr> = hcd_state f c p a nxt"
  "(hcd_state f c p cur nxt)\<lparr>nextWorkList := b\<rparr> = hcd_state f c p cur b"
  by (simp_all add: hcd_state_def)

lemma hcd_run: "solveConstraints True True 10 [16, 5, 10, 11] (hcd_factory 7 8) hcd_cs = Inr
  (hcd_state (hcd_factory 5 5) [5, 6] hcd_pts [] [])"
  by (simp add: solveConstraints_def hcd_off hcd_init outer_num inner_num hcd_step1 hcd_step2 hcd_step3 hcd_step4 hcd_step5)
section \<open>Property\<close>

text \<open>C40: under the default switches the solver ends with a points-to graph that is not a solution
  of the constraints: node 5 points to node 9, the constraint copies node 5 to node 6, and
  node 6 points to nothing. Hybrid cycle detection merges a node into the collapse target
  without putting the target on the work list, so that what the target gained is not
  propagated.\<close>

theorem hcd_loses_pointee:
  "\<exists>s. solveConstraints True True 10 [16, 5, 10, 11] (hcd_factory 7 8) hcd_cs = Inr s \<and>
     constr COPY 6 5 \<in> set hcd_cs \<and>
     pts_of (ptsGraph s) (getMergeTarget_const (factory_of s) 5) = [9] \<and>
     pts_of (ptsGraph s) (getMergeTarget_const (factory_of s) 6) = [] \<and>
     \<not> solution hcd_cs (\<lambda>n. set (pts_of (ptsGraph s) (getMergeTarget_const (factory_of s) n)))"
  by (intro exI conjI, rule hcd_run)
    (simp_all add: hcd_cs_def hcd_state_def hcd_pts_def pts_of_def solution_def satisfies_iff constr_def)

end
