(* ===== verification/Worklist.thy ===== *)
theory Worklist
  imports Prelude
begin

text \<open>
  Explorations of a graph with a work list and a set of visited nodes, the form
  of the traversals of \<open>functionDoesNotRet\<close> and \<open>getCallInterIPDF\<close>, of the
  reachability of \<open>PTACallGraph\<close> and of the flooding of \<open>DepGraphDCF\<close>. What
  such a loop relies on is the interface \<open>exploration\<close>: one step takes a node
  from the list, marks its successors as visited and lists those that were not.
\<close>

section \<open>Closed sets\<close>

lemma closed_rtrancl:
  assumes "A \<subseteq> V" "V \<subseteq> R\<^sup>* `` A" "R `` V \<subseteq> V"
  shows "V = R\<^sup>* `` A"
proof -
  have "R\<^sup>* `` V = V" by (rule Image_closed_trancl [OF assms(3)])
  with assms(1,2) show ?thesis by blast
qed

text \<open>The state of any such loop: \<open>V\<close> the visited nodes, \<open>W\<close> the listed ones among them, from the
  start set \<open>A\<close>.\<close>

definition flooding :: "('a \<times> 'a) set \<Rightarrow> 'a set \<Rightarrow> 'a set \<Rightarrow> 'a set \<Rightarrow> bool" where
  "flooding R A V W \<longleftrightarrow> A \<subseteq> V \<and> W \<subseteq> V \<and> V \<subseteq> R\<^sup>* `` A \<and> R `` (V - W) \<subseteq> V"

lemma flooding_start: "flooding R A A A"
  by (auto simp: flooding_def)

lemma flooding_step:
  assumes "flooding R A V W" "x \<in> V" "V' = V \<union> R `` {x}" "W' \<subseteq> V'" "(W - {x}) \<union> (V' - V) \<subseteq> W'"
  shows "flooding R A V' W'"
proof -
  obtain a where "a \<in> A" "(a, x) \<in> R\<^sup>*" using assms(1,2) by (auto simp: flooding_def)
  then have "R `` {x} \<subseteq> R\<^sup>* `` A" by (auto intro: rtrancl_into_rtrancl)
  moreover have "R `` (V' - W') \<subseteq> R `` (V - W) \<union> R `` {x}" using assms(5) by blast
  then have "R `` (V' - W') \<subseteq> V'" using assms(1,3) unfolding flooding_def by blast
  ultimately show ?thesis using assms(1,3,4) unfolding flooding_def by blast
qed

lemma flooding_end: "flooding R A V {} \<Longrightarrow> V = R\<^sup>* `` A"
  by (rule closed_rtrancl) (auto simp: flooding_def)

section \<open>The loop\<close>

datatype ('a) outcome = Found 'a | Exhausted "'a list"

text \<open>The loop ends at the first node that satisfies \<open>P\<close>, or when the list is empty; no more
  fuel is an outcome of its own.\<close>

fun explore :: "('a \<Rightarrow> bool) \<Rightarrow> ('a \<Rightarrow> 'a list \<Rightarrow> 'a list \<Rightarrow> 'a list \<times> 'a list) \<Rightarrow> nat \<Rightarrow> 'a list \<Rightarrow> 'a list
    \<Rightarrow> 'a outcome option" where
  "explore P expand k [] V = Some (Exhausted V)"
| "explore P expand 0 (x # W) V = None"
| "explore P expand (Suc k) (x # W) V =
     (if P x then Some (Found x) else case expand x W V of (W', V') \<Rightarrow> explore P expand k W' V')"

locale exploration =
  fixes succs :: "'a \<Rightarrow> 'a list"
    and expand :: "'a \<Rightarrow> 'a list \<Rightarrow> 'a list \<Rightarrow> 'a list \<times> 'a list"
  assumes expand_visited: "set (snd (expand x W V)) = set V \<union> set (succs x)"
    and expand_list: "set (fst (expand x W V)) = set W \<union> (set (succs x) - set V)"
    and expand_length: "length (fst (expand x W V)) + card (set V) \<le> length W + card (set (snd (expand x W V)))"
begin

definition edges :: "('a \<times> 'a) set" where
  "edges = {(x, y). y \<in> set (succs x)}"

lemma exhausted:
  assumes "set V \<subseteq> edges\<^sup>* `` A" "\<And>x. x \<in> set V \<union> A \<Longrightarrow> set (succs x) \<subseteq> set V \<and> \<not> P x"
  shows "set V \<union> A = edges\<^sup>* `` A \<and> (\<forall>x\<in>edges\<^sup>* `` A. \<not> P x)"
proof -
  have "edges `` (set V \<union> A) \<subseteq> set V \<union> A" using assms(2) by (auto simp: edges_def)
  then have "set V \<union> A = edges\<^sup>* `` A"
    using closed_rtrancl [of A "set V \<union> A" edges] assms(1) by blast
  with assms(2) show ?thesis by blast
qed

lemma explore_inv:
  assumes "explore P expand k W V = Some r" "set V \<union> set W \<subseteq> edges\<^sup>* `` A"
    and "\<And>x. x \<in> set V \<union> A \<Longrightarrow> x \<notin> set W \<Longrightarrow> set (succs x) \<subseteq> set V \<and> \<not> P x"
  shows "case r of Found x \<Rightarrow> x \<in> edges\<^sup>* `` A \<and> P x
     | Exhausted V' \<Rightarrow> set V' \<union> A = edges\<^sup>* `` A \<and> (\<forall>x\<in>edges\<^sup>* `` A. \<not> P x)"
  using assms
proof (induction k arbitrary: W V)
  case (0 W V)
  then have W: "W = []" by (cases W) auto
  then have r: "r = Exhausted V" using "0.prems"(1) by simp
  show ?case unfolding r outcome.case
    by (rule exhausted) (use "0.prems"(2,3) W in simp_all)
next
  case (Suc k W V)
  show ?case
  proof (cases W)
    case Nil
    then have r: "r = Exhausted V" using Suc.prems(1) by simp
    show ?thesis unfolding r outcome.case
      by (rule exhausted) (use Suc.prems(2,3) Nil in simp_all)
  next
    case (Cons x W0)
    show ?thesis
    proof (cases "P x")
      case True
      with Suc.prems Cons show ?thesis by auto
    next
      case False
      obtain W' V' where e: "expand x W0 V = (W', V')" by force
      have s: "set V' = set V \<union> set (succs x)" "set W' = set W0 \<union> (set (succs x) - set V)"
        using expand_visited [of x W0 V] expand_list [of x W0 V] by (simp_all add: e)
      have "set (succs x) \<subseteq> edges\<^sup>* `` A"
        using Suc.prems(2) Cons by (auto simp: edges_def intro: rtrancl_into_rtrancl)
      then have 1: "set V' \<union> set W' \<subseteq> edges\<^sup>* `` A" using Suc.prems(2) Cons s by auto
      have 2: "set (succs y) \<subseteq> set V' \<and> \<not> P y" if "y \<in> set V' \<union> A" "y \<notin> set W'" for y
        using that Suc.prems(3) [of y] Cons s False by (cases "y = x") auto
      have "explore P expand k W' V' = Some r" using Suc.prems(1) Cons False e by simp
      then show ?thesis by (rule Suc.IH [OF _ 1 2])
    qed
  qed
qed

lemma explore_keeps: "explore P expand k W V = Some (Exhausted V') \<Longrightarrow> set V \<subseteq> set V'"
proof (induction k arbitrary: W V)
  case 0
  then show ?case by (cases W) auto
next
  case (Suc k)
  show ?case
  proof (cases W)
    case (Cons x W0)
    obtain W1 V1 where e: "expand x W0 V = (W1, V1)" by force
    then have "set V \<subseteq> set V1" using expand_visited [of x W0 V] by auto
    with Suc Cons e show ?thesis by (fastforce split: if_splits)
  qed (use Suc in simp)
qed

lemma explore_ends:
  assumes "finite U" "set V \<union> set W \<subseteq> U" "\<And>x. x \<in> U \<Longrightarrow> set (succs x) \<subseteq> U" "card (U - set V) + length W \<le> k"
  shows "\<exists>r. explore P expand k W V = Some r"
  using assms(2,4)
proof (induction k arbitrary: W V)
  case (Suc k W V)
  show ?case
  proof (cases W)
    case (Cons x W0)
    obtain W' V' where e: "expand x W0 V = (W', V')" by force
    have s: "set V' = set V \<union> set (succs x)" "set W' = set W0 \<union> (set (succs x) - set V)"
      "length W' + card (set V) \<le> length W0 + card (set V')"
      using expand_visited [of x W0 V] expand_list [of x W0 V] expand_length [of x W0 V] by (simp_all add: e)
    have sub: "set V' \<union> set W' \<subseteq> U" using Suc.prems(1) Cons s assms(3) by auto
    have "card (U - set V') = card U - card (set V')" "card (U - set V) = card U - card (set V)"
      "card (set V') \<le> card U"
      using sub Suc.prems(1) assms(1) by (auto intro: card_Diff_subset card_mono)
    then have "card (U - set V') + length W' \<le> k" using Suc.prems(2) Cons s(3) by simp
    then show ?thesis using Suc.IH [OF sub] Cons e by simp
  qed simp
qed simp

end

lemma explore_unfold:
  "explore P expand k W V = (case W of [] \<Rightarrow> Some (Exhausted V) | x # W' \<Rightarrow>
     (case k of 0 \<Rightarrow> None | Suc k' \<Rightarrow> if P x then Some (Found x) else case expand x W' V of (W2, V2) \<Rightarrow> explore P expand k' W2 V2))"
  by (cases W; cases k) simp_all

section \<open>Queue and stack\<close>

text \<open>The successors that are not visited yet are marked and put on the list one by one, at the
  back of a queue or on top of a stack.\<close>

definition add_new :: "('a \<Rightarrow> 'a list \<Rightarrow> 'a list) \<Rightarrow> 'a list \<Rightarrow> 'a list \<Rightarrow> 'a list \<Rightarrow> 'a list \<times> 'a list" where
  "add_new add ys W V = fold (\<lambda>y (W, V). if y \<in> set V then (W, V) else (add y W, V @ [y])) ys (W, V)"

definition enqueue_new :: "('a \<Rightarrow> 'a list) \<Rightarrow> 'a \<Rightarrow> 'a list \<Rightarrow> 'a list \<Rightarrow> 'a list \<times> 'a list" where
  "enqueue_new succs x = add_new (\<lambda>y W. W @ [y]) (succs x)"

definition push_new :: "('a \<Rightarrow> 'a list) \<Rightarrow> 'a \<Rightarrow> 'a list \<Rightarrow> 'a list \<Rightarrow> 'a list \<times> 'a list" where
  "push_new succs x = add_new (\<lambda>y W. y # W) (succs x)"

lemma add_new_simps [simp]:
  "add_new add [] W V = (W, V)"
  "add_new add (y # ys) W V = (if y \<in> set V then add_new add ys W V else add_new add ys (add y W) (V @ [y]))"
  by (simp_all add: add_new_def)

lemma add_new_laws:
  assumes "\<And>y W. set (add y W) = insert y (set W)" "\<And>y W. length (add y W) = Suc (length W)"
  shows "set (snd (add_new add ys W V)) = set V \<union> set ys \<and> set (fst (add_new add ys W V)) = set W \<union> (set ys - set V) \<and>
    length (fst (add_new add ys W V)) + card (set V) \<le> length W + card (set (snd (add_new add ys W V)))"
proof (induction ys arbitrary: W V)
  case (Cons y ys)
  show ?case
  proof (cases "y \<in> set V")
    case True
    with Cons.IH [of W V] show ?thesis by auto
  next
    case False
    with Cons.IH [of "add y W" "V @ [y]"] assms show ?thesis by auto
  qed
qed simp

lemma enqueue_laws:
  "set (snd (enqueue_new succs x W V)) = set V \<union> set (succs x) \<and>
   set (fst (enqueue_new succs x W V)) = set W \<union> (set (succs x) - set V) \<and>
   length (fst (enqueue_new succs x W V)) + card (set V) \<le> length W + card (set (snd (enqueue_new succs x W V)))"
  unfolding enqueue_new_def by (rule add_new_laws) simp_all

lemma push_laws:
  "set (snd (push_new succs x W V)) = set V \<union> set (succs x) \<and>
   set (fst (push_new succs x W V)) = set W \<union> (set (succs x) - set V) \<and>
   length (fst (push_new succs x W V)) + card (set V) \<le> length W + card (set (snd (push_new succs x W V)))"
  unfolding push_new_def by (rule add_new_laws) simp_all

interpretation queue: exploration succs "enqueue_new succs" for succs :: "'a \<Rightarrow> 'a list"
  by unfold_locales (rule enqueue_laws [THEN conjunct1] enqueue_laws [THEN conjunct2, THEN conjunct1] enqueue_laws [THEN conjunct2, THEN conjunct2])+

interpretation stack: exploration succs "push_new succs" for succs :: "'a \<Rightarrow> 'a list"
  by unfold_locales (rule push_laws [THEN conjunct1] push_laws [THEN conjunct2, THEN conjunct1] push_laws [THEN conjunct2, THEN conjunct2])+

end
