(* ===== verification/Coll_Analysis.thy ===== *)
theory Coll_Analysis
  imports CFG_Visitor Warnings
begin

text \<open>
  The analysis of collectives: the communicators of a module
  (\<open>src/aSSA/MPICommAnalysis.cpp\<close>), the collective lists of the loops
  (\<open>src/aSSA/CollListLoopAnalysis.cpp\<close>), the collective lists of the blocks
  of every function and the warnings drawn from them
  (\<open>src/aSSA/CollListFunctionAnalysis.cpp\<close>).

  A communicator is an \<open>Some\<close> value, and \<open>None\<close> the null communicator that
  stands for the collectives of the other paradigms. \<open>pr\<close> prints a block as an
  operand.
\<close>

section \<open>Communicators\<close>

record module_fn =
  mf_name :: string
  mf_callers :: "call_inst list"

text \<open>Calls with too few arguments fail an assertion of LLVM, \<open>None\<close>.\<close>

fun comms_of_calls :: "Collective \<Rightarrow> call_inst list \<Rightarrow> val option list \<Rightarrow> val option list option" where
  "comms_of_calls Coll [] Res = Some Res"
| "comms_of_calls Coll (CI # rest) Res =
     (case getCommunicator Coll CI of
        None \<Rightarrow> None
      | Some c \<Rightarrow> comms_of_calls Coll rest (set_vector_insert c Res))"

fun MPICommAnalysis_run :: "options \<Rightarrow> module_fn list \<Rightarrow> val option list \<Rightarrow> val option list option" where
  "MPICommAnalysis_run opts [] Res = Some Res"
| "MPICommAnalysis_run opts (F # M) Res =
     (case Collective_find opts (mf_name F) of
        None \<Rightarrow> MPICommAnalysis_run opts M Res
      | Some Coll \<Rightarrow>
          if par Coll \<noteq> MPI \<or> CommArgId Coll < 0 then MPICommAnalysis_run opts M Res
          else case comms_of_calls Coll (mf_callers F) Res of
            None \<Rightarrow> None
          | Some Res' \<Rightarrow> MPICommAnalysis_run opts M Res')"

section \<open>Lists per communicator\<close>

type_synonym CommToBBToCollListMap = "(val option \<times> BBToCollListMap) list"

definition get_lists :: "CommToBBToCollListMap \<Rightarrow> val option \<Rightarrow> BBToCollListMap" where
  "get_lists cm Comm = (case map_of cm Comm of None \<Rightarrow> Map.empty | Some ls \<Rightarrow> ls)"

definition put_lists :: "val option \<Rightarrow> BBToCollListMap \<Rightarrow> CommToBBToCollListMap \<Rightarrow> CommToBBToCollListMap" where
  "put_lists Comm ls cm = AList.update Comm ls cm"

text \<open>\<open>DenseMap::insert\<close> keeps an entry that is there.\<close>

definition insert_CL :: "bb \<Rightarrow> CollectiveList \<Rightarrow> BBToCollListMap \<Rightarrow> BBToCollListMap" where
  "insert_CL BB cl ls = (case ls BB of None \<Rightarrow> ls(BB \<mapsto> cl) | Some _ \<Rightarrow> ls)"

section \<open>Loops\<close>

text \<open>The list of a block of a loop that is not its header. A block the traversal reaches
  has a predecessor, the first of which gives the list to put in front.\<close>

definition loop_block_list ::
  "options \<Rightarrow> module_info \<Rightarrow> (bb \<Rightarrow> string) \<Rightarrow> cfg \<Rightarrow> LoopAggregationInfo \<Rightarrow> BBToCollListMap \<Rightarrow> bb \<Rightarrow> val option
     \<Rightarrow> CollectiveList" where
  "loop_block_list opts m pr G lai Lists BB Comm =
     (let PredSet = (case preds G BB of [] \<Rightarrow> empty_CL | p # _ \<Rightarrow> lookup_CL Lists p);
          IsNAVS = (LoopHeaderToIncomingBlock lai BB = None \<and> NeighborsAreNAVS pr Lists (preds G BB));
          Current = CreateFromBB opts m Lists IsNAVS BB Comm
      in if IsNAVS then Current else prependWith Current PredSet)"

fun visit_comms_loop ::
  "options \<Rightarrow> module_info \<Rightarrow> (bb \<Rightarrow> string) \<Rightarrow> cfg \<Rightarrow> LoopAggregationInfo \<Rightarrow> bb \<Rightarrow> val option list
     \<Rightarrow> CommToBBToCollListMap \<Rightarrow> CommToBBToCollListMap" where
  "visit_comms_loop opts m pr G lai BB [] cm = cm"
| "visit_comms_loop opts m pr G lai BB (Comm # Comms) cm =
     (let Lists = get_lists cm Comm in
      if Lists BB \<noteq> None then put_lists Comm Lists cm
      else visit_comms_loop opts m pr G lai BB Comms
             (put_lists Comm (Lists(BB \<mapsto> loop_block_list opts m pr G lai Lists BB Comm)) cm))"

definition visitBB_loop ::
  "options \<Rightarrow> module_info \<Rightarrow> (bb \<Rightarrow> string) \<Rightarrow> cfg \<Rightarrow> val option list \<Rightarrow> loop \<Rightarrow> bb \<Rightarrow> LoopAggregationInfo
     \<Rightarrow> CommToBBToCollListMap \<Rightarrow> CommToBBToCollListMap" where
  "visitBB_loop opts m pr G Comms L BB lai cm =
     (if BB = header L
      then fold (\<lambda>Comm cm. put_lists Comm (insert_CL BB empty_CL (get_lists cm Comm)) cm) Comms cm
      else visit_comms_loop opts m pr G lai BB Comms cm)"

text \<open>Called only for loops whose back edge is known.\<close>

definition endOfLoop :: "val option list \<Rightarrow> loop \<Rightarrow> CommToBBToCollListMap \<Rightarrow> CommToBBToCollListMap" where
  "endOfLoop Comms L cm =
     (case in_back L of
        None \<Rightarrow> cm
      | Some (Incoming, BackEdge) \<Rightarrow>
          fold (\<lambda>Comm cm.
            let Lists = get_lists cm Comm; back = lookup_CL Lists BackEdge
            in put_lists Comm (Lists(BackEdge \<mapsto> back, header L \<mapsto> with_header (header L) back)) cm) Comms cm)"

record function_info =
  fi_cfg :: cfg
  fi_LI :: "bb \<Rightarrow> loop option"
  fi_loops :: "loop list"

definition CollListLoopAnalysis_run ::
  "options \<Rightarrow> module_info \<Rightarrow> (bb \<Rightarrow> string) \<Rightarrow> val option list \<Rightarrow> nat \<Rightarrow> function_info
     \<Rightarrow> visit_error + LoopAggregationInfo \<times> CommToBBToCollListMap" where
  "CollListLoopAnalysis_run opts m pr Comms fuel F =
     Visit_loops (fi_cfg F) (fi_LI F) (fi_loops F) (visitBB_loop opts m pr (fi_cfg F) Comms) (endOfLoop Comms)
       fuel []"

section \<open>Functions\<close>

definition compute ::
  "options \<Rightarrow> module_info \<Rightarrow> (bb \<Rightarrow> string) \<Rightarrow> BBToCollListMap \<Rightarrow> bb list \<Rightarrow> bb \<Rightarrow> bool \<Rightarrow> val option
     \<Rightarrow> CollectiveList" where
  "compute opts m pr Lists Successors BB IsLoopHeader Comm =
     (let IsNAVS = NeighborsAreNAVS pr Lists Successors;
          Current = (if IsLoopHeader
                     then if IsNAVS then extendWith_elem empty_CL NavsElement
                          else extendWith empty_CL (lookup_CL Lists BB)
                     else CreateFromBB opts m Lists IsNAVS BB Comm)
      in if \<not> IsNAVS \<and> Successors \<noteq> [] then extendWith Current (lookup_CL Lists (hd Successors)) else Current)"

definition visitBB_cfg ::
  "options \<Rightarrow> module_info \<Rightarrow> (bb \<Rightarrow> string) \<Rightarrow> cfg \<Rightarrow> LoopAggregationInfo \<Rightarrow> val option list \<Rightarrow> bb \<Rightarrow> bool
     \<Rightarrow> CommToBBToCollListMap \<Rightarrow> CommToBBToCollListMap" where
  "visitBB_cfg opts m pr G Res Comms BB IsLoopHeader cm =
     fold (\<lambda>Comm cm.
       let Lists = get_lists cm Comm;
           Successors = (if IsLoopHeader then header_succs Res BB else succs G BB)
       in put_lists Comm (Lists(BB \<mapsto> compute opts m pr Lists Successors BB IsLoopHeader Comm)) cm) Comms cm"

text \<open>The lists of the loops are copied first; an entry the visitor has already is kept.\<close>

definition merge_lists :: "CommToBBToCollListMap \<Rightarrow> CommToBBToCollListMap \<Rightarrow> CommToBBToCollListMap" where
  "merge_lists loop_lists cm =
     fold (\<lambda>(Comm, Lists) cm. put_lists Comm (Lists ++ get_lists cm Comm) cm) loop_lists cm"

definition CollListCFGVisitor_Visit ::
  "options \<Rightarrow> module_info \<Rightarrow> (bb \<Rightarrow> string) \<Rightarrow> val option list \<Rightarrow> nat \<Rightarrow> function_info
     \<Rightarrow> LoopAggregationInfo \<times> CommToBBToCollListMap \<Rightarrow> CommToBBToCollListMap
     \<Rightarrow> visit_error + CommToBBToCollListMap" where
  "CollListCFGVisitor_Visit opts m pr Comms fuel F = (\<lambda>(LAI, loop_lists) cm.
     bindE (Visit_cfg (fi_cfg F) (fi_LI F) LAI (visitBB_cfg opts m pr (fi_cfg F) LAI Comms) fuel
              (merge_lists loop_lists cm)) (\<lambda>(vis, cm'). Inr cm'))"

text \<open>\<open>order\<close> lists the functions of the strongly connected components of the call graph in
  the order of LLVM's iterator; \<open>defined\<close> tells those that have a body and are reachable
  from the entry.\<close>

definition CollListFunctionAnalysis_run ::
  "options \<Rightarrow> module_info \<Rightarrow> (bb \<Rightarrow> string) \<Rightarrow> val option list \<Rightarrow> nat \<Rightarrow> (fn \<Rightarrow> function_info) \<Rightarrow> (fn \<Rightarrow> bool)
     \<Rightarrow> fn list \<Rightarrow> visit_error + CommToBBToCollListMap" where
  "CollListFunctionAnalysis_run opts m pr Comms fuel fi defined order =
     (let Comms' = (if Comms = [] then [None] else Comms) in
      foldE (\<lambda>F cm. if \<not> defined F then Inr cm
                    else bindE (CollListLoopAnalysis_run opts m pr Comms' fuel (fi F)) (\<lambda>Info.
                      CollListCFGVisitor_Visit opts m pr Comms' fuel (fi F) Info cm))
        order [])"

section \<open>Warnings\<close>

datatype terminator = BranchInst "val option" | SwitchInst val | OtherTerm

definition getBasicBlockCond :: "(bb \<Rightarrow> terminator) \<Rightarrow> bb \<Rightarrow> val option" where
  "getBasicBlockCond term BB = (case term BB of
     BranchInst c \<Rightarrow> c | SwitchInst c \<Rightarrow> Some c | OtherTerm \<Rightarrow> None)"

text \<open>What the check reads: the direct calls of the function in program order with their
  locations, the loops, the terminators with their locations, the inter-procedural
  frontier of a call and the taint of a value. The last two are results of the
  dependence graph.\<close>

record check_env =
  ce_calls :: "(call_inst \<times> (string \<times> int) option) list"
  ce_LI :: "bb \<Rightarrow> loop option"
  ce_term :: "bb \<Rightarrow> terminator"
  ce_term_loc :: "bb \<Rightarrow> (string \<times> int) option"
  ce_IPDF :: "nat \<Rightarrow> bb list"
  ce_tainted :: "val \<Rightarrow> bool"

definition IsaDirectCallToCollective :: "options \<Rightarrow> module_info \<Rightarrow> call_inst \<Rightarrow> bool" where
  "IsaDirectCallToCollective opts m CI = (case ci_callee CI of
     None \<Rightarrow> False | Some F \<Rightarrow> isCollective opts (fn_name m F))"

definition comm_for :: "options \<Rightarrow> string \<Rightarrow> call_inst \<Rightarrow> val option" where
  "comm_for opts fname CI = (case Collective_find opts fname of
     None \<Rightarrow> None
   | Some Coll \<Rightarrow> if par Coll = MPI then (case getCommunicator Coll CI of Some c \<Rightarrow> c | None \<Rightarrow> None) else None)"

definition HasNAVS :: "CommToBBToCollListMap \<Rightarrow> val option \<Rightarrow> bb \<Rightarrow> bool" where
  "HasNAVS cm CommForCollective b =
     list_ex (\<lambda>(Comm, Lists). (CommForCollective = None \<or> Comm = CommForCollective) \<and> navs (lookup_CL Lists b)) cm"

definition conditional_of ::
  "check_env \<Rightarrow> CommToBBToCollListMap \<Rightarrow> val option \<Rightarrow> bb \<Rightarrow> Location option" where
  "conditional_of env cm CommForCollective BB =
     (if \<not> HasNAVS cm CommForCollective (case ce_LI env BB of Some L \<Rightarrow> header L | None \<Rightarrow> BB) then None
      else case getBasicBlockCond (ce_term env) BB of
        None \<Rightarrow> None
      | Some Cond \<Rightarrow> if \<not> ce_tainted env Cond then None else Some (mk_Location (ce_term_loc env BB)))"

definition check_call ::
  "options \<Rightarrow> module_info \<Rightarrow> check_env \<Rightarrow> CommToBBToCollListMap \<Rightarrow> call_inst \<times> (string \<times> int) option
     \<Rightarrow> (nat \<times> Warning) list \<Rightarrow> (nat \<times> Warning) list" where
  "check_call opts m env cm = (\<lambda>(CI, Loc) Ws.
     case ci_callee CI of
       None \<Rightarrow> Ws
     | Some F \<Rightarrow>
         let CommForCollective = comm_for opts (fn_name m F) CI;
             Cs = List.map_filter (conditional_of env cm CommForCollective) (ce_IPDF env (ci_id CI))
         in if Cs = [] \<or> ci_id CI \<in> fst ` set Ws then Ws
            else Ws @ [(ci_id CI, mk_Warning (fn_name m F) Loc Cs)])"

definition checkWarnings ::
  "options \<Rightarrow> module_info \<Rightarrow> check_env \<Rightarrow> CommToBBToCollListMap \<Rightarrow> (nat \<times> Warning) list \<Rightarrow> (nat \<times> Warning) list" where
  "checkWarnings opts m env cm Ws =
     fold (check_call opts m env cm)
       (filter (\<lambda>(CI, Loc). IsaDirectCallToCollective opts m CI) (ce_calls env)) Ws"

definition CollectiveAnalysis_run ::
  "options \<Rightarrow> module_info \<Rightarrow> CommToBBToCollListMap \<Rightarrow> (fn \<Rightarrow> check_env) \<Rightarrow> (fn \<Rightarrow> bool) \<Rightarrow> fn list
     \<Rightarrow> (nat \<times> Warning) list" where
  "CollectiveAnalysis_run opts m cm env defined order =
     fold (\<lambda>F Ws. if \<not> defined F then Ws else checkWarnings opts m (env F) cm Ws) order []"

section \<open>The lists of a function\<close>

lemma get_put_lists [simp]:
  "get_lists (put_lists Comm ls cm) c = (if c = Comm then ls else get_lists cm c)"
  by (simp add: get_lists_def put_lists_def update_conv')

text \<open>One communicator at a time: the visit of a block.\<close>

definition visit1 ::
  "options \<Rightarrow> module_info \<Rightarrow> (bb \<Rightarrow> string) \<Rightarrow> cfg \<Rightarrow> LoopAggregationInfo \<Rightarrow> val option \<Rightarrow> bb
     \<Rightarrow> BBToCollListMap \<Rightarrow> BBToCollListMap" where
  "visit1 opts m pr G Res Comm b Lists =
     Lists(b \<mapsto> compute opts m pr Lists (visit_succs G Res b) b (is_loop_header Res b) Comm)"

lemma get_lists_fold_other:
  assumes "\<And>c cm. c \<noteq> d \<Longrightarrow> get_lists (f c cm) d = get_lists cm d" "d \<notin> set Comms"
  shows "get_lists (fold f Comms cm) d = get_lists cm d"
  using assms(2) by (induction Comms arbitrary: cm) (auto simp: assms(1))

lemma get_lists_visitBB_cfg:
  assumes "distinct Comms" "Comm \<in> set Comms"
  shows "get_lists (visitBB_cfg opts m pr G Res Comms b (is_loop_header Res b) cm) Comm
    = visit1 opts m pr G Res Comm b (get_lists cm Comm)"
proof -
  let ?f = "\<lambda>Comm cm. let Lists = get_lists cm Comm;
           Successors = (if is_loop_header Res b then header_succs Res b else succs G b)
       in put_lists Comm (Lists(b \<mapsto> compute opts m pr Lists Successors b (is_loop_header Res b) Comm)) cm"
  obtain as bs where split: "Comms = as @ Comm # bs" "Comm \<notin> set as" "Comm \<notin> set bs"
    using assms by (metis distinct.simps(2) distinct_append not_distinct_conv_prefix split_list_first)
  have other: "c \<noteq> Comm \<Longrightarrow> get_lists (?f c cm') Comm = get_lists cm' Comm" for c cm'
    by (simp add: Let_def)
  have "get_lists (fold ?f Comms cm) Comm = get_lists (?f Comm (fold ?f as cm)) Comm"
    using get_lists_fold_other [of Comm ?f bs, OF other split(3)] by (simp add: split(1))
  also have "\<dots> = visit1 opts m pr G Res Comm b (get_lists (fold ?f as cm) Comm)"
    by (simp add: visit1_def visit_succs_def Let_def)
  finally show ?thesis
    using get_lists_fold_other [of Comm ?f as, OF other split(2)] by (simp add: visitBB_cfg_def)
qed

lemma get_lists_fold_visit:
  assumes "distinct Comms" "Comm \<in> set Comms"
  shows "get_lists (fold (\<lambda>b. visitBB_cfg opts m pr G Res Comms b (is_loop_header Res b)) order cm) Comm
    = fold (visit1 opts m pr G Res Comm) order (get_lists cm Comm)"
  by (induction order arbitrary: cm) (simp_all add: get_lists_visitBB_cfg [OF assms])

lemma fold_visit1_other: "b \<notin> set order \<Longrightarrow> fold (visit1 opts m pr G Res Comm) order ls b = ls b"
  by (induction order arbitrary: ls) (auto simp: visit1_def)

text \<open>What \<open>compute\<close> reads of the lists.\<close>

definition callees :: "module_info \<Rightarrow> bb \<Rightarrow> fn set" where
  "callees m b = (\<Union>CI\<in>set (bb_calls m b). case ci_callee CI of Some F \<Rightarrow> {F}
      | None \<Rightarrow> (case indirect_callees m (ci_id CI) of None \<Rightarrow> {} | Some fs \<Rightarrow> set fs))"

lemma ActOnFunction_cong:
  "ls (fn_entry m F) = ls' (fn_entry m F) \<Longrightarrow>
   ActOnFunction opts m ls Comm CI F cur = ActOnFunction opts m ls' Comm CI F cur"
  by (simp add: ActOnFunction_def cong: option.case_cong)

lemma act_on_call_cong:
  assumes "CI \<in> set (bb_calls m b)" "\<And>F. F \<in> callees m b \<Longrightarrow> ls (fn_entry m F) = ls' (fn_entry m F)"
  shows "act_on_call opts m ls Comm CI cur = act_on_call opts m ls' Comm CI cur"
proof (cases "ci_callee CI")
  case (Some F)
  then have "F \<in> callees m b" using assms(1) by (force simp: callees_def)
  with assms(2) have "ActOnFunction opts m ls Comm CI F cur = ActOnFunction opts m ls' Comm CI F cur"
    by (intro ActOnFunction_cong)
  with Some show ?thesis by (simp add: act_on_call_def)
next
  case None
  note N = None
  show ?thesis
  proof (cases "indirect_callees m (ci_id CI)")
    case (Some fs)
    have "ActOnFunction opts m ls Comm CI F c = ActOnFunction opts m ls' Comm CI F c" if F: "F \<in> set fs" for F c
    proof -
      have "F \<in> callees m b"
        using assms(1) N Some F by (force simp: callees_def)
      then show ?thesis by (intro ActOnFunction_cong assms(2))
    qed
    then show ?thesis
      unfolding act_on_call_def N Some option.case by (intro fold_cong refl ext) simp
  qed (simp add: act_on_call_def N)
qed

lemma compute_cong:
  assumes "\<And>x. x \<in> set Successors \<Longrightarrow> ls x = ls' x" "ls b = ls' b"
    and "\<And>F. F \<in> callees m b \<Longrightarrow> ls (fn_entry m F) = ls' (fn_entry m F)"
  shows "compute opts m pr ls Successors b h Comm = compute opts m pr ls' Successors b h Comm"
proof -
  have s: "lookup_CL ls x = lookup_CL ls' x" if "x \<in> set Successors \<or> x = b" for x
    using that assms(1,2) by (auto simp: lookup_CL_def)
  have navs: "NeighborsAreNAVS pr ls Successors = NeighborsAreNAVS pr ls' Successors"
    unfolding neighbors_iff by (simp add: s)
  have create: "CreateFromBB opts m ls n b Comm = CreateFromBB opts m ls' n b Comm" for n
  proof -
    have "fold (act_on_call opts m ls Comm) (bb_calls m b) empty_CL
        = fold (act_on_call opts m ls' Comm) (bb_calls m b) empty_CL"
      by (intro fold_cong refl ext act_on_call_cong [where b = b]) (simp_all add: assms(3))
    then show ?thesis by (simp add: CreateFromBB_def)
  qed
  have "lookup_CL ls (hd Successors) = lookup_CL ls' (hd Successors)" if "Successors \<noteq> []"
    using that s by simp
  then show ?thesis
    unfolding compute_def navs create s [OF disjI2, OF refl] by (simp add: Let_def)
qed

text \<open>The lists at the end satisfy the equation of every visited block.\<close>

lemma fold_visit1_equation:
  fixes opts :: options and pr :: "bb \<Rightarrow> string" and Comm :: "val option" and ls :: BBToCollListMap
  assumes "distinct order" "after_succs (visit_succs G Res) (rev order)" "b \<in> set order"
    and "\<And>F. F \<in> callees m b \<Longrightarrow> fn_entry m F \<notin> set order"
  defines "final \<equiv> fold (visit1 opts m pr G Res Comm) order ls"
  shows "final b = Some (compute opts m pr (final(b := ls b)) (visit_succs G Res b) b (is_loop_header Res b) Comm)"
proof -
  obtain as bs where split: "order = as @ b # bs"
    using assms(3) split_list by fastforce
  let ?mid = "fold (visit1 opts m pr G Res Comm) as ls"
  have final: "final = fold (visit1 opts m pr G Res Comm) bs (visit1 opts m pr G Res Comm b ?mid)"
    by (simp add: final_def split)
  have nb: "b \<notin> set as" "b \<notin> set bs" "set as \<inter> set bs = {}"
    using assms(1) split by auto
  have sub: "set (visit_succs G Res b) \<subseteq> set as"
    using assms(2) unfolding split by (induction bs rule: rev_induct) auto
  have at: "final x = ?mid x" if "x \<in> set as \<or> x \<notin> set order" for x
  proof -
    have "x \<notin> set bs" "x \<noteq> b"
      using that nb by (auto simp: split)
    then show ?thesis by (simp add: final fold_visit1_other) (simp add: visit1_def)
  qed
  have mid_b: "?mid b = ls b"
    by (rule fold_visit1_other [OF nb(1)])
  have "final b = Some (compute opts m pr ?mid (visit_succs G Res b) b (is_loop_header Res b) Comm)"
    by (simp add: final fold_visit1_other [OF nb(2)] visit1_def)
  also have "compute opts m pr ?mid (visit_succs G Res b) b (is_loop_header Res b) Comm
      = compute opts m pr (final(b := ls b)) (visit_succs G Res b) b (is_loop_header Res b) Comm"
  proof (rule compute_cong)
    show "?mid x = (final(b := ls b)) x" if "x \<in> set (visit_succs G Res b)" for x
      using that sub at nb(1) by auto
    show "?mid (fn_entry m F) = (final(b := ls b)) (fn_entry m F)" if "F \<in> callees m b" for F
      using assms(4) [OF that] assms(3) at by auto
  qed (simp add: mid_b)
  finally show ?thesis .
qed

text \<open>No block of the function calls back into it.\<close>

definition not_recursive :: "module_info \<Rightarrow> bb list \<Rightarrow> bool" where
  "not_recursive m V \<longleftrightarrow> (\<forall>b\<in>set V. \<forall>F\<in>callees m b. fn_entry m F \<notin> set V)"

lemma function_visit:
  assumes T: "traversable V rank (visit_succs (fi_cfg F) Res) (visit_preds (fi_cfg F) (fi_LI F) Res) (exits_of (fi_cfg F))"
    and "(card (set V) + 1) ^ 2 \<le> fuel" "distinct Comms" "not_recursive m V"
  shows "\<exists>cm'. CollListCFGVisitor_Visit opts m pr Comms fuel F (Res, loop_lists) cm = Inr cm' \<and>
    (\<forall>Comm\<in>set Comms. \<forall>b\<in>set V. get_lists cm' Comm b =
       Some (compute opts m pr ((get_lists cm' Comm)(b := get_lists (merge_lists loop_lists cm) Comm b))
               (visit_succs (fi_cfg F) Res b) b (is_loop_header Res b) Comm))"
proof -
  let ?f = "visitBB_cfg opts m pr (fi_cfg F) Res Comms"
  obtain order vis where ord: "Visit_cfg (fi_cfg F) (fi_LI F) Res ?f fuel (merge_lists loop_lists cm)
      = Inr (vis, fold (\<lambda>b. ?f b (is_loop_header Res b)) order (merge_lists loop_lists cm))"
    "distinct order" "set order = set V" "after_succs (visit_succs (fi_cfg F) Res) (rev order)"
    using visit_cfg_order [OF T assms(2), of ?f "merge_lists loop_lists cm"] by (elim exE conjE) (rule that)
  let ?cm' = "fold (\<lambda>b. ?f b (is_loop_header Res b)) order (merge_lists loop_lists cm)"
  have "get_lists ?cm' Comm b =
       Some (compute opts m pr ((get_lists ?cm' Comm)(b := get_lists (merge_lists loop_lists cm) Comm b))
               (visit_succs (fi_cfg F) Res b) b (is_loop_header Res b) Comm)"
    if c: "Comm \<in> set Comms" and b: "b \<in> set V" for Comm b
  proof -
    have ent: "fn_entry m F' \<notin> set order" if "F' \<in> callees m b" for F'
      using that b assms(4) unfolding ord(3) not_recursive_def by blast
    from fold_visit1_equation [OF ord(2) ord(4) b [folded ord(3)] ent, of opts pr Comm
        "get_lists (merge_lists loop_lists cm) Comm"]
    show ?thesis
      unfolding get_lists_fold_visit [OF assms(3) c] by simp
  qed
  moreover have "CollListCFGVisitor_Visit opts m pr Comms fuel F (Res, loop_lists) cm = Inr ?cm'"
    by (simp add: CollListCFGVisitor_Visit_def ord(1))
  ultimately show ?thesis by blast
qed

section \<open>Properties\<close>

text \<open>C33: on a function whose collapsed control flow graph is acyclic and which is not
  recursive, the collective lists the visit leaves are a solution of the equations of the
  analysis, for every communicator and every block: the list of a block is the one
  \<open>compute\<close> derives from the final lists of its successors, of the functions it calls and,
  for the header of a loop, from the list of the loop. The order in which the queue served
  the blocks does not matter.\<close>

theorem function_lists_fixpoint:
  assumes "traversable V rank (visit_succs (fi_cfg F) Res) (visit_preds (fi_cfg F) (fi_LI F) Res) (exits_of (fi_cfg F))"
    and "(card (set V) + 1) ^ 2 \<le> fuel" "distinct Comms" "not_recursive m V"
  shows "\<exists>cm'. CollListCFGVisitor_Visit opts m pr Comms fuel F (Res, loop_lists) cm = Inr cm' \<and>
    (\<forall>Comm\<in>set Comms. \<forall>b\<in>set V. get_lists cm' Comm b =
       Some (compute opts m pr ((get_lists cm' Comm)(b := get_lists (merge_lists loop_lists cm) Comm b))
               (visit_succs (fi_cfg F) Res b) b (is_loop_header Res b) Comm))"
  by (rule function_visit [OF assms])

text \<open>A program whose only call to a collective is the barrier in one branch of a
  conditional: block 0 branches to 1 and 2, block 1 calls \<open>MPI_Barrier\<close>, both go to 3.\<close>

definition branch_cfg :: cfg where
  "branch_cfg = \<lparr>succs = (\<lambda>b. if b = 0 then [1, 2] else if b = 1 then [3] else if b = 2 then [3] else []),
     preds = (\<lambda>b. if b = 1 then [0] else if b = 2 then [0] else if b = 3 then [1, 2] else []),
     blocks_of = [0, 1, 2, 3]\<rparr>"

definition branch_fn :: function_info where
  "branch_fn = \<lparr>fi_cfg = branch_cfg, fi_LI = (\<lambda>b. None), fi_loops = []\<rparr>"

definition barrier_call :: call_inst where
  "barrier_call = \<lparr>ci_id = 7, ci_callee = Some 1, ci_args = [OtherValue 9]\<rparr>"

definition branch_module :: module_info where
  "branch_module = \<lparr>fn_name = (\<lambda>f. if f = 1 then ''MPI_Barrier'' else ''main''),
     fn_entry = (\<lambda>f. if f = 0 then 0 else 100 + f),
     bb_calls = (\<lambda>b. if b = 1 then [barrier_call] else []), indirect_callees = (\<lambda>_. None)\<rparr>"

definition mpi_options :: options where
  "mpi_options = \<lparr>opt_check = MPI, opt_mpi = False, opt_omp = False, opt_upc = False, opt_cuda = False\<rparr>"

lemmas branch_defs = branch_cfg_def branch_fn_def barrier_call_def branch_module_def LAI_clear_def

lemma branch_traversable:
  "traversable [0, 1, 2, 3] (\<lambda>b. if b = 0 then 2 else if b = 3 then 0 else 1)
     (visit_succs (fi_cfg branch_fn) LAI_clear) (visit_preds (fi_cfg branch_fn) (fi_LI branch_fn) LAI_clear)
     (exits_of (fi_cfg branch_fn))"
  by (simp add: traversable_def visit_succs_def visit_preds_def is_loop_header_def exits_of_def branch_defs)

lemma branch_not_recursive: "not_recursive branch_module [0, 1, 2, 3]"
  by (simp add: not_recursive_def callees_def branch_defs)

theorem function_lists_fixpoint_witness:
  "\<exists>cm'. CollListCFGVisitor_Visit mpi_options branch_module (\<lambda>b. replicate b CHR ''x'') [Some (OtherValue 9)] 25
       branch_fn (LAI_clear, []) [] = Inr cm' \<and>
    (\<forall>Comm\<in>set [Some (OtherValue 9)]. \<forall>b\<in>set [0, 1, 2, 3]. get_lists cm' Comm b =
       Some (compute mpi_options branch_module (\<lambda>b. replicate b CHR ''x'')
               ((get_lists cm' Comm)(b := get_lists (merge_lists [] []) Comm b))
               (visit_succs (fi_cfg branch_fn) LAI_clear b) b (is_loop_header LAI_clear b) Comm))"
  by (rule function_lists_fixpoint [OF branch_traversable _ _ branch_not_recursive])
    (simp_all add: power2_eq_square)

text \<open>When two successors of a block end up with different collective lists, whichever two
  they are, the list of the block is the single marker NAVS, so every conditional above it
  that waits for it is a candidate for a warning.\<close>

theorem disagreeing_successors_navs:
  assumes "traversable V rank (visit_succs (fi_cfg F) Res) (visit_preds (fi_cfg F) (fi_LI F) Res) (exits_of (fi_cfg F))"
    and "(card (set V) + 1) ^ 2 \<le> fuel" "distinct Comms" "not_recursive m V"
    and "Comm \<in> set Comms" "b \<in> set V" "x \<in> set (visit_succs (fi_cfg F) Res b)" "y \<in> set (visit_succs (fi_cfg F) Res b)"
    and "CollListCFGVisitor_Visit opts m pr Comms fuel F (Res, loop_lists) cm = Inr cm'"
    and "toString pr (lookup_CL (get_lists cm' Comm) x) \<noteq> toString pr (lookup_CL (get_lists cm' Comm) y)"
  shows "get_lists cm' Comm b = Some (CollectiveList None [NavsElement])"
proof -
  let ?ls = "(get_lists cm' Comm)(b := get_lists (merge_lists loop_lists cm) Comm b)"
  have eq: "get_lists cm' Comm b = Some (compute opts m pr ?ls (visit_succs (fi_cfg F) Res b) b (is_loop_header Res b) Comm)"
    using function_visit [OF assms(1-4), of opts pr loop_lists cm] assms(5,6,9) by force
  have "x \<noteq> b" "y \<noteq> b"
    using traversable_succ(2) [OF assms(1,6)] assms(7,8) by blast+
  then have "NeighborsAreNAVS pr ?ls (visit_succs (fi_cfg F) Res b)"
    unfolding neighbors_iff using assms(7,8,10) by (auto simp: lookup_CL_def)
  then show ?thesis
    unfolding eq by (simp add: compute_def CreateFromBB_def extendWith_elem_def empty_CL_def)
qed

definition branch_lists :: "CommToBBToCollListMap" where
  "branch_lists = [(Some (OtherValue 9),
     [3 \<mapsto> empty_CL,
      1 \<mapsto> CollectiveList None [CollElement \<lparr>Name = ''MPI_Barrier'', Kind = ''MPI_Barrier'', par = MPI, CommArgId = 0\<rparr>],
      2 \<mapsto> empty_CL, 0 \<mapsto> CollectiveList None [NavsElement]])]"

lemma find_barrier:
  "Collective_find mpi_options ''MPI_Barrier''
   = Some \<lparr>Name = ''MPI_Barrier'', Kind = ''MPI_Barrier'', par = MPI, CommArgId = 0\<rparr>"
  "Collective_find mpi_options ''main'' = None"
  by (simp_all add: mpi_options_def Collective_find_def RegistryData_def MPIRegistry_def OMPRegistry_def
      UPCRegistry_def CUDARegistry_def enabled_def isActivated_def ActivatedParadigm_def)

lemma branch_visit:
  "CollListCFGVisitor_Visit mpi_options branch_module (\<lambda>b. replicate b CHR ''x'') [Some (OtherValue 9)] 25
       branch_fn (LAI_clear, []) [] = Inr branch_lists"
  by (simp add: CollListCFGVisitor_Visit_def Visit_cfg_def visit_succs_def visit_preds_def is_loop_header_def
      exits_of_def branch_defs EnqueueBB_def merge_lists_def visitBB_cfg_def get_lists_def put_lists_def
      compute_def NeighborsAreNAVS_def CL_eq_def lookup_CL_def empty_CL_def CreateFromBB_def act_on_call_def
      ActOnFunction_def find_barrier shouldIgnore_def getCommunicator_def extendWith_elem_def extendWith_def
      add_def branch_lists_def eval_nat_numeral)

theorem disagreeing_successors_navs_witness:
  "get_lists branch_lists (Some (OtherValue 9)) 0 = Some (CollectiveList None [NavsElement])"
  by (rule disagreeing_successors_navs [OF branch_traversable _ _ branch_not_recursive _ _ _ _ branch_visit,
        of _ _ 1 2])
    (simp_all add: power2_eq_square visit_succs_def is_loop_header_def branch_defs get_lists_def branch_lists_def
      lookup_CL_def empty_CL_def)

text \<open>Warnings of one function: what each call contributes.\<close>

definition suspicious :: "options \<Rightarrow> module_info \<Rightarrow> check_env \<Rightarrow> CommToBBToCollListMap \<Rightarrow> call_inst \<Rightarrow> Location list" where
  "suspicious opts m env cm CI = (case ci_callee CI of None \<Rightarrow> [] | Some F \<Rightarrow>
     List.map_filter (conditional_of env cm (comm_for opts (fn_name m F) CI)) (ce_IPDF env (ci_id CI)))"

lemma set_map_filter: "set (List.map_filter f xs) = {y. \<exists>x\<in>set xs. f x = Some y}"
  by (induction xs) (auto simp: List.map_filter_simps split: option.splits)

lemma conditional_of_iff:
  "conditional_of env cm c BB = Some l \<longleftrightarrow>
     HasNAVS cm c (case ce_LI env BB of Some L \<Rightarrow> header L | None \<Rightarrow> BB) \<and>
     (\<exists>Cond. getBasicBlockCond (ce_term env) BB = Some Cond \<and> ce_tainted env Cond) \<and>
     l = mk_Location (ce_term_loc env BB)"
  by (cases "getBasicBlockCond (ce_term env) BB") (auto simp: conditional_of_def)

lemma fold_check_call:
  assumes "distinct (map (\<lambda>c. ci_id (fst c)) cs)" "\<forall>c\<in>set cs. ci_id (fst c) \<notin> fst ` set Ws"
  shows "set (fold (check_call opts m env cm) cs Ws) = set Ws \<union>
    {(i, W). \<exists>CI Loc F. (CI, Loc) \<in> set cs \<and> ci_id CI = i \<and> ci_callee CI = Some F \<and>
       suspicious opts m env cm CI \<noteq> [] \<and> W = mk_Warning (fn_name m F) Loc (suspicious opts m env cm CI)}"
  using assms
proof (induction cs arbitrary: Ws)
  case (Cons c cs)
  obtain CI Loc where c: "c = (CI, Loc)" by (cases c)
  have step: "check_call opts m env cm c Ws = (case ci_callee CI of None \<Rightarrow> Ws | Some F \<Rightarrow>
      if suspicious opts m env cm CI = [] then Ws
      else Ws @ [(ci_id CI, mk_Warning (fn_name m F) Loc (suspicious opts m env cm CI))])"
    using Cons.prems(2) by (auto simp: c check_call_def suspicious_def Let_def split: option.splits)
  have "\<forall>d\<in>set cs. ci_id (fst d) \<notin> fst ` set (check_call opts m env cm c Ws)"
  proof
    fix d assume "d \<in> set cs"
    then have "ci_id (fst d) \<noteq> ci_id CI" "ci_id (fst d) \<notin> fst ` set Ws"
      using Cons.prems by (auto simp: c image_iff)
    then show "ci_id (fst d) \<notin> fst ` set (check_call opts m env cm c Ws)"
      unfolding step by (auto split: option.splits)
  qed
  note IH = Cons.IH [OF _ this]
  have "distinct (map (\<lambda>c. ci_id (fst c)) cs)" using Cons.prems(1) by simp
  note IH = IH [OF this]
  show ?case
    unfolding fold_simps(2) IH unfolding step
    by (rule set_eqI) (auto simp: c split: option.splits)
qed simp

lemma checkWarnings_reports:
  assumes "distinct (map (\<lambda>c. ci_id (fst c)) (ce_calls env))"
  shows "(i, W) \<in> set (checkWarnings opts m env cm []) \<longleftrightarrow>
    (\<exists>CI Loc F Cs. (CI, Loc) \<in> set (ce_calls env) \<and> ci_id CI = i \<and> ci_callee CI = Some F \<and>
       isCollective opts (fn_name m F) \<and> Cs \<noteq> [] \<and> W = mk_Warning (fn_name m F) Loc Cs \<and>
       set Cs = {mk_Location (ce_term_loc env BB) | BB Cond. BB \<in> set (ce_IPDF env i) \<and>
         HasNAVS cm (comm_for opts (fn_name m F) CI) (case ce_LI env BB of Some L \<Rightarrow> header L | None \<Rightarrow> BB) \<and>
         getBasicBlockCond (ce_term env) BB = Some Cond \<and> ce_tainted env Cond} \<and>
       Cs = suspicious opts m env cm CI)"
proof -
  let ?cs = "filter (\<lambda>(CI, Loc). IsaDirectCallToCollective opts m CI) (ce_calls env)"
  have d: "distinct (map (\<lambda>c. ci_id (fst c)) ?cs)"
    using assms by (rule distinct_map_filter)
  have loc: "set (suspicious opts m env cm CI) = {mk_Location (ce_term_loc env BB) | BB Cond.
      BB \<in> set (ce_IPDF env (ci_id CI)) \<and>
      HasNAVS cm (comm_for opts (fn_name m F) CI) (case ce_LI env BB of Some L \<Rightarrow> header L | None \<Rightarrow> BB) \<and>
      getBasicBlockCond (ce_term env) BB = Some Cond \<and> ce_tainted env Cond}" if "ci_callee CI = Some F" for CI F
    unfolding suspicious_def that option.case set_map_filter conditional_of_iff by blast
  have "(i, W) \<in> set (checkWarnings opts m env cm []) \<longleftrightarrow>
    (\<exists>CI Loc F. (CI, Loc) \<in> set ?cs \<and> ci_id CI = i \<and> ci_callee CI = Some F \<and>
       suspicious opts m env cm CI \<noteq> [] \<and> W = mk_Warning (fn_name m F) Loc (suspicious opts m env cm CI))"
    unfolding checkWarnings_def using fold_check_call [OF d, of "[]"] by simp
  also have "\<dots> \<longleftrightarrow> (\<exists>CI Loc F. (CI, Loc) \<in> set (ce_calls env) \<and> ci_id CI = i \<and> ci_callee CI = Some F \<and>
       isCollective opts (fn_name m F) \<and>
       suspicious opts m env cm CI \<noteq> [] \<and> W = mk_Warning (fn_name m F) Loc (suspicious opts m env cm CI))"
  proof -
    have "(CI, Loc) \<in> set ?cs \<and> ci_id CI = i \<and> ci_callee CI = Some F \<longleftrightarrow>
        (CI, Loc) \<in> set (ce_calls env) \<and> ci_id CI = i \<and> ci_callee CI = Some F \<and> isCollective opts (fn_name m F)"
      for CI Loc F
      by (auto simp: IsaDirectCallToCollective_def)
    then show ?thesis by blast
  qed
  finally show ?thesis
    using loc by blast
qed

text \<open>C34: \<open>checkWarnings\<close> reports a call exactly when it is a direct call to a collective of the
  activated paradigm and some block of its inter-procedural iterated postdominance frontier
  has a list that starts with NAVS, for the communicator of the call or, when it has none,
  for some communicator, and ends in a tainted condition. One warning is issued per call, and its
  conditionals are the locations of exactly those blocks.\<close>

theorem checkWarnings_iff:
  assumes "distinct (map (\<lambda>c. ci_id (fst c)) (ce_calls env))"
  shows "(i, W) \<in> set (checkWarnings opts m env cm []) \<longleftrightarrow>
    (\<exists>CI Loc F Cs. (CI, Loc) \<in> set (ce_calls env) \<and> ci_id CI = i \<and> ci_callee CI = Some F \<and>
       isCollective opts (fn_name m F) \<and> Cs \<noteq> [] \<and> W = mk_Warning (fn_name m F) Loc Cs \<and>
       set Cs = {mk_Location (ce_term_loc env BB) | BB Cond. BB \<in> set (ce_IPDF env i) \<and>
         HasNAVS cm (comm_for opts (fn_name m F) CI) (case ce_LI env BB of Some L \<Rightarrow> header L | None \<Rightarrow> BB) \<and>
         getBasicBlockCond (ce_term env) BB = Some Cond \<and> ce_tainted env Cond} \<and>
       Cs = suspicious opts m env cm CI)"
  by (rule checkWarnings_reports [OF assms])

definition branch_env :: check_env where
  "branch_env = \<lparr>ce_calls = [(barrier_call, Some (''a.c'', 12))], ce_LI = (\<lambda>b. None),
     ce_term = (\<lambda>b. if b = 0 then BranchInst (Some (OtherValue 5)) else OtherTerm),
     ce_term_loc = (\<lambda>b. if b = 0 then Some (''a.c'', 11) else None),
     ce_IPDF = (\<lambda>c. [0]), ce_tainted = (\<lambda>v. v = OtherValue 5)\<rparr>"

theorem checkWarnings_iff_witness:
  "(7, mk_Warning ''MPI_Barrier'' (Some (''a.c'', 12)) [\<lparr>Filename = ''a.c'', Line = 11\<rparr>])
     \<in> set (checkWarnings mpi_options branch_module branch_env branch_lists [])"
proof -
  have d: "distinct (map (\<lambda>c. ci_id (fst c)) (ce_calls branch_env))" by (simp add: branch_env_def)
  have s: "suspicious mpi_options branch_module branch_env branch_lists barrier_call
      = [\<lparr>Filename = ''a.c'', Line = 11\<rparr>]"
    by (simp add: suspicious_def branch_env_def barrier_call_def branch_module_def conditional_of_def
        List.map_filter_simps HasNAVS_def branch_lists_def lookup_CL_def getBasicBlockCond_def mk_Location_def
        comm_for_def find_barrier getCommunicator_def)
  show ?thesis
    unfolding checkWarnings_iff [OF d]
    by (rule exI [of _ barrier_call], rule exI [of _ "Some (''a.c'', 12)"], rule exI [of _ 1],
        rule exI [of _ "[\<lparr>Filename = ''a.c'', Line = 11\<rparr>]"])
      (simp add: s, simp add: branch_env_def barrier_call_def branch_module_def isCollective_def find_barrier
        HasNAVS_def branch_lists_def lookup_CL_def getBasicBlockCond_def mk_Location_def comm_for_def
        getCommunicator_def)
qed

lemma comms_of_calls_set:
  "comms_of_calls Coll cs Res = Some Res' \<Longrightarrow>
   set Res' = set Res \<union> {x. \<exists>CI\<in>set cs. getCommunicator Coll CI = Some x}"
  by (induction cs arbitrary: Res) (auto simp: set_vector_insert_def split: option.splits if_splits)

text \<open>The communicators a function of the module contributes.\<close>

definition fn_comms :: "options \<Rightarrow> module_fn \<Rightarrow> val option set" where
  "fn_comms opts F = {x. \<exists>Coll CI. Collective_find opts (mf_name F) = Some Coll \<and> par Coll = MPI \<and>
      0 \<le> CommArgId Coll \<and> CI \<in> set (mf_callers F) \<and> getCommunicator Coll CI = Some x}"

lemma comm_run_set:
  "MPICommAnalysis_run opts M Res = Some Res' \<Longrightarrow> set Res' = set Res \<union> (\<Union>F\<in>set M. fn_comms opts F)"
proof (induction M arbitrary: Res)
  case (Cons F M)
  show ?case
  proof (cases "Collective_find opts (mf_name F)")
    case None
    with Cons.IH [of Res] Cons.prems show ?thesis by (simp add: fn_comms_def)
  next
    case (Some Coll)
    show ?thesis
    proof (cases "par Coll \<noteq> MPI \<or> CommArgId Coll < 0")
      case True
      with Some Cons.IH [of Res] Cons.prems show ?thesis by (auto simp: fn_comms_def)
    next
      case False
      with Some Cons.prems obtain Res1 where r: "comms_of_calls Coll (mf_callers F) Res = Some Res1"
        "MPICommAnalysis_run opts M Res1 = Some Res'"
        by (auto split: option.splits)
      from False Some have "fn_comms opts F = {x. \<exists>CI\<in>set (mf_callers F). getCommunicator Coll CI = Some x}"
        by (auto simp: fn_comms_def)
      with Cons.IH [OF r(2)] comms_of_calls_set [OF r(1)] show ?thesis by auto
    qed
  qed
qed simp

text \<open>The communicators the analysis distinguishes are exactly the values passed at the
  communicator position of a call to an MPI collective, seen through loads; a collective
  without communicator, such as \<open>MPI_Finalize\<close>, adds none, and the null communicator
  never appears.\<close>

theorem communicators_exact:
  assumes "MPICommAnalysis_run opts M [] = Some Res"
  shows "x \<in> set Res \<longleftrightarrow> (\<exists>F\<in>set M. \<exists>Coll. \<exists>CI\<in>set (mf_callers F). \<exists>v.
      Collective_find opts (mf_name F) = Some Coll \<and> par Coll = MPI \<and> 0 \<le> CommArgId Coll \<and>
      nat (CommArgId Coll) < length (ci_args CI) \<and>
      strip_loads (ci_args CI ! nat (CommArgId Coll)) = OtherValue v \<and> x = Some (OtherValue v))"
proof -
  have *: "getCommunicator Coll CI = Some x \<longleftrightarrow> nat (CommArgId Coll) < length (ci_args CI) \<and>
      (\<exists>v. strip_loads (ci_args CI ! nat (CommArgId Coll)) = OtherValue v \<and> x = Some (OtherValue v))"
    if "0 \<le> CommArgId Coll" for Coll CI
    using that strip_loads_no_load [of "ci_args CI ! nat (CommArgId Coll)"] by (auto simp: getCommunicator_def)
  show ?thesis
    unfolding comm_run_set [OF assms] fn_comms_def using * by (simp add: Bex_def) metis
qed

theorem communicators_exact_witness:
  "Some (OtherValue 9) \<in> set [Some (OtherValue 9)]"
  using communicators_exact [of mpi_options "[\<lparr>mf_name = ''MPI_Barrier'', mf_callers = [barrier_call]\<rparr>,
      \<lparr>mf_name = ''main'', mf_callers = []\<rparr>]" "[Some (OtherValue 9)]" "Some (OtherValue 9)"]
  by (simp add: find_barrier getCommunicator_def barrier_call_def set_vector_insert_def)

end
