(* ===== verification/Static_Utils.thy ===== *)
theory Static_Utils
  imports Worklist Coll_Analysis
begin

text \<open>
  Control-flow helpers of the static analysis (\<open>src/aSSA/Utils.cpp\<close>): the
  post-dominance frontier and its iteration, both with the caches that live for
  the whole run, the conditions of a frontier, the single returned value of a
  function and the search for a return instruction.

  The post-dominator tree is LLVM's: a node has a block and children, and a
  block may have no node. \<open>wf_pdt\<close> states what the code relies on, that the
  tree is a tree of post-dominators. Sets of blocks are lists in the order of
  addresses. Following the null node of a block that is not in the tree is the
  outcome \<open>None\<close>.
\<close>

section \<open>The post-dominator tree\<close>

datatype dnode = DNode nat "dnode list"

record pdt =
  node_of :: "nat \<Rightarrow> dnode option"
  idom_of :: "nat \<Rightarrow> nat option"

fun set_add :: "nat \<Rightarrow> nat list \<Rightarrow> nat list" where
  "set_add x [] = [x]"
| "set_add x (y # ys) = (if x < y then x # y # ys else if x = y then y # ys else y # set_add x ys)"

definition to_set :: "nat list \<Rightarrow> nat list" where
  "to_set xs = fold set_add xs []"

type_synonym block_cache = "nat \<Rightarrow> nat list option"

fun value_id :: "val \<Rightarrow> nat" where
  "value_id (LoadInst i v) = i"
| "value_id (OtherValue i) = i"

section \<open>The frontier\<close>

text \<open>The predecessors of the block that it does not immediately post-dominate, then the
  frontiers of the children under the same condition.\<close>

fun pdf_node :: "pdt \<Rightarrow> cfg \<Rightarrow> dnode \<Rightarrow> block_cache \<Rightarrow> nat list \<times> block_cache" where
  "pdf_node PDT G (DNode BB kids) PdfCache =
     (case PdfCache BB of
        Some s \<Rightarrow> (s, PdfCache)
      | None \<Rightarrow>
          let own = filter (\<lambda>p. node_of PDT p \<noteq> None \<and> idom_of PDT p \<noteq> Some BB \<and> p \<noteq> BB) (preds G BB);
              r = fold (\<lambda>IDominee st.
                 let d = pdf_node PDT G IDominee (snd st)
                 in (fst st @ filter (\<lambda>y. idom_of PDT y \<noteq> Some BB \<and> y \<noteq> BB) (fst d), snd d)) kids (own, PdfCache)
          in (fst r, (snd r)(BB \<mapsto> to_set (fst r))))"

definition postdominanceFrontier :: "pdt \<Rightarrow> cfg \<Rightarrow> nat \<Rightarrow> block_cache \<Rightarrow> (nat list \<times> block_cache) option" where
  "postdominanceFrontier PDT G BB c =
     (case c BB of
        Some s \<Rightarrow> Some (s, c)
      | None \<Rightarrow> (case node_of PDT BB of None \<Rightarrow> None | Some n \<Rightarrow> Some (pdf_node PDT G n c)))"

section \<open>The iterated frontier\<close>

text \<open>One round adds the frontiers of the blocks to compute; those that are new are the blocks
  of the next round.\<close>

definition insert_new :: "nat list \<Rightarrow> nat list \<times> nat list \<Rightarrow> nat list \<times> nat list" where
  "insert_new Tmp = fold (\<lambda>J (S, ToComputeTmp).
     if J \<in> set S then (S, ToComputeTmp) else (set_add J S, set_add J ToComputeTmp)) Tmp"

fun ipdf_round ::
  "pdt \<Rightarrow> cfg \<Rightarrow> nat list \<Rightarrow> nat list \<times> nat list \<Rightarrow> block_cache \<Rightarrow> ((nat list \<times> nat list) \<times> block_cache) option" where
  "ipdf_round PDT G [] st c = Some (st, c)"
| "ipdf_round PDT G (I # ToCompute) st c =
     (case postdominanceFrontier PDT G I c of
        None \<Rightarrow> None
      | Some (Tmp, c') \<Rightarrow> ipdf_round PDT G ToCompute (insert_new Tmp st) c')"

text \<open>The loop ends after a round that has added nothing.\<close>

fun ipdf_loop ::
  "pdt \<Rightarrow> cfg \<Rightarrow> nat \<Rightarrow> nat list \<Rightarrow> nat list \<Rightarrow> block_cache \<Rightarrow> (nat list \<times> block_cache) option" where
  "ipdf_loop PDT G 0 S ToCompute c = None"
| "ipdf_loop PDT G (Suc k) S ToCompute c =
     (case ipdf_round PDT G ToCompute (S, []) c of
        None \<Rightarrow> None
      | Some ((S', ToComputeTmp), c') \<Rightarrow>
          if ToComputeTmp = [] then Some (S', c') else ipdf_loop PDT G k S' ToComputeTmp c')"

record caches =
  PdfCache :: block_cache
  IpdfCache :: block_cache

definition iterated_postdominance_frontier :: "pdt \<Rightarrow> cfg \<Rightarrow> nat \<Rightarrow> nat \<Rightarrow> caches \<Rightarrow> (nat list \<times> caches) option" where
  "iterated_postdominance_frontier PDT G fuel BB c =
     (case IpdfCache c BB of
        Some s \<Rightarrow> Some (s, c)
      | None \<Rightarrow>
          (case postdominanceFrontier PDT G BB (PdfCache c) of
             None \<Rightarrow> None
           | Some (IPDF, p) \<Rightarrow>
               if IPDF = [] then Some ([], c\<lparr>PdfCache := p\<rparr>)
               else (case ipdf_loop PDT G fuel (to_set IPDF) (to_set IPDF) p of
                  None \<Rightarrow> None
                | Some (S, p') \<Rightarrow>
                    Some (IPDF @ S, c\<lparr>PdfCache := p', IpdfCache := (IpdfCache c)(BB \<mapsto> to_set (IPDF @ S))\<rparr>))))"

definition computeIPDFPredicates ::
  "pdt \<Rightarrow> cfg \<Rightarrow> (nat \<Rightarrow> terminator) \<Rightarrow> nat \<Rightarrow> nat \<Rightarrow> caches \<Rightarrow> (nat list \<times> caches) option" where
  "computeIPDFPredicates PDT G term fuel BB c =
     (case iterated_postdominance_frontier PDT G fuel BB c of
        None \<Rightarrow> None
      | Some (IPDF, c') \<Rightarrow> Some (to_set (map value_id (List.map_filter (getBasicBlockCond term) IPDF)), c'))"

section \<open>Returns\<close>

text \<open>The returned values of the return instructions in program order; no value is the null
  pointer. More than one non-null value, or none in the end, fails an assertion.\<close>

fun return_loop :: "nat option list \<Rightarrow> nat option \<Rightarrow> nat option option" where
  "return_loop [] Ret = Some Ret"
| "return_loop (r # rs) Ret = (if Ret \<noteq> None then None else return_loop rs r)"

definition getReturnValue :: "nat option list \<Rightarrow> nat option" where
  "getReturnValue rets = (case return_loop rets None of None \<Rightarrow> None | Some Ret \<Rightarrow> Ret)"

definition functionDoesNotRet :: "cfg \<Rightarrow> (nat \<Rightarrow> bool) \<Rightarrow> nat \<Rightarrow> nat \<Rightarrow> bool option" where
  "functionDoesNotRet G has_ret fuel entry =
     (case explore has_ret (push_new (succs G)) fuel [entry] [] of
        None \<Rightarrow> None
      | Some (Found BB) \<Rightarrow> Some False
      | Some (Exhausted Visited) \<Rightarrow> Some True)"

definition getBBSetIntersectionSize :: "nat list \<Rightarrow> nat list \<Rightarrow> nat" where
  "getBBSetIntersectionSize S1 S2 = fold (\<lambda>BB Ret. if BB \<in> set S2 then Suc Ret else Ret) S1 0"

section \<open>Facts on trees\<close>

lemma set_set_add [simp]: "set (set_add x ys) = insert x (set ys)"
  by (induction ys) auto

lemma sorted_set_add: "sorted_wrt (<) ys \<Longrightarrow> sorted_wrt (<) (set_add x ys)"
  by (induction ys) auto

lemma sorted_fold_add: "sorted_wrt (<) ys \<Longrightarrow> sorted_wrt (<) (fold set_add xs ys)"
  by (induction xs arbitrary: ys) (auto intro: sorted_set_add)

lemma set_fold_set_add [simp]: "set (fold set_add xs ys) = set xs \<union> set ys"
  by (induction xs arbitrary: ys) auto

lemma set_to_set [simp]: "set (to_set xs) = set xs"
  by (simp add: to_set_def)

fun blocks_in :: "dnode \<Rightarrow> nat list" where
  "blocks_in (DNode b kids) = b # concat (map blocks_in kids)"

fun root_block :: "dnode \<Rightarrow> nat" where
  "root_block (DNode b kids) = b"

fun child_nodes :: "dnode \<Rightarrow> dnode list" where
  "child_nodes (DNode b kids) = kids"

text \<open>The tree is one of post-dominators: a node is found under its block, the blocks whose
  immediate post-dominator is a block are those of its children, each block occurs once,
  and the immediate post-dominator of a block is above each of its successors.\<close>

definition wf_pdt :: "pdt \<Rightarrow> cfg \<Rightarrow> bool" where
  "wf_pdt PDT G \<longleftrightarrow>
     (\<forall>b n. node_of PDT b = Some n \<longrightarrow> root_block n = b \<and> distinct (blocks_in n) \<and>
        (\<forall>k\<in>set (child_nodes n). node_of PDT (root_block k) = Some k) \<and>
        (\<forall>y. idom_of PDT y = Some b \<longleftrightarrow> y \<in> root_block ` set (child_nodes n))) \<and>
     (\<forall>x y z n. y \<in> set (preds G x) \<longrightarrow> idom_of PDT y = Some z \<longrightarrow> node_of PDT z = Some n \<longrightarrow> x \<in> set (blocks_in n))"

definition frontier :: "pdt \<Rightarrow> cfg \<Rightarrow> dnode \<Rightarrow> nat set" where
  "frontier PDT G n = {y. node_of PDT y \<noteq> None \<and> y \<notin> set (blocks_in n) \<and> (\<exists>x\<in>set (blocks_in n). y \<in> set (preds G x))}"

lemma wf_pdtD:
  assumes "wf_pdt PDT G"
  shows "node_of PDT b = Some n \<Longrightarrow> root_block n = b" "node_of PDT b = Some n \<Longrightarrow> distinct (blocks_in n)"
    "node_of PDT b = Some n \<Longrightarrow> k \<in> set (child_nodes n) \<Longrightarrow> node_of PDT (root_block k) = Some k"
    "node_of PDT b = Some n \<Longrightarrow> idom_of PDT y = Some b \<longleftrightarrow> y \<in> root_block ` set (child_nodes n)"
    "y \<in> set (preds G x) \<Longrightarrow> idom_of PDT y = Some z \<Longrightarrow> node_of PDT z = Some n \<Longrightarrow> x \<in> set (blocks_in n)"
  using assms unfolding wf_pdt_def by blast+

lemma root_in [simp]: "root_block n \<in> set (blocks_in n)"
  by (cases n) simp

lemma blocks_of_node:
  "wf_pdt PDT G \<Longrightarrow> node_of PDT b = Some n \<Longrightarrow> z \<in> set (blocks_in n) \<Longrightarrow>
   \<exists>m. node_of PDT z = Some m \<and> set (blocks_in m) \<subseteq> set (blocks_in n)"
proof (induction n arbitrary: b)
  case (DNode c kids)
  have b: "b = c" using wf_pdtD(1) [OF DNode.prems(1,2)] by simp
  show ?case
  proof (cases "z = c")
    case True
    with DNode.prems b show ?thesis by auto
  next
    case False
    with DNode.prems(3) obtain k where k: "k \<in> set kids" "z \<in> set (blocks_in k)" by auto
    have "node_of PDT (root_block k) = Some k" using wf_pdtD(3) [OF DNode.prems(1,2)] k(1) by simp
    from DNode.IH [OF k(1) DNode.prems(1) this k(2)] k(1) show ?thesis by fastforce
  qed
qed

section \<open>The frontier is exact\<close>

lemma kid_unique:
  assumes "distinct (blocks_in (DNode b kids))" "k \<in> set kids" "l \<in> set kids" "x \<in> set (blocks_in k)" "x \<in> set (blocks_in l)"
  shows "k = l"
proof (rule ccontr)
  assume "k \<noteq> l"
  with assms(2,3) obtain as bs cs where "kids = as @ k # bs @ l # cs \<or> kids = as @ l # bs @ k # cs"
    by (metis append_Cons append_assoc split_list_first in_set_conv_decomp set_ConsD split_list Un_iff set_append)
  with assms(1,4,5) show False by auto
qed

lemma idom_inside:
  "wf_pdt PDT G \<Longrightarrow> node_of PDT b = Some n \<Longrightarrow> y \<in> set (blocks_in n) \<Longrightarrow> y \<noteq> root_block n \<Longrightarrow>
   \<exists>z m. idom_of PDT y = Some z \<and> node_of PDT z = Some m \<and> set (blocks_in m) \<subseteq> set (blocks_in n)"
proof (induction n arbitrary: b)
  case (DNode c kids)
  have b: "b = c" using wf_pdtD(1) [OF DNode.prems(1,2)] by simp
  obtain k where k: "k \<in> set kids" "y \<in> set (blocks_in k)" using DNode.prems(3,4) by auto
  have n: "node_of PDT (root_block k) = Some k" using wf_pdtD(3) [OF DNode.prems(1,2)] k(1) by simp
  show ?case
  proof (cases "y = root_block k")
    case True
    then have "idom_of PDT y = Some b" using wf_pdtD(4) [OF DNode.prems(1,2), of y] k(1) by simp
    with DNode.prems(2) show ?thesis by blast
  next
    case False
    from DNode.IH [OF k(1) DNode.prems(1) n k(2) this] k(1) show ?thesis by fastforce
  qed
qed

lemma frontier_node:
  assumes wf: "wf_pdt PDT G" and n: "node_of PDT b = Some (DNode b kids)"
  shows "frontier PDT G (DNode b kids) =
    {y. node_of PDT y \<noteq> None \<and> idom_of PDT y \<noteq> Some b \<and> y \<noteq> b \<and>
        (y \<in> set (preds G b) \<or> (\<exists>k\<in>set kids. y \<in> frontier PDT G k))}" (is "_ = ?R")
proof (rule set_eqI, rule iffI)
  note d = wf_pdtD(2) [OF wf n] and idom = wf_pdtD(4) [OF wf n, simplified]
  fix y
  assume y: "y \<in> frontier PDT G (DNode b kids)"
  have "y \<notin> root_block ` set kids" using y by (auto simp: frontier_def)
  then have "idom_of PDT y \<noteq> Some b" using idom [of y] by simp
  with y show "y \<in> ?R" by (auto simp: frontier_def)
next
  note d = wf_pdtD(2) [OF wf n] and idom = wf_pdtD(4) [OF wf n, simplified]
  fix y
  assume y: "y \<in> ?R"
  obtain x where x: "x \<in> set (blocks_in (DNode b kids))" "y \<in> set (preds G x)"
    "x = b \<or> (\<exists>k\<in>set kids. x \<in> set (blocks_in k) \<and> y \<notin> set (blocks_in k))"
    using y by (auto simp: frontier_def)
  have "y \<notin> set (blocks_in (DNode b kids))"
  proof
    assume "y \<in> set (blocks_in (DNode b kids))"
    with y obtain l where l: "l \<in> set kids" "y \<in> set (blocks_in l)" by auto
    obtain z m where z: "idom_of PDT y = Some z" "node_of PDT z = Some m" "set (blocks_in m) \<subseteq> set (blocks_in l)"
    proof -
      have "y \<noteq> root_block l" using y idom [of y] l(1) by auto
      from idom_inside [OF wf wf_pdtD(3) [OF wf n, simplified, OF l(1)] l(2) this] that show thesis by blast
    qed
    have "x \<in> set (blocks_in m)" by (rule wf_pdtD(5) [OF wf x(2) z(1,2)])
    then have xl: "x \<in> set (blocks_in l)" using z(3) by blast
    then have "x \<noteq> b" using d l(1) by auto
    with x(3) obtain k where "k \<in> set kids" "x \<in> set (blocks_in k)" "y \<notin> set (blocks_in k)" by blast
    with kid_unique [OF d _ l(1) _ xl] l(2) show False by blast
  qed
  with x y show "y \<in> frontier PDT G (DNode b kids)" by (auto simp: frontier_def)
qed

text \<open>A cache is right when it holds frontiers only.\<close>

definition pdf_cache_ok :: "pdt \<Rightarrow> cfg \<Rightarrow> block_cache \<Rightarrow> bool" where
  "pdf_cache_ok PDT G c \<longleftrightarrow> (\<forall>b s. c b = Some s \<longrightarrow> (\<exists>n. node_of PDT b = Some n \<and> set s = frontier PDT G n))"

lemma pdf_cache_okD:
  "pdf_cache_ok PDT G c \<Longrightarrow> c b = Some s \<Longrightarrow> node_of PDT b = Some n \<Longrightarrow> set s = frontier PDT G n"
  by (force simp: pdf_cache_ok_def)

lemma pdf_node_exact:
  "wf_pdt PDT G \<Longrightarrow> node_of PDT (root_block n) = Some n \<Longrightarrow> pdf_cache_ok PDT G c \<Longrightarrow>
   set (fst (pdf_node PDT G n c)) = frontier PDT G n \<and> pdf_cache_ok PDT G (snd (pdf_node PDT G n c))"
proof (induction n arbitrary: c)
  case (DNode b kids)
  show ?case
  proof (cases "c b")
    case (Some s)
    with pdf_cache_okD [OF DNode.prems(3) Some, of "DNode b kids"] DNode.prems show ?thesis by simp
  next
    case None
    let ?keep = "\<lambda>y. idom_of PDT y \<noteq> Some b \<and> y \<noteq> b"
    define own where "own = filter (\<lambda>p. node_of PDT p \<noteq> None \<and> ?keep p) (preds G b)"
    define f where "f = (\<lambda>IDominee (st :: nat list \<times> block_cache). let d = pdf_node PDT G IDominee (snd st)
      in (fst st @ filter ?keep (fst d), snd d))"
    have run: "set ks \<subseteq> set kids \<Longrightarrow> pdf_cache_ok PDT G (snd st) \<Longrightarrow>
        set (fst (fold f ks st)) = set (fst st) \<union> {y. ?keep y \<and> (\<exists>k\<in>set ks. y \<in> frontier PDT G k)} \<and>
        pdf_cache_ok PDT G (snd (fold f ks st))" for ks st
    proof (induction ks arbitrary: st)
      case (Cons k ks)
      have k: "k \<in> set kids" "node_of PDT (root_block k) = Some k"
        using Cons.prems(1) wf_pdtD(3) [OF DNode.prems(1,2)] by auto
      have "set (fst (pdf_node PDT G k (snd st))) = frontier PDT G k \<and> pdf_cache_ok PDT G (snd (pdf_node PDT G k (snd st)))"
        by (rule DNode.IH [OF k(1) DNode.prems(1) k(2) Cons.prems(2)])
      with Cons.IH [of "f k st"] Cons.prems(1) show ?case by (auto simp: f_def Let_def)
    qed auto
    define r where "r = fold f kids (own, c)"
    have eq: "pdf_node PDT G (DNode b kids) c = (fst r, (snd r)(b \<mapsto> to_set (fst r)))"
      using None by (simp add: r_def f_def own_def Let_def)
    have front: "set (fst r) = frontier PDT G (DNode b kids)"
      using run [of kids "(own, c)"] DNode.prems(2,3) frontier_node [OF DNode.prems(1), of b kids]
      by (auto simp: r_def own_def frontier_def)
    moreover have "pdf_cache_ok PDT G ((snd r)(b \<mapsto> to_set (fst r)))"
      using run [of kids "(own, c)"] DNode.prems(2,3) front by (auto simp: r_def pdf_cache_ok_def)
    ultimately show ?thesis unfolding eq prod.sel by (rule conjI)
  qed
qed

lemma frontier_exact:
  assumes "wf_pdt PDT G" "pdf_cache_ok PDT G c" "node_of PDT b = Some n"
  shows "\<exists>s c'. postdominanceFrontier PDT G b c = Some (s, c') \<and> set s = frontier PDT G n \<and> pdf_cache_ok PDT G c'"
proof (cases "c b")
  case None
  have "node_of PDT (root_block n) = Some n" using wf_pdtD(1) [OF assms(1,3)] assms(3) by simp
  from pdf_node_exact [OF assms(1) this assms(2)] None assms(3) show ?thesis
    by (cases "pdf_node PDT G n c") (simp add: postdominanceFrontier_def)
next
  case (Some s)
  with pdf_cache_okD [OF assms(2) Some assms(3)] assms(2) show ?thesis
    by (simp add: postdominanceFrontier_def)
qed

section \<open>The iterated frontier is exact\<close>

definition frontier_rel :: "pdt \<Rightarrow> cfg \<Rightarrow> (nat \<times> nat) set" where
  "frontier_rel PDT G = {(x, y). \<exists>n. node_of PDT x = Some n \<and> y \<in> frontier PDT G n}"

lemma frontier_has_node: "(x, y) \<in> frontier_rel PDT G \<Longrightarrow> node_of PDT y \<noteq> None"
  by (auto simp: frontier_rel_def frontier_def)

lemma insert_new_sets:
  "set (fst (insert_new Tmp (S, T))) = set S \<union> set Tmp \<and> set (snd (insert_new Tmp (S, T))) = set T \<union> (set Tmp - set S)"
proof (induction Tmp arbitrary: S T)
  case (Cons J Tmp)
  show ?case
  proof (cases "J \<in> set S")
    case True
    with Cons.IH [of S T] show ?thesis by (auto simp: insert_new_def)
  next
    case False
    with Cons.IH [of "set_add J S" "set_add J T"] show ?thesis by (auto simp: insert_new_def)
  qed
qed (simp add: insert_new_def)

lemma ipdf_round_sets:
  assumes "wf_pdt PDT G" "pdf_cache_ok PDT G c" "\<And>x. x \<in> set ToC \<Longrightarrow> node_of PDT x \<noteq> None"
  shows "\<exists>S' T' c'. ipdf_round PDT G ToC (S, T) c = Some ((S', T'), c') \<and> pdf_cache_ok PDT G c' \<and>
    set S' = set S \<union> frontier_rel PDT G `` set ToC \<and> set T' = set T \<union> (set S' - set S)"
  using assms(2,3)
proof (induction ToC arbitrary: S T c)
  case (Cons I ToC)
  obtain n where n: "node_of PDT I = Some n" using Cons.prems(2) by fastforce
  obtain s c1 where f: "postdominanceFrontier PDT G I c = Some (s, c1)" "set s = frontier PDT G n" "pdf_cache_ok PDT G c1"
    using frontier_exact [OF assms(1) Cons.prems(1) n] by blast
  have img: "frontier_rel PDT G `` set (I # ToC) = set s \<union> frontier_rel PDT G `` set ToC"
    using n f(2) by (auto simp: frontier_rel_def)
  obtain S1 T1 where i: "insert_new s (S, T) = (S1, T1)" by force
  then have st: "set S1 = set S \<union> set s" "set T1 = set T \<union> (set s - set S)"
    using insert_new_sets [of s S T] by simp_all
  from Cons.IH [OF f(3), of S1 T1] Cons.prems(2) obtain S' T' c' where
    r: "ipdf_round PDT G ToC (S1, T1) c1 = Some ((S', T'), c')" "pdf_cache_ok PDT G c'"
    "set S' = set S1 \<union> frontier_rel PDT G `` set ToC" "set T' = set T1 \<union> (set S' - set S1)" by auto
  have "set S' = set S \<union> frontier_rel PDT G `` set (I # ToC)" "set T' = set T \<union> (set S' - set S)"
    unfolding img using st r(3,4) by blast+
  then show ?case using f(1) i r(1,2) by simp
qed simp

lemma ipdf_loop_exact:
  assumes wf: "wf_pdt PDT G" and U: "finite U" "\<And>x. node_of PDT x \<noteq> None \<Longrightarrow> x \<in> U"
  shows "pdf_cache_ok PDT G c \<Longrightarrow> set ToC \<subseteq> set S \<Longrightarrow> (\<And>x. x \<in> set S \<Longrightarrow> node_of PDT x \<noteq> None) \<Longrightarrow>
    frontier_rel PDT G `` (set S - set ToC) \<subseteq> set S \<Longrightarrow> card (U - set S) < k \<Longrightarrow>
    \<exists>S' c'. ipdf_loop PDT G k S ToC c = Some (S', c') \<and> pdf_cache_ok PDT G c' \<and> set S' = (frontier_rel PDT G)\<^sup>* `` set S"
proof (induction k arbitrary: S ToC c)
  case (Suc k)
  let ?R = "frontier_rel PDT G"
  obtain S' T' c' where r: "ipdf_round PDT G ToC (S, []) c = Some ((S', T'), c')" "pdf_cache_ok PDT G c'"
    "set S' = set S \<union> ?R `` set ToC" "set T' = set S' - set S"
  proof -
    have "node_of PDT x \<noteq> None" if "x \<in> set ToC" for x using that Suc.prems(2,3) by blast
    then have "\<exists>S' T' c'. ipdf_round PDT G ToC (S, []) c = Some ((S', T'), c') \<and> pdf_cache_ok PDT G c' \<and>
        set S' = set S \<union> ?R `` set ToC \<and> set T' = set [] \<union> (set S' - set S)"
      by (rule ipdf_round_sets [OF wf Suc.prems(1)])
    with that show thesis by fastforce
  qed
  have cl: "?R `` (set S' - set T') \<subseteq> set S'" using r(3,4) Suc.prems(2,4) by blast
  have node: "node_of PDT x \<noteq> None" if "x \<in> set S'" for x
    using that r(3) Suc.prems(3) frontier_has_node by blast
  have up: "?R\<^sup>* `` set S' = ?R\<^sup>* `` set S"
  proof
    show "?R\<^sup>* `` set S' \<subseteq> ?R\<^sup>* `` set S"
      using r(3) Suc.prems(2) by (auto intro: converse_rtrancl_into_rtrancl)
    show "?R\<^sup>* `` set S \<subseteq> ?R\<^sup>* `` set S'" using r(3) by blast
  qed
  show ?case
  proof (cases "T' = []")
    case True
    then have "?R `` set S' \<subseteq> set S'" using cl by simp
    then have "?R\<^sup>* `` set S' = set S'" by (rule Image_closed_trancl)
    with True r(1,2) up show ?thesis by auto
  next
    case False
    then obtain a where a: "a \<in> set T'" by (cases T') auto
    then have S': "a \<in> set S'" "a \<notin> set S" using r(4) by simp_all
    have "a \<in> U" by (rule U(2) [OF node [OF S'(1)]])
    with S' have "U - set S' \<subset> U - set S" using r(3) by blast
    then have "card (U - set S') < card (U - set S)" by (rule psubset_card_mono [rotated]) (simp add: U(1))
    then have card: "card (U - set S') < k" using Suc.prems(5) by linarith
    have "set T' \<subseteq> set S'" using r(4) by blast
    from Suc.IH [OF r(2) this node cl card] r(1) False show ?thesis unfolding up by simp
  qed
qed simp

definition caches_ok :: "pdt \<Rightarrow> cfg \<Rightarrow> caches \<Rightarrow> bool" where
  "caches_ok PDT G c \<longleftrightarrow> pdf_cache_ok PDT G (PdfCache c) \<and>
     (\<forall>b s. IpdfCache c b = Some s \<longrightarrow> set s = (frontier_rel PDT G)\<^sup>+ `` {b})"

lemma ipdf_exact:
  assumes wf: "wf_pdt PDT G" and c: "caches_ok PDT G c" and n: "node_of PDT b = Some n"
    and U: "\<And>x. node_of PDT x \<noteq> None \<Longrightarrow> x \<in> set bs" and k: "length bs < fuel"
  shows "\<exists>s c'. iterated_postdominance_frontier PDT G fuel b c = Some (s, c') \<and>
    set s = (frontier_rel PDT G)\<^sup>+ `` {b} \<and> caches_ok PDT G c'"
proof (cases "IpdfCache c b")
  case (Some s)
  with c show ?thesis by (auto simp: iterated_postdominance_frontier_def caches_ok_def)
next
  case None
  let ?R = "frontier_rel PDT G"
  obtain s p where f: "postdominanceFrontier PDT G b (PdfCache c) = Some (s, p)" "set s = frontier PDT G n" "pdf_cache_ok PDT G p"
    using frontier_exact [OF wf _ n] c unfolding caches_ok_def by blast
  have s: "set s = ?R `` {b}" using f(2) n by (auto simp: frontier_rel_def)
  have tr: "?R\<^sup>+ `` {b} = ?R\<^sup>* `` set s"
    unfolding s by (auto simp: trancl_unfold_left)
  show ?thesis
  proof (cases "s = []")
    case True
    with None f c tr show ?thesis
      by (auto simp: iterated_postdominance_frontier_def caches_ok_def)
  next
    case False
    have "card (set bs - set (to_set s)) < fuel"
      using k card_length [of bs] card_mono [of "set bs" "set bs - set (to_set s)"] by auto
    from ipdf_loop_exact [OF wf finite_set U f(3) order_refl _ _ this] s frontier_has_node obtain S p' where
      l: "ipdf_loop PDT G fuel (to_set s) (to_set s) p = Some (S, p')" "pdf_cache_ok PDT G p'" "set S = ?R\<^sup>* `` set s"
      by auto
    have sub: "set s \<subseteq> set S" using l(3) by auto
    then have "set (s @ S) = ?R\<^sup>+ `` {b}" using l(3) tr by auto
    with None f(1) False l(1,2) c show ?thesis
      by (auto simp: iterated_postdominance_frontier_def caches_ok_def)
  qed
qed

section \<open>Properties\<close>

text \<open>C6: for a post-dominator tree and caches that hold right answers, the iterated
  post-dominance frontier of a block with a node ends within one round per block and is
  the transitive closure of the post-dominance frontier, where the frontier of a block is
  the set of blocks it does not post-dominate with a successor that it post-dominates; the
  caches stay right.\<close>

theorem iterated_frontier_exact:
  assumes "wf_pdt PDT G" "caches_ok PDT G c" "node_of PDT b = Some n"
    and "\<And>x. node_of PDT x \<noteq> None \<Longrightarrow> x \<in> set bs" "length bs < fuel"
  shows "\<exists>s c'. iterated_postdominance_frontier PDT G fuel b c = Some (s, c') \<and>
    set s = {(x, y). \<exists>n. node_of PDT x = Some n \<and> node_of PDT y \<noteq> None \<and> y \<notin> set (blocks_in n) \<and>
       (\<exists>z\<in>set (blocks_in n). y \<in> set (preds G z))}\<^sup>+ `` {b} \<and> caches_ok PDT G c'"
  using ipdf_exact [OF assms] unfolding frontier_rel_def frontier_def by simp

text \<open>A diamond: block 0 branches to 1 and 2, which join in 3; 3 post-dominates all.\<close>

definition diamond_cfg :: cfg where
  "diamond_cfg = \<lparr>succs = (\<lambda>b. if b = 0 then [1, 2] else if b = 1 \<or> b = 2 then [3] else []),
     preds = (\<lambda>b. if b = 3 then [1, 2] else if b = 1 \<or> b = 2 then [0] else []), blocks_of = [0, 1, 2, 3]\<rparr>"

definition diamond_pdt :: pdt where
  "diamond_pdt = \<lparr>node_of = [0 \<mapsto> DNode 0 [], 1 \<mapsto> DNode 1 [], 2 \<mapsto> DNode 2 [],
       3 \<mapsto> DNode 3 [DNode 0 [], DNode 1 [], DNode 2 []]],
     idom_of = [0 \<mapsto> 3, 1 \<mapsto> 3, 2 \<mapsto> 3]\<rparr>"

definition no_caches :: caches where
  "no_caches = \<lparr>PdfCache = Map.empty, IpdfCache = Map.empty\<rparr>"

lemma no_caches_ok: "caches_ok PDT G no_caches"
  by (simp add: caches_ok_def pdf_cache_ok_def no_caches_def)

lemma diamond_wf: "wf_pdt diamond_pdt diamond_cfg"
  by (auto simp: wf_pdt_def diamond_pdt_def diamond_cfg_def split: if_splits)

theorem iterated_frontier_exact_witness:
  "\<exists>s c'. iterated_postdominance_frontier diamond_pdt diamond_cfg 5 1 no_caches = Some (s, c') \<and>
    set s = {(x, y). \<exists>n. node_of diamond_pdt x = Some n \<and> node_of diamond_pdt y \<noteq> None \<and> y \<notin> set (blocks_in n) \<and>
       (\<exists>z\<in>set (blocks_in n). y \<in> set (preds diamond_cfg z))}\<^sup>+ `` {1} \<and> caches_ok diamond_pdt diamond_cfg c'"
  by (rule iterated_frontier_exact [OF diamond_wf no_caches_ok, where n = "DNode 1 []" and bs = "[0, 1, 2, 3]"])
    (auto simp: diamond_pdt_def split: if_splits)

text \<open>\<open>functionDoesNotRet\<close> ends within one step per block and is false exactly when a block
  with a return instruction can be reached from the entry.\<close>

theorem functionDoesNotRet_iff:
  assumes "entry \<in> set bs" "\<And>x. x \<in> set bs \<Longrightarrow> set (succs G x) \<subseteq> set bs" "length bs < fuel"
  shows "functionDoesNotRet G has_ret fuel entry =
    Some (\<not> (\<exists>b. (entry, b) \<in> {(x, y). y \<in> set (succs G x)}\<^sup>* \<and> has_ret b))"
proof -
  have "card (set bs - set []) + length [entry] \<le> fuel" using assms(3) card_length [of bs] by simp
  then obtain r where r: "explore has_ret (push_new (succs G)) fuel [entry] [] = Some r"
    using stack.explore_ends [of "set bs" "[]" "[entry]" "succs G" fuel has_ret] assms(1,2) by auto
  from stack.explore_inv [OF r, of "{entry}"] show ?thesis
    by (auto simp: functionDoesNotRet_def r stack.edges_def split: outcome.splits)
qed

theorem functionDoesNotRet_iff_witness:
  "functionDoesNotRet diamond_cfg (\<lambda>b. b = 3) 5 0 =
    Some (\<not> (\<exists>b. (0, b) \<in> {(x, y). y \<in> set (succs diamond_cfg x)}\<^sup>* \<and> b = 3))"
  by (rule functionDoesNotRet_iff [where bs = "[0, 1, 2, 3]"]) (auto simp: diamond_cfg_def)

text \<open>Block 1 branches to itself or to the exit block 2.\<close>

definition selfloop_cfg :: cfg where
  "selfloop_cfg = \<lparr>succs = (\<lambda>b. if b = 0 then [1] else if b = 1 then [1, 2] else []),
     preds = (\<lambda>b. if b = 1 then [0, 1] else if b = 2 then [1] else []), blocks_of = [0, 1, 2]\<rparr>"

definition selfloop_pdt :: pdt where
  "selfloop_pdt = \<lparr>node_of = [0 \<mapsto> DNode 0 [], 1 \<mapsto> DNode 1 [DNode 0 []], 2 \<mapsto> DNode 2 [DNode 1 [DNode 0 []]]],
     idom_of = [0 \<mapsto> 1, 1 \<mapsto> 2]\<rparr>"

text \<open>The iterated frontier of a block that branches back to itself is empty, although the
  condition of that branch decides how often the block is executed: a block is never put in
  its own frontier.\<close>

theorem self_loop_frontier_empty:
  "1 \<in> set (succs selfloop_cfg 1) \<and> 2 \<in> set (succs selfloop_cfg 1) \<and>
   (\<exists>c. iterated_postdominance_frontier selfloop_pdt selfloop_cfg 4 1 no_caches = Some ([], c))"
  by (simp add: selfloop_cfg_def selfloop_pdt_def no_caches_def iterated_postdominance_frontier_def
      postdominanceFrontier_def Let_def)

end
