(* ===== verification/Ext_Info.thy ===== *)
theory Ext_Info
  imports Prelude
begin

text \<open>
  What the analysis knows about external functions (\<open>src/aSSA/ExtInfo.cpp\<close>):
  the table of library functions with their number of arguments and which of
  them they modify, the map built from it, and the list of functions the user
  is told are missing. Reading past the end of a row is the outcome \<open>None\<close>.
\<close>

section \<open>The table\<close>

record ModInfo =
  NbArgs :: nat
  RetIsMod :: bool
  ArgIsMod :: "bool list"

definition mod_info :: "nat \<Rightarrow> bool \<Rightarrow> bool list \<Rightarrow> ModInfo" where
  "mod_info n r as = \<lparr>NbArgs = n, RetIsMod = r, ArgIsMod = as\<rparr>"

definition FuncModPairs_1 :: "(string \<times> ModInfo) list" where
  "FuncModPairs_1 = [
     (''myrand'', mod_info 1 False [False]), (''cmul'', mod_info 2 False [True, False]),
     (''cadd'', mod_info 2 False [True, False]), (''csub'', mod_info 2 False [True, False]),
     (''__snprintf_chk'', mod_info 4 False [True, False, False, False]),
     (''__strncat_chk'', mod_info 3 False [False, False, False]), (''llvm.bswap.v4i32'', mod_info 1 False [False]),
     (''llvm.bswap.i32'', mod_info 1 False [False]), (''llvm.fabs.f64'', mod_info 1 False [False]),
     (''llvm.fabs.v2f64'', mod_info 1 False [False]), (''llvm.fabs.f32'', mod_info 1 False [False]),
     (''llvm.fabs.f64'', mod_info 1 False [False]), (''llvm.lifetime.start'', mod_info 2 False [False, False]),
     (''llvm.lifetime.end'', mod_info 2 False [False, False]),
     (''llvm.lifetime.start.p0'', mod_info 2 False [False, False]),
     (''llvm.lifetime.end.p0'', mod_info 2 False [False, False]),
     (''llvm.memcpy.p0i8.p0i8.i32'', mod_info 5 False [True, False, False, False, False]),
     (''llvm.memcpy.p0i8.p0i8.i64'', mod_info 5 False [True, False, False, False, False]),
     (''llvm.memcpy.p0.p0.i64'', mod_info 4 False [True, False, False, False]),
     (''llvm.memmove.p0i8.p0i8.i32'', mod_info 5 False [True, True, False, False, False]),
     (''llvm.memmove.p0i8.p0i8.i64'', mod_info 5 False [True, True, False, False, False]),
     (''llvm.memmove.p0.p0.i64'', mod_info 4 False [True, True, False, False]),
     (''llvm.memset.p0i8.i32'', mod_info 5 False [True, False, False, False, False]),
     (''llvm.memset.p0i8.i64'', mod_info 5 False [True, False, False, False, False]),
     (''llvm.memset.p0.i64'', mod_info 4 False [True, False, False, False]),
     (''llvm.minnum.v2f64'', mod_info 2 False [False, False]), (''llvm.sqrt.f64'', mod_info 1 False [False]),
     (''llvm.stackrestore'', mod_info 1 False [False]), (''llvm.stacksave'', mod_info 0 True []),
     (''llvm.trap'', mod_info 0 False []), (''llvm.va_start'', mod_info 1 False [True]),
     (''llvm.va_end'', mod_info 1 False [True]), (''llvm.x86.sse2.mfence'', mod_info 0 False []),
     (''llvm.prefetch'', mod_info 4 False [True, False, False, False]), (''abort'', mod_info 0 False []),
     (''abs'', mod_info 1 False [False]), (''acos'', mod_info 1 False [False]),
     (''access'', mod_info 2 False [False, False]), (''asprintf'', mod_info 3 False [True, False, False]),
     (''atan'', mod_info 1 False [False]), (''atanf'', mod_info 1 False [False]),
     (''atan2'', mod_info 2 False [False, False]), (''atof'', mod_info 1 False [False]),
     (''atoi'', mod_info 1 False [False]), (''atol'', mod_info 1 False [False]),
     (''asctime'', mod_info 1 True [False]), (''calloc'', mod_info 2 True [False, False]),
     (''ceil'', mod_info 1 False [False]), (''clock'', mod_info 0 False []),
     (''clock_gettime'', mod_info 2 False [False, True]), (''close'', mod_info 1 False [False]),
     (''ctime'', mod_info 1 True [False]), (''cos'', mod_info 1 False [False]), (''cosh'', mod_info 1 False [False]),
     (''erfc'', mod_info 1 False [False]), (''exit'', mod_info 1 False [False]), (''exp'', mod_info 1 False [False]),
     (''fabs'', mod_info 1 False [False]), (''fabsf'', mod_info 1 False [False]),
     (''cabs'', mod_info 1 False [False]), (''cabsf'', mod_info 1 False [False]),
     (''labs'', mod_info 1 False [False]), (''fclose'', mod_info 1 False [True]),
     (''feof'', mod_info 1 False [False]), (''fflush'', mod_info 1 False [False]),
     (''fgetc'', mod_info 1 False [False]), (''fgets'', mod_info 3 True [True, False, False]),
     (''fgetpos'', mod_info 2 False [False, True]), (''floor'', mod_info 1 False [False]),
     (''fmax'', mod_info 2 False [False, False]), (''fmin'', mod_info 2 False [False, False]),
     (''fopen'', mod_info 2 True [False, False]), (''fprintf'', mod_info 3 False [True, False, False]),
     (''fputc'', mod_info 2 False [False, True]), (''fputs'', mod_info 2 False [False, False]),
     (''fread'', mod_info 4 False [True, False, False, True]), (''free'', mod_info 1 False [True]),
     (''freopen'', mod_info 3 True [False, False, False]), (''fseeko'', mod_info 3 False [False, False, False]),
     (''fsetpos'', mod_info 2 False [False, False]), (''fsync'', mod_info 1 False [False]),
     (''fwrite'', mod_info 4 False [False, False, False, True]), (''getchar'', mod_info 0 False []),
     (''getenv'', mod_info 1 True [False]), (''gethostname'', mod_info 2 False [True, False]),
     (''getopt'', mod_info 3 False [False, False, False]),
     (''getopt_long'', mod_info 5 False [False, False, False, False, True]), (''getpagesize'', mod_info 0 False []),
     (''getrusage'', mod_info 2 False [False, True]), (''gettimeofday'', mod_info 2 False [True, True]),
     (''gmtime'', mod_info 1 True [False]), (''hypot'', mod_info 2 False [False, False]),
     (''ldexp'', mod_info 2 False [False, False]), (''localtime'', mod_info 1 True [False]),
     (''log'', mod_info 1 False [False]), (''malloc'', mod_info 1 True [False]),
     (''memset'', mod_info 3 True [True, False, False]), (''memcpy'', mod_info 3 True [True, False, False]),
     (''memmove'', mod_info 3 True [True, False, False]), (''mkdir'', mod_info 2 False [False, False]),
     (''move_pages'', mod_info 6 False [False, False, False, False, True, False]),
     (''numa_num_configured_nodes'', mod_info 0 False []), (''pow'', mod_info 2 False [False, False]),
     (''printf'', mod_info 2 False [False, False]), (''vfprintf'', mod_info 3 False [True, False, False]),
     (''putchar'', mod_info 1 False [False]), (''putenv'', mod_info 1 False [True]),
     (''puts'', mod_info 1 False [False]), (''qsort'', mod_info 4 False [True, False, False, False]),
     (''rand'', mod_info 0 False []), (''random'', mod_info 0 False []),
     (''read'', mod_info 3 False [False, True, False]), (''realloc'', mod_info 2 True [True, False]),
     (''realpath'', mod_info 2 True [False, True]), (''regcomp'', mod_info 3 False [True, False, False]),
     (''regexec'', mod_info 5 False [False, False, False, False, False]), (''regfree'', mod_info 1 False [True]),
     (''rewind'', mod_info 1 False [False]), (''signal'', mod_info 2 False [False]),
     (''sin'', mod_info 1 False [False]), (''sleep'', mod_info 1 False [False]),
     (''snprintf'', mod_info 4 False [True, False, False, False]),
     (''sprintf'', mod_info 3 False [True, False, False]), (''sqrt'', mod_info 1 False [False]),
     (''sqrtf'', mod_info 1 False [False]), (''srand'', mod_info 1 False [False]),
     (''srandom'', mod_info 1 False [False]), (''strcasecmp'', mod_info 2 False [False, False]),
     (''strcat'', mod_info 2 True [True, False]), (''strchr'', mod_info 2 True [False, False]),
     (''strcmp'', mod_info 2 False [False, False]), (''strcpy'', mod_info 2 True [True, False])]"

definition FuncModPairs_2 :: "(string \<times> ModInfo) list" where
  "FuncModPairs_2 = [
     (''strcspn'', mod_info 2 False [False, False]), (''strftime'', mod_info 4 False [True, False, False, False]),
     (''strerror'', mod_info 1 True [False]), (''strlen'', mod_info 1 False [False]),
     (''strncasecmp'', mod_info 3 False [False, False, False]), (''strncat'', mod_info 3 True [True, False, False]),
     (''strncmp'', mod_info 3 False [False, False, False]), (''strncpy'', mod_info 3 True [True, False, False]),
     (''strpbrk'', mod_info 2 True [False, False]), (''strrchr'', mod_info 2 True [False, False]),
     (''strspn'', mod_info 2 False [False, False]), (''strstr'', mod_info 2 True [False, False]),
     (''strtod'', mod_info 2 False [False, True]), (''strtok'', mod_info 2 True [True, False]),
     (''strtol'', mod_info 3 False [False, True, False]), (''system'', mod_info 1 False [False]),
     (''tanh'', mod_info 1 False [False]), (''time'', mod_info 1 False [True]),
     (''tolower'', mod_info 1 False [False]), (''toupper'', mod_info 1 False [False]),
     (''uname'', mod_info 1 False [True]), (''ungetc'', mod_info 2 False [False, False]),
     (''unlink'', mod_info 1 False [False]), (''vsprintf'', mod_info 3 False [True, False, False]),
     (''write'', mod_info 3 False [False, False, False]), (''_IO_getc'', mod_info 1 False [False]),
     (''_IO_putc'', mod_info 2 False [False, False]),
     (''__assert_fail'', mod_info 4 False [False, False, False, False]), (''__ctype_b_loc'', mod_info 0 True []),
     (''__errno_location'', mod_info 0 True []), (''__isnan'', mod_info 1 False [False]),
     (''__isnanf'', mod_info 1 False [False]), (''__isoc99_fscanf'', mod_info 3 False [True, False, True]),
     (''__isoc99_scanf'', mod_info 2 False [False, True]),
     (''__isoc99_sscanf'', mod_info 3 False [False, False, True]), (''__log_finite'', mod_info 1 False [False]),
     (''__strdup'', mod_info 1 True [False]), (''perror'', mod_info 4 False [True, False, False, False]),
     (''fopen64'', mod_info 2 True [False, False]), (''freopen64'', mod_info 3 True [False, False, False]),
     (''fseeko64'', mod_info 3 False [False, False, False]), (''open64'', mod_info 3 False [False, False, False]),
     (''lseek64'', mod_info 3 False [False, False, False]), (''stat64'', mod_info 2 False [False, True]),
     (''statfs64'', mod_info 2 False [False, True]), (''parcoach_var_mod'', mod_info 2 False [False, True]),
     (''MPI_Abort'', mod_info 2 False [False, False]), (''MPI_Address'', mod_info 2 False [False, True]),
     (''MPI_Allgather'', mod_info 7 False [False, False, False, True, False, False, False]),
     (''MPI_Allgatherv'', mod_info 8 False [False, False, False, True, False, False, False, False]),
     (''MPI_Allreduce'', mod_info 6 False [False, True, False, False, False, False]),
     (''MPI_Alltoall'', mod_info 7 False [False, False, False, True, False, False, True]),
     (''MPI_Alltoallv'', mod_info 9 False [False, False, False, False, True, False, False, False, False]),
     (''MPI_Alloc_mem'', mod_info 3 False [False, False, True]),
     (''MPI_Alltoallw'', mod_info 9 False [False, False, False, False, True, False, False, False, False]),
     (''MPI_Attr_get'', mod_info 4 False [False, False, True, True]), (''MPI_Barrier'', mod_info 1 False [False]),
     (''MPI_Bcast'', mod_info 5 False [True, False, False, False, False]),
     (''MPI_Bsend'', mod_info 6 False [False, False, False, False, False, False]),
     (''MPI_Bsend_init'', mod_info 7 False [False, False, False, False, False, False, False]),
     (''MPI_Buffer_attach'', mod_info 2 False [False, False]),
     (''MPI_Buffer_detach'', mod_info 2 False [True, False]),
     (''MPI_Comm_create'', mod_info 3 False [False, False, True]),
     (''MPI_Comm_dup'', mod_info 2 False [False, True]), (''MPI_Comm_free'', mod_info 1 False [True]),
     (''MPI_Comm_group'', mod_info 2 False [False, True]),
     (''MPI_Comm_group_incl'', mod_info 4 False [False, False, False, True]),
     (''MPI_Comm_rank'', mod_info 2 False [False, True]), (''MPI_Comm_size'', mod_info 2 False [False, True]),
     (''MPI_Comm_split'', mod_info 4 False [False, False, False, True]),
     (''MPI_Cart_create'', mod_info 6 False [False, False, False, False, False, False]),
     (''MPI_Cart_get'', mod_info 5 False [False, False, True, True, True]),
     (''MPI_Cart_shift'', mod_info 5 False [False, False, False, False, False]),
     (''MPI_Cart_coords'', mod_info 4 False [False, False, False, True]),
     (''MPI_Cart_sub'', mod_info 3 False [False, False, True]),
     (''MPI_Comm_create_group'', mod_info 4 False [False, False, False, True]),
     (''MPI_Comm_compare'', mod_info 3 False [False, False, True]),
     (''MPI_Errhandler_create'', mod_info 2 False [False, True]),
     (''MPI_Errhandler_set'', mod_info 2 False [False, False]),
     (''MPI_Error_string'', mod_info 3 False [False, True, True]),
     (''MPI_Exscan'', mod_info 6 False [False, True, False, False, False, False]),
     (''MPI_Get_version'', mod_info 2 False [True, True]), (''MPI_File_close'', mod_info 1 False [True]),
     (''MPI_File_delete'', mod_info 2 False [False, False]), (''MPI_File_get_info'', mod_info 2 False [False, True]),
     (''MPI_File_get_size'', mod_info 2 False [False, False]),
     (''MPI_File_open'', mod_info 5 False [False, False, False, False, True]),
     (''MPI_File_preallocate'', mod_info 2 False [False, False]),
     (''MPI_File_read'', mod_info 5 False [False, True, False, False, True]),
     (''MPI_File_read_all'', mod_info 5 False [False, True, False, False, True]),
     (''MPI_File_read_at'', mod_info 6 False [False, False, True, False, False, True]),
     (''MPI_File_read_at_all'', mod_info 6 False [False, False, True, False, False, True]),
     (''MPI_File_set_view'', mod_info 6 False [False, False, False, False, False, False]),
     (''MPI_File_seek'', mod_info 3 False [False, False, False]),
     (''MPI_File_write'', mod_info 5 False [False, False, False, False, True]),
     (''MPI_File_write_all'', mod_info 5 False [False, False, False, False, True]),
     (''MPI_File_write_at'', mod_info 6 False [False, False, False, False, False, True]),
     (''MPI_File_write_at_all'', mod_info 6 False [False, False, False, False, False, True]),
     (''MPI_Finalize'', mod_info 0 False []), (''MPI_Free_mem'', mod_info 1 False [True]),
     (''MPI_Gather'', mod_info 8 False [False, False, False, True, False, False, False, False]),
     (''MPI_Gatherv'', mod_info 10 False [False, False, False, True, False, False, False, False, False, True]),
     (''MPI_Get_count'', mod_info 3 False [False, False, True]),
     (''MPI_Get_processor_name'', mod_info 2 False [True, True]), (''MPI_Group_free'', mod_info 1 False [True]),
     (''MPI_Group_incl'', mod_info 4 False [False, False, False, True]),
     (''MPI_Group_range_incl'', mod_info 4 False [False, False, False, True]),
     (''MPI_Get'', mod_info 8 False [True, False, False, False, False, False, False, False]),
     (''MPI_Group_excl'', mod_info 4 False [False, False, False, True]),
     (''MPI_Group_range_excl'', mod_info 4 False [False, False, False, True]),
     (''MPI_Iallgather'', mod_info 8 False [False, False, False, True, False, False, False, False])]"

definition FuncModPairs_3 :: "(string \<times> ModInfo) list" where
  "FuncModPairs_3 = [
     (''MPI_Iallgatherv'', mod_info 9 False [False, False, False, True, False, False, False, False, False]),
     (''MPI_Iallreduce'', mod_info 7 False [False, True, False, False, False, False, False]),
     (''MPI_Ialltoall'', mod_info 8 False [False, False, False, True, False, False, True, False]),
     (''MPI_Ialltoallv'', mod_info 10 False [False, False, False, False, True, False, False, False, False, False]),
     (''MPI_Ibarrier'', mod_info 2 False [False, False]),
     (''MPI_Ibcast'', mod_info 6 False [True, False, False, False, False, False]),
     (''MPI_Ibsend'', mod_info 7 False [False, False, False, False, False, False, False]),
     (''MPI_Iexscan'', mod_info 7 False [False, True, False, False, False, False, False]),
     (''MPI_Igather'', mod_info 9 False [False, False, False, True, False, False, False, False, False]),
     (''MPI_Intercomm_create'', mod_info 6 False [False, False, False, False, False, True]),
     (''MPI_Info_create'', mod_info 1 False [True]),
     (''MPI_Info_get'', mod_info 5 False [False, False, False, True, True]),
     (''MPI_Info_get_nkeys'', mod_info 2 False [False, True]),
     (''MPI_Info_get_nthkey'', mod_info 3 False [False, False, True]),
     (''MPI_Info_set'', mod_info 3 False [True, False, False]), (''MPI_Init'', mod_info 2 False [False, False]),
     (''MPI_Init_thread'', mod_info 4 False [False, False, False, True]),
     (''MPI_Irsend'', mod_info 7 False [False, False, False, False, False, False, False]),
     (''MPI_Iscatter'', mod_info 9 False [False, False, False, True, False, False, False, False, False]),
     (''MPI_Iscan'', mod_info 7 False [False, True, False, False, False, False, False]),
     (''MPI_Iprobe'', mod_info 5 False [False, False, False, True, True]),
     (''MPI_Irecv'', mod_info 7 False [True, False, False, False, False, False, True]),
     (''MPI_Ireduce'', mod_info 8 False [False, True, False, False, False, False, False, False]),
     (''MPI_Isend'', mod_info 7 False [False, False, False, False, False, False, True]),
     (''MPI_Issend'', mod_info 7 False [False, False, False, False, False, False, True]),
     (''MPI_Op_create'', mod_info 3 False [False, False, True]), (''MPI_Op_free'', mod_info 1 False [True]),
     (''MPI_Probe'', mod_info 4 False [False, False, False, True]),
     (''MPI_Put'', mod_info 8 False [False, False, False, False, False, False, False, False]),
     (''MPI_Recv'', mod_info 7 False [True, False, False, False, False, False, True]),
     (''MPI_Reduce'', mod_info 7 False [False, True, False, False, False, False, False]),
     (''MPI_Reduce_scatter_block'', mod_info 6 False [False, True, False, False, False, False]),
     (''MPI_Reduce_scatter'', mod_info 6 False [False, True, False, False, False, False]),
     (''MPI_Rsend_init'', mod_info 7 False [False, False, False, False, False, False, False]),
     (''MPI_Request_free'', mod_info 1 False [False]),
     (''MPI_Recv_init'', mod_info 7 False [False, False, False, False, False, False, False]),
     (''MPI_Scan'', mod_info 6 False [False, True, False, False, False, False]),
     (''MPI_Scatter'', mod_info 8 False [False, False, False, True, False, False, False, False]),
     (''MPI_Scatterv'', mod_info 9 False [False, False, False, False, True, False, False, False, False]),
     (''MPI_Send'', mod_info 6 False [False, False, False, False, False, False]),
     (''MPI_Sendrecv'', mod_info 12 False [False, False, False, False, False, True, False, False, False, False, False, True]),
     (''MPI_Ssend'', mod_info 6 False [False, False, False, False, False, False]),
     (''MPI_Startall'', mod_info 2 False [False, False]), (''MPI_Start'', mod_info 1 False [False]),
     (''MPI_Ssend_init'', mod_info 7 False [False, False, False, False, False, False, False]),
     (''MPI_Send_init'', mod_info 7 False [False, False, False, False, False, False, False]),
     (''MPI_Test'', mod_info 3 False [False, False, True]),
     (''MPI_Testall'', mod_info 4 False [False, False, True, True]),
     (''MPI_Type_create_subarray'', mod_info 7 False [False, False, False, False, False, False, True]),
     (''MPI_Type_commit'', mod_info 1 False [False]),
     (''MPI_Type_contiguous'', mod_info 3 False [False, False, True]), (''MPI_Type_free'', mod_info 1 False [True]),
     (''MPI_Type_struct'', mod_info 5 False [False, False, False, False, True]),
     (''MPI_Type_vector'', mod_info 5 False [False, False, False, False, True]),
     (''MPI_Type_size'', mod_info 2 False [False, True]),
     (''MPI_Testany'', mod_info 5 False [False, False, False, False, False]),
     (''MPI_Testsome'', mod_info 5 False [False, False, True, True, True]),
     (''MPI_Win_fence'', mod_info 2 False [False, False]), (''MPI_Win_complete'', mod_info 1 False [False]),
     (''MPI_Win_post'', mod_info 3 False [False, False, False]), (''MPI_Win_wait'', mod_info 1 False [False]),
     (''MPI_Win_free'', mod_info 1 False [True]), (''MPI_Win_lock'', mod_info 4 False [False, False, False, False]),
     (''MPI_Win_lock_all'', mod_info 2 False [False, False]), (''MPI_Win_unlock'', mod_info 2 False [False, False]),
     (''MPI_Win_unlock_all'', mod_info 1 False [False]), (''MPI_Win_flush'', mod_info 2 False [False, False]),
     (''MPI_Wait'', mod_info 2 False [True, True]), (''MPI_Waitall'', mod_info 3 False [False, True, True]),
     (''MPI_Waitany'', mod_info 4 False [False, False, True, True]),
     (''MPI_Waitsome'', mod_info 5 False [False, False, True, True, True]), (''MPI_Wtick'', mod_info 0 False []),
     (''MPI_Wtime'', mod_info 0 False []),
     (''MPI_Win_create'', mod_info 6 False [False, False, False, False, False, True]),
     (''MPI_Win_allocate'', mod_info 6 False [False, False, False, False, False, True]),
     (''MPI_Win_start'', mod_info 3 False [False, False, False]), (''omp_get_num_threads'', mod_info 0 False []),
     (''omp_get_thread_num'', mod_info 0 False []),
     (''__kmpc_fork_call'', mod_info 4 False [False, False, False, False]),
     (''__kmpc_barrier'', mod_info 2 False [False, False]), (''__kmpc_single'', mod_info 2 False [False, False]),
     (''__kmpc_end_single'', mod_info 2 False [False, False]),
     (''__kmpc_for_static_init_4'', mod_info 9 False [False, False, False, False, False, False, False, False, False]),
     (''__kmpc_for_static_fini'', mod_info 2 False [False, False]),
     (''__kmpc_global_thread_num'', mod_info 1 False [False]),
     (''__kmpc_reduce_nowait'', mod_info 7 False [False, False, False, False, False, False, False]),
     (''__kmpc_end_reduce_nowait'', mod_info 3 False [False, False, False]),
     (''omp_get_max_threads'', mod_info 0 False []), (''__kmpc_master'', mod_info 2 False [True, False]),
     (''__kmpc_end_master'', mod_info 2 False [True, False]), (''omp_get_wtime'', mod_info 0 False []),
     (''__kmpc_dispatch_init_4'', mod_info 7 False [True, False, False, False, False, False, False]),
     (''__kmpc_dispatch_next_4'', mod_info 6 False [True, False, True, True, True, True]),
     (''__kmpc_critical'', mod_info 3 False [True, False, True]),
     (''__kmpc_end_critical'', mod_info 3 False [True, False, True])]"

definition FuncModPairs_4 :: "(string \<times> ModInfo) list" where
  "FuncModPairs_4 = [
     (''upcri_err'', mod_info 4 False [True, False, False, False]),
     (''upcri_stack_check'', mod_info 4 False [True, False, True, False]),
     (''gasneti_checkinit'', mod_info 0 False []), (''_upcr_notify'', mod_info 2 False [False, False]),
     (''_upcr_wait'', mod_info 2 False [False, False]), (''_upcr_startup_pshalloc'', mod_info 1 False [True]),
     (''_upcr_all_alloc'', mod_info 2 False [False, False]), (''_upcr_free'', mod_info 1 False [False]),
     (''_upcr_memget_nb'', mod_info 3 True [True, False, False]), (''_upcr_waitsync'', mod_info 1 False [True]),
     (''gasnete_get_bulk'', mod_info 4 False [True, False, True, False]),
     (''gasnete_put_bulk'', mod_info 4 False [False, True, True, False]),
     (''gasneti_trace_setsourceline'', mod_info 1 False [True]),
     (''_upcri_checkvalid_pshared'', mod_info 4 False [False, False, True, False]),
     (''gasneti_stat_intval_accumulate'', mod_info 2 False [True, False]),
     (''gasneti_dynsprintf'', mod_info 7 True [True, False, False, False, False, False, False]),
     (''gasneti_trace_output'', mod_info 3 False [True, True, False]),
     (''gasneti_build_loc_str'', mod_info 3 False [False, False, False]),
     (''gasneti_fatalerror'', mod_info 1 False [True]),
     (''gasnete_get_nb_bulk'', mod_info 4 True [True, False, True, False]),
     (''gasnete_try_syncnb'', mod_info 1 False [False]), (''sched_yield'', mod_info 0 False []),
     (''_gasneti_memcheck_one'', mod_info 1 False [True]), (''gasnetc_AMPoll'', mod_info 0 False []),
     (''gasneti_vis_progressfn'', mod_info 0 False []),
     (''_bupc_dump_shared'', mod_info 3 False [False, True, False]),
     (''_upcri_checkvalid_shared'', mod_info 4 False [False, False, True, False]),
     (''_gasneti_extern_free'', mod_info 2 False [True, True]),
     (''posix_memalign'', mod_info 3 False [True, False, False]), (''_upcr_alloc'', mod_info 1 False [False]),
     (''pthread_mutex_init'', mod_info 2 False [True, True]), (''upcr_global_exit'', mod_info 1 False [False]),
     (''pthread_mutex_destroy'', mod_info 1 False [True]),
     (''_upcr_memput_nb'', mod_info 3 True [True, False, False]),
     (''_bupc_waitsync_all'', mod_info 2 False [True, False]), (''_bupc_sem_alloc'', mod_info 1 True [False]),
     (''_bupc_sem_postN'', mod_info 2 False [True, False]),
     (''_upcr_all_reduceD'', mod_info 8 False [True, False, False, False, False, True, False, False]),
     (''_upcr_all_broadcast'', mod_info 4 False [True, False, False, False]),
     (''gsl_integration_qag'', mod_info 10 True [False, False, False, False, False, False, False, True, True, True]),
     (''gsl_integration_workspace_alloc'', mod_info 1 True [False]),
     (''gsl_integration_workspace_free'', mod_info 1 False [True]), (''gsl_rng_alloc'', mod_info 1 True [False]),
     (''gsl_rng_set'', mod_info 2 False [False, False]), (''gsl_rng_size'', mod_info 1 False [False]),
     (''gsl_rng_state'', mod_info 1 True [False]), (''gsl_rng_uniform'', mod_info 1 False [False]),
     (''cblas_idamax'', mod_info 3 False [False, False, False]),
     (''cblas_dgemv'', mod_info 12 False [False, False, False, False, False, False, False, False, False, False, True, False]),
     (''cblas_sscal'', mod_info 4 False [False, False, True, False]),
     (''cblas_dscal'', mod_info 4 False [False, False, True, False]),
     (''cblas_cscal'', mod_info 4 False [False, False, True, False]),
     (''cblas_zscal'', mod_info 4 False [False, False, True, False]),
     (''cblas_csscal'', mod_info 4 False [False, False, True, False]),
     (''cblas_zdscal'', mod_info 4 False [False, False, True, False]),
     (''cblas_saxpy'', mod_info 6 False [False, False, False, False, True, False]),
     (''cblas_daxpy'', mod_info 6 False [False, False, False, False, True, False]),
     (''cblas_caxpy'', mod_info 6 False [False, False, False, False, True, False]),
     (''cblas_zaxpy'', mod_info 6 False [False, False, False, False, True, False]),
     (''cblas_sger'', mod_info 10 False [False, False, False, False, False, False, False, False, True, False]),
     (''cblas_dger'', mod_info 10 False [False, False, False, False, False, False, False, False, True, False]),
     (''cblas_cgerc'', mod_info 10 False [False, False, False, False, False, False, False, False, True, False]),
     (''cblas_zgerc'', mod_info 10 False [False, False, False, False, False, False, False, False, True, False]),
     (''cblas_cgeru'', mod_info 10 False [False, False, False, False, False, False, False, False, True, False]),
     (''cblas_zgeru'', mod_info 10 False [False, False, False, False, False, False, False, False, True, False]),
     (''cblas_strsm'', mod_info 12 False [False, False, False, False, False, False, False, False, False, False, True, False]),
     (''cblas_dtrsm'', mod_info 12 False [False, False, False, False, False, False, False, False, False, False, True, False]),
     (''cblas_ctrsm'', mod_info 12 False [False, False, False, False, False, False, False, False, False, False, True, False]),
     (''cblas_ztrsm'', mod_info 12 False [False, False, False, False, False, False, False, False, False, False, True, False]),
     (''cblas_strsv'', mod_info 9 False [False, False, False, False, False, False, False, True, False]),
     (''cblas_dtrsv'', mod_info 9 False [False, False, False, False, False, False, False, True, False]),
     (''cblas_ctrsv'', mod_info 9 False [False, False, False, False, False, False, False, True, False]),
     (''cblas_ztrsv'', mod_info 9 False [False, False, False, False, False, False, False, True, False]),
     (''cblas_sgemm'', mod_info 14 False [False, False, False, False, False, False, False, False, False, False, False, False, True, False])]"

definition FuncModPairs_5 :: "(string \<times> ModInfo) list" where
  "FuncModPairs_5 = [

     (''cblas_dgemm'', mod_info 14 False [False, False, False, False, False, False, False, False, False, False, False, False, True, False]),
     (''cblas_cgemm'', mod_info 14 False [False, False, False, False, False, False, False, False, False, False, False, False, True, False]),
     (''cblas_zgemm'', mod_info 14 False [False, False, False, False, False, False, False, False, False, False, False, False, True, False]),
     (''cblas_dcopy'', mod_info 5 False [False, False, False, False, True, False]),
     (''cblas_dasum'', mod_info 3 False [False, False, False]),
     (''cblas_dzasum'', mod_info 3 False [False, False, False]),
     (''cblas_sasum'', mod_info 3 False [False, False, False]),
     (''cblas_scasum'', mod_info 3 False [False, False, False]),
     (''cblas_dnrm2'', mod_info 3 False [False, False, False]),
     (''cblas_dznrm2'', mod_info 3 False [False, False, False]),
     (''cblas_scnrm2'', mod_info 3 False [False, False, False]),
     (''cblas_snrm2'', mod_info 3 False [False, False, False]),
     (''llvm.nvvm.read.ptx.sreg.tid.x'', mod_info 0 False []),
     (''llvm.nvvm.read.ptx.sreg.tid.y'', mod_info 0 False []),
     (''llvm.nvvm.read.ptx.sreg.tid.z'', mod_info 0 False []),
     (''llvm.nvvm.read.ptx.sreg.ctaid.x'', mod_info 0 False []),
     (''llvm.nvvm.read.ptx.sreg.ctaid.y'', mod_info 0 False []),
     (''llvm.nvvm.read.ptx.sreg.ctaid.z'', mod_info 0 False []),
     (''llvm.nvvm.read.ptx.sreg.nctaid.x'', mod_info 0 False []),
     (''llvm.nvvm.read.ptx.sreg.nctaid.y'', mod_info 0 False []),
     (''llvm.nvvm.read.ptx.sreg.nctaid.z'', mod_info 0 False []),
     (''llvm.nvvm.read.ptx.sreg.ntid.x'', mod_info 0 False []),
     (''llvm.nvvm.read.ptx.sreg.ntid.y'', mod_info 0 False []),
     (''llvm.nvvm.read.ptx.sreg.ntid.z'', mod_info 0 False []),
     (''llvm.nvvm.read.ptx.sreg.warpsize'', mod_info 0 False []), (''llvm.nvvm.barrier0'', mod_info 0 False []),
     (''llvm.nvvm.fabs.ftz.f'', mod_info 1 False [False]), (''llvm.nvvm.fabs.f'', mod_info 1 False [False]),
     (''llvm.nvvm.fabs.d'', mod_info 1 False [False]), (''llvm.nvvm.fmax.d'', mod_info 2 False [False, False]),
     (''llvm.nvvm.fmax.ftz.f'', mod_info 2 False [False, False]),
     (''llvm.nvvm.fmax.f'', mod_info 2 False [False, False]),
     (''llvm.nvvm.min.ui'', mod_info 2 False [False, False]), (''llvm.nvvm.min.i'', mod_info 2 False [False, False]),
     (''llvm.nvvm.max.i'', mod_info 2 False [False, False]),
     (''llvm.annotation.i1'', mod_info 4 False [False, True, True, False]),
     (''llvm.nvvm.fmin.ftz.f'', mod_info 2 False [False, False]),
     (''llvm.nvvm.fmin.f'', mod_info 2 False [False, False]),
     (''llvm.nvvm.lg2.approx.ftz.f'', mod_info 1 False [False]),
     (''llvm.nvvm.lg2.approx.f'', mod_info 1 False [False])]"

definition FuncModPairs_6 :: "(string \<times> ModInfo) list" where
  "FuncModPairs_6 = [
     (''llvm.nvvm.ex2.approx.ftz.f'', mod_info 1 False [False]),
     (''llvm.nvvm.ex2.approx.f'', mod_info 1 False [False]), (''llvm.nvvm.sqrt.f'', mod_info 1 False [False]),
     (''llvm.nvvm.sqrt.rn.d'', mod_info 1 False [False]),
     (''llvm.nvvm.rsqrt.approx.ftz.f'', mod_info 1 False [False]),
     (''llvm.nvvm.rsqrt.approx.f'', mod_info 1 False [False]), (''llvm.nvvm.floor.ftz.f'', mod_info 1 False [False]),
     (''llvm.nvvm.floor.f'', mod_info 1 False [False]), (''llvm.nvvm.mul24.i'', mod_info 2 False [False, False]),
     (''llvm.nvvm.mul.rn.ftz.f'', mod_info 2 False [False, False]),
     (''llvm.nvvm.mul.rn.f'', mod_info 2 False [False, False]), (''llvm.nvvm.d2i.hi'', mod_info 1 False [False]),
     (''llvm.nvvm.d2i.lo'', mod_info 1 False [False]), (''llvm.nvvm.d2i.rn'', mod_info 1 False [False]),
     (''llvm.nvvm.mul.rn.d'', mod_info 2 False [False, False]),
     (''llvm.nvvm.add.rn.d'', mod_info 2 False [False, False]),
     (''llvm.nvvm.add.rn.ftz.f'', mod_info 2 False [False, False]),
     (''llvm.nvvm.add.rn.f'', mod_info 2 False [False, False]),
     (''llvm.nvvm.fma.rn.d'', mod_info 3 False [False, False, False]),
     (''llvm.nvvm.fma.rn.ftz.f'', mod_info 3 False [False, False, False]),
     (''llvm.nvvm.fma.rn.f'', mod_info 3 False [False, False, False]),
     (''llvm.nvvm.abs.i'', mod_info 1 False [False]), (''llvm.nvvm.lohi.i2d'', mod_info 2 False [False, False]),
     (''llvm.nvvm.clz.ll'', mod_info 1 False [False]), (''llvm.nvvm.ceil.d'', mod_info 1 False [False]),
     (''llvm.nvvm.trunc.ftz.f'', mod_info 1 False [False]), (''llvm.nvvm.trunc.f'', mod_info 1 False [False]),
     (''__nvvm_reflect'', mod_info 1 False [True]),
     (''__assertfail'', mod_info 5 False [False, False, False, False, False]),
     (''llvm.nvvm.atomic.load.add.f32.p0f32'', mod_info 2 False [True, False]),
     (''llvm.nvvm.membar.cta'', mod_info 0 False []), (''llvm.nvvm.brev32'', mod_info 1 False [False]),
     (''llvm.nvvm.clz.i'', mod_info 1 False [False]), (''llvm.nvvm.popc.i'', mod_info 1 False [False]),
     (''memset_pattern16'', mod_info 3 False [False, False, False]),
     (CHR 0x01 # ''_fopen'', mod_info 2 True [False, False])]"

definition FuncModPairs_7 :: "(string \<times> ModInfo) list" where
  "FuncModPairs_7 = [
     (''initADCpar'', mod_info 1 False [True]), (''ParseParFile'', mod_info 2 False [True, True]),
     (''ShowADCPar'', mod_info 1 False [True]), (''GenerateADC'', mod_info 1 False [False]),
     (''NewAdcViewCntl'', mod_info 2 True [True, False]), (''PartitionCube'', mod_info 1 False [True]),
     (''ComputeGivenGroupbys'', mod_info 1 False [True]), (''CloseAdcView'', mod_info 1 False [True]),
     (''timer_stop'', mod_info 1 False [False]), (''timer_start'', mod_info 1 False [False]),
     (''timer_clear'', mod_info 1 False [False]), (''timer_read'', mod_info 1 False [False]),
     (''c_print_results'', mod_info 20 False [True, False, False, False, False, False, False, False, False, True, False, True, True, True, True, True, True, True, True, True]),
     (CHR 0x01 # ''_strtod'', mod_info 2 False [False, True]), (''sscanf'', mod_info 3 False [False, False, True]),
     (''llvm.objectsize.i64.p0i8'', mod_info 2 False [False, False]),
     (''__memcpy_chk'', mod_info 3 False [True, False, False]), (CHR 0x01 # ''_clock'', mod_info 0 False []),
     (''__strncpy_chk'', mod_info 3 True [True, False, False]),
     (''__sprintf_chk'', mod_info 3 False [True, False, False]), (''llvm.pow.f64'', mod_info 2 False [False, False]),
     (''fscanf'', mod_info 3 False [False, False, True]), (''scanf'', mod_info 2 False [False, True]),
     (''putc'', mod_info 2 False [False, False]), (''getc'', mod_info 1 False [False]),
     (''islower'', mod_info 1 False [False]), (''isdigit'', mod_info 1 False [False]),
     (''isalpha'', mod_info 1 False [False]), (CHR 0x01 # ''_fputs'', mod_info 2 False [False, False]),
     (CHR 0x01 # ''_freopen'', mod_info 3 True [False, False, False]),
     (''__strcpy_chk'', mod_info 3 False [True, False, False]),
     (''__memset_chk'', mod_info 4 False [True, False, False, False]), (''uppercase'', mod_info 1 False [True]),
     (''isupper'', mod_info 1 False [True]), (CHR 0x01 # ''_fwrite'', mod_info 4 False [False, False, False, True]),
     (CHR 0x01 # ''_strerror'', mod_info 1 True [False]), (CHR 0x01 # ''_system'', mod_info 1 False [True]),
     (''__strcat_chk'', mod_info 3 True [True, True, False]), (''__error'', mod_info 0 False []),
     (''__memmove_chk'', mod_info 4 True [True, True, False, False]),
     (CHR 0x01 # ''_sleep'', mod_info 1 False [False]), (CHR 0x01 # ''_putenv'', mod_info 1 False [True]),
     (''statvfs'', mod_info 2 False [True, True]),
     (CHR 0x01 # ''_realpath$DARWIN_EXTSN'', mod_info 2 True [True, True]),
     (CHR 0x01 # ''_regcomp'', mod_info 3 False [True, True, False]),
     (CHR 0x01 # ''_open'', mod_info 2 False [True, False]), (''lseek'', mod_info 3 False [False, False, False]),
     (CHR 0x01 # ''_read'', mod_info 3 False [False, True, False]),
     (CHR 0x01 # ''_write'', mod_info 3 False [False, True, False]),
     (CHR 0x01 # ''_close'', mod_info 1 False [False]), (''isspace'', mod_info 1 False [False]),
     (CHR 0x01 # ''_getopt'', mod_info 3 False [False, True, True]),
     (CHR 0x01 # ''_fsync'', mod_info 1 False [False]),
     (CHR 0x01 # ''_stat$INODE64'', mod_info 2 False [True, True]),
     (''__assert_rtn'', mod_info 4 False [True, True, False, True]), (''__exp10'', mod_info 1 False [False]),
     (''ComputeQEforRow'', mod_info 12 False [False, False, False, False, False, False, False, False, False, False, False, False]),
     (''__vsprintf_chk'', mod_info 5 False [False, False, False, False, False]),
     (''LAPACKE_dlamch'', mod_info 1 False [False]),
     (''LAPACKE_clange'', mod_info 6 False [False, False, False, False, False, False]),
     (''LAPACKE_clascl_work'', mod_info 10 False [False, False, False, False, False, False, False, False, True, False]),
     (''LAPACKE_claset_work'', mod_info 8 False [False, False, False, False, False, False, True, False]),
     (''LAPACKE_dlange'', mod_info 6 False [False, False, False, False, False, False]),
     (''LAPACKE_dlascl_work'', mod_info 10 False [False, False, False, False, False, False, False, False, True, False]),
     (''LAPACKE_dlaset_work'', mod_info 8 False [False, False, False, False, False, False, True, False]),
     (''LAPACKE_slamch'', mod_info 1 False [False]),
     (''LAPACKE_slange'', mod_info 6 False [False, False, False, False, False, False]),
     (''LAPACKE_slascl_work'', mod_info 10 False [False, False, False, False, False, False, False, False, True, False]),
     (''LAPACKE_slaset_work'', mod_info 8 False [False, False, False, False, False, False, True, False]),
     (''LAPACKE_zlange'', mod_info 6 False [False, False, False, False, False, False]),
     (''LAPACKE_zlascl_work'', mod_info 10 False [False, False, False, False, False, False, False, False, True, False]),
     (''LAPACKE_zlaset_work'', mod_info 8 False [False, False, False, False, False, False, True, False]),
     (''__muldc3'', mod_info 2 False [False, False]), (''__mulsc3'', mod_info 2 False [False, False])]"

definition FuncModPairs :: "(string \<times> ModInfo) list" where
  "FuncModPairs = FuncModPairs_1 @ FuncModPairs_2 @ FuncModPairs_3 @ FuncModPairs_4 @ FuncModPairs_5 @ FuncModPairs_6 @ FuncModPairs_7"

section \<open>The map\<close>

text \<open>A later row for the same name replaces an earlier one.\<close>

definition ExtModInfoMap :: "string \<Rightarrow> ModInfo option" where
  "ExtModInfoMap = fold (\<lambda>(Name, Info) m. m(Name \<mapsto> Info)) FuncModPairs Map.empty"

definition getExtModInfo :: "string \<Rightarrow> ModInfo option" where
  "getExtModInfo Name = ExtModInfoMap Name"

record ext_function =
  xf_name :: string
  xf_decl :: bool

definition MissingInfo :: "ext_function list \<Rightarrow> string list" where
  "MissingInfo M = map xf_name
     (filter (\<lambda>F. xf_decl F \<and> take 8 (xf_name F) \<noteq> ''llvm.dbg'' \<and> getExtModInfo (xf_name F) = None) M)"

text \<open>The flag of an argument; the arguments past the declared ones share the flag of the last.\<close>

definition arg_flag :: "ModInfo \<Rightarrow> nat \<Rightarrow> bool option" where
  "arg_flag Info I =
     (let k = (if I \<ge> NbArgs Info then (NbArgs Info + 2 ^ 32 - 1) mod 2 ^ 32 else I)
      in if k < length (ArgIsMod Info) then Some (ArgIsMod Info ! k) else None)"

section \<open>Lookup\<close>

lemma fold_update_map_of: "fold (\<lambda>(k, v) m. m(k \<mapsto> v)) kvs m = m ++ map_of (rev kvs)"
  by (induction kvs arbitrary: m) (auto simp: map_add_def fun_eq_iff split: option.splits)

lemma getExtModInfo_map_of: "getExtModInfo Name = map_of (rev FuncModPairs) Name"
  by (simp add: getExtModInfo_def ExtModInfoMap_def fold_update_map_of)

section \<open>Rows\<close>

text \<open>A row is right when it has a flag for each argument.\<close>

definition row_ok :: "string \<times> ModInfo \<Rightarrow> bool" where
  "row_ok r \<longleftrightarrow> NbArgs (snd r) \<le> length (ArgIsMod (snd r)) \<and> length (ArgIsMod (snd r)) < 100"

definition signal_row :: "string \<times> ModInfo" where
  "signal_row = (''signal'', mod_info 2 False [False])"

definition unlisted :: "string list" where
  "unlisted = [''valloc'', ''_Znwj'', ''_Znwm'', ''_Znaj'', ''_Znam'', ''strdup'', ''strndup'', ''memalign'']"

definition row_fits :: "string \<times> ModInfo \<Rightarrow> bool" where
  "row_fits r \<longleftrightarrow> fst r \<notin> set unlisted \<and> (if fst r = ''signal'' then r = signal_row else row_ok r)"

lemma rows_1: "list_all row_fits FuncModPairs_1"
  by code_simp

lemma rows_2: "list_all row_fits FuncModPairs_2"
  by code_simp

lemma rows_3: "list_all row_fits FuncModPairs_3"
  by code_simp

lemma rows_4: "list_all row_fits FuncModPairs_4"
  by code_simp

lemma rows_5: "list_all row_fits FuncModPairs_5"
  by code_simp

lemma rows_6: "list_all row_fits FuncModPairs_6"
  by code_simp

lemma rows_7: "list_all row_fits FuncModPairs_7"
  by code_simp

lemmas rows = rows_1 rows_2 rows_3 rows_4 rows_5 rows_6 rows_7

lemma rows_fit: "r \<in> set FuncModPairs \<Longrightarrow> row_fits r"
  using rows by (auto simp: FuncModPairs_def list_all_iff)

lemma listed: "getExtModInfo Name = Some Info \<Longrightarrow> (Name, Info) \<in> set FuncModPairs"
  unfolding getExtModInfo_map_of by (drule map_of_SomeD) simp

section \<open>Properties\<close>

text \<open>C16: for a function of the table, the flag of the argument number \<open>I\<close> is read outside of its row
  exactly when the function has no argument, or when it is \<open>signal\<close>, whose row has a single
  flag for two arguments, and the argument is not the first.\<close>

theorem ext_flags_in_bounds:
  assumes "getExtModInfo Name = Some Info"
  shows "arg_flag Info I = None \<longleftrightarrow> NbArgs Info = 0 \<or> Name = ''signal'' \<and> 1 \<le> I"
proof -
  have "row_fits (Name, Info)" using assms listed rows_fit by blast
  then show ?thesis
    by (cases "Name = ''signal''") (auto simp: row_fits_def row_ok_def signal_row_def mod_info_def arg_flag_def Let_def mod_if)
qed

theorem ext_flags_in_bounds_witness:
  "\<exists>Info. getExtModInfo ''LAPACKE_zlaset_work'' = Some Info \<and> arg_flag Info 6 \<noteq> None"
proof -
  let ?Info = "mod_info 8 False [False, False, False, False, False, False, True, False]"
  have "map_of (rev FuncModPairs_7) ''LAPACKE_zlaset_work'' = Some ?Info" by code_simp
  then have "getExtModInfo ''LAPACKE_zlaset_work'' = Some ?Info" by (simp add: getExtModInfo_map_of FuncModPairs_def map_add_Some_iff)
  from this ext_flags_in_bounds [OF this, of 6] show ?thesis by (simp add: mod_info_def)
qed

text \<open>The allocation functions \<open>valloc\<close>, \<open>memalign\<close>, \<open>strdup\<close>, \<open>strndup\<close> and the operators \<open>new\<close>, for
  which the points-to analysis makes objects, have no row.\<close>

lemma allocators_without_row: "Name \<in> set unlisted \<Longrightarrow> getExtModInfo Name = None"
  using listed [of Name] rows_fit by (cases "getExtModInfo Name") (force simp: row_fits_def)+

end
