(* ===== verification/Memory_Region.thy ===== *)
theory Memory_Region
  imports Static_Utils Ext_Info
begin

text \<open>
  Memory regions (\<open>src/aSSA/MemoryRegion.cpp\<close>) and the code the memory analyses read.

  A region stands for an allocation site and is known by the number its
  constructor draws; a set of regions is the list of its numbers in ascending
  order. The allocation sites and the points-to sets come from the points-to
  analysis. The program is built without CUDA, whose branches do not compile.

  The code of the memory analyses: an instruction is a number and an operation;
  a pointer argument of a call that is an integer cast to a pointer, such as
  \<open>MPI_IN_PLACE\<close>, is told apart.
\<close>

section \<open>Code\<close>

datatype marg = PlainArg | IntToPtrArg | PtrArg nat

datatype mop =
    MAlloca
  | MLoad nat
  | MStore nat
  | MCall "nat option" "marg list" bool
  | MInvoke "nat option" "marg list" bool
  | MRet
  | MPhi "nat list"
  | MOther

text \<open>A load and a store have their pointer operand; a call has its callee when it is direct, its
  arguments and whether its result is a pointer; a phi has its incoming blocks.\<close>

record minst =
  mi_id :: nat
  mi_op :: mop

record mfn =
  mf_id :: nat
  mf_name :: string
  mf_decl :: bool
  mf_vararg :: bool
  mf_ret_ptr :: bool
  mf_args :: "bool list"
  mf_blocks :: "(nat \<times> minst list) list"

definition mf_dbg :: "mfn \<Rightarrow> bool" where
  "mf_dbg F \<longleftrightarrow> isIntrinsicDbgFunction (mf_name F)"

section \<open>Regions\<close>

record memreg =
  region_count :: nat
  valueToRegMap :: "nat \<Rightarrow> nat option"
  func2SharedOmpRegs :: "nat \<Rightarrow> nat list option"

definition no_regions :: memreg where
  "no_regions = \<lparr>region_count = 0, valueToRegMap = Map.empty, func2SharedOmpRegs = Map.empty\<rparr>"

text \<open>The entry is constructed, and its number drawn, before the insertion finds out that the value
  has a region.\<close>

definition createRegion :: "nat \<Rightarrow> memreg \<Rightarrow> memreg" where
  "createRegion V m = m\<lparr>region_count := Suc (region_count m),
     valueToRegMap := (case valueToRegMap m V of
        None \<Rightarrow> (valueToRegMap m)(V \<mapsto> region_count m)
      | Some R \<Rightarrow> valueToRegMap m)\<rparr>"

definition getValueRegion :: "memreg \<Rightarrow> nat \<Rightarrow> nat option" where
  "getValueRegion m V = valueToRegMap m V"

definition getValuesRegion :: "memreg \<Rightarrow> nat list \<Rightarrow> nat list" where
  "getValuesRegion m PtsSet =
     fold (\<lambda>V Regions. case getValueRegion m V of None \<Rightarrow> Regions | Some R \<Rightarrow> set_add R Regions) PtsSet []"

definition setOmpSharedRegions :: "nat \<Rightarrow> nat list \<Rightarrow> memreg \<Rightarrow> memreg" where
  "setOmpSharedRegions F Regs m = m\<lparr>func2SharedOmpRegs := (func2SharedOmpRegs m)(F \<mapsto>
     fold set_add Regs (case func2SharedOmpRegs m F of None \<Rightarrow> [] | Some s \<Rightarrow> s))\<rparr>"

definition getOmpSharedRegions :: "memreg \<Rightarrow> nat \<Rightarrow> nat list" where
  "getOmpSharedRegions m F = (case func2SharedOmpRegs m F of None \<Rightarrow> [] | Some s \<Rightarrow> s)"

definition share_var :: "(nat \<Rightarrow> nat list option) \<Rightarrow> nat \<Rightarrow> nat \<Rightarrow> memreg \<Rightarrow> memreg" where
  "share_var getPointsToSet F V m = (case getPointsToSet V of
     None \<Rightarrow> m | Some PtsSet \<Rightarrow> setOmpSharedRegions F (getValuesRegion m PtsSet) m)"

definition MemReg :: "options \<Rightarrow> nat list \<Rightarrow> (nat \<Rightarrow> nat list option) \<Rightarrow> (nat \<times> nat list) list \<Rightarrow> memreg" where
  "MemReg opts sites getPointsToSet func2SharedOmpVar =
     (let m = fold createRegion sites no_regions
      in if isActivated opts OMP
         then fold (\<lambda>(F, Vs). fold (share_var getPointsToSet F) Vs) func2SharedOmpVar m
         else m)"

section \<open>Properties\<close>

definition regions_ok :: "memreg \<Rightarrow> bool" where
  "regions_ok m \<longleftrightarrow> inj_on (valueToRegMap m) (dom (valueToRegMap m)) \<and> (\<forall>V R. valueToRegMap m V = Some R \<longrightarrow> R < region_count m)"

lemma createRegion_ok: "regions_ok m \<Longrightarrow> regions_ok (createRegion V m) \<and> dom (valueToRegMap (createRegion V m)) = insert V (dom (valueToRegMap m))"
  by (cases "valueToRegMap m V") (force simp: regions_ok_def createRegion_def inj_on_def)+

lemma create_all_ok:
  "regions_ok m \<Longrightarrow> regions_ok (fold createRegion Vs m) \<and> dom (valueToRegMap (fold createRegion Vs m)) = set Vs \<union> dom (valueToRegMap m)"
proof (induction Vs arbitrary: m)
  case (Cons V Vs)
  show ?case using Cons.IH [of "createRegion V m"] createRegion_ok [OF Cons.prems, of V] by simp
qed simp

lemma share_keeps [simp]: "valueToRegMap (fold (share_var p F) Vs m) = valueToRegMap m"
  by (induction Vs arbitrary: m) (auto simp: share_var_def setOmpSharedRegions_def split: option.splits)

lemma share_all_keeps [simp]: "valueToRegMap (fold (\<lambda>(F, Vs). fold (share_var p F) Vs) fvs m) = valueToRegMap m"
  by (induction fvs arbitrary: m) (auto split: prod.splits)

lemma no_regions_ok: "regions_ok no_regions" and no_region [simp]: "dom (valueToRegMap no_regions) = {}"
  by (simp_all add: regions_ok_def no_regions_def)

lemma MemReg_values: "valueToRegMap (MemReg opts sites p shared) = valueToRegMap (fold createRegion sites no_regions)"
  by (simp add: MemReg_def Let_def)

lemma region_of_site: "dom (valueToRegMap (MemReg opts sites p shared)) = set sites"
  using create_all_ok [OF no_regions_ok, of sites] by (simp add: MemReg_values)

lemma regions_injective:
  assumes "getValueRegion (MemReg opts sites p shared) V = Some R" "getValueRegion (MemReg opts sites p shared) W = Some R"
  shows "V = W"
  using assms create_all_ok [OF no_regions_ok, of sites]
  unfolding getValueRegion_def MemReg_values regions_ok_def by (metis domI inj_onD)

lemma values_region_fold:
  "sorted_wrt (<) rs \<Longrightarrow>
   set (fold (\<lambda>V Regions. case f V of None \<Rightarrow> Regions | Some R \<Rightarrow> set_add R Regions) Vs rs) = {R. \<exists>V\<in>set Vs. f V = Some R} \<union> set rs \<and>
   sorted_wrt (<) (fold (\<lambda>V Regions. case f V of None \<Rightarrow> Regions | Some R \<Rightarrow> set_add R Regions) Vs rs)"
proof (induction Vs arbitrary: rs)
  case (Cons V Vs)
  have "sorted_wrt (<) (case f V of None \<Rightarrow> rs | Some R \<Rightarrow> set_add R rs)" using Cons.prems sorted_set_add by (cases "f V") auto
  from Cons.IH [OF this] show ?case by (cases "f V") auto
qed simp

lemma set_getValuesRegion: "set (getValuesRegion m Vs) = {R. \<exists>V\<in>set Vs. getValueRegion m V = Some R}"
  and sorted_getValuesRegion: "sorted_wrt (<) (getValuesRegion m Vs)"
  using values_region_fold [of "[]" "getValueRegion m" Vs] by (simp_all add: getValuesRegion_def)

end
