(* ===== verification/Call_Graph.thy ===== *)
theory Call_Graph
  imports Worklist Andersen_Nodes
begin

text \<open>
  The call graph built on the points-to analysis
  (\<open>src/aSSA/PTACallGraph.cpp\<close>): one node per function, one that stands for
  every external caller, one for every external callee; the calls of a function
  through the \<open>CallInst\<close>s of its body, indirect ones resolved by the points-to
  set of the called operand; and the functions reachable from \<open>main\<close>.

  The points-to query is an argument. Whether a function is an intrinsic, and
  whether LLVM classifies that intrinsic as a leaf (functions that are no
  intrinsics count as leaves), is part of its description. A failed assertion is
  the left value.
\<close>

section \<open>State\<close>

datatype cg_node = FnNode nat | ExternalCallingNode | CallsExternalNode

datatype cg_error = CG_Assertion | CG_out_of_fuel

record cg_call =
  cc_id :: nat
  cc_callee :: "nat option"
  cc_nargs :: nat

record cg_function =
  cf_id :: nat
  cf_name :: string
  cf_local :: bool
  cf_addr_taken :: bool
  cf_decl :: bool
  cf_intrinsic :: bool
  cf_leaf :: bool
  cf_vararg :: bool
  cf_nargs :: nat
  cf_calls :: "cg_call list"

record ptacg =
  CalledFunctions :: "cg_node \<Rightarrow> (nat option \<times> cg_node) list"
  Root :: "cg_node option"
  ProgEntry :: "cg_node option"
  indirectCallMap :: "nat \<Rightarrow> nat list"
  reachableFunctions :: "nat list"

definition empty_cg :: ptacg where
  "empty_cg = \<lparr>CalledFunctions = (\<lambda>_. []), Root = None, ProgEntry = None, indirectCallMap = (\<lambda>_. []),
     reachableFunctions = []\<rparr>"

definition addCalledFunction :: "cg_node \<Rightarrow> nat option \<Rightarrow> cg_node \<Rightarrow> ptacg \<Rightarrow> ptacg" where
  "addCalledFunction N CB M cg = cg\<lparr>CalledFunctions := (CalledFunctions cg)(N := CalledFunctions cg N @ [(CB, M)])\<rparr>"

section \<open>Construction\<close>

definition lookup_fn :: "cg_function list \<Rightarrow> nat \<Rightarrow> cg_function option" where
  "lookup_fn M i = find (\<lambda>f. cf_id f = i) M"

definition IsCandidateF :: "cg_call \<Rightarrow> cg_function \<Rightarrow> bool" where
  "IsCandidateF CI F \<longleftrightarrow> cc_nargs CI = cf_nargs F \<or> (cf_vararg F \<and> cc_nargs CI > cf_nargs F)"

definition candidates :: "cg_function list \<Rightarrow> cg_call \<Rightarrow> avalue list \<Rightarrow> cg_function list" where
  "candidates M CI PtsSet = filter (IsCandidateF CI)
     (List.map_filter (\<lambda>v. case v of ConstV (GlobalValue g) \<Rightarrow> lookup_fn M g | _ \<Rightarrow> None) PtsSet)"

definition add_candidate :: "cg_node \<Rightarrow> cg_call \<Rightarrow> cg_function \<Rightarrow> ptacg \<Rightarrow> ptacg" where
  "add_candidate Node CI LocalCallee cg =
     (let cg1 = cg\<lparr>indirectCallMap := (indirectCallMap cg)(cc_id CI :=
            List.insert (cf_id LocalCallee) (indirectCallMap cg (cc_id CI)))\<rparr>
      in if cf_leaf LocalCallee then addCalledFunction Node (Some (cc_id CI)) (FnNode (cf_id LocalCallee)) cg1 else cg1)"

definition add_call ::
  "cg_function list \<Rightarrow> (nat \<Rightarrow> avalue list option) \<Rightarrow> cg_node \<Rightarrow> cg_call \<Rightarrow> ptacg \<Rightarrow> cg_error + ptacg" where
  "add_call M AA Node CI cg =
     (case cc_callee CI of
        Some c \<Rightarrow>
          (case lookup_fn M c of
             None \<Rightarrow> Inl CG_Assertion
           | Some Callee \<Rightarrow>
               Inr (if \<not> cf_leaf Callee then addCalledFunction Node (Some (cc_id CI)) CallsExternalNode cg
                    else if \<not> cf_intrinsic Callee then addCalledFunction Node (Some (cc_id CI)) (FnNode c) cg
                    else cg))
      | None \<Rightarrow>
          (let cg1 = addCalledFunction Node (Some (cc_id CI)) CallsExternalNode cg in
           case AA (cc_id CI) of
             None \<Rightarrow> Inl CG_Assertion
           | Some PtsSet \<Rightarrow>
               if candidates M CI PtsSet = [] then Inl CG_Assertion
               else Inr (fold (add_candidate Node CI) (candidates M CI PtsSet) cg1)))"

definition link_external :: "cg_function \<Rightarrow> ptacg \<Rightarrow> cg_error + ptacg" where
  "link_external F cg =
     (let Node = FnNode (cf_id F) in
      bindE (if cf_local F then Inr cg
             else let cg1 = addCalledFunction ExternalCallingNode None Node cg in
                  if cf_name F = ''main''
                  then if Root cg \<noteq> None then Inl CG_Assertion
                       else Inr (cg1\<lparr>Root := Some Node, ProgEntry := Some Node\<rparr>)
                  else Inr cg1) (\<lambda>cg2.
        let cg3 = (if cf_addr_taken F then addCalledFunction ExternalCallingNode None Node cg2 else cg2)
        in Inr (if cf_decl F \<and> \<not> cf_intrinsic F then addCalledFunction Node None CallsExternalNode cg3 else cg3)))"

definition addToCallGraph ::
  "cg_function list \<Rightarrow> (nat \<Rightarrow> avalue list option) \<Rightarrow> cg_function \<Rightarrow> ptacg \<Rightarrow> cg_error + ptacg" where
  "addToCallGraph M AA F cg =
     bindE (link_external F cg) (foldE (add_call M AA (FnNode (cf_id F))) (cf_calls F))"

fun function_of :: "cg_node \<Rightarrow> nat option" where
  "function_of (FnNode f) = Some f"
| "function_of _ = None"

text \<open>The search from \<open>main\<close>: nodes are marked when they are put on the queue, so the functions
  of the marked nodes are those of the nodes taken from it.\<close>

definition callees :: "ptacg \<Rightarrow> cg_node \<Rightarrow> cg_node list" where
  "callees cg N = map snd (CalledFunctions cg N)"

definition PTACallGraph ::
  "nat \<Rightarrow> (nat \<Rightarrow> avalue list option) \<Rightarrow> cg_function list \<Rightarrow> cg_error + ptacg" where
  "PTACallGraph fuel AA M =
     bindE (foldE (addToCallGraph M AA) M empty_cg) (\<lambda>cg.
       let cg1 = (if Root cg = None then cg\<lparr>Root := Some ExternalCallingNode\<rparr> else cg) in
       case ProgEntry cg1 of
         None \<Rightarrow> Inr cg1
       | Some N \<Rightarrow>
           (case explore (\<lambda>_. False) (enqueue_new (callees cg1)) fuel [N] [N] of
              Some (Exhausted Visited) \<Rightarrow> Inr (cg1\<lparr>reachableFunctions := List.map_filter function_of Visited\<rparr>)
            | _ \<Rightarrow> Inl CG_out_of_fuel))"

definition isReachableFromEntry :: "ptacg \<Rightarrow> nat \<Rightarrow> bool" where
  "isReachableFromEntry cg F \<longleftrightarrow> (if ProgEntry cg \<noteq> None then F \<in> set (reachableFunctions cg) else True)"

section \<open>The calls of a function\<close>

text \<open>What a call adds to the callees of its function.\<close>

definition call_targets :: "cg_function list \<Rightarrow> (nat \<Rightarrow> avalue list option) \<Rightarrow> cg_call \<Rightarrow> cg_node list" where
  "call_targets M AA CI =
     (case cc_callee CI of
        Some c \<Rightarrow> (case lookup_fn M c of
             None \<Rightarrow> []
           | Some Callee \<Rightarrow> if \<not> cf_leaf Callee then [CallsExternalNode]
                            else if \<not> cf_intrinsic Callee then [FnNode c] else [])
      | None \<Rightarrow> CallsExternalNode # (case AA (cc_id CI) of
             None \<Rightarrow> []
           | Some PtsSet \<Rightarrow> map (\<lambda>g. FnNode (cf_id g)) (filter cf_leaf (candidates M CI PtsSet))))"

lemma callees_add [simp]:
  "callees (addCalledFunction N CB M cg) = (callees cg)(N := callees cg N @ [M])"
  by (simp add: callees_def addCalledFunction_def fun_eq_iff)

lemma callees_update [simp]:
  "callees (cg\<lparr>indirectCallMap := m\<rparr>) = callees cg" "callees (cg\<lparr>Root := r\<rparr>) = callees cg"
  "callees (cg\<lparr>ProgEntry := p\<rparr>) = callees cg" "callees (cg\<lparr>reachableFunctions := R\<rparr>) = callees cg"
  by (simp_all add: callees_def fun_eq_iff)

lemma callees_candidates:
  "callees (fold (add_candidate N CI) gs cg) =
     (callees cg)(N := callees cg N @ map (\<lambda>g. FnNode (cf_id g)) (filter cf_leaf gs))"
  by (induction gs arbitrary: cg) (simp_all add: add_candidate_def Let_def)

lemma callees_call:
  "add_call M AA N CI cg = Inr cg' \<Longrightarrow> callees cg' = (callees cg)(N := callees cg N @ call_targets M AA CI)"
  by (auto simp: add_call_def call_targets_def Let_def callees_candidates split: option.splits if_splits)

lemma callees_calls:
  "foldE (add_call M AA N) cs cg = Inr cg' \<Longrightarrow>
   callees cg' = (callees cg)(N := callees cg N @ concat (map (call_targets M AA) cs))"
  by (induction cs arbitrary: cg) (fastforce simp: bindE_eq_Inr dest: callees_call)+

lemma callees_link:
  assumes "link_external F cg = Inr cg'"
  shows "N \<noteq> ExternalCallingNode \<Longrightarrow> callees cg' N = callees cg N @
    (if N = FnNode (cf_id F) \<and> cf_decl F \<and> \<not> cf_intrinsic F then [CallsExternalNode] else [])"
  using assms by (auto simp: link_external_def bindE_eq_Inr Let_def split: if_splits)

definition calls_rel :: "cg_function list \<Rightarrow> (nat \<Rightarrow> avalue list option) \<Rightarrow> (nat \<times> nat) set" where
  "calls_rel M AA = {(f, g). \<exists>F\<in>set M. cf_id F = f \<and> (\<exists>CI\<in>set (cf_calls F). FnNode g \<in> set (call_targets M AA CI))}"

lemma targets_internal: "ExternalCallingNode \<notin> set (call_targets M AA CI)"
  by (auto simp: call_targets_def split: option.splits)

lemma callees_function:
  assumes "addToCallGraph M AA F cg = Inr cg'" "N \<noteq> ExternalCallingNode"
  shows "set (callees cg' N) = set (callees cg N) \<union> (if N = FnNode (cf_id F)
    then (if cf_decl F \<and> \<not> cf_intrinsic F then {CallsExternalNode} else {}) \<union> (\<Union>CI\<in>set (cf_calls F). set (call_targets M AA CI)) else {})"
proof -
  obtain cg1 where 1: "link_external F cg = Inr cg1" "foldE (add_call M AA (FnNode (cf_id F))) (cf_calls F) cg1 = Inr cg'"
    using assms(1) by (auto simp: addToCallGraph_def bindE_eq_Inr)
  show ?thesis
    using callees_link [OF 1(1) assms(2)] callees_calls [OF 1(2)] by auto
qed

lemma callees_build:
  assumes "foldE (addToCallGraph M AA) Fs cg = Inr cg'"
  shows "FnNode g \<in> set (callees cg' (FnNode f)) \<longleftrightarrow> FnNode g \<in> set (callees cg (FnNode f)) \<or>
      (\<exists>F\<in>set Fs. cf_id F = f \<and> (\<exists>CI\<in>set (cf_calls F). FnNode g \<in> set (call_targets M AA CI)))"
    and "set (callees cg' CallsExternalNode) = set (callees cg CallsExternalNode)"
    and "ExternalCallingNode \<in> set (callees cg' (FnNode f)) \<longleftrightarrow> ExternalCallingNode \<in> set (callees cg (FnNode f))"
  using assms
proof (induction Fs arbitrary: cg)
  case (Cons F Fs)
  { case 1
    then obtain cg1 where s: "addToCallGraph M AA F cg = Inr cg1" "foldE (addToCallGraph M AA) Fs cg1 = Inr cg'"
      by (auto simp: bindE_eq_Inr)
    show ?case using callees_function [OF s(1), of "FnNode f"] Cons.IH(1) [OF s(2)] by auto }
  { case 2
    then obtain cg1 where s: "addToCallGraph M AA F cg = Inr cg1" "foldE (addToCallGraph M AA) Fs cg1 = Inr cg'"
      by (auto simp: bindE_eq_Inr)
    show ?case using callees_function [OF s(1), of CallsExternalNode] Cons.IH(2) [OF s(2)] by auto }
  { case 3
    then obtain cg1 where s: "addToCallGraph M AA F cg = Inr cg1" "foldE (addToCallGraph M AA) Fs cg1 = Inr cg'"
      by (auto simp: bindE_eq_Inr)
    show ?case using callees_function [OF s(1), of "FnNode f"] Cons.IH(3) [OF s(2)] targets_internal by auto }
qed simp_all

lemma entry_candidates: "ProgEntry (fold (add_candidate N CI) gs cg) = ProgEntry cg \<and> Root (fold (add_candidate N CI) gs cg) = Root cg"
  by (induction gs arbitrary: cg) (simp_all add: add_candidate_def addCalledFunction_def Let_def)

lemma entry_calls:
  "foldE (add_call M AA N) cs cg = Inr cg' \<Longrightarrow> ProgEntry cg' = ProgEntry cg \<and> Root cg' = Root cg"
proof (induction cs arbitrary: cg)
  case (Cons CI cs)
  then obtain cg1 where s: "add_call M AA N CI cg = Inr cg1" "foldE (add_call M AA N) cs cg1 = Inr cg'"
    by (auto simp: bindE_eq_Inr)
  have "ProgEntry cg1 = ProgEntry cg \<and> Root cg1 = Root cg"
    using s(1) entry_candidates
    by (auto simp: add_call_def Let_def addCalledFunction_def split: option.splits if_splits)
  with Cons.IH [OF s(2)] show ?case by simp
qed simp

definition is_main :: "cg_function \<Rightarrow> bool" where
  "is_main F \<longleftrightarrow> \<not> cf_local F \<and> cf_name F = ''main''"

lemma entry_function:
  assumes "addToCallGraph M AA F cg = Inr cg'"
  shows "if is_main F then Root cg = None \<and> ProgEntry cg' = Some (FnNode (cf_id F)) \<and> Root cg' \<noteq> None
    else ProgEntry cg' = ProgEntry cg \<and> Root cg' = Root cg"
proof -
  obtain cg1 where 1: "link_external F cg = Inr cg1" "foldE (add_call M AA (FnNode (cf_id F))) (cf_calls F) cg1 = Inr cg'"
    using assms(1) by (auto simp: addToCallGraph_def bindE_eq_Inr)
  show ?thesis
    using 1(1) entry_calls [OF 1(2)]
    by (auto simp: link_external_def bindE_eq_Inr Let_def addCalledFunction_def is_main_def split: if_splits)
qed

lemma entry_build:
  "foldE (addToCallGraph M AA) Fs cg = Inr cg' \<Longrightarrow>
   (Root cg \<noteq> None \<longrightarrow> ProgEntry cg' = ProgEntry cg) \<and> (\<forall>F\<in>set Fs. is_main F \<longrightarrow> ProgEntry cg' = Some (FnNode (cf_id F)))"
proof (induction Fs arbitrary: cg)
  case (Cons F Fs)
  then obtain cg1 where s: "addToCallGraph M AA F cg = Inr cg1" "foldE (addToCallGraph M AA) Fs cg1 = Inr cg'"
    by (auto simp: bindE_eq_Inr)
  with entry_function [OF s(1)] Cons.IH [OF s(2)] show ?case by (auto split: if_splits)
qed simp

section \<open>Reachability\<close>

lemma lookup_fn_in: "lookup_fn M c = Some F \<Longrightarrow> F \<in> set M \<and> cf_id F = c"
  by (auto simp: lookup_fn_def find_Some_iff)

lemma candidate_in: "g \<in> set (candidates M CI PtsSet) \<Longrightarrow> g \<in> set M"
proof -
  assume "g \<in> set (candidates M CI PtsSet)"
  then obtain v where "(case v of ConstV (GlobalValue g) \<Rightarrow> lookup_fn M g | _ \<Rightarrow> None) = Some g"
    by (auto simp: candidates_def List.map_filter_def)
  then show "g \<in> set M"
    by (auto dest: lookup_fn_in split: avalue.splits const_val.splits)
qed

lemma targets_known: "N \<in> set (call_targets M AA CI) \<Longrightarrow> N = CallsExternalNode \<or> N \<in> FnNode ` cf_id ` set M"
proof (cases "cc_callee CI")
  case (Some c)
  assume "N \<in> set (call_targets M AA CI)"
  with Some show ?thesis
    by (cases "lookup_fn M c") (auto simp: call_targets_def dest!: lookup_fn_in split: if_splits)
next
  case None
  assume "N \<in> set (call_targets M AA CI)"
  with None show ?thesis by (auto simp: call_targets_def dest!: candidate_in split: option.splits)
qed

lemma function_of_Some: "function_of n = Some g \<longleftrightarrow> n = FnNode g"
  by (cases n) auto

definition cg_edges :: "ptacg \<Rightarrow> (cg_node \<times> cg_node) set" where
  "cg_edges cg = {(x, y). y \<in> set (callees cg x)}"

lemma reach_functions:
  assumes "foldE (addToCallGraph M AA) M empty_cg = Inr cg"
  shows "(FnNode f, N) \<in> (cg_edges cg)\<^sup>* \<longleftrightarrow>
    (\<exists>g. N = FnNode g \<and> (f, g) \<in> (calls_rel M AA)\<^sup>*) \<or>
    (N = CallsExternalNode \<and> (\<exists>g. (f, g) \<in> (calls_rel M AA)\<^sup>* \<and> CallsExternalNode \<in> set (callees cg (FnNode g))))"
    (is "?L \<longleftrightarrow> ?R N")
proof -
  note b = callees_build [OF assms]
  have empty: "callees empty_cg = (\<lambda>_. [])" by (simp add: callees_def empty_cg_def fun_eq_iff)
  have fn: "FnNode h \<in> set (callees cg (FnNode g)) \<longleftrightarrow> (g, h) \<in> calls_rel M AA" for g h
    using b(1) [of h g] by (simp add: empty calls_rel_def)
  have ext: "ExternalCallingNode \<notin> set (callees cg (FnNode g))" "callees cg CallsExternalNode = []" for g
    using b(2,3) by (simp_all add: empty)
  show ?thesis
  proof
    assume ?L
    then show "?R N"
    proof (induction rule: rtrancl_induct)
      case (step x y)
      then have y: "y \<in> set (callees cg x)" by (simp add: cg_edges_def)
      from step.IH show ?case
      proof (elim disjE exE conjE)
        fix g assume g: "x = FnNode g" "(f, g) \<in> (calls_rel M AA)\<^sup>*"
        show ?case
        proof (cases y)
          case (FnNode h)
          with g y fn have "(g, h) \<in> calls_rel M AA" by simp
          with g(2) FnNode show ?thesis by (auto intro: rtrancl_into_rtrancl)
        next
          case ExternalCallingNode
          with g y ext(1) show ?thesis by simp
        next
          case CallsExternalNode
          with g y show ?thesis by blast
        qed
      next
        fix g assume "x = CallsExternalNode"
        with y ext(2) show ?case by simp
      qed
    qed blast
  next
    have fwd: "(FnNode f, FnNode g) \<in> (cg_edges cg)\<^sup>*" if "(f, g) \<in> (calls_rel M AA)\<^sup>*" for g
      using that
    proof (induction rule: rtrancl_induct)
      case (step g h)
      then have "(FnNode g, FnNode h) \<in> cg_edges cg" using fn by (simp add: cg_edges_def)
      with step.IH show ?case by (rule rtrancl_into_rtrancl)
    qed simp
    assume "?R N"
    then show ?L
      using fwd by (auto simp: cg_edges_def intro: rtrancl_into_rtrancl)
  qed
qed

lemma edges_added_call: "cg_edges (addCalledFunction N CB M cg) = insert (N, M) (cg_edges cg)"
  by (auto simp: cg_edges_def split: if_splits)

lemma function_finite:
  assumes "addToCallGraph M AA F cg = Inr cg'" "finite (cg_edges cg)"
  shows "finite (cg_edges cg')"
proof -
  obtain cg1 where s: "link_external F cg = Inr cg1" "foldE (add_call M AA (FnNode (cf_id F))) (cf_calls F) cg1 = Inr cg'"
    using assms(1) by (auto simp: addToCallGraph_def bindE_eq_Inr)
  have other: "cg_edges (c\<lparr>Root := r, ProgEntry := p\<rparr>) = cg_edges c" for c r p by (simp add: cg_edges_def)
  have "finite (cg_edges cg1)"
    using s(1) assms(2) by (auto simp: link_external_def bindE_eq_Inr Let_def edges_added_call other split: if_splits)
  moreover have "cg_edges cg' \<subseteq> cg_edges cg1 \<union> {FnNode (cf_id F)} \<times> set (callees cg' (FnNode (cf_id F)))"
    using callees_calls [OF s(2)] by (auto simp: cg_edges_def split: if_splits)
  ultimately show ?thesis by (auto intro: finite_subset)
qed

lemma call_graph_built:
  assumes "PTACallGraph n AA M = Inr cg"
  shows "\<exists>cg0. foldE (addToCallGraph M AA) M empty_cg = Inr cg0 \<and> callees cg = callees cg0 \<and> Root cg \<noteq> None"
proof -
  obtain cg0 where 0: "foldE (addToCallGraph M AA) M empty_cg = Inr cg0"
    using assms by (auto simp: PTACallGraph_def bindE_eq_Inr)
  define cg1 where "cg1 = (if Root cg0 = None then cg0\<lparr>Root := Some ExternalCallingNode\<rparr> else cg0)"
  have 1: "callees cg1 = callees cg0" "Root cg1 \<noteq> None" by (simp_all add: cg1_def)
  have e: "PTACallGraph n AA M = (case ProgEntry cg1 of None \<Rightarrow> Inr cg1
     | Some N \<Rightarrow> (case explore (\<lambda>_. False) (enqueue_new (callees cg1)) n [N] [N] of
          Some (Exhausted V) \<Rightarrow> Inr (cg1\<lparr>reachableFunctions := List.map_filter function_of V\<rparr>) | _ \<Rightarrow> Inl CG_out_of_fuel))"
    unfolding PTACallGraph_def 0 bindE_Inr Let_def cg1_def [symmetric] ..
  have "cg = cg1 \<or> (\<exists>R. cg = cg1\<lparr>reachableFunctions := R\<rparr>)"
  proof (cases "ProgEntry cg1")
    case None
    with e assms show ?thesis by simp
  next
    case (Some N)
    then show ?thesis
      using e assms by (cases "explore (\<lambda>_. False) (enqueue_new (callees cg1)) n [N] [N]") (auto split: outcome.splits)
  qed
  with 0 1 show ?thesis by auto
qed

lemma call_graph_finite: "PTACallGraph n AA M = Inr cg \<Longrightarrow> finite (cg_edges cg)"
proof -
  assume "PTACallGraph n AA M = Inr cg"
  from call_graph_built [OF this] obtain cg0 where 0: "foldE (addToCallGraph M AA) M empty_cg = Inr cg0" "callees cg = callees cg0"
    by blast
  have "cg_edges empty_cg = {}" by (simp add: cg_edges_def empty_cg_def callees_def)
  then have "finite (cg_edges cg0)"
    by (intro foldE_inv [OF 0(1), where P = "\<lambda>c. finite (cg_edges c)"]) (auto intro: function_finite)
  with 0(2) show ?thesis by (simp add: cg_edges_def)
qed

section \<open>Property\<close>

text \<open>C8: when the calls of a module can be added, the search from its external \<open>main\<close> ends, and a
  function counts as reachable exactly when a chain of calls leads to it from \<open>main\<close>, each
  a direct call of a function that is no intrinsic or an indirect call one of whose
  points-to candidates it is.\<close>

theorem reachable_from_main_iff:
  assumes "foldE (addToCallGraph M AA) M empty_cg = Inr cg0" "F \<in> set M" "is_main F" "length M + 3 \<le> fuel"
  shows "\<exists>cg. PTACallGraph fuel AA M = Inr cg \<and>
    (\<forall>g. isReachableFromEntry cg g \<longleftrightarrow> (cf_id F, g) \<in> (calls_rel M AA)\<^sup>*)"
proof -
  let ?cg = "if Root cg0 = None then cg0\<lparr>Root := Some ExternalCallingNode\<rparr> else cg0"
  let ?N = "FnNode (cf_id F)" and ?U = "{CallsExternalNode} \<union> FnNode ` cf_id ` set M"
  have cal: "callees ?cg = callees cg0" by simp
  have entry: "ProgEntry ?cg = Some ?N" using entry_build [OF assms(1)] assms(2,3) by auto
  have "set (callees cg0 x) \<subseteq> ?U" if xU: "x \<in> ?U" for x
  proof
    fix y assume y: "y \<in> set (callees cg0 x)"
    note b = callees_build [OF assms(1)]
    have empty: "callees empty_cg = (\<lambda>_. [])" by (simp add: callees_def empty_cg_def fun_eq_iff)
    obtain f where x: "x = FnNode f" using xU y b(2) by (auto simp: empty)
    show "y \<in> ?U"
    proof (cases y)
      case (FnNode g)
      with y x b(1) [of g f] obtain CI where "FnNode g \<in> set (call_targets M AA CI)"
        by (auto simp: empty)
      from targets_known [OF this] FnNode show ?thesis by simp
    qed (use y x b(3) [of f] in \<open>simp_all add: empty\<close>)
  qed
  moreover have "card ?U \<le> Suc (length M)"
    using card_image_le [of "cf_id ` set M" FnNode] card_image_le [of "set M" cf_id] card_length [of M]
      card_insert_le_m1 [of _ "FnNode ` cf_id ` set M"] by (simp add: card_insert_if)
  then have "card (?U - set [?N]) + length [?N] \<le> fuel"
    using assms(4) card_mono [of ?U "?U - set [?N]"] by simp
  ultimately obtain r where r: "explore (\<lambda>_. False) (enqueue_new (callees cg0)) fuel [?N] [?N] = Some r"
    using queue.explore_ends [of ?U "[?N]" "[?N]" "callees cg0" fuel "\<lambda>_. False"] assms(2) by auto
  from queue.explore_inv [OF r, of "{?N}"] obtain V where V: "r = Exhausted V" "set V = (cg_edges cg0)\<^sup>* `` {?N}"
    using queue.explore_keeps [of _ "callees cg0" fuel "[?N]" "[?N]"] r
    by (auto simp: queue.edges_def cg_edges_def insert_absorb split: outcome.splits)
  have "PTACallGraph fuel AA M = Inr (?cg\<lparr>reachableFunctions := List.map_filter function_of V\<rparr>)"
    using assms(1) entry r V(1) cal by (simp add: PTACallGraph_def)
  moreover have "g \<in> set (List.map_filter function_of V) \<longleftrightarrow> FnNode g \<in> set V" for g
  proof
    assume "g \<in> set (List.map_filter function_of V)"
    then obtain n where "n \<in> set V" "function_of n = Some g" by (auto simp: List.map_filter_def)
    then show "FnNode g \<in> set V" by (simp add: function_of_Some)
  next
    assume "FnNode g \<in> set V"
    then show "g \<in> set (List.map_filter function_of V)"
      unfolding List.map_filter_def by force
  qed
  ultimately show ?thesis
    using entry V(2) reach_functions [OF assms(1), of "cf_id F"] by (auto simp: isReachableFromEntry_def)
qed

text \<open>\<open>main\<close> calls function 2 directly; function 3 is called by no one.\<close>

definition demo_fn :: "nat \<Rightarrow> string \<Rightarrow> cg_call list \<Rightarrow> cg_function" where
  "demo_fn i n cs = \<lparr>cf_id = i, cf_name = n, cf_local = False, cf_addr_taken = False, cf_decl = False,
     cf_intrinsic = False, cf_leaf = True, cf_vararg = False, cf_nargs = 0, cf_calls = cs\<rparr>"

definition demo_calls :: "cg_function list" where
  "demo_calls = [demo_fn 1 ''main'' [\<lparr>cc_id = 10, cc_callee = Some 2, cc_nargs = 0\<rparr>], demo_fn 2 ''f'' [], demo_fn 3 ''g'' []]"

lemma demo_calls_added: "\<exists>cg. foldE (addToCallGraph demo_calls (\<lambda>_. None)) demo_calls empty_cg = Inr cg"
  by (simp add: demo_calls_def demo_fn_def addToCallGraph_def link_external_def add_call_def lookup_fn_def Let_def
      empty_cg_def addCalledFunction_def)

theorem reachable_from_main_iff_witness:
  "\<exists>cg. PTACallGraph 6 (\<lambda>_. None) demo_calls = Inr cg \<and>
    (\<forall>g. isReachableFromEntry cg g \<longleftrightarrow> (1, g) \<in> (calls_rel demo_calls (\<lambda>_. None))\<^sup>*)"
proof -
  obtain cg0 where "foldE (addToCallGraph demo_calls (\<lambda>_. None)) demo_calls empty_cg = Inr cg0"
    using demo_calls_added by blast
  from reachable_from_main_iff [OF this, of "demo_fn 1 ''main'' [\<lparr>cc_id = 10, cc_callee = Some 2, cc_nargs = 0\<rparr>]" 6]
  show ?thesis by (simp add: demo_calls_def demo_fn_def is_main_def)
qed

end
