(* ===== verification/Mod_Ref.thy ===== *)
theory Mod_Ref
  imports Memory_Region Call_Graph
begin

text \<open>
  The mod/ref analysis (\<open>src/aSSA/ModRefAnalysis.cpp\<close>): the regions each function may
  write and read, from its own instructions and from the functions it calls,
  less the local regions of callees.

  The strongly connected components of the call graph are those of LLVM's
  iterator, an input of the model, with the order it documents: callees first.
  A failed assertion, a failed cast and a read outside of a row of the table of
  external functions are errors. The direct and the indirect case of a call are
  written out twice in the code; here both are a list of candidates.
\<close>

section \<open>State\<close>

datatype mr_error = MR_Assertion | MR_Out_of_bounds | MR_out_of_fuel

record modref =
  funcModMap :: "nat \<Rightarrow> nat list"
  funcRefMap :: "nat \<Rightarrow> nat list"
  funcLocalMap :: "nat \<Rightarrow> nat list"
  funcKillMap :: "nat \<Rightarrow> nat list"
  globalKillSet :: "nat list"

definition no_modref :: modref where
  "no_modref = \<lparr>funcModMap = (\<lambda>_. []), funcRefMap = (\<lambda>_. []), funcLocalMap = (\<lambda>_. []), funcKillMap = (\<lambda>_. []), globalKillSet = []\<rparr>"

record menv =
  me_fns :: "mfn list"
  me_opts :: options
  me_pts :: "nat \<Rightarrow> nat list option"
  me_regions :: memreg
  me_indirect :: "nat \<Rightarrow> nat list"
  me_reach :: "nat \<Rightarrow> bool"

definition me_fn :: "menv \<Rightarrow> nat \<Rightarrow> mfn option" where
  "me_fn E f = find (\<lambda>F. mf_id F = f) (me_fns E)"

definition regions_of :: "menv \<Rightarrow> nat \<Rightarrow> mr_error + nat list" where
  "regions_of E V = (case me_pts E V of None \<Rightarrow> Inl MR_Assertion | Some PtsSet \<Rightarrow> Inr (getValuesRegion (me_regions E) PtsSet))"

definition alive :: "modref \<Rightarrow> nat list \<Rightarrow> nat list" where
  "alive st Regs = filter (\<lambda>R. R \<notin> set (globalKillSet st)) Regs"

definition add_ref :: "nat \<Rightarrow> nat list \<Rightarrow> modref \<Rightarrow> modref" where
  "add_ref F Regs st = st\<lparr>funcRefMap := (funcRefMap st)(F := fold set_add (alive st Regs) (funcRefMap st F))\<rparr>"

definition add_mod :: "nat \<Rightarrow> nat list \<Rightarrow> modref \<Rightarrow> modref" where
  "add_mod F Regs st = st\<lparr>funcModMap := (funcModMap st)(F := fold set_add (alive st Regs) (funcModMap st F))\<rparr>"

section \<open>Instructions\<close>

definition visitAllocaInst :: "menv \<Rightarrow> nat \<Rightarrow> nat \<Rightarrow> modref \<Rightarrow> mr_error + modref" where
  "visitAllocaInst E F I st = (case getValueRegion (me_regions E) I of
     None \<Rightarrow> Inl MR_Assertion
   | Some R \<Rightarrow> Inr (st\<lparr>funcLocalMap := (funcLocalMap st)(F := set_add R (funcLocalMap st F))\<rparr>))"

definition visitLoadInst_mr :: "menv \<Rightarrow> nat \<Rightarrow> nat \<Rightarrow> modref \<Rightarrow> mr_error + modref" where
  "visitLoadInst_mr E F ptr st = bindE (regions_of E ptr) (\<lambda>Regs. Inr (add_ref F Regs st))"

definition visitStoreInst_mr :: "menv \<Rightarrow> nat \<Rightarrow> nat \<Rightarrow> modref \<Rightarrow> mr_error + modref" where
  "visitStoreInst_mr E F ptr st = bindE (regions_of E ptr) (\<lambda>Regs. Inr (add_mod F Regs st))"

definition is_omp_barrier :: "menv \<Rightarrow> mfn \<Rightarrow> bool" where
  "is_omp_barrier E C = (case Collective_find (me_opts E) (mf_name C) of
     None \<Rightarrow> False | Some Coll \<Rightarrow> par Coll = OMP \<and> Name Coll = ''__kmpc_barrier'')"

text \<open>The functions a call may reach, and those among them that are external.\<close>

definition may_callees :: "menv \<Rightarrow> nat \<Rightarrow> nat option \<Rightarrow> mfn list" where
  "may_callees E I Callee = List.map_filter (me_fn E) (case Callee of Some f \<Rightarrow> [f] | None \<Rightarrow> me_indirect E I)"

definition external :: "mfn \<Rightarrow> bool" where
  "external C \<longleftrightarrow> mf_decl C \<and> \<not> mf_dbg C"

definition mod_arg :: "nat \<Rightarrow> nat \<Rightarrow> nat list \<Rightarrow> mfn \<Rightarrow> modref \<Rightarrow> mr_error + modref" where
  "mod_arg F I Regs C st = (case getExtModInfo (mf_name C) of
     None \<Rightarrow> Inr st
   | Some Info \<Rightarrow>
       if I \<ge> NbArgs Info \<and> \<not> mf_vararg C then Inl MR_Assertion
       else (case arg_flag Info I of
          None \<Rightarrow> Inl MR_Out_of_bounds
        | Some m \<Rightarrow> Inr (if m then add_mod F Regs st else st)))"

definition visit_arg :: "menv \<Rightarrow> nat \<Rightarrow> mfn list \<Rightarrow> nat \<times> marg \<Rightarrow> modref \<Rightarrow> mr_error + modref" where
  "visit_arg E F Cs a st = (case snd a of
     PtrArg V \<Rightarrow> bindE (regions_of E V) (\<lambda>Regs. foldE (mod_arg F (fst a) Regs) Cs (add_ref F Regs st))
   | _ \<Rightarrow> Inr st)"

definition ret_mod :: "mfn \<Rightarrow> bool" where
  "ret_mod C = (case getExtModInfo (mf_name C) of None \<Rightarrow> False | Some Info \<Rightarrow> RetIsMod Info)"

definition visit_ret :: "menv \<Rightarrow> nat \<Rightarrow> nat \<Rightarrow> mfn \<Rightarrow> modref \<Rightarrow> mr_error + modref" where
  "visit_ret E F I C st =
     (if mf_ret_ptr C
      then bindE (regions_of E I) (\<lambda>Regs. let st1 = add_ref F Regs st in Inr (if ret_mod C then add_mod F Regs st1 else st1))
      else Inr st)"

definition visitCallBase :: "menv \<Rightarrow> nat \<Rightarrow> nat \<Rightarrow> nat option \<Rightarrow> marg list \<Rightarrow> modref \<Rightarrow> mr_error + modref" where
  "visitCallBase E F I Callee args st =
     (let st1 = (case Callee of
            None \<Rightarrow> st
          | Some f \<Rightarrow> (case me_fn E f of
               None \<Rightarrow> st
             | Some C \<Rightarrow> if is_omp_barrier E C then add_mod F (getOmpSharedRegions (me_regions E) F) st else st));
          Cs = filter external (may_callees E I Callee)
      in if Cs = [] then Inr st1
         else bindE (foldE (visit_arg E F Cs) (zip [0..<length args] args) st1) (foldE (visit_ret E F I) Cs))"

fun visit_mr :: "menv \<Rightarrow> nat \<Rightarrow> minst \<Rightarrow> modref \<Rightarrow> mr_error + modref" where
  "visit_mr E F I st = (case mi_op I of
     MAlloca \<Rightarrow> visitAllocaInst E F (mi_id I) st
   | MLoad ptr \<Rightarrow> visitLoadInst_mr E F ptr st
   | MStore ptr \<Rightarrow> visitStoreInst_mr E F ptr st
   | MCall Callee args _ \<Rightarrow> visitCallBase E F (mi_id I) Callee args st
   | MInvoke _ _ _ \<Rightarrow> Inl MR_Assertion
   | _ \<Rightarrow> Inr st)"

definition insts_of :: "mfn \<Rightarrow> minst list" where
  "insts_of F = concat (map snd (mf_blocks F))"

definition visit_fn :: "menv \<Rightarrow> mfn \<Rightarrow> modref \<Rightarrow> mr_error + modref" where
  "visit_fn E F st = (if me_reach E (mf_id F) then foldE (visit_mr E (mf_id F)) (insts_of F) st else Inr st)"

text \<open>An allocation site that is an instruction has the function it is in.\<close>

definition compute_kill_set :: "menv \<Rightarrow> (nat \<times> nat option) list \<Rightarrow> nat list" where
  "compute_kill_set E AllocSites =
     fold (\<lambda>(V, Fn) K. case Fn of
         None \<Rightarrow> K
       | Some f \<Rightarrow> if me_reach E f then K else (case getValueRegion (me_regions E) V of None \<Rightarrow> K | Some R \<Rightarrow> set_add R K))
       AllocSites []"

section \<open>Components of the call graph\<close>

definition kill_callee :: "cg_node list \<Rightarrow> nat \<Rightarrow> cg_node \<Rightarrow> modref \<Rightarrow> modref" where
  "kill_callee NodeVec F M st = (case function_of M of
     None \<Rightarrow> st
   | Some Callee \<Rightarrow> if F = Callee \<or> M \<in> set NodeVec then st
       else st\<lparr>funcKillMap := (funcKillMap st)(F :=
              fold set_add (funcKillMap st Callee) (fold set_add (funcLocalMap st Callee) (funcKillMap st F)))\<rparr>)"

definition not_killed :: "modref \<Rightarrow> nat \<Rightarrow> nat list \<Rightarrow> nat list" where
  "not_killed st F = filter (\<lambda>R. R \<notin> set (funcKillMap st F))"

definition remove_killed :: "nat \<Rightarrow> modref \<Rightarrow> modref" where
  "remove_killed F st = st\<lparr>funcModMap := (funcModMap st)(F := not_killed st F (funcModMap st F)),
     funcRefMap := (funcRefMap st)(F := not_killed st F (funcRefMap st F))\<rparr>"

definition kill_node :: "ptacg \<Rightarrow> cg_node list \<Rightarrow> cg_node \<Rightarrow> modref \<Rightarrow> modref" where
  "kill_node CG NodeVec N st = (case function_of N of
     None \<Rightarrow> st
   | Some F \<Rightarrow> remove_killed F (fold (kill_callee NodeVec F) (callees CG N) st))"

definition inherit :: "nat \<Rightarrow> nat \<Rightarrow> modref \<Rightarrow> modref" where
  "inherit F Callee st = st\<lparr>funcModMap := (funcModMap st)(F := fold set_add (not_killed st F (funcModMap st Callee)) (funcModMap st F)),
     funcRefMap := (funcRefMap st)(F := fold set_add (not_killed st F (funcRefMap st Callee)) (funcRefMap st F))\<rparr>"

definition update_callee :: "nat \<Rightarrow> cg_node \<Rightarrow> modref \<Rightarrow> modref" where
  "update_callee F M st = (case function_of M of
     None \<Rightarrow> st | Some Callee \<Rightarrow> if F = Callee then st else inherit F Callee st)"

definition update_node :: "ptacg \<Rightarrow> cg_node \<Rightarrow> modref \<times> bool \<Rightarrow> modref \<times> bool" where
  "update_node CG N s = (case s of (st, Changed) \<Rightarrow> (case function_of N of
     None \<Rightarrow> (st, Changed)
   | Some F \<Rightarrow>
       let st' = fold (update_callee F) (callees CG N) st
       in (st', if length (funcModMap st' F) > length (funcModMap st F) \<or> length (funcRefMap st' F) > length (funcRefMap st F)
                then True else Changed)))"

fun update_loop :: "ptacg \<Rightarrow> cg_node list \<Rightarrow> nat \<Rightarrow> modref \<Rightarrow> mr_error + modref" where
  "update_loop CG NodeVec 0 st = Inl MR_out_of_fuel"
| "update_loop CG NodeVec (Suc k) st = (case fold (update_node CG) NodeVec (st, False) of
     (st', Changed) \<Rightarrow> if Changed then update_loop CG NodeVec k st' else Inr st')"

definition analyze_scc :: "ptacg \<Rightarrow> nat \<Rightarrow> cg_node list \<Rightarrow> modref \<Rightarrow> mr_error + modref" where
  "analyze_scc CG fuel NodeVec st = update_loop CG NodeVec fuel (fold (kill_node CG NodeVec) NodeVec st)"

definition analyze_mr :: "nat \<Rightarrow> menv \<Rightarrow> ptacg \<Rightarrow> cg_node list list \<Rightarrow> (nat \<times> nat option) list \<Rightarrow> mr_error + modref" where
  "analyze_mr fuel E CG sccs AllocSites =
     bindE (foldE (visit_fn E) (me_fns E) (no_modref\<lparr>globalKillSet := compute_kill_set E AllocSites\<rparr>))
       (foldE (analyze_scc CG fuel) sccs)"

definition getFuncMod :: "modref \<Rightarrow> nat \<Rightarrow> nat list" where "getFuncMod st F = funcModMap st F"
definition getFuncRef :: "modref \<Rightarrow> nat \<Rightarrow> nat list" where "getFuncRef st F = funcRefMap st F"
definition getFuncKill :: "modref \<Rightarrow> nat \<Rightarrow> nat list" where "getFuncKill st F = funcKillMap st F"
definition inGlobalKillSet :: "modref \<Rightarrow> nat \<Rightarrow> bool" where "inGlobalKillSet st R \<longleftrightarrow> R \<in> set (globalKillSet st)"

section \<open>Example\<close>

text \<open>The function \<open>main\<close> writes the object 100 through pointer 5 in block 0, calls \<open>fill\<close> there, writes again in
  the branch of block 1 and reads in blocks 2 and 3; \<open>fill\<close> writes its own local 101 and the object 102.\<close>

definition demo_main :: mfn where
  "demo_main = \<lparr>mf_id = 1, mf_name = ''main'', mf_decl = False, mf_vararg = False, mf_ret_ptr = False, mf_args = [],
     mf_blocks = [(0, [\<lparr>mi_id = 20, mi_op = MStore 5\<rparr>, \<lparr>mi_id = 21, mi_op = MCall (Some 2) [] False\<rparr>]),
       (1, [\<lparr>mi_id = 22, mi_op = MStore 5\<rparr>]), (2, [\<lparr>mi_id = 23, mi_op = MLoad 5\<rparr>]),
       (3, [\<lparr>mi_id = 24, mi_op = MLoad 5\<rparr>, \<lparr>mi_id = 25, mi_op = MRet\<rparr>])]\<rparr>"

definition demo_fill :: mfn where
  "demo_fill = \<lparr>mf_id = 2, mf_name = ''fill'', mf_decl = False, mf_vararg = False, mf_ret_ptr = False, mf_args = [],
     mf_blocks = [(10, [\<lparr>mi_id = 101, mi_op = MAlloca\<rparr>, \<lparr>mi_id = 30, mi_op = MStore 101\<rparr>, \<lparr>mi_id = 31, mi_op = MStore 6\<rparr>,
       \<lparr>mi_id = 32, mi_op = MRet\<rparr>])]\<rparr>"

definition demo_pts :: "nat \<Rightarrow> nat list option" where
  "demo_pts = [5 \<mapsto> [100], 6 \<mapsto> [102], 101 \<mapsto> [101]]"

definition demo_env :: menv where
  "demo_env = \<lparr>me_fns = [demo_main, demo_fill], me_opts = mpi_options, me_pts = demo_pts,
     me_regions = MemReg mpi_options [100, 101, 102] demo_pts [], me_indirect = (\<lambda>_. []), me_reach = (\<lambda>_. True)\<rparr>"

definition demo_cg :: ptacg where
  "demo_cg = empty_cg\<lparr>CalledFunctions := (\<lambda>_. [])(FnNode 1 := [(Some 21, FnNode 2)])\<rparr>"

definition demo_sites :: "(nat \<times> nat option) list" where
  "demo_sites = [(100, None), (101, Some 2), (102, None)]"

lemmas memory_defs = demo_main_def demo_fill_def demo_pts_def demo_env_def demo_cg_def demo_sites_def empty_cg_def callees_def
  MemReg_def createRegion_def no_regions_def mpi_options_def isActivated_def ActivatedParadigm_def getValuesRegion_def getValueRegion_def
  getOmpSharedRegions_def me_fn_def may_callees_def external_def mf_dbg_def isIntrinsicDbgFunction_def is_omp_barrier_def
  Collective_find_def RegistryData_def MPIRegistry_def OMPRegistry_def UPCRegistry_def CUDARegistry_def enabled_def

lemmas modref_defs = no_modref_def regions_of_def alive_def add_ref_def add_mod_def visitAllocaInst_def visitLoadInst_mr_def
  visitStoreInst_mr_def visit_arg_def mod_arg_def visit_ret_def ret_mod_def visitCallBase_def insts_of_def visit_fn_def compute_kill_set_def

end
