(* ===== verification/Memory_SSA.thy ===== *)
theory Memory_SSA
  imports Mod_Ref
begin

text \<open>
  Memory SSA (\<open>src/aSSA/MemorySSA.cpp\<close>): loads and calls read regions through mus,
  stores, calls and entries of functions define them through chis, phis join
  definitions, and renaming gives each definition a variable and each use the
  variable that reaches it.

  A definition is known by its kind, place and region, which stands for the
  address of its object; a variable has its definition, version and block. The
  map from a function and a region to the entry chi points to the same objects as
  the list of entry chis, so it is a lookup there, and likewise for the return
  mus. The dominance frontier, the dominator tree and the post-dominator tree are
  LLVM's and inputs; the tree is given as the node of the entry block. Reading or
  popping an empty stack, a null pointer, a failed assertion and the call of
  \<open>exit\<close> are errors.
\<close>

section \<open>State\<close>

datatype ms_error = MS_Assertion | MS_Out_of_bounds | MS_Exit | MS_Null | MS_Empty_stack | MS_out_of_fuel

datatype mdef =
    EntryDef nat nat
  | PhiDef nat nat
  | StoreDef nat nat
  | SyncDef nat nat
  | CallDef nat nat nat
  | ExtCallDef nat nat nat nat
  | ExtRetCallDef nat nat nat
  | VarArgDef nat nat
  | VarArgExitDef nat nat
  | ExtArgDef nat nat nat
  | ExtArgExitDef nat nat nat
  | ExtRetDef nat nat

text \<open>The place comes first (a function, a block, or an instruction), then the called function, the
  number of the argument, and the region, which the chis of external functions do not have.\<close>

fun def_region :: "mdef \<Rightarrow> nat option" where
  "def_region (EntryDef F R) = Some R"
| "def_region (PhiDef BB R) = Some R"
| "def_region (StoreDef I R) = Some R"
| "def_region (SyncDef I R) = Some R"
| "def_region (CallDef I C R) = Some R"
| "def_region (ExtCallDef I C n R) = Some R"
| "def_region (ExtRetCallDef I C R) = Some R"
| "def_region _ = None"

record mvar =
  mv_def :: mdef
  mv_version :: nat
  mv_bb :: "nat option"

record schi =
  sc_def :: mdef
  sc_region :: nat
  sc_var :: "mvar option"
  sc_opVar :: "mvar option"

datatype smu_kind = LoadMu | CalledMu nat | ExtCalledMu nat nat | RetMu

record smu =
  su_region :: nat
  su_kind :: smu_kind
  su_var :: "mvar option"

record sphi =
  sp_def :: mdef
  sp_region :: nat
  sp_var :: "mvar option"
  sp_opsVar :: "(nat \<times> mvar) list"
  sp_preds :: "nat list"

type_synonym 'a keyed = "(nat \<times> 'a) list"

record memssa =
  usedRegs :: "nat list"
  regDefToBB :: "nat \<Rightarrow> nat list"
  loadToMu :: "nat \<Rightarrow> smu list"
  storeToChi :: "nat \<Rightarrow> schi list"
  callSiteToMu :: "nat \<Rightarrow> smu list"
  callSiteToChi :: "nat \<Rightarrow> schi list"
  callSiteToSyncChi :: "nat \<Rightarrow> schi list"
  callSiteToCallerRetChi :: "nat \<Rightarrow> schi list"
  bbToPhi :: "nat \<Rightarrow> sphi list"
  funToEntryChi :: "nat \<Rightarrow> schi list"
  funToReturnMu :: "nat \<Rightarrow> smu list"
  llvmPhiToPred :: "nat \<Rightarrow> nat list"
  extFuncToCS :: "nat \<Rightarrow> nat list"
  calleeRetChi :: "nat \<Rightarrow> schi keyed option"
  varArgEntryChi :: "nat \<Rightarrow> schi keyed option"
  varArgExitChi :: "nat \<Rightarrow> schi keyed option"
  argEntryChi :: "nat \<Rightarrow> schi keyed keyed option"
  argExitChi :: "nat \<Rightarrow> schi keyed keyed option"

definition empty_ssa :: memssa where
  "empty_ssa = \<lparr>usedRegs = [], regDefToBB = (\<lambda>_. []), loadToMu = (\<lambda>_. []), storeToChi = (\<lambda>_. []), callSiteToMu = (\<lambda>_. []),
     callSiteToChi = (\<lambda>_. []), callSiteToSyncChi = (\<lambda>_. []), callSiteToCallerRetChi = (\<lambda>_. []), bbToPhi = (\<lambda>_. []),
     funToEntryChi = (\<lambda>_. []), funToReturnMu = (\<lambda>_. []), llvmPhiToPred = (\<lambda>_. []), extFuncToCS = (\<lambda>_. []), calleeRetChi = Map.empty,
     varArgEntryChi = Map.empty, varArgExitChi = Map.empty, argEntryChi = Map.empty, argExitChi = Map.empty\<rparr>"

definition new_chi :: "mdef \<Rightarrow> nat \<Rightarrow> schi" where
  "new_chi d R = \<lparr>sc_def = d, sc_region = R, sc_var = None, sc_opVar = None\<rparr>"

definition new_mu :: "smu_kind \<Rightarrow> nat \<Rightarrow> smu" where
  "new_mu k R = \<lparr>su_region = R, su_kind = k, su_var = None\<rparr>"

text \<open>What LLVM knows of a function with a body.\<close>

record finfo =
  fi_cfg :: cfg
  fi_df :: "nat \<Rightarrow> nat list option"
  fi_dt :: dnode
  fi_pdt :: pdt
  fi_term :: "nat \<Rightarrow> terminator"

section \<open>Mus and chis\<close>

definition use_reg :: "nat \<Rightarrow> memssa \<Rightarrow> memssa" where
  "use_reg R st = st\<lparr>usedRegs := set_add R (usedRegs st)\<rparr>"

definition def_reg :: "nat \<Rightarrow> nat \<Rightarrow> memssa \<Rightarrow> memssa" where
  "def_reg R BB st = st\<lparr>regDefToBB := (regDefToBB st)(R := set_add BB (regDefToBB st R))\<rparr>"

definition append_at :: "nat \<Rightarrow> 'a \<Rightarrow> (nat \<Rightarrow> 'a list) \<Rightarrow> nat \<Rightarrow> 'a list" where
  "append_at k x m = m(k := m k @ [x])"

definition pts_regions :: "menv \<Rightarrow> nat \<Rightarrow> ms_error + nat list" where
  "pts_regions E V = (case me_pts E V of None \<Rightarrow> Inl MS_Assertion | Some PtsSet \<Rightarrow> Inr (getValuesRegion (me_regions E) PtsSet))"

definition alive_regions :: "menv \<Rightarrow> modref \<Rightarrow> nat \<Rightarrow> ms_error + nat list" where
  "alive_regions E MRA V = bindE (pts_regions E V) (\<lambda>Regs. Inr (filter (\<lambda>R. \<not> inGlobalKillSet MRA R) Regs))"

definition load_mus :: "nat \<Rightarrow> nat list \<Rightarrow> memssa \<Rightarrow> memssa" where
  "load_mus I = fold (\<lambda>R st. use_reg R (st\<lparr>loadToMu := append_at I (new_mu LoadMu R) (loadToMu st)\<rparr>))"

definition store_chis :: "nat \<Rightarrow> nat \<Rightarrow> nat list \<Rightarrow> memssa \<Rightarrow> memssa" where
  "store_chis BB I = fold (\<lambda>R st. def_reg R BB (use_reg R (st\<lparr>storeToChi := append_at I (new_chi (StoreDef I R) R) (storeToChi st)\<rparr>)))"

definition sync_chis :: "nat \<Rightarrow> nat \<Rightarrow> nat list \<Rightarrow> memssa \<Rightarrow> memssa" where
  "sync_chis BB I = fold (\<lambda>R st. use_reg R (def_reg R BB (st\<lparr>callSiteToSyncChi := append_at I (new_chi (SyncDef I R) R) (callSiteToSyncChi st)\<rparr>)))"

definition ext_mus :: "nat \<Rightarrow> nat \<Rightarrow> nat \<Rightarrow> nat list \<Rightarrow> memssa \<Rightarrow> memssa" where
  "ext_mus I C n = fold (\<lambda>R st. use_reg R (st\<lparr>callSiteToMu := append_at I (new_mu (ExtCalledMu C n) R) (callSiteToMu st)\<rparr>))"

definition ext_chis :: "nat \<Rightarrow> nat \<Rightarrow> nat \<Rightarrow> nat \<Rightarrow> nat list \<Rightarrow> memssa \<Rightarrow> memssa" where
  "ext_chis BB I C n = fold (\<lambda>R st. def_reg R BB (st\<lparr>callSiteToChi := append_at I (new_chi (ExtCallDef I C n R) R) (callSiteToChi st)\<rparr>))"

definition ext_arg :: "menv \<Rightarrow> modref \<Rightarrow> nat \<Rightarrow> nat \<Rightarrow> mfn \<Rightarrow> nat \<times> marg \<Rightarrow> memssa \<Rightarrow> ms_error + memssa" where
  "ext_arg E MRA BB I C a st = (case snd a of
     PtrArg V \<Rightarrow> bindE (alive_regions E MRA V) (\<lambda>Regs.
       let st1 = ext_mus I (mf_id C) (fst a) Regs st in
       case getExtModInfo (mf_name C) of
         None \<Rightarrow> Inr st1
       | Some Info \<Rightarrow>
           if fst a \<ge> NbArgs Info \<and> \<not> mf_vararg C then Inl MS_Assertion
           else (case arg_flag Info (fst a) of
              None \<Rightarrow> Inl MS_Out_of_bounds
            | Some m \<Rightarrow> Inr (if m then ext_chis BB I (mf_id C) (fst a) Regs st1 else st1)))
   | _ \<Rightarrow> Inr st)"

definition ret_chis :: "nat \<Rightarrow> nat \<Rightarrow> nat \<Rightarrow> nat list \<Rightarrow> memssa \<Rightarrow> memssa" where
  "ret_chis BB I C = fold (\<lambda>R st. use_reg R (def_reg R BB
     (st\<lparr>callSiteToCallerRetChi := append_at I (new_chi (ExtRetCallDef I C R) R) (callSiteToCallerRetChi st)\<rparr>)))"

definition ext_ret :: "menv \<Rightarrow> modref \<Rightarrow> nat \<Rightarrow> nat \<Rightarrow> bool \<Rightarrow> mfn \<Rightarrow> memssa \<Rightarrow> ms_error + memssa" where
  "ext_ret E MRA BB I ptr C st =
     (if ret_mod C \<and> ptr then bindE (alive_regions E MRA I) (\<lambda>Regs. Inr (ret_chis BB I (mf_id C) Regs st)) else Inr st)"

definition call_mus :: "nat \<Rightarrow> nat \<Rightarrow> nat list \<Rightarrow> memssa \<Rightarrow> memssa" where
  "call_mus I C = fold (\<lambda>R st. use_reg R (st\<lparr>callSiteToMu := append_at I (new_mu (CalledMu C) R) (callSiteToMu st)\<rparr>))"

definition call_chis :: "nat \<Rightarrow> nat \<Rightarrow> nat \<Rightarrow> nat list \<Rightarrow> memssa \<Rightarrow> memssa" where
  "call_chis BB I C = fold (\<lambda>R st. use_reg R (def_reg R BB
     (st\<lparr>callSiteToChi := append_at I (new_chi (CallDef I C R) R) (callSiteToChi st)\<rparr>)))"

definition computeMuChiForCalledFunction ::
  "menv \<Rightarrow> modref \<Rightarrow> nat \<Rightarrow> nat \<Rightarrow> nat \<Rightarrow> bool \<Rightarrow> marg list \<Rightarrow> bool \<Rightarrow> mfn \<Rightarrow> memssa \<Rightarrow> ms_error + memssa" where
  "computeMuChiForCalledFunction E MRA F BB I invoke args ptr C st =
     (let st1 = (if is_omp_barrier E C then sync_chis BB I (getOmpSharedRegions (me_regions E) F) st else st)
      in if mf_decl C
         then if invoke then Inl MS_Assertion
              else bindE (foldE (ext_arg E MRA BB I C) (zip [0..<length args] args)
                     (st1\<lparr>extFuncToCS := (extFuncToCS st1)(mf_id C := set_add I (extFuncToCS st1 (mf_id C)))\<rparr>))
                     (ext_ret E MRA BB I ptr C)
         else let keep = filter (\<lambda>R. R \<notin> set (getFuncKill MRA F))
              in Inr (call_chis BB I (mf_id C) (keep (getFuncMod MRA (mf_id C)))
                       (call_mus I (mf_id C) (keep (getFuncRef MRA (mf_id C))) st1)))"

section \<open>Chis of external functions\<close>

fun put :: "nat \<Rightarrow> 'a \<Rightarrow> 'a keyed \<Rightarrow> 'a keyed" where
  "put k x [] = [(k, x)]"
| "put k x ((j, y) # m) = (if k < j then (k, x) # (j, y) # m else if k = j then (k, x) # m else (j, y) # put k x m)"

definition put_at :: "nat \<Rightarrow> nat \<Rightarrow> 'a \<Rightarrow> (nat \<Rightarrow> 'a keyed option) \<Rightarrow> nat \<Rightarrow> 'a keyed option" where
  "put_at C CB x m = m(C \<mapsto> put CB x (case m C of None \<Rightarrow> [] | Some l \<Rightarrow> l))"

definition put_arg :: "nat \<Rightarrow> nat \<Rightarrow> nat \<Rightarrow> schi \<Rightarrow> (nat \<Rightarrow> schi keyed keyed option) \<Rightarrow> nat \<Rightarrow> schi keyed keyed option" where
  "put_arg C CB n x m =
     (let l = (case m C of None \<Rightarrow> [] | Some l \<Rightarrow> l) in m(C \<mapsto> put CB (put n x (case map_of l CB of None \<Rightarrow> [] | Some a \<Rightarrow> a)) l))"

text \<open>The entry chi has version 0, the exit chi version 1 with the entry variable as operand. The exit
  variable of an argument names the exit chi as its definition, that of the variadic arguments
  names the entry chi. These chis have no region; the field is not read.\<close>

definition ext_var :: "mdef \<Rightarrow> nat \<Rightarrow> mvar" where
  "ext_var d v = \<lparr>mv_def = d, mv_version = v, mv_bb = None\<rparr>"

definition entry_chi :: "mdef \<Rightarrow> schi" where
  "entry_chi d = \<lparr>sc_def = d, sc_region = 0, sc_var = Some (ext_var d 0), sc_opVar = None\<rparr>"

definition exit_chi :: "mdef \<Rightarrow> mdef \<Rightarrow> mdef \<Rightarrow> schi" where
  "exit_chi x named d = \<lparr>sc_def = x, sc_region = 0, sc_var = Some (ext_var named 1), sc_opVar = Some (ext_var d 0)\<rparr>"

definition createArtificalChiForCalledFunction :: "nat \<Rightarrow> mfn \<Rightarrow> memssa \<Rightarrow> memssa" where
  "createArtificalChiForCalledFunction CB C st =
     (let f = mf_id C;
          st1 = (if mf_vararg C
                 then st\<lparr>varArgEntryChi := put_at f CB (entry_chi (VarArgDef f CB)) (varArgEntryChi st),
                         varArgExitChi := put_at f CB (exit_chi (VarArgExitDef f CB) (VarArgDef f CB) (VarArgDef f CB)) (varArgExitChi st)\<rparr>
                 else st);
          st2 = fold (\<lambda>(ArgId, ptr) st. if \<not> ptr then st else
                   st\<lparr>argEntryChi := put_arg f CB ArgId (entry_chi (ExtArgDef f CB ArgId)) (argEntryChi st),
                      argExitChi := put_arg f CB ArgId (exit_chi (ExtArgExitDef f CB ArgId) (ExtArgExitDef f CB ArgId) (ExtArgDef f CB ArgId)) (argExitChi st)\<rparr>)
                  (zip [0..<length (mf_args C)] (mf_args C)) st1
      in if mf_ret_ptr C then st2\<lparr>calleeRetChi := put_at f CB (entry_chi (ExtRetDef f CB)) (calleeRetChi st2)\<rparr> else st2)"

section \<open>All instructions\<close>

definition mu_chi_callee ::
  "menv \<Rightarrow> modref \<Rightarrow> nat \<Rightarrow> nat \<Rightarrow> nat \<Rightarrow> bool \<Rightarrow> marg list \<Rightarrow> bool \<Rightarrow> mfn \<Rightarrow> memssa \<Rightarrow> ms_error + memssa" where
  "mu_chi_callee E MRA F BB I invoke args ptr C st =
     (if mf_dbg C then Inr st
      else bindE (computeMuChiForCalledFunction E MRA F BB I invoke args ptr C st) (\<lambda>st1.
        Inr (if mf_decl C then createArtificalChiForCalledFunction I C st1 else st1)))"

definition mu_chi_inst :: "menv \<Rightarrow> modref \<Rightarrow> nat \<Rightarrow> nat \<Rightarrow> minst \<Rightarrow> memssa \<Rightarrow> ms_error + memssa" where
  "mu_chi_inst E MRA F BB I st = (case mi_op I of
     MCall Callee args ptr \<Rightarrow> foldE (mu_chi_callee E MRA F BB (mi_id I) False args ptr) (may_callees E (mi_id I) Callee) st
   | MInvoke Callee args ptr \<Rightarrow> foldE (mu_chi_callee E MRA F BB (mi_id I) True args ptr) (may_callees E (mi_id I) Callee) st
   | MLoad V \<Rightarrow> bindE (alive_regions E MRA V) (\<lambda>Regs. Inr (load_mus (mi_id I) Regs st))
   | MStore V \<Rightarrow> bindE (alive_regions E MRA V) (\<lambda>Regs. Inr (store_chis BB (mi_id I) Regs st))
   | _ \<Rightarrow> Inr st)"

definition entry_block :: "mfn \<Rightarrow> nat" where
  "entry_block F = (case mf_blocks F of [] \<Rightarrow> 0 | b # bs \<Rightarrow> fst b)"

definition has_return :: "mfn \<Rightarrow> nat \<Rightarrow> bool" where
  "has_return F BB = list_ex (\<lambda>(b, insts). b = BB \<and> list_ex (\<lambda>I. mi_op I = MRet) insts) (mf_blocks F)"

definition entry_chis :: "mfn \<Rightarrow> memssa \<Rightarrow> memssa" where
  "entry_chis F st = fold (\<lambda>R st. def_reg R (entry_block F)
     (st\<lparr>funToEntryChi := append_at (mf_id F) (new_chi (EntryDef (mf_id F) R) R) (funToEntryChi st)\<rparr>)) (usedRegs st) st"

definition return_mus :: "mfn \<Rightarrow> memssa \<Rightarrow> memssa" where
  "return_mus F st = fold (\<lambda>R st. st\<lparr>funToReturnMu := append_at (mf_id F) (new_mu RetMu R) (funToReturnMu st)\<rparr>) (usedRegs st) st"

definition computeMuChi :: "menv \<Rightarrow> modref \<Rightarrow> finfo \<Rightarrow> mfn \<Rightarrow> memssa \<Rightarrow> ms_error + memssa" where
  "computeMuChi E MRA FI F st =
     bindE (foldE (\<lambda>(BB, insts). foldE (mu_chi_inst E MRA (mf_id F) BB) insts) (mf_blocks F) st) (\<lambda>st1.
       let st2 = entry_chis F st1
       in case functionDoesNotRet (fi_cfg FI) (has_return F) (Suc (length (mf_blocks F))) (entry_block F) of
            None \<Rightarrow> Inl MS_out_of_fuel
          | Some NoRet \<Rightarrow> Inr (if NoRet then st2 else return_mus F st2))"

section \<open>Phis\<close>

text \<open>The work list is a vector used as a stack; its top is the head of the list.\<close>

record phi_work =
  pw_Worklist :: "nat list"
  DomFronPlus :: "nat list"
  pw_Work :: "nat list"
  pw_ssa :: memssa

definition new_phi :: "nat \<Rightarrow> nat \<Rightarrow> sphi" where
  "new_phi BB R = \<lparr>sp_def = PhiDef BB R, sp_region = R, sp_var = None, sp_opsVar = [], sp_preds = []\<rparr>"

definition place_phi :: "nat \<Rightarrow> nat \<Rightarrow> phi_work \<Rightarrow> phi_work" where
  "place_phi R Y w =
     (if Y \<in> set (DomFronPlus w) then w
      else let w1 = w\<lparr>DomFronPlus := set_add Y (DomFronPlus w),
                       pw_ssa := (pw_ssa w)\<lparr>bbToPhi := append_at Y (new_phi Y R) (bbToPhi (pw_ssa w))\<rparr>\<rparr>
           in if Y \<in> set (pw_Work w) then w1
              else w1\<lparr>pw_Work := set_add Y (pw_Work w), pw_Worklist := Y # pw_Worklist w1\<rparr>)"

fun phi_worklist :: "finfo \<Rightarrow> nat \<Rightarrow> nat \<Rightarrow> phi_work \<Rightarrow> ms_error + phi_work" where
  "phi_worklist FI R k w = (case pw_Worklist w of
     [] \<Rightarrow> Inr w
   | X # Worklist \<Rightarrow> (case k of
        0 \<Rightarrow> Inl MS_out_of_fuel
      | Suc k' \<Rightarrow> (case fi_df FI X of
           None \<Rightarrow> Inl MS_Exit
         | Some DomSet \<Rightarrow> phi_worklist FI R k' (fold (place_phi R) DomSet (w\<lparr>pw_Worklist := Worklist\<rparr>)))))"

definition phis_for :: "finfo \<Rightarrow> nat \<Rightarrow> nat \<Rightarrow> memssa \<Rightarrow> ms_error + memssa" where
  "phis_for FI k R st = bindE (phi_worklist FI R k \<lparr>pw_Worklist = rev (regDefToBB st R), DomFronPlus = [], pw_Work = regDefToBB st R, pw_ssa = st\<rparr>)
     (\<lambda>w. Inr (pw_ssa w))"

definition computePhi :: "finfo \<Rightarrow> nat \<Rightarrow> memssa \<Rightarrow> ms_error + memssa" where
  "computePhi FI k st = foldE (phis_for FI k) (usedRegs st) st"

section \<open>Renaming\<close>

text \<open>The next version of each region and the stack of its variables.\<close>

record names =
  nm_C :: "nat \<Rightarrow> nat"
  nm_S :: "nat \<Rightarrow> mvar list"

definition back_var :: "names \<Rightarrow> nat \<Rightarrow> ms_error + mvar" where
  "back_var n V = (case nm_S n V of [] \<Rightarrow> Inl MS_Empty_stack | v # vs \<Rightarrow> Inr v)"

definition pop_back :: "nat \<Rightarrow> names \<Rightarrow> ms_error + names" where
  "pop_back V n = (case nm_S n V of [] \<Rightarrow> Inl MS_Empty_stack | v # vs \<Rightarrow> Inr (n\<lparr>nm_S := (nm_S n)(V := vs)\<rparr>))"

definition fresh_var :: "mdef \<Rightarrow> nat \<Rightarrow> nat \<Rightarrow> names \<Rightarrow> mvar" where
  "fresh_var d V BB n = \<lparr>mv_def = d, mv_version = nm_C n V, mv_bb = Some BB\<rparr>"

definition push_def :: "mdef \<Rightarrow> nat \<Rightarrow> nat \<Rightarrow> names \<Rightarrow> names" where
  "push_def d V BB n = n\<lparr>nm_S := (nm_S n)(V := fresh_var d V BB n # nm_S n V), nm_C := (nm_C n)(V := Suc (nm_C n V))\<rparr>"

fun rename_phis :: "nat \<Rightarrow> sphi list \<Rightarrow> names \<Rightarrow> sphi list \<times> names" where
  "rename_phis X [] n = ([], n)"
| "rename_phis X (Phi # Phis) n =
     (case rename_phis X Phis (push_def (sp_def Phi) (sp_region Phi) X n) of
        (Phis', n') \<Rightarrow> (Phi\<lparr>sp_var := Some (fresh_var (sp_def Phi) (sp_region Phi) X n)\<rparr> # Phis', n'))"

fun rename_mus :: "names \<Rightarrow> smu list \<Rightarrow> ms_error + smu list" where
  "rename_mus n [] = Inr []"
| "rename_mus n (Mu # Mus) = bindE (back_var n (su_region Mu)) (\<lambda>v.
     bindE (rename_mus n Mus) (\<lambda>Mus'. Inr (Mu\<lparr>su_var := Some v\<rparr> # Mus')))"

fun rename_chis :: "nat \<Rightarrow> schi list \<Rightarrow> names \<Rightarrow> ms_error + schi list \<times> names" where
  "rename_chis X [] n = Inr ([], n)"
| "rename_chis X (Chi # Chis) n = bindE (back_var n (sc_region Chi)) (\<lambda>v.
     bindE (rename_chis X Chis (push_def (sc_def Chi) (sc_region Chi) X n)) (\<lambda>(Chis', n').
       Inr (Chi\<lparr>sc_var := Some (fresh_var (sc_def Chi) (sc_region Chi) X n), sc_opVar := Some v\<rparr> # Chis', n')))"

definition rename_call :: "nat \<Rightarrow> nat \<Rightarrow> memssa \<times> names \<Rightarrow> ms_error + memssa \<times> names" where
  "rename_call X I s = (case s of (st, n) \<Rightarrow>
     bindE (rename_mus n (callSiteToMu st I)) (\<lambda>Mus.
     bindE (rename_chis X (callSiteToSyncChi st I) n) (\<lambda>(Syncs, n1).
     bindE (rename_chis X (callSiteToChi st I) n1) (\<lambda>(Chis, n2).
     bindE (rename_chis X (callSiteToCallerRetChi st I) n2) (\<lambda>(Rets, n3).
       Inr (st\<lparr>callSiteToMu := (callSiteToMu st)(I := Mus), callSiteToSyncChi := (callSiteToSyncChi st)(I := Syncs),
               callSiteToChi := (callSiteToChi st)(I := Chis), callSiteToCallerRetChi := (callSiteToCallerRetChi st)(I := Rets)\<rparr>, n3))))))"

definition rename_inst :: "nat \<Rightarrow> nat \<Rightarrow> minst \<Rightarrow> memssa \<times> names \<Rightarrow> ms_error + memssa \<times> names" where
  "rename_inst F X I s = (case s of (st, n) \<Rightarrow> (case mi_op I of
     MCall _ _ _ \<Rightarrow> rename_call X (mi_id I) s
   | MInvoke _ _ _ \<Rightarrow> rename_call X (mi_id I) s
   | MStore _ \<Rightarrow> bindE (rename_chis X (storeToChi st (mi_id I)) n) (\<lambda>(Chis, n').
       Inr (st\<lparr>storeToChi := (storeToChi st)(mi_id I := Chis)\<rparr>, n'))
   | MLoad _ \<Rightarrow> bindE (rename_mus n (loadToMu st (mi_id I))) (\<lambda>Mus. Inr (st\<lparr>loadToMu := (loadToMu st)(mi_id I := Mus)\<rparr>, n))
   | MRet \<Rightarrow> bindE (rename_mus n (funToReturnMu st F)) (\<lambda>Mus. Inr (st\<lparr>funToReturnMu := (funToReturnMu st)(F := Mus)\<rparr>, n))
   | _ \<Rightarrow> Inr s))"

fun whichPred_from :: "nat \<Rightarrow> nat \<Rightarrow> nat list \<Rightarrow> nat" where
  "whichPred_from Index Pred [] = Index"
| "whichPred_from Index Pred (p # ps) = (if Pred = p then Index else whichPred_from (Suc Index) Pred ps)"

definition whichPred :: "cfg \<Rightarrow> nat \<Rightarrow> nat \<Rightarrow> nat" where
  "whichPred G Pred Succ = whichPred_from 0 Pred (preds G Succ)"

fun fill_phis :: "names \<Rightarrow> nat \<Rightarrow> sphi list \<Rightarrow> ms_error + sphi list" where
  "fill_phis n Index [] = Inr []"
| "fill_phis n Index (Phi # Phis) = bindE (back_var n (sp_region Phi)) (\<lambda>v.
     bindE (fill_phis n Index Phis) (\<lambda>Phis'. Inr (Phi\<lparr>sp_opsVar := put Index v (sp_opsVar Phi)\<rparr> # Phis')))"

definition fill_succ :: "cfg \<Rightarrow> nat \<Rightarrow> names \<Rightarrow> nat \<Rightarrow> memssa \<Rightarrow> ms_error + memssa" where
  "fill_succ G X n Y st = bindE (fill_phis n (whichPred G X Y) (bbToPhi st Y)) (\<lambda>Phis. Inr (st\<lparr>bbToPhi := (bbToPhi st)(Y := Phis)\<rparr>))"

text \<open>The pops: for a call, but not for an invoke.\<close>

definition inst_pops :: "memssa \<Rightarrow> minst \<Rightarrow> nat list" where
  "inst_pops st I = (case mi_op I of
     MCall _ _ _ \<Rightarrow> map sc_region (callSiteToSyncChi st (mi_id I)) @ map sc_region (callSiteToChi st (mi_id I)) @
       map sc_region (callSiteToCallerRetChi st (mi_id I))
   | MStore _ \<Rightarrow> map sc_region (storeToChi st (mi_id I))
   | _ \<Rightarrow> [])"

definition block_insts :: "mfn \<Rightarrow> nat \<Rightarrow> minst list" where
  "block_insts F X = (case map_of (mf_blocks F) X of None \<Rightarrow> [] | Some insts \<Rightarrow> insts)"

fun renameBB :: "finfo \<Rightarrow> mfn \<Rightarrow> dnode \<Rightarrow> memssa \<times> names \<Rightarrow> ms_error + memssa \<times> names" where
  "renameBB FI F (DNode X kids) (st, n) =
     (case rename_phis X (bbToPhi st X) n of (Phis, n1) \<Rightarrow>
      bindE (foldE (rename_inst (mf_id F) X) (block_insts F X) (st\<lparr>bbToPhi := (bbToPhi st)(X := Phis)\<rparr>, n1)) (\<lambda>(st2, n2).
      bindE (foldE (fill_succ (fi_cfg FI) X n2) (succs (fi_cfg FI) X) st2) (\<lambda>st3.
      bindE (foldE (renameBB FI F) kids (st3, n2)) (\<lambda>(st4, n4).
      bindE (foldE pop_back (map sp_region (bbToPhi st4 X)) n4) (\<lambda>n5.
      bindE (foldE pop_back (concat (map (inst_pops st4) (block_insts F X))) n5) (\<lambda>n6.
        Inr (st4, n6)))))))"

fun name_entries :: "nat \<Rightarrow> schi list \<Rightarrow> names \<Rightarrow> schi list \<times> names" where
  "name_entries X [] n = ([], n)"
| "name_entries X (Chi # Chis) n =
     (let v = \<lparr>mv_def = sc_def Chi, mv_version = 0, mv_bb = Some X\<rparr>; V = sc_region Chi
      in case name_entries X Chis (n\<lparr>nm_S := (nm_S n)(V := v # nm_S n V), nm_C := (nm_C n)(V := Suc (nm_C n V))\<rparr>) of
        (Chis', n') \<Rightarrow> (Chi\<lparr>sc_var := Some v\<rparr> # Chis', n'))"

definition rename_fn :: "finfo \<Rightarrow> mfn \<Rightarrow> memssa \<Rightarrow> ms_error + memssa" where
  "rename_fn FI F st =
     (case name_entries (entry_block F) (funToEntryChi st (mf_id F)) \<lparr>nm_C = (\<lambda>_. 0), nm_S = (\<lambda>_. [])\<rparr> of (Chis, n) \<Rightarrow>
      bindE (renameBB FI F (fi_dt FI) (st\<lparr>funToEntryChi := (funToEntryChi st)(mf_id F := Chis)\<rparr>, n)) (\<lambda>s. Inr (fst s)))"

section \<open>Conditions of phis\<close>

text \<open>The conditions on the frontiers of the blocks of the operands; a block without a node in the
  post-dominator tree is a null pointer.\<close>

definition conditions_of :: "finfo \<Rightarrow> nat \<Rightarrow> nat option \<Rightarrow> nat list \<times> caches \<Rightarrow> ms_error + nat list \<times> caches" where
  "conditions_of FI k BB s = (case BB of
     None \<Rightarrow> Inl MS_Null
   | Some b \<Rightarrow> (case computeIPDFPredicates (fi_pdt FI) (fi_cfg FI) (fi_term FI) k b (snd s) of
        None \<Rightarrow> Inl MS_Null
      | Some (Conds, c) \<Rightarrow> Inr (fold set_add Conds (fst s), c)))"

definition computeMSSAPhiPredicates :: "finfo \<Rightarrow> nat \<Rightarrow> sphi \<Rightarrow> caches \<Rightarrow> ms_error + sphi \<times> caches" where
  "computeMSSAPhiPredicates FI k Phi c =
     bindE (foldE (conditions_of FI k) (map (\<lambda>p. mv_bb (snd p)) (sp_opsVar Phi)) (sp_preds Phi, c)) (\<lambda>(Preds, c').
       Inr (Phi\<lparr>sp_preds := Preds\<rparr>, c'))"

definition computeLLVMPhiPredicates :: "finfo \<Rightarrow> nat \<Rightarrow> nat \<Rightarrow> nat list \<Rightarrow> memssa \<times> caches \<Rightarrow> ms_error + memssa \<times> caches" where
  "computeLLVMPhiPredicates FI k I blocks s =
     bindE (foldE (conditions_of FI k) (map Some blocks) (llvmPhiToPred (fst s) I, snd s)) (\<lambda>(Preds, c').
       Inr ((fst s)\<lparr>llvmPhiToPred := (llvmPhiToPred (fst s))(I := Preds)\<rparr>, c'))"

fun phi_predicates :: "finfo \<Rightarrow> nat \<Rightarrow> sphi list \<Rightarrow> caches \<Rightarrow> ms_error + sphi list \<times> caches" where
  "phi_predicates FI k [] c = Inr ([], c)"
| "phi_predicates FI k (Phi # Phis) c = bindE (computeMSSAPhiPredicates FI k Phi c) (\<lambda>(Phi', c1).
     bindE (phi_predicates FI k Phis c1) (\<lambda>(Phis', c2). Inr (Phi' # Phis', c2)))"

definition block_predicates :: "finfo \<Rightarrow> nat \<Rightarrow> nat \<times> minst list \<Rightarrow> memssa \<times> caches \<Rightarrow> ms_error + memssa \<times> caches" where
  "block_predicates FI k b s =
     bindE (phi_predicates FI k (bbToPhi (fst s) (fst b)) (snd s)) (\<lambda>(Phis, c).
       foldE (\<lambda>I s. case mi_op I of MPhi blocks \<Rightarrow> computeLLVMPhiPredicates FI k (mi_id I) blocks s | _ \<Rightarrow> Inr s) (snd b)
         ((fst s)\<lparr>bbToPhi := (bbToPhi (fst s))(fst b := Phis)\<rparr>, c))"

definition computePhiPredicates :: "finfo \<Rightarrow> nat \<Rightarrow> mfn \<Rightarrow> memssa \<times> caches \<Rightarrow> ms_error + memssa \<times> caches" where
  "computePhiPredicates FI k F = foldE (block_predicates FI k) (mf_blocks F)"

section \<open>The module\<close>

definition buildSSA_fn :: "nat \<Rightarrow> menv \<Rightarrow> modref \<Rightarrow> finfo \<Rightarrow> mfn \<Rightarrow> memssa \<times> caches \<Rightarrow> ms_error + memssa \<times> caches" where
  "buildSSA_fn k E MRA FI F s =
     bindE (computeMuChi E MRA FI F ((fst s)\<lparr>usedRegs := [], regDefToBB := (\<lambda>_. [])\<rparr>)) (\<lambda>st1.
     bindE (computePhi FI k st1) (\<lambda>st2.
     bindE (rename_fn FI F st2) (\<lambda>st3.
       computePhiPredicates FI k F (st3, snd s))))"

definition buildSSA :: "nat \<Rightarrow> menv \<Rightarrow> modref \<Rightarrow> (nat \<Rightarrow> finfo) \<Rightarrow> caches \<Rightarrow> ms_error + memssa \<times> caches" where
  "buildSSA k E MRA info c =
     foldE (\<lambda>F s. if \<not> me_reach E (mf_id F) \<or> mf_dbg F \<or> mf_decl F then Inr s else buildSSA_fn k E MRA (info (mf_id F)) F s)
       (me_fns E) (empty_ssa, c)"

end
