(* ===== verification/Memory_Rename.thy ===== *)
theory Memory_Rename
  imports Memory_SSA
begin

text \<open>
  Renaming is right: on a function whose regions in use have entry chis it ends
  without an error, leaves the stacks as it found them, gives every use the
  variable of the definition that is on top when the walk of the dominator tree
  reaches it, and numbers the variables of a region in the order of the walk.

  The right-hand sides below are what the code should leave: a list of chis is
  right for a state of the names when naming it again changes nothing.
\<close>

section \<open>Names\<close>

definition chi_key :: "schi \<Rightarrow> mdef \<times> nat" where "chi_key c = (sc_def c, sc_region c)"
definition phi_key :: "sphi \<Rightarrow> mdef \<times> nat" where "phi_key p = (sp_def p, sp_region p)"

definition push_defs :: "nat \<Rightarrow> (mdef \<times> nat) list \<Rightarrow> names \<Rightarrow> names" where
  "push_defs X = fold (\<lambda>(d, V). push_def d V X)"

lemma push_defs_simps [simp]:
  "push_defs X [] n = n" "push_defs X ((d, V) # ds) n = push_defs X ds (push_def d V X n)"
  "push_defs X (ds @ es) n = push_defs X es (push_defs X ds n)"
  by (simp_all add: push_defs_def)

definition known :: "nat set \<Rightarrow> names \<Rightarrow> bool" where
  "known U n \<longleftrightarrow> (\<forall>R\<in>U. nm_S n R \<noteq> [])"

lemma known_push [simp]: "known U n \<Longrightarrow> known U (push_def d V X n)"
  by (simp add: known_def push_def_def)

lemma known_pushes [simp]: "known U n \<Longrightarrow> known U (push_defs X ds n)"
  by (induction ds arbitrary: n) auto

lemma known_back: "known U n \<Longrightarrow> R \<in> U \<Longrightarrow> back_var n R = Inr (hd (nm_S n R))"
  by (cases "nm_S n R") (auto simp: known_def back_var_def)

lemma stack_pushes:
  "\<exists>vs. length vs = count_list (map snd ds) V \<and> nm_S (push_defs X ds n) V = vs @ nm_S n V"
proof (induction ds arbitrary: n)
  case (Cons d ds)
  obtain a W where d: "d = (a, W)" by fastforce
  from Cons [of "push_def a W X n"] obtain vs where vs: "length vs = count_list (map snd ds) V"
    "nm_S (push_defs X ds (push_def a W X n)) V = vs @ nm_S (push_def a W X n) V" by blast
  show ?case
  proof (cases "W = V")
    case True
    then show ?thesis using vs d by (intro exI [of _ "vs @ [fresh_var a W X n]"]) (simp add: push_def_def)
  next
    case False
    then show ?thesis using vs d by (intro exI [of _ vs]) (simp add: push_def_def)
  qed
qed simp

text \<open>Pops take back as many variables as the list names the region.\<close>

lemma pops:
  assumes "\<And>V. count_list l V \<le> length (nm_S n V)"
  shows "foldE pop_back l n = Inr (n\<lparr>nm_S := (\<lambda>V. drop (count_list l V) (nm_S n V))\<rparr>)"
  using assms
proof (induction l arbitrary: n)
  case (Cons V l)
  obtain v vs where S: "nm_S n V = v # vs" using Cons.prems [of V] by (cases "nm_S n V") auto
  let ?n = "n\<lparr>nm_S := (nm_S n)(V := vs)\<rparr>"
  have "count_list l W \<le> length (nm_S ?n W)" for W using Cons.prems [of W] S by (cases "W = V") (auto split: if_splits)
  then have "foldE pop_back l ?n = Inr (?n\<lparr>nm_S := (\<lambda>W. drop (count_list l W) (nm_S ?n W))\<rparr>)" by (rule Cons.IH)
  moreover have "pop_back V n = Inr ?n" using S by (simp add: pop_back_def)
  moreover have "(\<lambda>W. drop (count_list l W) (nm_S ?n W)) = (\<lambda>W. drop (count_list (V # l) W) (nm_S n W))" using S by (auto simp: fun_eq_iff)
  ultimately show ?case by simp
qed simp

lemma pushes_pops:
  assumes "\<And>V. count_list l V = count_list (map snd ds) V" "nm_S n' = nm_S (push_defs X ds n)"
  shows "foldE pop_back l n' = Inr (n'\<lparr>nm_S := nm_S n\<rparr>)"
proof -
  have "count_list l V \<le> length (nm_S n' V) \<and> drop (count_list l V) (nm_S n' V) = nm_S n V" for V
    using stack_pushes [of ds V X n] assms by auto
  then show ?thesis using pops [of l n'] by (simp add: fun_eq_iff)
qed

section \<open>Lists of uses and definitions\<close>

definition mus_named :: "names \<Rightarrow> smu list \<Rightarrow> smu list" where
  "mus_named n = map (\<lambda>m. m\<lparr>su_var := Some (hd (nm_S n (su_region m)))\<rparr>)"

fun chis_named :: "nat \<Rightarrow> schi list \<Rightarrow> names \<Rightarrow> schi list" where
  "chis_named X [] n = []"
| "chis_named X (c # cs) n =
     c\<lparr>sc_var := Some (fresh_var (sc_def c) (sc_region c) X n), sc_opVar := Some (hd (nm_S n (sc_region c)))\<rparr> #
     chis_named X cs (push_def (sc_def c) (sc_region c) X n)"

fun phis_named :: "nat \<Rightarrow> sphi list \<Rightarrow> names \<Rightarrow> sphi list" where
  "phis_named X [] n = []"
| "phis_named X (p # ps) n =
     p\<lparr>sp_var := Some (fresh_var (sp_def p) (sp_region p) X n)\<rparr> # phis_named X ps (push_def (sp_def p) (sp_region p) X n)"

lemma rename_mus_eq: "known U n \<Longrightarrow> su_region ` set ms \<subseteq> U \<Longrightarrow> rename_mus n ms = Inr (mus_named n ms)"
  by (induction ms) (auto simp: mus_named_def known_back)

lemma rename_chis_eq:
  "known U n \<Longrightarrow> sc_region ` set cs \<subseteq> U \<Longrightarrow> rename_chis X cs n = Inr (chis_named X cs n, push_defs X (map chi_key cs) n)"
  by (induction cs arbitrary: n) (auto simp: known_back chi_key_def)

lemma rename_phis_eq: "rename_phis X ps n = (phis_named X ps n, push_defs X (map phi_key ps) n)"
  by (induction ps arbitrary: n) (auto simp: phi_key_def)

lemma chis_named_key [simp]: "map chi_key (chis_named X cs n) = map chi_key cs"
  by (induction cs arbitrary: n) (auto simp: chi_key_def)

lemma phis_named_key [simp]: "map phi_key (phis_named X ps n) = map phi_key ps"
  by (induction ps arbitrary: n) (auto simp: phi_key_def)

lemma mus_named_region [simp]: "map su_region (mus_named n ms) = map su_region ms"
  by (induction ms) (auto simp: mus_named_def)

lemma named_twice [simp]:
  "mus_named n (mus_named n ms) = mus_named n ms" "chis_named X (chis_named X cs n) n = chis_named X cs n"
  by (simp add: mus_named_def) (induction cs arbitrary: n, auto)

lemma fill_phis_eq:
  "known U n \<Longrightarrow> sp_region ` set ps \<subseteq> U \<Longrightarrow> fill_phis n i ps = Inr (map (\<lambda>p. p\<lparr>sp_opsVar := put i (hd (nm_S n (sp_region p))) (sp_opsVar p)\<rparr>) ps)"
  by (induction ps) (auto simp: known_back)

section \<open>Shape\<close>

text \<open>What renaming does not change: the definitions and regions of all lists.\<close>

definition same_shape :: "memssa \<Rightarrow> memssa \<Rightarrow> bool" where
  "same_shape st st' \<longleftrightarrow>
     (\<forall>I. map chi_key (storeToChi st' I) = map chi_key (storeToChi st I)) \<and> (\<forall>I. map chi_key (callSiteToChi st' I) = map chi_key (callSiteToChi st I)) \<and>
     (\<forall>I. map chi_key (callSiteToSyncChi st' I) = map chi_key (callSiteToSyncChi st I)) \<and>
     (\<forall>I. map chi_key (callSiteToCallerRetChi st' I) = map chi_key (callSiteToCallerRetChi st I)) \<and>
     (\<forall>X. map phi_key (bbToPhi st' X) = map phi_key (bbToPhi st X)) \<and> (\<forall>I. map su_region (loadToMu st' I) = map su_region (loadToMu st I)) \<and>
     (\<forall>I. map su_region (callSiteToMu st' I) = map su_region (callSiteToMu st I)) \<and>
     (\<forall>F. map su_region (funToReturnMu st' F) = map su_region (funToReturnMu st F))"

lemma same_shape_refl [simp]: "same_shape st st"
  by (simp add: same_shape_def)

lemma same_shape_trans: "same_shape st st' \<Longrightarrow> same_shape st' st'' \<Longrightarrow> same_shape st st''"
  by (simp add: same_shape_def)

definition inst_defs :: "memssa \<Rightarrow> minst \<Rightarrow> (mdef \<times> nat) list" where
  "inst_defs st I = (case mi_op I of
     MCall _ _ _ \<Rightarrow> map chi_key (callSiteToSyncChi st (mi_id I)) @ map chi_key (callSiteToChi st (mi_id I)) @ map chi_key (callSiteToCallerRetChi st (mi_id I))
   | MInvoke _ _ _ \<Rightarrow> map chi_key (callSiteToSyncChi st (mi_id I)) @ map chi_key (callSiteToChi st (mi_id I)) @ map chi_key (callSiteToCallerRetChi st (mi_id I))
   | MStore _ \<Rightarrow> map chi_key (storeToChi st (mi_id I))
   | _ \<Rightarrow> [])"

definition inst_uses :: "memssa \<Rightarrow> nat \<Rightarrow> minst \<Rightarrow> nat list" where
  "inst_uses st F I = (case mi_op I of
     MCall _ _ _ \<Rightarrow> map su_region (callSiteToMu st (mi_id I)) | MInvoke _ _ _ \<Rightarrow> map su_region (callSiteToMu st (mi_id I))
   | MLoad _ \<Rightarrow> map su_region (loadToMu st (mi_id I)) | MRet \<Rightarrow> map su_region (funToReturnMu st F) | _ \<Rightarrow> [])"

lemma same_shape_inst: "same_shape st st' \<Longrightarrow> inst_defs st' = inst_defs st \<and> inst_uses st' = inst_uses st"
  by (auto simp: same_shape_def inst_defs_def inst_uses_def fun_eq_iff split: mop.splits)

definition regions_in :: "nat set \<Rightarrow> nat set \<Rightarrow> mfn \<Rightarrow> memssa \<Rightarrow> bool" where
  "regions_in U B F st \<longleftrightarrow> (\<forall>X\<in>B. snd ` set (map phi_key (bbToPhi st X)) \<subseteq> U) \<and>
     (\<forall>I\<in>set (insts_of F). snd ` set (inst_defs st I) \<subseteq> U \<and> set (inst_uses st (mf_id F) I) \<subseteq> U)"

lemma same_shape_regions: "same_shape st st' \<Longrightarrow> regions_in U B F st' = regions_in U B F st"
  using same_shape_inst [of st st'] by (simp add: regions_in_def same_shape_def)

section \<open>Instructions\<close>

text \<open>What is right for an instruction when the walk reaches it with the names \<open>n\<close>.\<close>

definition call_right :: "nat \<Rightarrow> nat \<Rightarrow> names \<Rightarrow> memssa \<Rightarrow> bool" where
  "call_right X I n st \<longleftrightarrow>
     (let n1 = push_defs X (map chi_key (callSiteToSyncChi st I)) n; n2 = push_defs X (map chi_key (callSiteToChi st I)) n1
      in mus_named n (callSiteToMu st I) = callSiteToMu st I \<and> chis_named X (callSiteToSyncChi st I) n = callSiteToSyncChi st I \<and>
         chis_named X (callSiteToChi st I) n1 = callSiteToChi st I \<and> chis_named X (callSiteToCallerRetChi st I) n2 = callSiteToCallerRetChi st I)"

definition inst_right :: "nat \<Rightarrow> minst \<Rightarrow> names \<Rightarrow> memssa \<Rightarrow> bool" where
  "inst_right X I n st = (case mi_op I of
     MCall _ _ _ \<Rightarrow> call_right X (mi_id I) n st
   | MInvoke _ _ _ \<Rightarrow> call_right X (mi_id I) n st
   | MStore _ \<Rightarrow> chis_named X (storeToChi st (mi_id I)) n = storeToChi st (mi_id I)
   | MLoad _ \<Rightarrow> mus_named n (loadToMu st (mi_id I)) = loadToMu st (mi_id I)
   | _ \<Rightarrow> True)"

fun insts_right :: "nat \<Rightarrow> minst list \<Rightarrow> names \<Rightarrow> memssa \<Rightarrow> bool" where
  "insts_right X [] n st = True"
| "insts_right X (I # Is) n st = (inst_right X I n st \<and> insts_right X Is (push_defs X (inst_defs st I) n) st)"

text \<open>Two states agree on an instruction.\<close>

definition agree :: "nat \<Rightarrow> memssa \<Rightarrow> memssa \<Rightarrow> bool" where
  "agree I st st' \<longleftrightarrow> storeToChi st' I = storeToChi st I \<and> loadToMu st' I = loadToMu st I \<and> callSiteToMu st' I = callSiteToMu st I \<and>
     callSiteToSyncChi st' I = callSiteToSyncChi st I \<and> callSiteToChi st' I = callSiteToChi st I \<and> callSiteToCallerRetChi st' I = callSiteToCallerRetChi st I"

lemma agree_refl [simp]: "agree I st st"
  by (simp add: agree_def)

lemma agree_right: "agree (mi_id I) st st' \<Longrightarrow> inst_right X I n st' = inst_right X I n st \<and> inst_defs st' I = inst_defs st I"
  by (simp add: agree_def inst_right_def call_right_def inst_defs_def split: mop.splits)

lemma insts_agree: "(\<And>I. I \<in> set Is \<Longrightarrow> agree (mi_id I) st st') \<Longrightarrow> insts_right X Is n st' = insts_right X Is n st"
proof (induction Is arbitrary: n)
  case (Cons I Is)
  then show ?case using agree_right [of I st st' X n] by auto
qed simp

lemma rename_call_eq:
  assumes "known U n" "su_region ` set (callSiteToMu st I) \<subseteq> U" "sc_region ` set (callSiteToSyncChi st I) \<subseteq> U"
    "sc_region ` set (callSiteToChi st I) \<subseteq> U" "sc_region ` set (callSiteToCallerRetChi st I) \<subseteq> U"
  shows "\<exists>st'. rename_call X I (st, n) = Inr (st', push_defs X (map chi_key (callSiteToSyncChi st I) @ map chi_key (callSiteToChi st I) @
      map chi_key (callSiteToCallerRetChi st I)) n) \<and> same_shape st st' \<and> call_right X I n st' \<and> (\<forall>J. J \<noteq> I \<longrightarrow> agree J st st') \<and> bbToPhi st' = bbToPhi st"
  using assms by (auto simp: rename_call_def rename_mus_eq rename_chis_eq [of U] same_shape_def call_right_def agree_def Let_def)

lemma inst_step:
  assumes "known U n" "snd ` set (inst_defs st I) \<subseteq> U" "set (inst_uses st F I) \<subseteq> U"
  shows "\<exists>st'. rename_inst F X I (st, n) = Inr (st', push_defs X (inst_defs st I) n) \<and> same_shape st st' \<and> inst_right X I n st' \<and>
    (\<forall>J. J \<noteq> mi_id I \<longrightarrow> agree J st st') \<and> bbToPhi st' = bbToPhi st"
proof (cases "mi_op I")
  case (MCall a b c)
  then show ?thesis using assms rename_call_eq [OF assms(1), of st "mi_id I" X]
    by (auto simp: rename_inst_def inst_defs_def inst_uses_def inst_right_def chi_key_def image_Un image_image)
next
  case (MInvoke a b c)
  then show ?thesis using assms rename_call_eq [OF assms(1), of st "mi_id I" X]
    by (auto simp: rename_inst_def inst_defs_def inst_uses_def inst_right_def chi_key_def image_Un image_image)
next
  case (MStore p)
  then show ?thesis using assms
    by (auto simp: rename_inst_def inst_defs_def inst_right_def rename_chis_eq [OF assms(1)] chi_key_def image_image same_shape_def agree_def)
next
  case (MLoad p)
  then show ?thesis using assms
    by (auto simp: rename_inst_def inst_defs_def inst_uses_def inst_right_def rename_mus_eq [OF assms(1)] same_shape_def agree_def)
next
  case MRet
  then show ?thesis using assms
    by (auto simp: rename_inst_def inst_defs_def inst_uses_def inst_right_def rename_mus_eq [OF assms(1)] same_shape_def agree_def)
qed (simp_all add: rename_inst_def inst_defs_def inst_right_def agree_def)

lemma insts_step:
  assumes "known U n" "distinct (map mi_id Is)" "\<And>I. I \<in> set Is \<Longrightarrow> snd ` set (inst_defs st I) \<subseteq> U \<and> set (inst_uses st F I) \<subseteq> U"
  shows "\<exists>st'. foldE (rename_inst F X) Is (st, n) = Inr (st', push_defs X (concat (map (inst_defs st) Is)) n) \<and> same_shape st st' \<and>
    insts_right X Is n st' \<and> (\<forall>J. J \<notin> mi_id ` set Is \<longrightarrow> agree J st st') \<and> bbToPhi st' = bbToPhi st"
  using assms
proof (induction Is arbitrary: n st)
  case (Cons I Is)
  obtain st1 where 1: "rename_inst F X I (st, n) = Inr (st1, push_defs X (inst_defs st I) n)" "same_shape st st1" "inst_right X I n st1"
      "\<forall>J. J \<noteq> mi_id I \<longrightarrow> agree J st st1" "bbToPhi st1 = bbToPhi st"
    using inst_step [OF Cons.prems(1), of st I F X] Cons.prems(3) by auto
  note shape = same_shape_inst [OF 1(2)]
  obtain st2 where 2: "foldE (rename_inst F X) Is (st1, push_defs X (inst_defs st I) n) =
        Inr (st2, push_defs X (concat (map (inst_defs st1) Is)) (push_defs X (inst_defs st I) n))"
      "same_shape st1 st2" "insts_right X Is (push_defs X (inst_defs st I) n) st2" "\<forall>J. J \<notin> mi_id ` set Is \<longrightarrow> agree J st1 st2" "bbToPhi st2 = bbToPhi st1"
    using Cons.IH [of "push_defs X (inst_defs st I) n" st1] Cons.prems shape by auto
  have a: "agree (mi_id I) st1 st2" using 2(4) Cons.prems(2) by auto
  have "inst_right X I n st2" "inst_defs st2 I = inst_defs st I" using agree_right [OF a] 1(3) shape by auto
  moreover have "agree J st st2" if "J \<notin> mi_id ` set (I # Is)" for J using that 1(4) 2(4) by (simp add: agree_def)
  moreover have "inst_defs st1 = inst_defs st" using shape by blast
  ultimately show ?case using 1 2 same_shape_trans [OF 1(2) 2(2)] by auto
qed simp

section \<open>Operands of phis\<close>

lemma put_lookup [simp]: "map_of (put k x m) j = (if j = k then Some x else map_of m j)"
  by (induction m) auto

definition ops :: "memssa \<Rightarrow> nat \<Rightarrow> nat \<Rightarrow> mvar option list" where
  "ops st Y i = map (\<lambda>p. map_of (sp_opsVar p) i) (bbToPhi st Y)"

definition tops :: "memssa \<Rightarrow> names \<Rightarrow> nat \<Rightarrow> mvar option list" where
  "tops st n Y = map (\<lambda>p. Some (hd (nm_S n (sp_region p)))) (bbToPhi st Y)"

lemma tops_shape: "same_shape st st' \<Longrightarrow> tops st' n Y = tops st n Y"
proof -
  assume "same_shape st st'"
  then have "map (\<lambda>k. Some (hd (nm_S n (snd k)))) (map phi_key (bbToPhi st' Y)) = map (\<lambda>k. Some (hd (nm_S n (snd k)))) (map phi_key (bbToPhi st Y))"
    by (simp add: same_shape_def)
  then show ?thesis by (simp add: tops_def phi_key_def comp_def)
qed

lemma fill_step:
  assumes "known U n" "\<And>Y. Y \<in> set Ys \<Longrightarrow> snd ` set (map phi_key (bbToPhi st Y)) \<subseteq> U"
  shows "\<exists>st'. foldE (fill_succ G X n) Ys st = Inr st' \<and> same_shape st st' \<and> (\<forall>J. agree J st st') \<and>
    (\<forall>Y. map sp_var (bbToPhi st' Y) = map sp_var (bbToPhi st Y)) \<and>
    (\<forall>Y i. ops st' Y i = (if Y \<in> set Ys \<and> i = whichPred G X Y then tops st n Y else ops st Y i))"
  using assms
proof (induction Ys arbitrary: st)
  case (Cons Y Ys)
  let ?ps = "map (\<lambda>p. p\<lparr>sp_opsVar := put (whichPred G X Y) (hd (nm_S n (sp_region p))) (sp_opsVar p)\<rparr>) (bbToPhi st Y)"
  let ?st = "st\<lparr>bbToPhi := (bbToPhi st)(Y := ?ps)\<rparr>"
  have "sp_region ` set (bbToPhi st Y) \<subseteq> U" using Cons.prems(2) [of Y] by (simp add: phi_key_def image_image)
  then have 1: "fill_succ G X n Y st = Inr ?st" using fill_phis_eq [OF Cons.prems(1)] by (simp add: fill_succ_def)
  have key: "map phi_key ?ps = map phi_key (bbToPhi st Y)" by (simp add: phi_key_def)
  have s: "same_shape st ?st" using key by (simp add: same_shape_def)
  have "snd ` set (map phi_key (bbToPhi ?st Z)) \<subseteq> U" if "Z \<in> set Ys" for Z
    using Cons.prems(2) [of Z] that s by (auto simp: same_shape_def)
  with Cons.IH [OF Cons.prems(1), of ?st] obtain st' where 2: "foldE (fill_succ G X n) Ys ?st = Inr st'" "same_shape ?st st'" "\<forall>J. agree J ?st st'"
      "\<forall>Z. map sp_var (bbToPhi st' Z) = map sp_var (bbToPhi ?st Z)"
      "\<forall>Z i. ops st' Z i = (if Z \<in> set Ys \<and> i = whichPred G X Z then tops ?st n Z else ops ?st Z i)"
    by auto
  have "ops ?st Z i = (if Z = Y \<and> i = whichPred G X Y then tops st n Y else ops st Z i)" for Z i
    by (auto simp: ops_def tops_def)
  with 2(5) have "ops st' Z i = (if Z \<in> set (Y # Ys) \<and> i = whichPred G X Z then tops st n Z else ops st Z i)" for Z i
    using tops_shape [OF s] by auto
  moreover have "map sp_var (bbToPhi st' Z) = map sp_var (bbToPhi st Z)" for Z using 2(4) by simp
  moreover have "agree J st st'" for J using 2(3) by (simp add: agree_def)
  ultimately show ?case using 1 2(1) same_shape_trans [OF s 2(2)] by auto
qed simp

section \<open>The walk\<close>

definition block_keys :: "mfn \<Rightarrow> memssa \<Rightarrow> nat \<Rightarrow> (mdef \<times> nat) list" where
  "block_keys F st X = map phi_key (bbToPhi st X) @ concat (map (inst_defs st) (block_insts F X))"

lemma block_keys_shape: "same_shape st st' \<Longrightarrow> block_keys F st' X = block_keys F st X"
  using same_shape_inst [of st st'] by (simp add: block_keys_def same_shape_def)

text \<open>The names after the walk of a subtree: the stacks are those before.\<close>

fun names_after :: "mfn \<Rightarrow> memssa \<Rightarrow> dnode \<Rightarrow> names \<Rightarrow> names" and names_afters :: "mfn \<Rightarrow> memssa \<Rightarrow> dnode list \<Rightarrow> names \<Rightarrow> names" where
  "names_after F st (DNode X kids) n = (names_afters F st kids (push_defs X (block_keys F st X) n))\<lparr>nm_S := nm_S n\<rparr>"
| "names_afters F st [] n = n"
| "names_afters F st (k # ks) n = names_afters F st ks (names_after F st k n)"

fun tree_right :: "finfo \<Rightarrow> mfn \<Rightarrow> memssa \<Rightarrow> dnode \<Rightarrow> names \<Rightarrow> bool" and trees_right :: "finfo \<Rightarrow> mfn \<Rightarrow> memssa \<Rightarrow> dnode list \<Rightarrow> names \<Rightarrow> bool" where
  "tree_right FI F st (DNode X kids) n \<longleftrightarrow>
     map sp_var (bbToPhi st X) = map sp_var (phis_named X (bbToPhi st X) n) \<and>
     insts_right X (block_insts F X) (push_defs X (map phi_key (bbToPhi st X)) n) st \<and>
     (\<forall>Y\<in>set (succs (fi_cfg FI) X). ops st Y (whichPred (fi_cfg FI) X Y) = tops st (push_defs X (block_keys F st X) n) Y) \<and>
     trees_right FI F st kids (push_defs X (block_keys F st X) n)"
| "trees_right FI F st [] n \<longleftrightarrow> True"
| "trees_right FI F st (k # ks) n \<longleftrightarrow> tree_right FI F st k n \<and> trees_right FI F st ks (names_after F st k n)"

lemma names_after_shape:
  "same_shape st st' \<Longrightarrow> names_after F st' T n = names_after F st T n"
  "same_shape st st' \<Longrightarrow> names_afters F st' Ts n = names_afters F st Ts n"
  by (induction F st T n and F st Ts n rule: names_after_names_afters.induct) (simp_all add: block_keys_shape)

lemma names_after_stack [simp]:
  "nm_S (names_after F st T n) = nm_S n" "nm_S (names_afters F st Ts n) = nm_S n"
  by (induction F st T n and F st Ts n rule: names_after_names_afters.induct) simp_all

text \<open>What a walk of the blocks \<open>Xs\<close> does not touch.\<close>

definition frame :: "finfo \<Rightarrow> mfn \<Rightarrow> nat set \<Rightarrow> memssa \<Rightarrow> memssa \<Rightarrow> bool" where
  "frame FI F Xs st st' \<longleftrightarrow> (\<forall>J. (\<forall>X\<in>Xs. J \<notin> mi_id ` set (block_insts F X)) \<longrightarrow> agree J st st') \<and>
     (\<forall>Y. Y \<notin> Xs \<longrightarrow> map sp_var (bbToPhi st' Y) = map sp_var (bbToPhi st Y)) \<and>
     (\<forall>Y i. (\<forall>X\<in>Xs. Y \<in> set (succs (fi_cfg FI) X) \<longrightarrow> i \<noteq> whichPred (fi_cfg FI) X Y) \<longrightarrow> ops st' Y i = ops st Y i)"

lemma frame_refl [simp]: "frame FI F Xs st st"
  by (simp add: frame_def agree_def)

lemma frame_trans: "frame FI F Xs st st' \<Longrightarrow> frame FI F Ys st' st'' \<Longrightarrow> frame FI F (Xs \<union> Ys) st st''"
  unfolding frame_def by (auto simp: agree_def)

text \<open>What the code relies on: blocks and instructions are not repeated, successors have the block as a
  predecessor, and there is no invoke.\<close>

definition wf_code :: "finfo \<Rightarrow> nat set \<Rightarrow> mfn \<Rightarrow> bool" where
  "wf_code FI B F \<longleftrightarrow> distinct (map mi_id (insts_of F)) \<and> distinct (map fst (mf_blocks F)) \<and>
     (\<forall>X\<in>B. \<forall>Y\<in>set (succs (fi_cfg FI) X). Y \<in> B \<and> X \<in> set (preds (fi_cfg FI) Y)) \<and>
     (\<forall>I\<in>set (insts_of F). \<forall>a b c. mi_op I \<noteq> MInvoke a b c)"

lemma block_insts_sub: "set (block_insts F X) \<subseteq> set (insts_of F)"
proof (cases "map_of (mf_blocks F) X")
  case (Some Is)
  then have "(X, Is) \<in> set (mf_blocks F)" by (rule map_of_SomeD)
  with Some show ?thesis by (force simp: block_insts_def insts_of_def)
qed (simp add: block_insts_def)

lemma ids_block: "distinct (map f (concat (map snd bs))) \<Longrightarrow> map_of bs X = Some Is \<Longrightarrow> distinct (map f Is)"
  by (induction bs) (auto split: if_splits)

lemma ids_blocks:
  "distinct (map f (concat (map snd bs))) \<Longrightarrow> map_of bs X = Some Is \<Longrightarrow> map_of bs X' = Some Is' \<Longrightarrow> X \<noteq> X' \<Longrightarrow> f ` set Is \<inter> f ` set Is' = {}"
proof (induction bs)
  case (Cons b bs)
  have sub: "set Js \<subseteq> set (concat (map snd bs))" if "map_of bs Y = Some Js" for Y Js using map_of_SomeD [OF that] by force
  have d: "f ` set (snd b) \<inter> f ` set (concat (map snd bs)) = {}" "distinct (map f (concat (map snd bs)))" using Cons.prems(1) by auto
  obtain Y Js where b: "b = (Y, Js)" by fastforce
  show ?case
  proof (cases "X = Y")
    case True
    then have "Is = Js" "map_of bs X' = Some Is'" using Cons.prems b by auto
    then show ?thesis using sub [of X' Is'] d(1) b by auto
  next
    case False
    then have X: "map_of bs X = Some Is" using Cons.prems b by simp
    show ?thesis
    proof (cases "X' = Y")
      case True
      then have "Is' = Js" using Cons.prems b by simp
      then show ?thesis using sub [OF X] d(1) b by auto
    next
      case False
      then show ?thesis using Cons.IH [OF d(2) X] Cons.prems b by simp
    qed
  qed
qed simp

lemma wf_ids:
  assumes "wf_code FI B F"
  shows "distinct (map mi_id (block_insts F X))"
    and "X \<noteq> X' \<Longrightarrow> mi_id ` set (block_insts F X) \<inter> mi_id ` set (block_insts F X') = {}"
proof -
  have d: "distinct (map mi_id (concat (map snd (mf_blocks F))))" using assms by (auto simp: wf_code_def insts_of_def)
  show "distinct (map mi_id (block_insts F X))"
    using ids_block [OF d, of X] by (cases "map_of (mf_blocks F) X") (auto simp: block_insts_def)
  show "mi_id ` set (block_insts F X) \<inter> mi_id ` set (block_insts F X') = {}" if "X \<noteq> X'"
  proof (cases "map_of (mf_blocks F) X = None \<or> map_of (mf_blocks F) X' = None")
    case False
    then obtain Is Is' where "map_of (mf_blocks F) X = Some Is" "map_of (mf_blocks F) X' = Some Is'" by auto
    with ids_blocks [OF d this that] show ?thesis by (simp add: block_insts_def)
  qed (auto simp: block_insts_def)
qed

lemma whichPred_from_nth: "Pred \<in> set ps \<Longrightarrow> \<exists>j<length ps. whichPred_from i Pred ps = i + j \<and> ps ! j = Pred"
proof (induction ps arbitrary: i)
  case (Cons p ps)
  show ?case
  proof (cases "Pred = p")
    case False
    then obtain j where "j < length ps" "whichPred_from (Suc i) Pred ps = Suc i + j" "ps ! j = Pred" using Cons.IH [of "Suc i"] Cons.prems by auto
    with False show ?thesis by (intro exI [of _ "Suc j"]) auto
  qed auto
qed simp

lemma whichPred_inj: "X \<in> set (preds G Y) \<Longrightarrow> X' \<in> set (preds G Y) \<Longrightarrow> whichPred G X Y = whichPred G X' Y \<Longrightarrow> X = X'"
  unfolding whichPred_def using whichPred_from_nth [of X "preds G Y" 0] whichPred_from_nth [of X' "preds G Y" 0] by auto

lemma phis_named_var: "map phi_key ps = map phi_key qs \<Longrightarrow> map sp_var (phis_named X ps n) = map sp_var (phis_named X qs n)"
proof (induction ps arbitrary: qs n)
  case (Cons p ps)
  then obtain q qs' where "qs = q # qs'" "phi_key p = phi_key q" "map phi_key ps = map phi_key qs'" by (cases qs) auto
  moreover from this have "sp_def p = sp_def q" "sp_region p = sp_region q" by (auto simp: phi_key_def)
  ultimately show ?case using Cons.IH [of qs'] by simp
qed simp

text \<open>A walk of other blocks keeps a subtree right.\<close>

lemma tree_right_frame:
  assumes "wf_code FI B F" "same_shape st st'" "frame FI F Ys st st'" "Ys \<subseteq> B"
  shows "tree_right FI F st T n \<Longrightarrow> set (blocks_in T) \<inter> Ys = {} \<Longrightarrow> set (blocks_in T) \<subseteq> B \<Longrightarrow> tree_right FI F st' T n"
    and "trees_right FI F st Ts n \<Longrightarrow> (\<forall>T\<in>set Ts. set (blocks_in T) \<inter> Ys = {} \<and> set (blocks_in T) \<subseteq> B) \<Longrightarrow> trees_right FI F st' Ts n"
  using assms
proof (induction FI F st T n and FI F st Ts n rule: tree_right_trees_right.induct)
  case (1 FI F st X kids n)
  note wf = \<open>wf_code FI B F\<close> and shape = \<open>same_shape st st'\<close> and fr = \<open>frame FI F Ys st st'\<close>
  have X: "X \<notin> Ys" "X \<in> B" and kids: "\<forall>T\<in>set kids. set (blocks_in T) \<inter> Ys = {} \<and> set (blocks_in T) \<subseteq> B"
    using "1.prems"(2,3) by auto
  have keys: "map phi_key (bbToPhi st' X) = map phi_key (bbToPhi st X)" using shape by (simp add: same_shape_def)
  have "map sp_var (bbToPhi st' X) = map sp_var (phis_named X (bbToPhi st' X) n)"
    using fr X(1) "1.prems"(1) phis_named_var [OF keys] by (simp add: frame_def)
  moreover have "agree (mi_id I) st st'" if "I \<in> set (block_insts F X)" for I
  proof -
    have "mi_id I \<notin> mi_id ` set (block_insts F Z)" if "Z \<in> Ys" for Z
      using wf_ids(2) [OF wf, of X Z] that X(1) \<open>I \<in> set (block_insts F X)\<close> by blast
    then show ?thesis using fr unfolding frame_def by blast
  qed
  then have "insts_right X (block_insts F X) (push_defs X (map phi_key (bbToPhi st' X)) n) st'"
    using insts_agree [of "block_insts F X" st st'] "1.prems"(1) keys by simp
  moreover have "ops st' Y (whichPred (fi_cfg FI) X Y) = tops st' (push_defs X (block_keys F st' X) n) Y"
    if Y: "Y \<in> set (succs (fi_cfg FI) X)" for Y
  proof -
    have "whichPred (fi_cfg FI) X Y \<noteq> whichPred (fi_cfg FI) Z Y" if "Z \<in> Ys" "Y \<in> set (succs (fi_cfg FI) Z)" for Z
      using whichPred_inj [of X "fi_cfg FI" Y Z] wf Y X that \<open>Ys \<subseteq> B\<close> unfolding wf_code_def by blast
    then have "ops st' Y (whichPred (fi_cfg FI) X Y) = ops st Y (whichPred (fi_cfg FI) X Y)" using fr unfolding frame_def by blast
    then show ?thesis using "1.prems"(1) Y tops_shape [OF shape] block_keys_shape [OF shape] by simp
  qed
  moreover have "trees_right FI F st' kids (push_defs X (block_keys F st' X) n)"
    using "1.IH" [OF _ kids wf shape fr \<open>Ys \<subseteq> B\<close>] "1.prems"(1) block_keys_shape [OF shape] by simp
  ultimately show ?case by simp
qed (auto simp: names_after_shape)

section \<open>The walk is right\<close>

definition walked :: "finfo \<Rightarrow> mfn \<Rightarrow> dnode \<Rightarrow> memssa \<Rightarrow> names \<Rightarrow> memssa \<Rightarrow> bool" where
  "walked FI F T st n st' \<longleftrightarrow> renameBB FI F T (st, n) = Inr (st', names_after F st T n) \<and> same_shape st st' \<and>
     frame FI F (set (blocks_in T)) st st' \<and> tree_right FI F st' T n"

lemma known_after [simp]: "known U (names_after F st T n) = known U n"
  by (simp add: known_def)

lemma kids_walked:
  assumes wf: "wf_code FI B F"
    and IH: "\<And>k st n. k \<in> set ks \<Longrightarrow> known U n \<Longrightarrow> regions_in U B F st \<Longrightarrow> set (blocks_in k) \<subseteq> B \<Longrightarrow> distinct (blocks_in k) \<Longrightarrow> \<exists>st'. walked FI F k st n st'"
  shows "known U n \<Longrightarrow> regions_in U B F st \<Longrightarrow> set (concat (map blocks_in ks)) \<subseteq> B \<Longrightarrow> distinct (concat (map blocks_in ks)) \<Longrightarrow>
    \<exists>st'. foldE (renameBB FI F) ks (st, n) = Inr (st', names_afters F st ks n) \<and> same_shape st st' \<and>
      frame FI F (set (concat (map blocks_in ks))) st st' \<and> trees_right FI F st' ks n"
  using IH
proof (induction ks arbitrary: st n)
  case (Cons k ks)
  obtain st1 where 1: "walked FI F k st n st1" using Cons.prems(5) [of k n st] Cons.prems(1-4) by auto
  then have s1: "same_shape st st1" by (simp add: walked_def)
  have "known U (names_after F st k n)" "regions_in U B F st1" using Cons.prems same_shape_regions [OF s1] by simp_all
  with Cons.IH [of "names_after F st k n" st1] Cons.prems obtain st' where
    2: "foldE (renameBB FI F) ks (st1, names_after F st k n) = Inr (st', names_afters F st1 ks (names_after F st k n))" "same_shape st1 st'"
      "frame FI F (set (concat (map blocks_in ks))) st1 st'" "trees_right FI F st' ks (names_after F st k n)"
    by auto
  have "tree_right FI F st' k n"
    by (rule tree_right_frame(1) [OF wf 2(2,3)]) (use 1 Cons.prems(3,4) in \<open>auto simp: walked_def\<close>)
  moreover have "frame FI F (set (concat (map blocks_in (k # ks)))) st st'"
    using frame_trans [OF _ 2(3), of "set (blocks_in k)" st] 1 by (simp add: walked_def)
  ultimately show ?case using 1 2 s1 same_shape_trans [OF s1 2(2)] by (auto simp: walked_def names_after_shape)
qed simp

lemma pops_of_insts:
  "(\<And>I a b c. I \<in> set Is \<Longrightarrow> mi_op I \<noteq> MInvoke a b c) \<Longrightarrow> concat (map (inst_pops st) Is) = map snd (concat (map (inst_defs st) Is))"
proof (induction Is)
  case (Cons I Is)
  then have "inst_pops st I = map snd (inst_defs st I)" by (auto simp: inst_pops_def inst_defs_def chi_key_def split: mop.splits)
  with Cons show ?case by auto
qed simp

lemma block_walked:
  assumes wf: "wf_code FI B F" and "known U n" "regions_in U B F st" "X \<in> B"
  shows "\<exists>st2 st3. foldE (rename_inst (mf_id F) X) (block_insts F X) (st\<lparr>bbToPhi := (bbToPhi st)(X := phis_named X (bbToPhi st X) n)\<rparr>,
        push_defs X (map phi_key (bbToPhi st X)) n) = Inr (st2, push_defs X (block_keys F st X) n) \<and>
    foldE (fill_succ (fi_cfg FI) X (push_defs X (block_keys F st X) n)) (succs (fi_cfg FI) X) st2 = Inr st3 \<and>
    same_shape st st3 \<and> frame FI F {X} st st3 \<and> tree_right FI F st3 (DNode X []) n"
proof -
  let ?st1 = "st\<lparr>bbToPhi := (bbToPhi st)(X := phis_named X (bbToPhi st X) n)\<rparr>" and ?n1 = "push_defs X (map phi_key (bbToPhi st X)) n"
  let ?n2 = "push_defs X (block_keys F st X) n"
  have s1: "same_shape st ?st1" by (simp add: same_shape_def)
  have regs: "snd ` set (inst_defs ?st1 I) \<subseteq> U \<and> set (inst_uses ?st1 (mf_id F) I) \<subseteq> U" if "I \<in> set (block_insts F X)" for I
  proof -
    have "I \<in> set (insts_of F)" using that block_insts_sub by blast
    then show ?thesis using assms(3) same_shape_inst [OF s1] by (simp add: regions_in_def)
  qed
  obtain st2 where 2: "foldE (rename_inst (mf_id F) X) (block_insts F X) (?st1, ?n1) =
        Inr (st2, push_defs X (concat (map (inst_defs ?st1) (block_insts F X))) ?n1)" "same_shape ?st1 st2" "insts_right X (block_insts F X) ?n1 st2"
      "\<forall>J. J \<notin> mi_id ` set (block_insts F X) \<longrightarrow> agree J ?st1 st2" "bbToPhi st2 = bbToPhi ?st1"
    using insts_step [OF known_pushes [OF assms(2)] wf_ids(1) [OF wf] regs, where X = X and X3 = X] by blast
  have n2: "push_defs X (concat (map (inst_defs ?st1) (block_insts F X))) ?n1 = ?n2"
    using same_shape_inst [OF s1] by (simp add: block_keys_def)
  have s2: "same_shape st st2" using same_shape_trans [OF s1 2(2)] .
  have phis: "snd ` set (map phi_key (bbToPhi st2 Y)) \<subseteq> U" if "Y \<in> set (succs (fi_cfg FI) X)" for Y
  proof -
    have "Y \<in> B" using that wf assms(4) unfolding wf_code_def by blast
    then show ?thesis using assms(3) s2 unfolding regions_in_def same_shape_def by metis
  qed
  obtain st3 where 3: "foldE (fill_succ (fi_cfg FI) X ?n2) (succs (fi_cfg FI) X) st2 = Inr st3" "same_shape st2 st3" "\<forall>J. agree J st2 st3"
      "\<forall>Y. map sp_var (bbToPhi st3 Y) = map sp_var (bbToPhi st2 Y)"
      "\<forall>Y i. ops st3 Y i = (if Y \<in> set (succs (fi_cfg FI) X) \<and> i = whichPred (fi_cfg FI) X Y then tops st2 ?n2 Y else ops st2 Y i)"
    using fill_step [OF known_pushes [OF assms(2)] phis] by blast
  have s3: "same_shape st st3" using same_shape_trans [OF s2 3(2)] .
  have keys: "map phi_key (bbToPhi st3 X) = map phi_key (bbToPhi st X)" using s3 by (simp add: same_shape_def)
  have "map sp_var (bbToPhi st3 X) = map sp_var (phis_named X (bbToPhi st3 X) n)" using 3(4) 2(5) phis_named_var [OF keys] by simp
  moreover have "insts_right X (block_insts F X) (push_defs X (map phi_key (bbToPhi st3 X)) n) st3"
    using 2(3) 3(3) insts_agree [of "block_insts F X" st2 st3] keys by simp
  ultimately have "tree_right FI F st3 (DNode X []) n"
    using 3(5) tops_shape [OF 3(2)] block_keys_shape [OF s3] by simp
  moreover have "frame FI F {X} st st3"
  proof -
    have "agree J st st3" if "J \<notin> mi_id ` set (block_insts F X)" for J using that 2(4) 3(3) by (simp add: agree_def)
    moreover have "map sp_var (bbToPhi st3 Y) = map sp_var (bbToPhi st Y)" if "Y \<noteq> X" for Y using that 3(4) 2(5) by simp
    moreover have "ops st2 Y i = ops st Y i" for Y i
    proof -
      have "map (\<lambda>p. map_of (sp_opsVar p) i) (phis_named X ps m) = map (\<lambda>p. map_of (sp_opsVar p) i) ps" for ps m by (induction ps arbitrary: m) auto
      then show ?thesis using 2(5) by (simp add: ops_def)
    qed
    ultimately show ?thesis using 3(5) unfolding frame_def by auto
  qed
  ultimately show ?thesis using 2(1) 3(1) n2 s3 by auto
qed

lemma renameBB_walked:
  assumes wf: "wf_code FI B F"
  shows "known U n \<Longrightarrow> regions_in U B F st \<Longrightarrow> set (blocks_in T) \<subseteq> B \<Longrightarrow> distinct (blocks_in T) \<Longrightarrow> \<exists>st'. walked FI F T st n st'"
proof (induction T arbitrary: st n)
  case (DNode X kids)
  let ?n2 = "push_defs X (block_keys F st X) n"
  obtain st2 st3 where b: "foldE (rename_inst (mf_id F) X) (block_insts F X) (st\<lparr>bbToPhi := (bbToPhi st)(X := phis_named X (bbToPhi st X) n)\<rparr>,
        push_defs X (map phi_key (bbToPhi st X)) n) = Inr (st2, ?n2)"
      "foldE (fill_succ (fi_cfg FI) X ?n2) (succs (fi_cfg FI) X) st2 = Inr st3"
      "same_shape st st3" "frame FI F {X} st st3" "tree_right FI F st3 (DNode X []) n"
    using block_walked [OF wf DNode.prems(1,2), of X] DNode.prems(3) by auto
  have "known U ?n2" "regions_in U B F st3" using DNode.prems same_shape_regions [OF b(3)] by simp_all
  moreover have "set (concat (map blocks_in kids)) \<subseteq> B" "distinct (concat (map blocks_in kids))" and X: "X \<notin> set (concat (map blocks_in kids))"
    using DNode.prems by auto
  ultimately obtain st4 where k: "foldE (renameBB FI F) kids (st3, ?n2) = Inr (st4, names_afters F st3 kids ?n2)" "same_shape st3 st4"
      "frame FI F (set (concat (map blocks_in kids))) st3 st4" "trees_right FI F st4 kids ?n2"
    using kids_walked [OF wf DNode.IH, of kids] by blast
  have s4: "same_shape st st4" using same_shape_trans [OF b(3) k(2)] .
  have "tree_right FI F st4 (DNode X []) n"
    by (rule tree_right_frame(1) [OF wf k(2,3) _ b(5)]) (use X DNode.prems(3) in auto)
  then have right: "tree_right FI F st4 (DNode X kids) n" using k(4) block_keys_shape [OF s4] by simp
  have "mi_op I \<noteq> MInvoke a b c" if "I \<in> set (block_insts F X)" for I a b c
    using that wf block_insts_sub [of F X] unfolding wf_code_def by blast
  then have "map sp_region (bbToPhi st4 X) @ concat (map (inst_pops st4) (block_insts F X)) = map snd (block_keys F st4 X)"
    using pops_of_insts [of "block_insts F X" st4] by (simp add: block_keys_def phi_key_def comp_def)
  then have "map sp_region (bbToPhi st4 X) @ concat (map (inst_pops st4) (block_insts F X)) = map snd (block_keys F st X)"
    unfolding block_keys_shape [OF s4] .
  then have "foldE pop_back (map sp_region (bbToPhi st4 X) @ concat (map (inst_pops st4) (block_insts F X))) (names_afters F st3 kids ?n2) =
      Inr ((names_afters F st3 kids ?n2)\<lparr>nm_S := nm_S n\<rparr>)"
    by (intro pushes_pops [where ds = "block_keys F st X" and X = X]) simp_all
  then have "renameBB FI F (DNode X kids) (st, n) = Inr (st4, names_after F st (DNode X kids) n)"
    using b(1,2) k(1) names_after_shape(2) [OF b(3)] by (auto simp: rename_phis_eq foldE_append bindE_eq_Inr)
  moreover have "frame FI F (set (blocks_in (DNode X kids))) st st4" using frame_trans [OF b(4) k(3)] by simp
  ultimately show ?case using s4 right by (auto simp: walked_def)
qed

end
