(* ===== verification/Memory_Phi.thy ===== *)
theory Memory_Phi
  imports Memory_SSA
begin

text \<open>
  Where phis are placed: the loop over the work list of a region ends, and the
  blocks that get a phi for the region are those of the iterated dominance
  frontier of the blocks that define it, each once.
\<close>

section \<open>One block\<close>

definition df_rel :: "finfo \<Rightarrow> (nat \<times> nat) set" where
  "df_rel FI = {(X, Y). \<exists>D. fi_df FI X = Some D \<and> Y \<in> set D}"

definition phis_added :: "nat \<Rightarrow> nat set \<Rightarrow> memssa \<Rightarrow> memssa" where
  "phis_added R Ys st = st\<lparr>bbToPhi := (\<lambda>Y. bbToPhi st Y @ (if Y \<in> Ys then [new_phi Y R] else []))\<rparr>"

lemma phis_added_none [simp]: "phis_added R {} st = st"
  by (simp add: phis_added_def)

lemma phis_added_more:
  "Y \<notin> Ys \<Longrightarrow> (phis_added R Ys st)\<lparr>bbToPhi := append_at Y (new_phi Y R) (bbToPhi (phis_added R Ys st))\<rparr> = phis_added R (insert Y Ys) st"
  by (auto simp: phis_added_def append_at_def fun_eq_iff intro!: arg_cong [where f = "\<lambda>b. st\<lparr>bbToPhi := b\<rparr>"])

definition placing :: "finfo \<Rightarrow> nat set \<Rightarrow> nat \<Rightarrow> memssa \<Rightarrow> phi_work \<Rightarrow> bool" where
  "placing FI Defs R st w \<longleftrightarrow> set (pw_Work w) = Defs \<union> set (DomFronPlus w) \<and> set (pw_Worklist w) \<subseteq> set (pw_Work w) \<and>
     set (DomFronPlus w) \<subseteq> (df_rel FI)\<^sup>+ `` Defs \<and> pw_ssa w = phis_added R (set (DomFronPlus w)) st"

definition left :: "nat set \<Rightarrow> phi_work \<Rightarrow> nat" where
  "left A w = length (pw_Worklist w) + card (A - set (pw_Work w))"

lemma place_phi_step:
  assumes "placing FI Defs R st w" "Y \<in> (df_rel FI)\<^sup>+ `` Defs" "Y \<in> A" "finite A"
  shows "placing FI Defs R st (place_phi R Y w) \<and> set (DomFronPlus (place_phi R Y w)) = insert Y (set (DomFronPlus w)) \<and>
    set (pw_Worklist (place_phi R Y w)) \<supseteq> set (pw_Worklist w) \<and>
    set (pw_Work (place_phi R Y w)) - set (pw_Worklist (place_phi R Y w)) \<subseteq> set (pw_Work w) - set (pw_Worklist w) \<and>
    left A (place_phi R Y w) \<le> left A w"
proof -
  have "card (A - set (pw_Work w)) = Suc (card (A - insert Y (set (pw_Work w))))" if "Y \<notin> set (pw_Work w)"
  proof -
    have "A - set (pw_Work w) = insert Y (A - insert Y (set (pw_Work w)))" using assms(3) that by blast
    then show ?thesis using assms(4) by (metis DiffD2 card_insert_disjoint finite_Diff insertI1)
  qed
  then show ?thesis using assms
    by (auto simp: place_phi_def placing_def left_def Let_def phis_added_more)
qed

lemma place_phi_steps:
  assumes "finite A"
  shows "placing FI Defs R st w \<Longrightarrow> set Ys \<subseteq> (df_rel FI)\<^sup>+ `` Defs \<Longrightarrow> set Ys \<subseteq> A \<Longrightarrow>
    placing FI Defs R st (fold (place_phi R) Ys w) \<and> set (DomFronPlus (fold (place_phi R) Ys w)) = set Ys \<union> set (DomFronPlus w) \<and>
    set (pw_Work (fold (place_phi R) Ys w)) - set (pw_Worklist (fold (place_phi R) Ys w)) \<subseteq> set (pw_Work w) - set (pw_Worklist w) \<and>
    left A (fold (place_phi R) Ys w) \<le> left A w"
proof (induction Ys arbitrary: w)
  case (Cons Y Ys)
  have "placing FI Defs R st (place_phi R Y w)" "set (DomFronPlus (place_phi R Y w)) = insert Y (set (DomFronPlus w))"
    "set (pw_Work (place_phi R Y w)) - set (pw_Worklist (place_phi R Y w)) \<subseteq> set (pw_Work w) - set (pw_Worklist w)"
    "left A (place_phi R Y w) \<le> left A w"
    using place_phi_step [OF Cons.prems(1), of Y A] Cons.prems assms by auto
  with Cons.IH [of "place_phi R Y w"] Cons.prems show ?case by auto
qed simp

section \<open>The loop\<close>

definition placed :: "finfo \<Rightarrow> phi_work \<Rightarrow> bool" where
  "placed FI w \<longleftrightarrow> df_rel FI `` (set (pw_Work w) - set (pw_Worklist w)) \<subseteq> set (DomFronPlus w)"

lemma phi_worklist_ends:
  assumes A: "finite A" "\<And>X. X \<in> A \<Longrightarrow> \<exists>D. fi_df FI X = Some D \<and> set D \<subseteq> A" "Defs \<subseteq> A"
  shows "placing FI Defs R st w \<Longrightarrow> placed FI w \<Longrightarrow> left A w \<le> k \<Longrightarrow>
    \<exists>w'. phi_worklist FI R k w = Inr w' \<and> placing FI Defs R st w' \<and> placed FI w' \<and> pw_Worklist w' = []"
proof (induction k arbitrary: w)
  case 0
  then have "pw_Worklist w = []" by (simp add: left_def)
  with 0 show ?case by simp
next
  case (Suc k)
  show ?case
  proof (cases "pw_Worklist w")
    case Nil
    with Suc.prems show ?thesis by simp
  next
    case (Cons X Worklist)
    have "(df_rel FI)\<^sup>+ `` Defs \<subseteq> A"
    proof -
      have "y \<in> A" if "(x, y) \<in> (df_rel FI)\<^sup>+" "x \<in> A" for x y
        using that by (induction rule: trancl_induct) (use A(2) in \<open>force simp: df_rel_def\<close>)+
      then show ?thesis using A(3) by blast
    qed
    moreover have "X \<in> Defs \<union> set (DomFronPlus w)" "set (DomFronPlus w) \<subseteq> (df_rel FI)\<^sup>+ `` Defs"
      using Suc.prems(1) Cons by (auto simp: placing_def)
    ultimately have W: "X \<in> A" using A(3) by blast
    then obtain D where D: "fi_df FI X = Some D" "set D \<subseteq> A" using A(2) by blast
    have X: "X \<in> Defs \<or> X \<in> (df_rel FI)\<^sup>+ `` Defs" using Suc.prems(1) Cons by (auto simp: placing_def)
    have sub: "set D \<subseteq> (df_rel FI)\<^sup>+ `` Defs"
    proof
      fix Y assume "Y \<in> set D"
      then have "(X, Y) \<in> df_rel FI" using D(1) by (auto simp: df_rel_def)
      with X show "Y \<in> (df_rel FI)\<^sup>+ `` Defs" by (auto intro: r_into_trancl trancl_into_trancl)
    qed
    let ?w = "w\<lparr>pw_Worklist := Worklist\<rparr>" and ?w' = "fold (place_phi R) D (w\<lparr>pw_Worklist := Worklist\<rparr>)"
    have P: "placing FI Defs R st ?w" and L: "left A ?w \<le> k" using Suc.prems Cons by (auto simp: placing_def left_def)
    note step = place_phi_steps [OF A(1) P sub D(2)]
    have "df_rel FI `` {X} = set D" using D(1) by (auto simp: df_rel_def)
    moreover have "set (pw_Work ?w') - set (pw_Worklist ?w') \<subseteq> (set (pw_Work w) - set (pw_Worklist w)) \<union> {X}" using step Cons by auto
    ultimately have "placed FI ?w'" using Suc.prems(2) step Cons unfolding placed_def by auto
    then show ?thesis using Suc.IH [of ?w'] step L Cons D(1) by auto
  qed
qed

lemma phis_for_exact:
  assumes "finite A" "\<And>X. X \<in> A \<Longrightarrow> \<exists>D. fi_df FI X = Some D \<and> set D \<subseteq> A" "set (regDefToBB st R) \<subseteq> A"
    "length (regDefToBB st R) + card A \<le> k"
  shows "phis_for FI k R st = Inr (phis_added R ((df_rel FI)\<^sup>+ `` set (regDefToBB st R)) st)"
proof -
  let ?Defs = "set (regDefToBB st R)"
  let ?w = "\<lparr>pw_Worklist = rev (regDefToBB st R), DomFronPlus = [], pw_Work = regDefToBB st R, pw_ssa = st\<rparr>"
  have "card (A - ?Defs) \<le> card A" using assms(1) by (simp add: card_mono)
  then have "left A ?w \<le> k" using assms(4) by (simp add: left_def)
  then obtain w where w: "phi_worklist FI R k ?w = Inr w" "placing FI ?Defs R st w" "placed FI w" "pw_Worklist w = []"
    using phi_worklist_ends [OF assms(1-3), of R st ?w k] by (auto simp: placing_def placed_def)
  have "y \<in> set (DomFronPlus w)" if "(x, y) \<in> (df_rel FI)\<^sup>+" "x \<in> ?Defs" for x y
    using that
  proof (induction rule: trancl_induct)
    case (base y)
    then show ?case using w by (auto simp: placing_def placed_def)
  next
    case (step y z)
    then show ?case using w by (auto simp: placing_def placed_def)
  qed
  then have "set (DomFronPlus w) = (df_rel FI)\<^sup>+ `` ?Defs" using w(2) by (auto simp: placing_def)
  then show ?thesis using w by (simp add: phis_for_def placing_def)
qed

section \<open>Property\<close>

lemma computePhi_exact:
  assumes "finite A" "\<And>X. X \<in> A \<Longrightarrow> \<exists>D. fi_df FI X = Some D \<and> set D \<subseteq> A"
  shows "(\<And>R. R \<in> set Rs \<Longrightarrow> set (regDefToBB st R) \<subseteq> A \<and> length (regDefToBB st R) + card A \<le> k) \<Longrightarrow>
    foldE (phis_for FI k) Rs st =
      Inr (st\<lparr>bbToPhi := (\<lambda>Y. bbToPhi st Y @ map (new_phi Y) (filter (\<lambda>R. Y \<in> (df_rel FI)\<^sup>+ `` set (regDefToBB st R)) Rs))\<rparr>)"
proof (induction Rs arbitrary: st)
  case (Cons R Rs)
  let ?st = "phis_added R ((df_rel FI)\<^sup>+ `` set (regDefToBB st R)) st"
  have "phis_for FI k R st = Inr ?st" using Cons.prems [of R] by (intro phis_for_exact [OF assms]) auto
  moreover have same: "regDefToBB ?st = regDefToBB st" by (simp add: phis_added_def)
  then have "foldE (phis_for FI k) Rs ?st =
      Inr (?st\<lparr>bbToPhi := (\<lambda>Y. bbToPhi ?st Y @ map (new_phi Y) (filter (\<lambda>R. Y \<in> (df_rel FI)\<^sup>+ `` set (regDefToBB ?st R)) Rs))\<rparr>)"
    using Cons.prems by (intro Cons.IH) auto
  ultimately show ?case unfolding same by (auto simp: phis_added_def fun_eq_iff intro!: arg_cong [where f = "\<lambda>b. st\<lparr>bbToPhi := b\<rparr>"])
qed simp

text \<open>C13: when the dominance frontier has an entry for every block of a set that holds the blocks that define
  regions and is closed under frontiers, phis are placed without an error, and a block gets
  one phi for each region in use whose defining blocks have it in their iterated dominance
  frontier, in the order of the regions, and no other.\<close>

theorem phi_placement_exact:
  assumes "finite A" "\<And>X. X \<in> A \<Longrightarrow> \<exists>D. fi_df FI X = Some D \<and> set D \<subseteq> A"
    and "\<And>R. R \<in> set (usedRegs st) \<Longrightarrow> set (regDefToBB st R) \<subseteq> A \<and> length (regDefToBB st R) + card A \<le> k"
  shows "\<exists>st'. computePhi FI k st = Inr st' \<and> (\<forall>Y. map sp_region (bbToPhi st' Y) = map sp_region (bbToPhi st Y) @
    filter (\<lambda>R. Y \<in> {(X, Y). \<exists>D. fi_df FI X = Some D \<and> Y \<in> set D}\<^sup>+ `` set (regDefToBB st R)) (usedRegs st))"
proof -
  have "computePhi FI k st = Inr (st\<lparr>bbToPhi := (\<lambda>Y. bbToPhi st Y @
      map (new_phi Y) (filter (\<lambda>R. Y \<in> (df_rel FI)\<^sup>+ `` set (regDefToBB st R)) (usedRegs st)))\<rparr>)"
    unfolding computePhi_def by (intro computePhi_exact [OF assms])
  moreover have "map sp_region (map (new_phi Y) l) = l" for Y l by (induction l) (auto simp: new_phi_def)
  ultimately show ?thesis by (auto simp: df_rel_def)
qed

text \<open>A diamond with a store to region 1 in block 1.\<close>

definition diamond_info :: finfo where
  "diamond_info = \<lparr>fi_cfg = diamond_cfg, fi_df = [0 \<mapsto> [], 1 \<mapsto> [3], 2 \<mapsto> [3], 3 \<mapsto> []],
     fi_dt = DNode 0 [DNode 1 [], DNode 2 [], DNode 3 []], fi_pdt = diamond_pdt,
     fi_term = (\<lambda>b. if b = 0 then BranchInst (Some (OtherValue 12)) else OtherTerm)\<rparr>"

definition diamond_defs :: memssa where
  "diamond_defs = empty_ssa\<lparr>usedRegs := [1], regDefToBB := (\<lambda>_. [0, 1])\<rparr>"

theorem phi_placement_exact_witness:
  "\<exists>st'. computePhi diamond_info 6 diamond_defs = Inr st' \<and> (\<forall>Y. map sp_region (bbToPhi st' Y) = map sp_region (bbToPhi diamond_defs Y) @
    filter (\<lambda>R. Y \<in> {(X, Y). \<exists>D. fi_df diamond_info X = Some D \<and> Y \<in> set D}\<^sup>+ `` set (regDefToBB diamond_defs R)) (usedRegs diamond_defs))"
  by (rule phi_placement_exact [where A = "{0, 1, 2, 3}"]) (auto simp: diamond_info_def diamond_defs_def)

end
