(* ===== verification/Memory_Reach.thy ===== *)
theory Memory_Reach
  imports Memory_Rename Memory_Phi
begin

text \<open>
  What memory SSA promises to the dependence graph, without stacks and counters:
  in a block the definition of a region is its last one there or in the closest
  dominator, uses and operands refer to it, and no two definitions of a region
  share a version. The section on mus and chis shows that the steps before the
  renaming prepare what it needs.
\<close>

section \<open>Reaching definitions\<close>

definition defs_env :: "(mdef \<times> nat) list \<Rightarrow> (nat \<Rightarrow> mdef) \<Rightarrow> nat \<Rightarrow> mdef" where
  "defs_env = fold (\<lambda>(d, V) e. e(V := d))"

lemma defs_env_simps [simp]:
  "defs_env [] e = e" "defs_env ((d, V) # ds) e = defs_env ds (e(V := d))" "defs_env (ds @ es) e = defs_env es (defs_env ds e)"
  by (simp_all add: defs_env_def)

definition mus_reach :: "(nat \<Rightarrow> mdef) \<Rightarrow> smu list \<Rightarrow> bool" where
  "mus_reach e ms \<longleftrightarrow> (\<forall>m\<in>set ms. \<exists>v. su_var m = Some v \<and> mv_def v = e (su_region m))"

fun chis_reach :: "(nat \<Rightarrow> mdef) \<Rightarrow> schi list \<Rightarrow> bool" where
  "chis_reach e [] \<longleftrightarrow> True"
| "chis_reach e (c # cs) \<longleftrightarrow> (\<exists>v w. sc_var c = Some v \<and> mv_def v = sc_def c \<and> sc_opVar c = Some w \<and> mv_def w = e (sc_region c)) \<and>
     chis_reach (e(sc_region c := sc_def c)) cs"

definition call_reach :: "(nat \<Rightarrow> mdef) \<Rightarrow> nat \<Rightarrow> memssa \<Rightarrow> bool" where
  "call_reach e I st \<longleftrightarrow>
     (let e1 = defs_env (map chi_key (callSiteToSyncChi st I)) e; e2 = defs_env (map chi_key (callSiteToChi st I)) e1
      in mus_reach e (callSiteToMu st I) \<and> chis_reach e (callSiteToSyncChi st I) \<and> chis_reach e1 (callSiteToChi st I) \<and>
         chis_reach e2 (callSiteToCallerRetChi st I))"

definition inst_reach :: "(nat \<Rightarrow> mdef) \<Rightarrow> minst \<Rightarrow> memssa \<Rightarrow> bool" where
  "inst_reach e I st = (case mi_op I of
     MCall _ _ _ \<Rightarrow> call_reach e (mi_id I) st
   | MInvoke _ _ _ \<Rightarrow> call_reach e (mi_id I) st
   | MStore _ \<Rightarrow> chis_reach e (storeToChi st (mi_id I))
   | MLoad _ \<Rightarrow> mus_reach e (loadToMu st (mi_id I))
   | _ \<Rightarrow> True)"

fun insts_reach :: "(nat \<Rightarrow> mdef) \<Rightarrow> minst list \<Rightarrow> memssa \<Rightarrow> bool" where
  "insts_reach e [] st \<longleftrightarrow> True"
| "insts_reach e (I # Is) st \<longleftrightarrow> inst_reach e I st \<and> insts_reach (defs_env (inst_defs st I) e) Is st"

text \<open>In a block the phis come first; at its end the operands of the phis of the successors are read;
  the blocks it immediately dominates start with what it has at its end.\<close>

fun tree_reach :: "finfo \<Rightarrow> mfn \<Rightarrow> memssa \<Rightarrow> (nat \<Rightarrow> mdef) \<Rightarrow> dnode \<Rightarrow> bool" where
  "tree_reach FI F st e (DNode X kids) \<longleftrightarrow>
     list_all (\<lambda>p. \<exists>v. sp_var p = Some v \<and> mv_def v = sp_def p) (bbToPhi st X) \<and>
     insts_reach (defs_env (map phi_key (bbToPhi st X)) e) (block_insts F X) st \<and>
     list_all (\<lambda>Y. list_all (\<lambda>p. \<exists>v. map_of (sp_opsVar p) (whichPred (fi_cfg FI) X Y) = Some v \<and>
       mv_def v = defs_env (block_keys F st X) e (sp_region p)) (bbToPhi st Y)) (succs (fi_cfg FI) X) \<and>
     list_all (tree_reach FI F st (defs_env (block_keys F st X) e)) kids"

definition env_of :: "names \<Rightarrow> nat \<Rightarrow> mdef" where
  "env_of n = (\<lambda>R. mv_def (hd (nm_S n R)))"

lemma env_push: "env_of (push_def d V X n) = (env_of n)(V := d)"
  by (auto simp: env_of_def push_def_def fresh_var_def)

lemma env_pushes: "env_of (push_defs X ds n) = defs_env ds (env_of n)"
  by (induction ds arbitrary: n) (auto simp: env_push)

lemma mus_named_reach: "mus_named n ms = ms \<Longrightarrow> mus_reach (env_of n) ms"
proof -
  assume "mus_named n ms = ms"
  moreover have "mus_reach (env_of n) (mus_named n ms)" by (auto simp: mus_reach_def mus_named_def env_of_def)
  ultimately show ?thesis by simp
qed

lemma chis_named_reach: "chis_reach (env_of n) (chis_named X cs n)"
proof (induction cs arbitrary: n)
  case (Cons c cs)
  have "mv_def (hd (nm_S n (sc_region c))) = env_of n (sc_region c)" by (simp add: env_of_def)
  moreover have "chis_reach ((env_of n)(sc_region c := sc_def c)) (chis_named X cs (push_def (sc_def c) (sc_region c) X n))"
    using Cons [of "push_def (sc_def c) (sc_region c) X n"] unfolding env_push .
  ultimately show ?case by (simp add: fresh_var_def)
qed simp

lemma chis_right_reach: "chis_named X cs n = cs \<Longrightarrow> chis_reach (env_of n) cs"
  using chis_named_reach [of n X cs] by simp

lemma call_right_reach: "call_right X I n st \<Longrightarrow> call_reach (env_of n) I st"
  unfolding call_right_def call_reach_def Let_def env_pushes [symmetric, where X = X]
  using mus_named_reach chis_right_reach by blast

lemma inst_right_reach: "inst_right X I n st \<Longrightarrow> inst_reach (env_of n) I st"
  by (auto simp: inst_right_def inst_reach_def mus_named_reach chis_right_reach call_right_reach split: mop.splits)

lemma insts_right_reach: "insts_right X Is n st \<Longrightarrow> insts_reach (env_of n) Is st"
proof (induction Is arbitrary: n)
  case (Cons I Is)
  then show ?case using inst_right_reach [of X I n st] Cons.IH [of "push_defs X (inst_defs st I) n"] by (simp add: env_pushes)
qed simp

lemma phis_named_reach: "map sp_var ps = map sp_var (phis_named X qs n) \<Longrightarrow> map phi_key ps = map phi_key qs \<Longrightarrow>
  list_all (\<lambda>p. \<exists>v. sp_var p = Some v \<and> mv_def v = sp_def p) ps"
proof (induction ps arbitrary: qs n)
  case (Cons p ps)
  then obtain q qs' where "qs = q # qs'" by (cases qs) auto
  with Cons show ?case by (auto simp: fresh_var_def phi_key_def)
qed simp

lemma tree_right_reach:
  "tree_right FI F st T n \<Longrightarrow> tree_reach FI F st (env_of n) T"
  "trees_right FI F st Ts n \<Longrightarrow> list_all (tree_reach FI F st (env_of n)) Ts"
proof (induction FI F st T n and FI F st Ts n rule: tree_right_trees_right.induct)
  case (1 FI F st X kids n)
  have "list_all (\<lambda>p. \<exists>v. map_of (sp_opsVar p) (whichPred (fi_cfg FI) X Y) = Some v \<and> mv_def v = env_of (push_defs X (block_keys F st X) n) (sp_region p)) (bbToPhi st Y)"
    if "Y \<in> set (succs (fi_cfg FI) X)" for Y
  proof -
    have "ops st Y (whichPred (fi_cfg FI) X Y) = tops st (push_defs X (block_keys F st X) n) Y" using 1 that by simp
    then show ?thesis by (auto simp: ops_def tops_def list_all_iff env_of_def)
  qed
  with 1 show ?case
    using phis_named_reach [of "bbToPhi st X" X "bbToPhi st X" n]
      insts_right_reach [of X "block_insts F X" "push_defs X (map phi_key (bbToPhi st X)) n" st]
    by (simp add: env_pushes list_all_iff)
next
  case (3 FI F st k ks n)
  have "env_of (names_after F st k n) = env_of n" by (simp add: env_of_def)
  with 3 show ?case by simp
qed simp

section \<open>Versions\<close>

definition chi_vars :: "schi list \<Rightarrow> (nat \<times> mvar option) list" where
  "chi_vars = map (\<lambda>c. (sc_region c, sc_var c))"

definition inst_vars :: "memssa \<Rightarrow> minst \<Rightarrow> (nat \<times> mvar option) list" where
  "inst_vars st I = (case mi_op I of
     MCall _ _ _ \<Rightarrow> chi_vars (callSiteToSyncChi st (mi_id I)) @ chi_vars (callSiteToChi st (mi_id I)) @ chi_vars (callSiteToCallerRetChi st (mi_id I))
   | MInvoke _ _ _ \<Rightarrow> chi_vars (callSiteToSyncChi st (mi_id I)) @ chi_vars (callSiteToChi st (mi_id I)) @ chi_vars (callSiteToCallerRetChi st (mi_id I))
   | MStore _ \<Rightarrow> chi_vars (storeToChi st (mi_id I))
   | _ \<Rightarrow> [])"

fun tree_vars :: "mfn \<Rightarrow> memssa \<Rightarrow> dnode \<Rightarrow> (nat \<times> mvar option) list" where
  "tree_vars F st (DNode X kids) = map (\<lambda>p. (sp_region p, sp_var p)) (bbToPhi st X) @ concat (map (inst_vars st) (block_insts F X)) @
     concat (map (tree_vars F st) kids)"

definition versions :: "nat \<Rightarrow> (nat \<times> mvar option) list \<Rightarrow> nat option list" where
  "versions V l = map (\<lambda>p. map_option mv_version (snd p)) (filter (\<lambda>p. fst p = V) l)"

lemma versions_append [simp]: "versions V (l @ m) = versions V l @ versions V m" "versions V [] = []"
  by (simp_all add: versions_def)

definition numbers :: "nat \<Rightarrow> names \<Rightarrow> names \<Rightarrow> nat option list" where
  "numbers V n n' = map Some [nm_C n V..<nm_C n' V]"

lemma count_pushes: "nm_C n V \<le> nm_C (push_defs X ds n) V"
proof (induction ds arbitrary: n)
  case (Cons d ds)
  show ?case using Cons [of "push_def (fst d) (snd d) X n"] by (cases d) (auto simp: push_def_def split: if_splits)
qed simp

lemma count_pushes2: "nm_C n V \<le> nm_C (push_defs X es (push_defs X ds n)) V"
  by (rule order_trans [OF count_pushes count_pushes])

lemma numbers_trans: "nm_C n V \<le> nm_C n' V \<Longrightarrow> nm_C n' V \<le> nm_C n'' V \<Longrightarrow> numbers V n n' @ numbers V n' n'' = numbers V n n''"
  by (simp add: numbers_def flip: map_append) (metis le_add_diff_inverse upt_add_eq_append)

lemma numbers_push: "numbers V n (push_def d W X n) = (if W = V then [Some (nm_C n V)] else [])"
  by (simp add: numbers_def push_def_def)

lemma numbers_step: "numbers V n (push_def d W X n) @ numbers V (push_def d W X n) (push_defs X ds (push_def d W X n)) =
  numbers V n (push_defs X ds (push_def d W X n))"
  by (rule numbers_trans) (auto simp: push_def_def count_pushes intro: order_trans [OF _ count_pushes])

lemma chi_versions: "versions V (chi_vars (chis_named X cs n)) = numbers V n (push_defs X (map chi_key cs) n)"
proof (induction cs arbitrary: n)
  case (Cons c cs)
  have "versions V (chi_vars (chis_named X (c # cs) n)) = numbers V n (push_def (sc_def c) (sc_region c) X n) @
      versions V (chi_vars (chis_named X cs (push_def (sc_def c) (sc_region c) X n)))"
    by (simp add: numbers_push chi_vars_def versions_def fresh_var_def)
  then show ?case using Cons [of "push_def (sc_def c) (sc_region c) X n"] numbers_step by (simp add: chi_key_def)
qed (simp add: chi_vars_def numbers_def)

lemma phi_versions:
  "map sp_var ps = map sp_var (phis_named X ps n) \<Longrightarrow> versions V (map (\<lambda>p. (sp_region p, sp_var p)) ps) = numbers V n (push_defs X (map phi_key ps) n)"
proof (induction ps arbitrary: n)
  case (Cons p ps)
  have "versions V (map (\<lambda>p. (sp_region p, sp_var p)) (p # ps)) = numbers V n (push_def (sp_def p) (sp_region p) X n) @
      versions V (map (\<lambda>p. (sp_region p, sp_var p)) ps)"
    using Cons.prems by (simp add: numbers_push versions_def fresh_var_def)
  then show ?case using Cons.IH [of "push_def (sp_def p) (sp_region p) X n"] Cons.prems numbers_step by (simp add: phi_key_def)
qed (simp add: numbers_def)

lemma chis_right_versions: "chis_named X cs n = cs \<Longrightarrow> versions V (chi_vars cs) = numbers V n (push_defs X (map chi_key cs) n)"
  using chi_versions [of V X cs n] by simp

lemma numbers_pushes: "numbers V n (push_defs X ds n) @ numbers V (push_defs X ds n) (push_defs X es (push_defs X ds n)) = numbers V n (push_defs X (ds @ es) n)"
  by (simp add: numbers_trans count_pushes)

lemma call_versions:
  assumes "call_right X I n st"
  shows "versions V (chi_vars (callSiteToSyncChi st I) @ chi_vars (callSiteToChi st I) @ chi_vars (callSiteToCallerRetChi st I)) =
    numbers V n (push_defs X (map chi_key (callSiteToSyncChi st I) @ map chi_key (callSiteToChi st I) @ map chi_key (callSiteToCallerRetChi st I)) n)"
proof -
  let ?n1 = "push_defs X (map chi_key (callSiteToSyncChi st I)) n" and ?n2 = "push_defs X (map chi_key (callSiteToChi st I)) (push_defs X (map chi_key (callSiteToSyncChi st I)) n)"
  have "versions V (chi_vars (callSiteToSyncChi st I)) = numbers V n ?n1" "versions V (chi_vars (callSiteToChi st I)) = numbers V ?n1 ?n2"
    "versions V (chi_vars (callSiteToCallerRetChi st I)) = numbers V ?n2 (push_defs X (map chi_key (callSiteToCallerRetChi st I)) ?n2)"
    using assms chis_right_versions unfolding call_right_def Let_def by blast+
  then show ?thesis by (simp add: numbers_trans count_pushes count_pushes2)
qed

lemma inst_versions: "inst_right X I n st \<Longrightarrow> versions V (inst_vars st I) = numbers V n (push_defs X (inst_defs st I) n)"
  using call_versions [of X "mi_id I" n st V] chis_right_versions [of X "storeToChi st (mi_id I)" n V]
  by (auto simp: inst_right_def inst_vars_def inst_defs_def numbers_def split: mop.splits)

lemma insts_versions:
  "insts_right X Is n st \<Longrightarrow> versions V (concat (map (inst_vars st) Is)) = numbers V n (push_defs X (concat (map (inst_defs st) Is)) n)"
proof (induction Is arbitrary: n)
  case (Cons I Is)
  then have "versions V (inst_vars st I) = numbers V n (push_defs X (inst_defs st I) n)"
    "versions V (concat (map (inst_vars st) Is)) = numbers V (push_defs X (inst_defs st I) n) (push_defs X (concat (map (inst_defs st) Is)) (push_defs X (inst_defs st I) n))"
    using inst_versions [of X I n st V] Cons.IH [of "push_defs X (inst_defs st I) n"] by simp_all
  then show ?case by (simp add: numbers_trans count_pushes)
qed (simp add: numbers_def)

lemma count_after:
  "nm_C n V \<le> nm_C (names_after F st T n) V"
  "nm_C n V \<le> nm_C (names_afters F st Ts n) V"
proof (induction F st T n and F st Ts n rule: names_after_names_afters.induct)
  case (1 F st X kids n)
  then show ?case using count_pushes [of n V X "block_keys F st X"] by simp
qed auto

lemma tree_versions:
  "tree_right FI F st T n \<Longrightarrow> versions V (tree_vars F st T) = numbers V n (names_after F st T n)"
  "trees_right FI F st Ts n \<Longrightarrow> versions V (concat (map (tree_vars F st) Ts)) = numbers V n (names_afters F st Ts n)"
proof (induction FI F st T n and FI F st Ts n rule: tree_right_trees_right.induct)
  case (1 FI F st X kids n)
  let ?n1 = "push_defs X (map phi_key (bbToPhi st X)) n" and ?n2 = "push_defs X (block_keys F st X) n"
  have "versions V (map (\<lambda>p. (sp_region p, sp_var p)) (bbToPhi st X)) = numbers V n ?n1"
    "versions V (concat (map (inst_vars st) (block_insts F X))) = numbers V ?n1 ?n2"
    "versions V (concat (map (tree_vars F st) kids)) = numbers V ?n2 (names_afters F st kids ?n2)"
    using 1 phi_versions [of "bbToPhi st X" X n V] insts_versions [of X "block_insts F X" ?n1 st V] by (simp_all add: block_keys_def)
  moreover have "numbers V n (names_after F st (DNode X kids) n) = numbers V n (names_afters F st kids ?n2)" by (simp add: numbers_def)
  moreover have "numbers V n ?n1 @ numbers V ?n1 ?n2 = numbers V n ?n2"
    using numbers_pushes [of V n X "map phi_key (bbToPhi st X)" "concat (map (inst_defs st) (block_insts F X))"] by (simp add: block_keys_def)
  moreover have "numbers V n ?n2 @ numbers V ?n2 (names_afters F st kids ?n2) = numbers V n (names_afters F st kids ?n2)"
    by (intro numbers_trans count_pushes count_after(2))
  ultimately show ?case by simp (metis append_assoc)
next
  case (3 FI F st k ks n)
  then show ?case using numbers_trans [OF count_after(1) [of n V F st k] count_after(2) [of "names_after F st k n" V F st ks]] by simp
qed (simp add: numbers_def)

section \<open>Renaming a function\<close>

lemma entries_named:
  assumes "name_entries X cs n = (cs', n')"
  shows "map chi_key cs' = map chi_key cs" "known U n \<Longrightarrow> known (U \<union> sc_region ` set cs) n'"
    "nm_C n' R = nm_C n R + count_list (map sc_region cs) R"
    "(\<And>c. c \<in> set cs \<Longrightarrow> sc_def c = EntryDef f (sc_region c)) \<Longrightarrow> R \<in> sc_region ` set cs \<or> env_of n R = EntryDef f R \<Longrightarrow> env_of n' R = EntryDef f R"
proof -
  have "map chi_key cs' = map chi_key cs \<and> (known U n \<longrightarrow> known (U \<union> sc_region ` set cs) n') \<and> nm_C n' R = nm_C n R + count_list (map sc_region cs) R \<and>
    ((\<forall>c\<in>set cs. sc_def c = EntryDef f (sc_region c)) \<longrightarrow> R \<in> sc_region ` set cs \<or> env_of n R = EntryDef f R \<longrightarrow> env_of n' R = EntryDef f R)" for U
    using assms
  proof (induction cs arbitrary: n cs' U)
    case (Cons c cs)
    let ?v = "\<lparr>mv_def = sc_def c, mv_version = 0, mv_bb = Some X\<rparr>"
    let ?n = "n\<lparr>nm_S := (nm_S n)(sc_region c := ?v # nm_S n (sc_region c)), nm_C := (nm_C n)(sc_region c := Suc (nm_C n (sc_region c)))\<rparr>"
    obtain ds n1 where r: "name_entries X cs ?n = (ds, n1)" by fastforce
    then have c: "cs' = c\<lparr>sc_var := Some ?v\<rparr> # ds" "n' = n1" using Cons.prems by (auto simp: Let_def)
    have "known U n \<Longrightarrow> known (insert (sc_region c) U) ?n" by (simp add: known_def)
    moreover have "env_of ?n R = (if R = sc_region c then sc_def c else env_of n R)" by (simp add: env_of_def)
    ultimately show ?case using Cons.IH [of ?n ds "insert (sc_region c) U"] r c by (auto simp: chi_key_def)
  qed simp
  then show "map chi_key cs' = map chi_key cs" "known U n \<Longrightarrow> known (U \<union> sc_region ` set cs) n'"
    "nm_C n' R = nm_C n R + count_list (map sc_region cs) R"
    "(\<And>c. c \<in> set cs \<Longrightarrow> sc_def c = EntryDef f (sc_region c)) \<Longrightarrow> R \<in> sc_region ` set cs \<or> env_of n R = EntryDef f R \<Longrightarrow> env_of n' R = EntryDef f R"
    by blast+
qed

lemma count_list_distinct: "distinct xs \<Longrightarrow> x \<in> set xs \<Longrightarrow> count_list xs x = 1"
  by (induction xs) auto

lemma rename_fn_right:
  assumes wf: "wf_code FI B F" "set (blocks_in (fi_dt FI)) \<subseteq> B" "distinct (blocks_in (fi_dt FI))"
    and entry: "funToEntryChi st (mf_id F) = map (\<lambda>R. new_chi (EntryDef (mf_id F) R) R) Rs" "distinct Rs"
    and regs: "regions_in (set Rs) B F st"
  shows "\<exists>st' e k. rename_fn FI F st = Inr st' \<and> (\<forall>R\<in>set Rs. e R = EntryDef (mf_id F) R) \<and> tree_reach FI F st' e (fi_dt FI) \<and>
    (\<forall>R\<in>set Rs. versions R (tree_vars F st' (fi_dt FI)) = map Some [1..<k R])"
proof -
  let ?n0 = "\<lparr>nm_C = (\<lambda>_. 0), nm_S = (\<lambda>_. [])\<rparr>"
  have chis: "sc_region ` set (funToEntryChi st (mf_id F)) = set Rs" "map sc_region (funToEntryChi st (mf_id F)) = Rs"
    "\<And>c. c \<in> set (funToEntryChi st (mf_id F)) \<Longrightarrow> sc_def c = EntryDef (mf_id F) (sc_region c)"
    unfolding entry by (auto simp: new_chi_def comp_def image_image)
  obtain cs n where n: "name_entries (entry_block F) (funToEntryChi st (mf_id F)) ?n0 = (cs, n)" by fastforce
  let ?st = "st\<lparr>funToEntryChi := (funToEntryChi st)(mf_id F := cs)\<rparr>"
  have "known (set Rs) n" using entries_named(2) [OF n, of "{}"] chis by (simp add: known_def)
  moreover have "same_shape st ?st" by (simp add: same_shape_def)
  then have "regions_in (set Rs) B F ?st" using regs same_shape_regions by blast
  ultimately obtain st' where w: "walked FI F (fi_dt FI) ?st n st'" using renameBB_walked [OF wf(1) _ _ wf(2,3)] by blast
  then have "tree_reach FI F st' (env_of n) (fi_dt FI)" using tree_right_reach by (simp add: walked_def)
  moreover have "env_of n R = EntryDef (mf_id F) R" if "R \<in> set Rs" for R using entries_named(4) [OF n chis(3)] that chis(1) by auto
  moreover have "versions R (tree_vars F st' (fi_dt FI)) = map Some [1..<nm_C (names_after F st' (fi_dt FI) n) R]" if "R \<in> set Rs" for R
    using w tree_versions(1) [of FI F st' "fi_dt FI" n R] entries_named(3) [OF n, of R] count_list_distinct [OF entry(2) that] chis(2)
    by (simp add: walked_def numbers_def)
  moreover have "rename_fn FI F st = Inr st'" using n w by (simp add: rename_fn_def walked_def)
  ultimately show ?thesis by blast
qed

section \<open>Mus and chis\<close>

definition regs_at :: "nat \<Rightarrow> memssa \<Rightarrow> nat set" where
  "regs_at J st = su_region ` set (loadToMu st J) \<union> su_region ` set (callSiteToMu st J) \<union> sc_region ` set (storeToChi st J) \<union>
     sc_region ` set (callSiteToChi st J) \<union> sc_region ` set (callSiteToSyncChi st J) \<union> sc_region ` set (callSiteToCallerRetChi st J)"

text \<open>A step for the instruction \<open>I\<close>: what it records there is in use after it.\<close>

definition records :: "nat \<Rightarrow> memssa \<Rightarrow> memssa \<Rightarrow> bool" where
  "records I st st' \<longleftrightarrow> set (usedRegs st) \<subseteq> set (usedRegs st') \<and> (sorted_wrt (<) (usedRegs st) \<longrightarrow> sorted_wrt (<) (usedRegs st')) \<and>
     (\<forall>J. J \<noteq> I \<longrightarrow> regs_at J st' = regs_at J st) \<and> regs_at I st' \<subseteq> regs_at I st \<union> set (usedRegs st') \<and>
     bbToPhi st' = bbToPhi st \<and> funToEntryChi st' = funToEntryChi st \<and> funToReturnMu st' = funToReturnMu st"

lemma records_refl [simp]: "records I st st"
  by (simp add: records_def)

lemma records_trans: "records I st st' \<Longrightarrow> records I st' st'' \<Longrightarrow> records I st st''"
  unfolding records_def by auto

lemma records_fold:
  assumes "\<And>R st. R \<in> set Rs \<Longrightarrow> P st \<Longrightarrow> records I st (f R st) \<and> P (f R st)"
  shows "P st \<Longrightarrow> records I st (fold f Rs st) \<and> P (fold f Rs st)"
  using assms
proof (induction Rs arbitrary: st)
  case (Cons R Rs)
  have "records I st (f R st)" "P (f R st)" using Cons.prems(2) [of R st] Cons.prems(1) by auto
  moreover from this have "records I (f R st) (fold f Rs (f R st))" "P (fold f Rs (f R st))" using Cons.IH [of "f R st"] Cons.prems(2) by auto
  ultimately show ?case using records_trans by auto
qed simp

lemmas recording = records_def regs_at_def use_reg_def def_reg_def append_at_def new_mu_def new_chi_def sorted_set_add

lemma records_mus:
  "records I st (load_mus I Rs st)" "records I st (ext_mus I C k Rs st)" "records I st (call_mus I C Rs st)"
  "records I st (store_chis BB I Rs st)" "records I st (sync_chis BB I Rs st)" "records I st (ret_chis BB I C Rs st)" "records I st (call_chis BB I C Rs st)"
  unfolding load_mus_def ext_mus_def call_mus_def store_chis_def sync_chis_def ret_chis_def call_chis_def
  by (rule conjunct1 [OF records_fold [of Rs "\<lambda>_. True"]]; auto simp: recording)+

lemma used_ext_mus: "set (usedRegs (ext_mus I C k Rs st)) = set (usedRegs st) \<union> set Rs"
  unfolding ext_mus_def by (induction Rs arbitrary: st) (auto simp: use_reg_def)

lemma records_ext_chis: "set Rs \<subseteq> set (usedRegs st) \<Longrightarrow> records I st (ext_chis BB I C k Rs st)"
  unfolding ext_chis_def
  by (rule conjunct1 [OF records_fold [of Rs "\<lambda>st. set Rs \<subseteq> set (usedRegs st)"]]; auto simp: recording)

lemma records_ext_arg: "ext_arg E MRA BB I C a st = Inr st' \<Longrightarrow> records I st st'"
proof (cases "snd a")
  case (PtrArg V)
  assume "ext_arg E MRA BB I C a st = Inr st'"
  then obtain Rs where Rs: "(let st1 = ext_mus I (mf_id C) (fst a) Rs st in case getExtModInfo (mf_name C) of None \<Rightarrow> Inr st1
       | Some Info \<Rightarrow> if fst a \<ge> NbArgs Info \<and> \<not> mf_vararg C then Inl MS_Assertion
           else (case arg_flag Info (fst a) of None \<Rightarrow> Inl MS_Out_of_bounds
            | Some m \<Rightarrow> Inr (if m then ext_chis BB I (mf_id C) (fst a) Rs st1 else st1))) = Inr st'"
    using PtrArg by (auto simp: ext_arg_def bindE_eq_Inr)
  have "st' = ext_mus I (mf_id C) (fst a) Rs st \<or> st' = ext_chis BB I (mf_id C) (fst a) Rs (ext_mus I (mf_id C) (fst a) Rs st)"
  proof (cases "getExtModInfo (mf_name C)")
    case (Some Info)
    then show ?thesis using Rs by (cases "arg_flag Info (fst a)") (auto simp: Let_def split: if_splits)
  qed (use Rs in \<open>simp add: Let_def\<close>)
  moreover have "records I (ext_mus I (mf_id C) (fst a) Rs st) (ext_chis BB I (mf_id C) (fst a) Rs (ext_mus I (mf_id C) (fst a) Rs st))"
    by (rule records_ext_chis) (simp add: used_ext_mus)
  ultimately show ?thesis using records_mus(2) records_trans by metis
qed (simp_all add: ext_arg_def)

lemma records_foldE: "foldE f xs st = Inr st' \<Longrightarrow> (\<And>x st st'. f x st = Inr st' \<Longrightarrow> records I st st') \<Longrightarrow> records I st st'"
  using foldE_inv [where P = "records I st"] records_trans by (metis records_refl)

lemma records_args:
  "records I st (fold (\<lambda>(ArgId, ptr) st. if \<not> ptr then st else st\<lparr>argEntryChi := p ArgId (argEntryChi st), argExitChi := q ArgId (argExitChi st)\<rparr>) l st)"
proof (induction l arbitrary: st)
  case (Cons a l)
  obtain k ptr where a: "a = (k, ptr)" by fastforce
  let ?st = "st\<lparr>argEntryChi := p k (argEntryChi st), argExitChi := q k (argExitChi st)\<rparr>"
  have "records I st ?st" by (simp add: records_def regs_at_def)
  then have "records I st (if \<not> ptr then st else ?st)" by simp
  from records_trans [OF this Cons [of "if \<not> ptr then st else ?st"]] show ?case by (simp add: a)
qed simp

lemma records_artificial: "records I st (createArtificalChiForCalledFunction CB C st)"
proof -
  have r1: "records I st' (st'\<lparr>varArgEntryChi := a, varArgExitChi := b\<rparr>)" and r2: "records I st' (st'\<lparr>calleeRetChi := c\<rparr>)" for st' a b c
    by (simp_all add: records_def regs_at_def)
  let ?st1 = "if mf_vararg C then st\<lparr>varArgEntryChi := put_at (mf_id C) CB (entry_chi (VarArgDef (mf_id C) CB)) (varArgEntryChi st),
      varArgExitChi := put_at (mf_id C) CB (exit_chi (VarArgExitDef (mf_id C) CB) (VarArgDef (mf_id C) CB) (VarArgDef (mf_id C) CB)) (varArgExitChi st)\<rparr> else st"
  let ?st2 = "fold (\<lambda>(ArgId, ptr) st. if \<not> ptr then st else
      st\<lparr>argEntryChi := put_arg (mf_id C) CB ArgId (entry_chi (ExtArgDef (mf_id C) CB ArgId)) (argEntryChi st),
         argExitChi := put_arg (mf_id C) CB ArgId (exit_chi (ExtArgExitDef (mf_id C) CB ArgId) (ExtArgExitDef (mf_id C) CB ArgId) (ExtArgDef (mf_id C) CB ArgId)) (argExitChi st)\<rparr>)
      (zip [0..<length (mf_args C)] (mf_args C)) ?st1"
  have "records I st ?st1" using r1 by simp
  moreover have "records I ?st1 ?st2" by (rule records_args)
  ultimately have 2: "records I st ?st2" by (rule records_trans)
  have "createArtificalChiForCalledFunction CB C st =
      (if mf_ret_ptr C then ?st2\<lparr>calleeRetChi := put_at (mf_id C) CB (entry_chi (ExtRetDef (mf_id C) CB)) (calleeRetChi ?st2)\<rparr> else ?st2)"
    by (simp only: createArtificalChiForCalledFunction_def Let_def)
  then show ?thesis using 2 records_trans [OF 2 r2] by simp
qed

lemma records_called:
  assumes "computeMuChiForCalledFunction E MRA F BB I invoke args ptr C st = Inr st'"
  shows "records I st st'"
proof -
  define st1 where "st1 = (if is_omp_barrier E C then sync_chis BB I (getOmpSharedRegions (me_regions E) F) st else st)"
  have 1: "records I st st1" by (simp add: st1_def records_mus)
  show ?thesis
  proof (cases "mf_decl C")
    case True
    then obtain st2 where 2: "foldE (ext_arg E MRA BB I C) (zip [0..<length args] args)
        (st1\<lparr>extFuncToCS := (extFuncToCS st1)(mf_id C := set_add I (extFuncToCS st1 (mf_id C)))\<rparr>) = Inr st2" "ext_ret E MRA BB I ptr C st2 = Inr st'"
      using assms by (auto simp: computeMuChiForCalledFunction_def Let_def st1_def [symmetric] bindE_eq_Inr split: if_splits)
    have "records I st1 (st1\<lparr>extFuncToCS := c\<rparr>)" for c by (simp add: records_def regs_at_def)
    moreover have "records I (st1\<lparr>extFuncToCS := (extFuncToCS st1)(mf_id C := set_add I (extFuncToCS st1 (mf_id C)))\<rparr>) st2"
      using 2(1) records_ext_arg by (rule records_foldE)
    moreover have "records I st2 st'" using 2(2) by (auto simp: ext_ret_def bindE_eq_Inr records_mus split: if_splits)
    ultimately show ?thesis using 1 records_trans by metis
  next
    case False
    then have "st' = call_chis BB I (mf_id C) (filter (\<lambda>R. R \<notin> set (getFuncKill MRA F)) (getFuncMod MRA (mf_id C)))
        (call_mus I (mf_id C) (filter (\<lambda>R. R \<notin> set (getFuncKill MRA F)) (getFuncRef MRA (mf_id C))) st1)"
      using assms by (simp add: computeMuChiForCalledFunction_def Let_def st1_def)
    then show ?thesis using 1 records_mus(3,7) records_trans by metis
  qed
qed

lemma records_callee: "mu_chi_callee E MRA F BB I invoke args ptr C st = Inr st' \<Longrightarrow> records I st st'"
  using records_called records_artificial records_trans
  by (auto simp: mu_chi_callee_def bindE_eq_Inr split: if_splits) metis

lemma records_inst: "mu_chi_inst E MRA F BB I st = Inr st' \<Longrightarrow> records (mi_id I) st st'"
proof (cases "mi_op I")
  case (MCall a b c)
  moreover assume "mu_chi_inst E MRA F BB I st = Inr st'"
  ultimately have "foldE (mu_chi_callee E MRA F BB (mi_id I) False b c) (may_callees E (mi_id I) a) st = Inr st'" by (simp add: mu_chi_inst_def)
  then show ?thesis using records_callee by (rule records_foldE)
next
  case (MInvoke a b c)
  moreover assume "mu_chi_inst E MRA F BB I st = Inr st'"
  ultimately have "foldE (mu_chi_callee E MRA F BB (mi_id I) True b c) (may_callees E (mi_id I) a) st = Inr st'" by (simp add: mu_chi_inst_def)
  then show ?thesis using records_callee by (rule records_foldE)
qed (auto simp: mu_chi_inst_def bindE_eq_Inr records_mus)

text \<open>After all instructions of a function, everything recorded at them is in use.\<close>

definition recorded :: "nat set \<Rightarrow> memssa \<Rightarrow> memssa \<Rightarrow> bool" where
  "recorded ids st st' \<longleftrightarrow> set (usedRegs st) \<subseteq> set (usedRegs st') \<and> sorted_wrt (<) (usedRegs st') \<and> (\<forall>J\<in>ids. regs_at J st' \<subseteq> set (usedRegs st')) \<and>
     bbToPhi st' = bbToPhi st \<and> funToEntryChi st' = funToEntryChi st \<and> funToReturnMu st' = funToReturnMu st"

lemma recorded_step: "recorded ids st0 st \<Longrightarrow> records I st st' \<Longrightarrow> recorded ids st0 st'"
  unfolding recorded_def records_def by (metis Un_iff subset_iff)

lemma recorded_insts:
  assumes "foldE (\<lambda>(BB, insts). foldE (mu_chi_inst E MRA F BB) insts) bs st = Inr st'" "recorded ids st0 st"
  shows "recorded ids st0 st'"
proof (rule foldE_inv [OF assms(1), of "recorded ids st0"])
  show "recorded ids st0 st" by (rule assms(2))
  fix b s t assume "recorded ids st0 s" "(case b of (BB, insts) \<Rightarrow> foldE (mu_chi_inst E MRA F BB) insts) s = Inr t"
  then show "recorded ids st0 t"
    by (cases b) (auto elim!: foldE_inv [where P = "recorded ids st0"] intro: recorded_step dest: records_inst)
qed

lemma entry_chis_eq:
  "funToEntryChi (entry_chis F st) (mf_id F) = funToEntryChi st (mf_id F) @ map (\<lambda>R. new_chi (EntryDef (mf_id F) R) R) (usedRegs st) \<and>
   usedRegs (entry_chis F st) = usedRegs st \<and> regs_at J (entry_chis F st) = regs_at J st \<and> bbToPhi (entry_chis F st) = bbToPhi st \<and>
   funToReturnMu (entry_chis F st) = funToReturnMu st"
proof -
  have "funToEntryChi (fold (\<lambda>R st. def_reg R b (st\<lparr>funToEntryChi := append_at f (new_chi (EntryDef f R) R) (funToEntryChi st)\<rparr>)) Rs st) f =
      funToEntryChi st f @ map (\<lambda>R. new_chi (EntryDef f R) R) Rs \<and>
    usedRegs (fold (\<lambda>R st. def_reg R b (st\<lparr>funToEntryChi := append_at f (new_chi (EntryDef f R) R) (funToEntryChi st)\<rparr>)) Rs st) = usedRegs st \<and>
    regs_at J (fold (\<lambda>R st. def_reg R b (st\<lparr>funToEntryChi := append_at f (new_chi (EntryDef f R) R) (funToEntryChi st)\<rparr>)) Rs st) = regs_at J st \<and>
    bbToPhi (fold (\<lambda>R st. def_reg R b (st\<lparr>funToEntryChi := append_at f (new_chi (EntryDef f R) R) (funToEntryChi st)\<rparr>)) Rs st) = bbToPhi st \<and>
    funToReturnMu (fold (\<lambda>R st. def_reg R b (st\<lparr>funToEntryChi := append_at f (new_chi (EntryDef f R) R) (funToEntryChi st)\<rparr>)) Rs st) = funToReturnMu st" for Rs b f
    by (induction Rs arbitrary: st) (auto simp: def_reg_def append_at_def regs_at_def)
  then show ?thesis by (simp add: entry_chis_def)
qed

lemma return_mus_eq:
  "map su_region (funToReturnMu (return_mus F st) (mf_id F)) = map su_region (funToReturnMu st (mf_id F)) @ usedRegs st \<and>
   usedRegs (return_mus F st) = usedRegs st \<and> regs_at J (return_mus F st) = regs_at J st \<and> bbToPhi (return_mus F st) = bbToPhi st \<and>
   funToEntryChi (return_mus F st) = funToEntryChi st"
proof -
  have "map su_region (funToReturnMu (fold (\<lambda>R st. st\<lparr>funToReturnMu := append_at f (new_mu RetMu R) (funToReturnMu st)\<rparr>) Rs st) f) =
      map su_region (funToReturnMu st f) @ Rs \<and>
    usedRegs (fold (\<lambda>R st. st\<lparr>funToReturnMu := append_at f (new_mu RetMu R) (funToReturnMu st)\<rparr>) Rs st) = usedRegs st \<and>
    regs_at J (fold (\<lambda>R st. st\<lparr>funToReturnMu := append_at f (new_mu RetMu R) (funToReturnMu st)\<rparr>) Rs st) = regs_at J st \<and>
    bbToPhi (fold (\<lambda>R st. st\<lparr>funToReturnMu := append_at f (new_mu RetMu R) (funToReturnMu st)\<rparr>) Rs st) = bbToPhi st \<and>
    funToEntryChi (fold (\<lambda>R st. st\<lparr>funToReturnMu := append_at f (new_mu RetMu R) (funToReturnMu st)\<rparr>) Rs st) = funToEntryChi st" for Rs f
    by (induction Rs arbitrary: st) (auto simp: append_at_def new_mu_def regs_at_def)
  then show ?thesis by (simp add: return_mus_def)
qed

text \<open>A function that memory SSA has not seen.\<close>

definition fresh_fn :: "nat set \<Rightarrow> mfn \<Rightarrow> memssa \<Rightarrow> bool" where
  "fresh_fn B F st \<longleftrightarrow> (\<forall>I\<in>set (insts_of F). regs_at (mi_id I) st = {}) \<and> (\<forall>X\<in>B. bbToPhi st X = []) \<and>
     funToEntryChi st (mf_id F) = [] \<and> funToReturnMu st (mf_id F) = [] \<and> usedRegs st = []"

lemma computeMuChi_regs:
  assumes "computeMuChi E MRA FI F st = Inr st1" "fresh_fn B F st"
  shows "funToEntryChi st1 (mf_id F) = map (\<lambda>R. new_chi (EntryDef (mf_id F) R) R) (usedRegs st1)" "sorted_wrt (<) (usedRegs st1)"
    "I \<in> set (insts_of F) \<Longrightarrow> regs_at (mi_id I) st1 \<subseteq> set (usedRegs st1)" "X \<in> B \<Longrightarrow> bbToPhi st1 X = []"
    "su_region ` set (funToReturnMu st1 (mf_id F)) \<subseteq> set (usedRegs st1)"
proof -
  let ?ids = "mi_id ` set (insts_of F)"
  obtain st' where m: "foldE (\<lambda>(BB, insts). foldE (mu_chi_inst E MRA (mf_id F) BB) insts) (mf_blocks F) st = Inr st'"
      "st1 = entry_chis F st' \<or> st1 = return_mus F (entry_chis F st')"
    using assms(1) by (auto simp: computeMuChi_def bindE_eq_Inr Let_def split: option.splits if_splits)
  have "recorded ?ids st st" using assms(2) by (auto simp: recorded_def fresh_fn_def)
  then have r: "recorded ?ids st st'" by (rule recorded_insts [OF m(1)])
  have u: "usedRegs st1 = usedRegs st'" "\<And>J. regs_at J st1 = regs_at J st'" "bbToPhi st1 = bbToPhi st'"
    "funToEntryChi st1 (mf_id F) = funToEntryChi (entry_chis F st') (mf_id F)"
    using m(2) entry_chis_eq [of F st'] return_mus_eq [of F "entry_chis F st'"] by auto
  show "funToEntryChi st1 (mf_id F) = map (\<lambda>R. new_chi (EntryDef (mf_id F) R) R) (usedRegs st1)"
    using u r assms(2) entry_chis_eq [of F st'] by (auto simp: recorded_def fresh_fn_def)
  show "sorted_wrt (<) (usedRegs st1)" "I \<in> set (insts_of F) \<Longrightarrow> regs_at (mi_id I) st1 \<subseteq> set (usedRegs st1)" "X \<in> B \<Longrightarrow> bbToPhi st1 X = []"
    using u r assms(2) by (auto simp: recorded_def fresh_fn_def)
  have "map su_region (funToReturnMu st1 (mf_id F)) = [] \<or> map su_region (funToReturnMu st1 (mf_id F)) = usedRegs st1"
    using m(2) u(1) r assms(2) entry_chis_eq [of F st'] return_mus_eq [of F "entry_chis F st'"] by (auto simp: recorded_def fresh_fn_def)
  then show "su_region ` set (funToReturnMu st1 (mf_id F)) \<subseteq> set (usedRegs st1)" by (metis empty_subsetI list.set(1) order_refl set_map)
qed

text \<open>Phis are added for regions in use only.\<close>

definition with_phis :: "nat set \<Rightarrow> memssa \<Rightarrow> memssa \<Rightarrow> bool" where
  "with_phis U st st' \<longleftrightarrow> (\<forall>b. st'\<lparr>bbToPhi := b\<rparr> = st\<lparr>bbToPhi := b\<rparr>) \<and> (\<forall>Y. sp_region ` set (bbToPhi st' Y) \<subseteq> sp_region ` set (bbToPhi st Y) \<union> U)"

lemma with_phis_trans:
  assumes "with_phis U st st'" "with_phis U st' st''"
  shows "with_phis U st st''"
proof -
  have "st''\<lparr>bbToPhi := b\<rparr> = st\<lparr>bbToPhi := b\<rparr>" for b using assms by (simp add: with_phis_def)
  moreover have "sp_region ` set (bbToPhi st'' Y) \<subseteq> sp_region ` set (bbToPhi st Y) \<union> U" for Y
    using assms unfolding with_phis_def by blast
  ultimately show ?thesis by (simp add: with_phis_def)
qed

lemma with_phis_refl [simp]: "with_phis U st st"
  by (simp add: with_phis_def)

lemma with_phis_place: "R \<in> U \<Longrightarrow> with_phis U (pw_ssa w) (pw_ssa (fold (place_phi R) Ys w))"
proof (induction Ys arbitrary: w)
  case (Cons Y Ys)
  have "with_phis U (pw_ssa w) (pw_ssa (place_phi R Y w))"
    using Cons.prems by (auto simp: place_phi_def Let_def with_phis_def append_at_def new_phi_def)
  from with_phis_trans [OF this Cons.IH [OF Cons.prems]] show ?case by simp
qed simp

lemma with_phis_worklist: "R \<in> U \<Longrightarrow> phi_worklist FI R k w = Inr w' \<Longrightarrow> with_phis U (pw_ssa w) (pw_ssa w')"
proof (induction k arbitrary: w)
  case 0
  then show ?case by (auto split: list.splits)
next
  case (Suc k)
  show ?case
  proof (cases "pw_Worklist w")
    case (Cons X W)
    then obtain D where "phi_worklist FI R k (fold (place_phi R) D (w\<lparr>pw_Worklist := W\<rparr>)) = Inr w'"
      using Suc.prems(2) by (auto split: option.splits)
    from with_phis_trans [OF with_phis_place [OF Suc.prems(1)] Suc.IH [OF Suc.prems(1) this]] show ?thesis by simp
  qed (use Suc.prems in auto)
qed

lemma with_phis_computePhi:
  assumes "computePhi FI k st = Inr st'"
  shows "with_phis (set (usedRegs st)) st st'"
proof (rule foldE_inv [OF assms [unfolded computePhi_def], of "with_phis (set (usedRegs st)) st"])
  fix R s t assume R: "R \<in> set (usedRegs st)" "with_phis (set (usedRegs st)) st s" "phis_for FI k R s = Inr t"
  from R(3) obtain w where w: "phi_worklist FI R k \<lparr>pw_Worklist = rev (regDefToBB s R), DomFronPlus = [], pw_Work = regDefToBB s R, pw_ssa = s\<rparr> = Inr w" "t = pw_ssa w"
    by (auto simp: phis_for_def bindE_eq_Inr)
  have "with_phis (set (usedRegs st)) s t" using with_phis_worklist [OF R(1) w(1)] w(2) by simp
  with R(2) show "with_phis (set (usedRegs st)) st t" by (rule with_phis_trans)
qed simp

lemma prepared:
  assumes "computeMuChi E MRA FI F st = Inr st1" "computePhi FI k st1 = Inr st2" "fresh_fn B F st"
  shows "regions_in (set (usedRegs st1)) B F st2" "funToEntryChi st2 (mf_id F) = map (\<lambda>R. new_chi (EntryDef (mf_id F) R) R) (usedRegs st1)"
proof -
  note m = computeMuChi_regs [OF assms(1,3)]
  have w: "\<forall>b. st2\<lparr>bbToPhi := b\<rparr> = st1\<lparr>bbToPhi := b\<rparr>" "\<And>Y. sp_region ` set (bbToPhi st2 Y) \<subseteq> sp_region ` set (bbToPhi st1 Y) \<union> set (usedRegs st1)"
    using with_phis_computePhi [OF assms(2)] by (auto simp: with_phis_def)
  have b: "st2 = st1\<lparr>bbToPhi := bbToPhi st2\<rparr>" using w(1) [rule_format, of "bbToPhi st2"] by simp
  then obtain b where b: "st2 = st1\<lparr>bbToPhi := b\<rparr>" "\<And>Y. sp_region ` set (b Y) \<subseteq> sp_region ` set (bbToPhi st1 Y) \<union> set (usedRegs st1)"
    using w(2) by blast
  show "funToEntryChi st2 (mf_id F) = map (\<lambda>R. new_chi (EntryDef (mf_id F) R) R) (usedRegs st1)" using b(1) m(1) by simp
  have "snd ` set (map phi_key (bbToPhi st2 X)) \<subseteq> set (usedRegs st1)" if "X \<in> B" for X
    using b m(4) [OF that] by (fastforce simp: phi_key_def)
  moreover have "snd ` set (inst_defs st2 I) \<subseteq> set (usedRegs st1) \<and> set (inst_uses st2 (mf_id F) I) \<subseteq> set (usedRegs st1)" if "I \<in> set (insts_of F)" for I
    using m(3) [OF that] m(5) b(1) by (auto simp: inst_defs_def inst_uses_def regs_at_def chi_key_def split: mop.splits)
  ultimately show "regions_in (set (usedRegs st1)) B F st2" by (simp add: regions_in_def)
qed

section \<open>Properties\<close>


text \<open>The function \<open>main\<close> of the example on the diamond of blocks, with an empty result of the mod/ref analysis.\<close>

lemmas chi_defs = computeMuChi_def mu_chi_inst_def mu_chi_callee_def alive_regions_def pts_regions_def inGlobalKillSet_def
  load_mus_def store_chis_def call_mus_def call_chis_def computeMuChiForCalledFunction_def getFuncKill_def getFuncMod_def getFuncRef_def
  entry_chis_def return_mus_def use_reg_def def_reg_def append_at_def empty_ssa_def functionDoesNotRet_def explore_unfold push_new_def
  entry_block_def has_return_def

definition demo_modref :: modref where
  "demo_modref = no_modref\<lparr>funcModMap := (\<lambda>_. [])(2 := [2])\<rparr>"

lemma demo_prepared: "\<exists>st1 st2. computeMuChi demo_env demo_modref diamond_info demo_main empty_ssa = Inr st1 \<and> usedRegs st1 = [0, 2] \<and>
    computePhi diamond_info 9 st1 = Inr st2"
  by (simp add: memory_defs chi_defs demo_modref_def no_modref_def diamond_info_def diamond_cfg_def Let_def
      computePhi_def phis_for_def place_phi_def new_phi_def)

lemma demo_wf: "fresh_fn {0, 1, 2, 3} demo_main empty_ssa" "wf_code diamond_info {0, 1, 2, 3} demo_main"
    "set (blocks_in (fi_dt diamond_info)) \<subseteq> {0, 1, 2, 3}" "distinct (blocks_in (fi_dt diamond_info))"
  by (auto simp: fresh_fn_def regs_at_def empty_ssa_def wf_code_def demo_main_def insts_of_def diamond_info_def diamond_cfg_def)


text \<open>Under the same conditions the variables of each region in use, listed in the order in which the
  dominator tree is walked, have the versions 1, 2, 3 and so on after the 0 of the entry chi, so no
  two definitions share a variable.\<close>

theorem renaming_numbers:
  assumes "computeMuChi E MRA FI F st = Inr st1" "computePhi FI k st1 = Inr st2" "fresh_fn B F st"
    and "wf_code FI B F" "set (blocks_in (fi_dt FI)) \<subseteq> B" "distinct (blocks_in (fi_dt FI))"
  shows "\<exists>st3 last. rename_fn FI F st2 = Inr st3 \<and>
    (\<forall>R\<in>set (usedRegs st1). versions R (tree_vars F st3 (fi_dt FI)) = map Some [1..<last R])"
  using rename_fn_right [OF assms(4-6) prepared(2) [OF assms(1-3)] _ prepared(1) [OF assms(1-3)]] computeMuChi_regs(2) [OF assms(1,3)]
  by (auto simp: strict_sorted_iff)

theorem renaming_numbers_witness:
  "\<exists>st1 st2 st3 last. computeMuChi demo_env demo_modref diamond_info demo_main empty_ssa = Inr st1 \<and>
    computePhi diamond_info 9 st1 = Inr st2 \<and> rename_fn diamond_info demo_main st2 = Inr st3 \<and>
    versions 0 (tree_vars demo_main st3 (fi_dt diamond_info)) = map Some [1..<last]"
proof -
  obtain st1 st2 where s: "computeMuChi demo_env demo_modref diamond_info demo_main empty_ssa = Inr st1" "usedRegs st1 = [0, 2]"
      "computePhi diamond_info 9 st1 = Inr st2"
    using demo_prepared by blast
  from renaming_numbers [OF s(1,3) demo_wf] s show ?thesis by auto
qed

end
