(* ===== verification/Mod_Ref_Exact.thy ===== *)
theory Mod_Ref_Exact
  imports Mod_Ref
begin

text \<open>
  What the mod/ref analysis computes: the set of a function has exactly the
  regions that the function itself, or a function reached from it by calls,
  touches, when no function on the way kills them; and the loop over each
  component ends. The mod and the ref sets behave alike: the facts are proved
  once for a map with the laws of the locale below and hold for both.
\<close>

section \<open>The loop over a component\<close>

lemma set_add_cases: "set_add x ys = ys \<or> length ys < length (set_add x ys)"
  by (induction ys) auto

lemma fold_add_cases: "fold set_add xs ys = ys \<or> length ys < length (fold set_add xs ys)"
proof (induction xs arbitrary: ys)
  case (Cons x xs)
  show ?case using Cons [of "set_add x ys"] set_add_cases [of x ys] by auto
qed simp

definition volume :: "nat \<Rightarrow> modref \<Rightarrow> nat" where
  "volume F st = length (funcModMap st F) + length (funcRefMap st F)"

text \<open>A step either changes nothing or enlarges the sets of its function, and of no other.\<close>

definition grows :: "nat \<Rightarrow> modref \<Rightarrow> modref \<Rightarrow> bool" where
  "grows F st st' \<longleftrightarrow> volume F st < volume F st' \<and> length (funcModMap st F) \<le> length (funcModMap st' F) \<and>
     length (funcRefMap st F) \<le> length (funcRefMap st' F) \<and> (\<forall>G. G \<noteq> F \<longrightarrow> volume G st' = volume G st)"

lemma volume_trans: "grows F st st' \<Longrightarrow> grows F st' st'' \<Longrightarrow> grows F st st''"
  by (auto simp: grows_def)

lemma update_callee_cases: "update_callee F M st = st \<or> grows F st (update_callee F M st)"
proof (cases "function_of M")
  case (Some C)
  show ?thesis
    using Some fold_add_cases [of "not_killed st F (funcModMap st C)" "funcModMap st F"]
      fold_add_cases [of "not_killed st F (funcRefMap st C)" "funcRefMap st F"]
    by (auto simp: update_callee_def inherit_def grows_def volume_def)
qed (simp add: update_callee_def)

lemma update_callees_cases:
  "fold (update_callee F) Ms st = st \<and> (\<forall>M\<in>set Ms. update_callee F M st = st) \<or> grows F st (fold (update_callee F) Ms st)"
proof (induction Ms arbitrary: st)
  case (Cons M Ms)
  show ?case using Cons [of "update_callee F M st"] update_callee_cases [of F M st] volume_trans by auto
qed simp

definition stable :: "ptacg \<Rightarrow> cg_node list \<Rightarrow> modref \<Rightarrow> bool" where
  "stable CG NodeVec st \<longleftrightarrow> (\<forall>N\<in>set NodeVec. \<forall>F. function_of N = Some F \<longrightarrow> (\<forall>M\<in>set (callees CG N). update_callee F M st = st))"

definition members :: "cg_node list \<Rightarrow> nat set" where
  "members NodeVec = {F. FnNode F \<in> set NodeVec}"

lemma finite_members [simp]: "finite (members NodeVec)"
proof -
  have "members NodeVec \<subseteq> (\<lambda>N. the (function_of N)) ` set NodeVec" by (force simp: members_def)
  then show ?thesis using finite_surj by blast
qed

lemma function_of_iff: "function_of N = Some F \<longleftrightarrow> N = FnNode F"
  by (cases N) auto

definition total :: "nat set \<Rightarrow> modref \<Rightarrow> nat" where
  "total Q st = (\<Sum>F\<in>Q. volume F st)"

lemma grows_total: "grows F st st' \<Longrightarrow> finite Q \<Longrightarrow> total Q st \<le> total Q st' \<and> (F \<in> Q \<longrightarrow> total Q st < total Q st')"
  unfolding total_def grows_def by (intro conjI impI sum_mono sum_strict_mono_ex1) (metis less_imp_le_nat order_refl)+

lemma update_node_cases:
  "update_node CG N (st, ch) = (st, ch) \<and> stable CG [N] st \<or>
   (\<exists>F st'. N = FnNode F \<and> update_node CG N (st, ch) = (st', True) \<and> grows F st st')"
proof (cases "function_of N")
  case (Some F)
  then show ?thesis using update_callees_cases [of F "callees CG N" st]
    by (auto simp: update_node_def Let_def stable_def function_of_iff grows_def volume_def)
qed (simp add: update_node_def stable_def)

lemma round_cases:
  assumes "finite Q" "members Ns \<subseteq> Q"
  shows "fold (update_node CG) Ns (st, ch) = (st, ch) \<and> stable CG Ns st \<or>
    (\<exists>st'. fold (update_node CG) Ns (st, ch) = (st', True) \<and> total Q st < total Q st')"
  using assms(2)
proof (induction Ns arbitrary: st ch)
  case (Cons N Ns)
  then have sub: "members Ns \<subseteq> Q" by (auto simp: members_def)
  consider "update_node CG N (st, ch) = (st, ch)" "stable CG [N] st"
    | F st' where "N = FnNode F" "update_node CG N (st, ch) = (st', True)" "grows F st st'"
    using update_node_cases by metis
  then show ?case
  proof cases
    case 1
    then show ?thesis using Cons.IH [OF sub, of st ch] by (auto simp: stable_def)
  next
    case 2
    then have "total Q st < total Q st'" using grows_total [OF 2(3) assms(1)] Cons.prems by (auto simp: members_def)
    then show ?thesis using Cons.IH [OF sub, of st' True] 2(2) by auto
  qed
qed (simp add: stable_def)

lemma update_loop_ends:
  assumes step: "\<And>st st' ch. J st \<Longrightarrow> fold (update_node CG) Ns (st, False) = (st', ch) \<Longrightarrow> J st'"
    and bound: "\<And>st. J st \<Longrightarrow> total (members Ns) st \<le> B"
  shows "J st \<Longrightarrow> B - total (members Ns) st < fuel \<Longrightarrow> \<exists>st'. update_loop CG Ns fuel st = Inr st' \<and> J st' \<and> stable CG Ns st'"
proof (induction fuel arbitrary: st)
  case (Suc k)
  consider "fold (update_node CG) Ns (st, False) = (st, False)" "stable CG Ns st"
    | st' where "fold (update_node CG) Ns (st, False) = (st', True)" "total (members Ns) st < total (members Ns) st'"
    using round_cases [OF finite_members order_refl] by metis
  then show ?case
  proof cases
    case 1
    then show ?thesis using Suc.prems by simp
  next
    case 2
    have "J st'" using step [OF Suc.prems(1) 2(1)] .
    moreover have "B - total (members Ns) st' < k" using Suc.prems 2(2) bound [OF \<open>J st'\<close>] by linarith
    ultimately show ?thesis using Suc.IH 2(1) by simp
  qed
qed simp

section \<open>Kill sets\<close>

definition kills :: "ptacg \<Rightarrow> cg_node list \<Rightarrow> modref \<Rightarrow> nat \<Rightarrow> nat set" where
  "kills CG Ns st F = {R. \<exists>C. FnNode C \<in> set (callees CG (FnNode F)) \<and> C \<noteq> F \<and> FnNode C \<notin> set Ns \<and>
     (R \<in> set (funcLocalMap st C) \<or> R \<in> set (funcKillMap st C))}"

lemma kill_callees:
  "funcLocalMap (fold (kill_callee Ns F) Ms st) = funcLocalMap st \<and>
   set (funcKillMap (fold (kill_callee Ns F) Ms st) G) = set (funcKillMap st G) \<union>
     (if G = F then {R. \<exists>C. FnNode C \<in> set Ms \<and> C \<noteq> F \<and> FnNode C \<notin> set Ns \<and> (R \<in> set (funcLocalMap st C) \<or> R \<in> set (funcKillMap st C))} else {})"
proof (induction Ms arbitrary: st)
  case (Cons M Ms)
  show ?case
  proof (cases M)
    case (FnNode C)
    then show ?thesis using Cons [of "kill_callee Ns F M st"] by (auto simp: kill_callee_def set_fold_set_add split: if_splits)
  qed (use Cons in \<open>auto simp: kill_callee_def\<close>)
qed simp

lemma kill_node_FnNode: "kill_node CG Ns (FnNode F) st = remove_killed F (fold (kill_callee Ns F) (callees CG (FnNode F)) st)"
  by (simp add: kill_node_def)

lemma kill_node_sets:
  "funcLocalMap (kill_node CG Ns N st) = funcLocalMap st \<and>
   set (funcKillMap (kill_node CG Ns N st) G) = set (funcKillMap st G) \<union> (if N = FnNode G then kills CG Ns st G else {})"
  using kill_callees by (cases N) (auto simp: kill_node_def remove_killed_def kills_def)

lemma kills_cong:
  assumes "\<And>C. FnNode C \<notin> set Ns \<Longrightarrow> set (funcKillMap st' C) = set (funcKillMap st C)" "funcLocalMap st' = funcLocalMap st"
  shows "kills CG Ns st' F = kills CG Ns st F"
  using assms by (auto simp: kills_def)

lemma kill_nodes_sets:
  assumes "set Ns' \<subseteq> set Ns"
  shows "funcLocalMap (fold (kill_node CG Ns) Ns' st) = funcLocalMap st \<and>
    (\<forall>G. set (funcKillMap (fold (kill_node CG Ns) Ns' st) G) =
       set (funcKillMap st G) \<union> (if FnNode G \<in> set Ns' then kills CG Ns st G else {}))"
  using assms
proof (induction Ns' arbitrary: st)
  case (Cons N Ns')
  let ?st = "kill_node CG Ns N st"
  have "kills CG Ns ?st G = kills CG Ns st G" for G
    by (rule kills_cong) (use kill_node_sets [of CG Ns N st] Cons.prems in auto)
  then show ?case using Cons.IH [of ?st] Cons.prems kill_node_sets [of CG Ns N st] by auto
qed simp

section \<open>Regions that a function touches\<close>

inductive touches :: "ptacg \<Rightarrow> (nat \<Rightarrow> nat set) \<Rightarrow> (nat \<Rightarrow> nat set) \<Rightarrow> nat \<Rightarrow> nat \<Rightarrow> bool" for CG K D where
  own: "R \<in> D F \<Longrightarrow> R \<notin> K F \<Longrightarrow> touches CG K D F R"
| call: "FnNode C \<in> set (callees CG (FnNode F)) \<Longrightarrow> touches CG K D C R \<Longrightarrow> R \<notin> K F \<Longrightarrow> touches CG K D F R"

definition call_closed :: "ptacg \<Rightarrow> nat set \<Rightarrow> bool" where
  "call_closed CG P \<longleftrightarrow> (\<forall>F\<in>P. \<forall>C. FnNode C \<in> set (callees CG (FnNode F)) \<longrightarrow> C \<in> P)"

lemma touches_local:
  assumes "touches CG K D F R" "F \<in> P" "call_closed CG P" "\<And>G. G \<in> P \<Longrightarrow> K' G = K G"
  shows "touches CG K' D F R"
  using assms
proof (induction rule: touches.induct)
  case (call C F R)
  then have "C \<in> P" unfolding call_closed_def by blast
  with call show ?case by (auto intro: touches.call)
qed (auto intro: touches.own)

lemma touches_bounded: "touches CG K D F R \<Longrightarrow> F \<in> P \<Longrightarrow> call_closed CG P \<Longrightarrow> R \<in> (\<Union>G\<in>P. D G)"
  by (induction rule: touches.induct) (auto simp: call_closed_def)

lemma touches_not_killed: "touches CG K D F R \<Longrightarrow> R \<notin> K F"
  by (erule touches.cases) auto

section \<open>A map of effects\<close>

lemma not_killed_remove [simp]: "not_killed (remove_killed F st) = not_killed st"
  by (simp add: fun_eq_iff not_killed_def remove_killed_def)

locale effect_map =
  fixes sel :: "modref \<Rightarrow> nat \<Rightarrow> nat list"
  assumes sel_kill: "sel (kill_callee Ns F M st) = sel st"
    and sel_remove: "sel (remove_killed F st) = (sel st)(F := not_killed st F (sel st F))"
    and sel_inherit: "sel (inherit F C st) = (sel st)(F := fold set_add (not_killed st F (sel st C)) (sel st F))"
begin

lemma sel_kills: "sel (fold (kill_callee Ns F) Ms st) = sel st"
  by (induction Ms arbitrary: st) (simp_all add: sel_kill)

text \<open>After the kill phase the members have lost what is killed, the others are as before.\<close>

lemma sel_kill_nodes:
  assumes "distinct Ns'" "set Ns' \<subseteq> set Ns"
  shows "\<forall>G. sel (fold (kill_node CG Ns) Ns' st) G = (if FnNode G \<in> set Ns'
    then not_killed (fold (kill_node CG Ns) Ns' st) G (sel st G) else sel st G)"
  using assms
proof (induction Ns' arbitrary: st)
  case (Cons N Ns')
  let ?st = "kill_node CG Ns N st"
  let ?fin = "fold (kill_node CG Ns) Ns' ?st"
  have IH: "sel ?fin G = (if FnNode G \<in> set Ns' then not_killed ?fin G (sel ?st G) else sel ?st G)" for G
    using Cons.IH [of ?st] Cons.prems by simp
  have one: "sel ?st G = (if N = FnNode G then not_killed ?st G (sel st G) else sel st G)" for G
    by (cases N) (auto simp: kill_node_def sel_remove sel_kills)
  have "not_killed ?fin G (sel st G) = not_killed ?st G (sel st G)" if "N = FnNode G" for G
    using kill_nodes_sets [of Ns' Ns CG ?st] Cons.prems that by (auto simp: not_killed_def)
  with IH one Cons.prems(1) show ?case by auto
qed simp

definition within :: "ptacg \<Rightarrow> (nat \<Rightarrow> nat set) \<Rightarrow> nat set \<Rightarrow> modref \<Rightarrow> modref \<Rightarrow> bool" where
  "within CG D Q st1 st \<longleftrightarrow> (\<forall>F. F \<notin> Q \<longrightarrow> sel st F = sel st1 F) \<and> (\<forall>F\<in>Q. set (sel st1 F) \<subseteq> set (sel st F)) \<and>
     (\<forall>F. set (sel st F) \<subseteq> {R. touches CG (\<lambda>G. set (funcKillMap st1 G)) D F R} \<or> F \<notin> Q \<and> \<not> (\<exists>G\<in>Q. FnNode F \<in> set (callees CG (FnNode G)))) \<and>
     (\<forall>F. sorted_wrt (<) (sel st F)) \<and> funcKillMap st = funcKillMap st1 \<and> funcLocalMap st = funcLocalMap st1"

lemma within_inherit:
  assumes "within CG D Q st1 st" "F \<in> Q" "FnNode C \<in> set (callees CG (FnNode F))"
  shows "within CG D Q st1 (inherit F C st)"
proof -
  have "touches CG (\<lambda>G. set (funcKillMap st1 G)) D F R" if "R \<in> set (not_killed st F (sel st C))" for R
    using that assms unfolding within_def not_killed_def by (intro touches.call [OF assms(3)]) auto
  moreover have "funcKillMap (inherit F C st) = funcKillMap st" "funcLocalMap (inherit F C st) = funcLocalMap st"
    by (simp_all add: inherit_def)
  ultimately show ?thesis
    using assms unfolding within_def sel_inherit by (auto simp: set_fold_set_add sorted_fold_add)
qed

lemma within_callees:
  assumes "F \<in> Q" "set Ms \<subseteq> set (callees CG (FnNode F))"
  shows "within CG D Q st1 st \<Longrightarrow> within CG D Q st1 (fold (update_callee F) Ms st)"
  using assms(2)
proof (induction Ms arbitrary: st)
  case (Cons M Ms)
  have "within CG D Q st1 (update_callee F M st)"
    using within_inherit [OF Cons.prems(1) assms(1)] Cons.prems by (cases M) (auto simp: update_callee_def)
  then show ?case using Cons by simp
qed simp

lemma within_node: "members [N] \<subseteq> Q \<Longrightarrow> within CG D Q st1 st \<Longrightarrow> within CG D Q st1 (fst (update_node CG N (st, ch)))"
  using within_callees [of _ Q "callees CG N" CG D st1 st] by (cases N) (auto simp: update_node_def Let_def members_def)

lemma within_round:
  assumes "members Ns \<subseteq> Q"
  shows "within CG D Q st1 st \<Longrightarrow> within CG D Q st1 (fst (fold (update_node CG) Ns (st, ch)))"
  using assms
proof (induction Ns arbitrary: st ch)
  case (Cons N Ns)
  obtain st' ch' where s: "update_node CG N (st, ch) = (st', ch')" by fastforce
  have "within CG D Q st1 st'" using within_node [of N Q CG D st1 st ch] Cons.prems s by (auto simp: members_def)
  with Cons.IH [of st' ch'] Cons.prems(2) s show ?case by (auto simp: members_def)
qed simp

lemma within_length:
  assumes "within CG D Q st1 st" "Q \<subseteq> P" "call_closed CG P" "finite (\<Union>G\<in>P. D G)" "F \<in> Q"
  shows "length (sel st F) \<le> card (\<Union>G\<in>P. D G)"
proof -
  have "set (sel st F) \<subseteq> (\<Union>G\<in>P. D G)" using assms touches_bounded [of CG _ D F _ P] unfolding within_def by blast
  moreover have "distinct (sel st F)" using assms(1) unfolding within_def by (simp add: strict_sorted_iff)
  ultimately show ?thesis using card_mono [OF assms(4)] distinct_card by metis
qed

text \<open>A stable state within the bounds is exact.\<close>

lemma stable_exact:
  assumes "within CG D (members Ns) st1 st" "stable CG Ns st" "F \<in> members Ns"
    and own: "\<And>G. G \<in> members Ns \<Longrightarrow> D G - set (funcKillMap st1 G) \<subseteq> set (sel st1 G)"
    and past: "\<And>G. G \<in> P \<Longrightarrow> {R. touches CG (\<lambda>G. set (funcKillMap st1 G)) D G R} \<subseteq> set (sel st G)"
    and closed: "call_closed CG (P \<union> members Ns)"
  shows "set (sel st F) = {R. touches CG (\<lambda>G. set (funcKillMap st1 G)) D F R}"
proof -
  have "R \<in> set (sel st F)" if "touches CG (\<lambda>G. set (funcKillMap st1 G)) D F R" "F \<in> P \<union> members Ns" for F R
    using that
  proof (induction rule: touches.induct)
    case (own R F)
    then have "touches CG (\<lambda>G. set (funcKillMap st1 G)) D F R" by (intro touches.own)
    with own assms(1) assms(4) [of F] past show ?case unfolding within_def by blast
  next
    case (call C F R)
    have T: "touches CG (\<lambda>G. set (funcKillMap st1 G)) D F R" using call by (auto intro: touches.call)
    show ?case
    proof (cases "F \<in> P")
      case False
      then have F: "F \<in> members Ns" using call.prems by blast
      have "C \<in> P \<union> members Ns" using closed call unfolding call_closed_def by blast
      then have R: "R \<in> set (sel st C)" using call.IH by blast
      have "update_callee F (FnNode C) st = st" using assms(2) F call.hyps(1) by (auto simp: stable_def members_def)
      then have "C = F \<or> inherit F C st = st" by (auto simp: update_callee_def split: if_splits)
      then have "C = F \<or> set (not_killed st F (sel st C)) \<subseteq> set (sel st F)"
        using sel_inherit [of F C st] by (metis fun_upd_same set_fold_set_add Un_upper1)
      moreover have "R \<in> set (not_killed st F (sel st C))" using R call.hyps assms(1) by (auto simp: not_killed_def within_def)
      ultimately show ?thesis using R by blast
    qed (use T past in blast)
  qed
  moreover have "set (sel st F) \<subseteq> {R. touches CG (\<lambda>G. set (funcKillMap st1 G)) D F R}"
    using assms(1,3) unfolding within_def by blast
  ultimately show ?thesis using assms(3) by blast
qed

definition computed :: "ptacg \<Rightarrow> (nat \<Rightarrow> nat set) \<Rightarrow> nat set \<Rightarrow> modref \<Rightarrow> bool" where
  "computed CG D P st \<longleftrightarrow> (\<forall>F\<in>P. set (sel st F) = {R. touches CG (\<lambda>G. set (funcKillMap st G)) D F R}) \<and>
     (\<forall>F. F \<notin> P \<longrightarrow> set (sel st F) = D F) \<and> (\<forall>F. sorted_wrt (<) (sel st F))"

text \<open>A component whose callees are in it or computed, after its kill phase \<open>st1\<close>.\<close>

lemma kill_phase:
  assumes C: "computed CG D P st" "distinct Ns" "members Ns \<inter> P = {}" "call_closed CG P" "call_closed CG (P \<union> members Ns)"
    and st1: "st1 = fold (kill_node CG Ns) Ns st"
  shows "within CG D (members Ns) st1 st1"
    and "F \<in> members Ns \<Longrightarrow> D F - set (funcKillMap st1 F) \<subseteq> set (sel st1 F)"
    and "F \<in> P \<Longrightarrow> set (sel st1 F) = {R. touches CG (\<lambda>G. set (funcKillMap st1 G)) D F R}"
    and "F \<notin> members Ns \<Longrightarrow> sel st1 F = sel st F"
proof -
  have sel1: "sel st1 G = (if G \<in> members Ns then not_killed st1 G (sel st G) else sel st G)" for G
    using sel_kill_nodes [OF C(2) order_refl, of CG st] by (simp add: st1 members_def)
  show own: "D F - set (funcKillMap st1 F) \<subseteq> set (sel st1 F)" if "F \<in> members Ns" for F
    using that C(1,3) unfolding computed_def sel1 by (auto simp: not_killed_def)
  show other: "sel st1 F = sel st F" if "F \<notin> members Ns" for F using that sel1 by simp
  have K: "set (funcKillMap st1 G) = set (funcKillMap st G)" if "G \<in> P" for G
    using kill_nodes_sets [OF order_refl, of CG Ns st] that C(3) by (auto simp: st1 members_def)
  have off: "F \<notin> members Ns" if "F \<in> P" for F using that C(3) by blast
  have "touches CG (\<lambda>G. set (funcKillMap st1 G)) D F R \<longleftrightarrow> touches CG (\<lambda>G. set (funcKillMap st G)) D F R" if "F \<in> P" for F R
    by (rule iffI; erule touches_local [OF _ that C(4)]) (simp_all add: K)
  then show past: "set (sel st1 F) = {R. touches CG (\<lambda>G. set (funcKillMap st1 G)) D F R}" if "F \<in> P" for F
    using that C(1) other [OF off [OF that]] unfolding computed_def by auto
  have "set (sel st1 F) \<subseteq> {R. touches CG (\<lambda>G. set (funcKillMap st1 G)) D F R}" if "F \<in> members Ns" for F
  proof -
    have "F \<notin> P" using that C(3) by blast
    then have "set (sel st F) = D F" using C(1) unfolding computed_def by blast
    then show ?thesis using that unfolding sel1 by (auto simp: not_killed_def intro: touches.own)
  qed
  moreover have "C \<in> P \<union> members Ns" if "G \<in> members Ns" "FnNode C \<in> set (callees CG (FnNode G))" for C G
    using that C(5) unfolding call_closed_def by blast
  moreover have "sorted_wrt (<) (sel st1 F)" for F
    using C(1) unfolding computed_def sel1 by (simp add: not_killed_def sorted_wrt_filter)
  ultimately show "within CG D (members Ns) st1 st1" using past unfolding within_def by blast
qed

lemma update_phase:
  assumes C: "computed CG D P st" "distinct Ns" "members Ns \<inter> P = {}" "call_closed CG P" "call_closed CG (P \<union> members Ns)"
    and st1: "st1 = fold (kill_node CG Ns) Ns st" and "within CG D (members Ns) st1 st'" "stable CG Ns st'"
  shows "computed CG D (P \<union> members Ns) st'"
proof -
  note phase = kill_phase [OF C st1]
  have K: "funcKillMap st' = funcKillMap st1" using assms(7) unfolding within_def by blast
  have same: "sel st' F = sel st1 F" if "F \<notin> members Ns" for F using that assms(7) unfolding within_def by blast
  have past: "set (sel st' F) = {R. touches CG (\<lambda>G. set (funcKillMap st1 G)) D F R}" if "F \<in> P" for F
  proof -
    have "F \<notin> members Ns" using that C(3) by blast
    then show ?thesis using phase(3) [OF that] same by simp
  qed
  have "set (sel st' F) = {R. touches CG (\<lambda>G. set (funcKillMap st1 G)) D F R}" if "F \<in> members Ns" for F
    by (rule stable_exact [OF assms(7,8) that phase(2) _ C(5)]) (use past in auto)
  moreover have "set (sel st' F) = D F" if "F \<notin> P \<union> members Ns" for F
    using that same [of F] phase(4) [of F] C(1) unfolding computed_def by auto
  ultimately show ?thesis using past assms(7) unfolding computed_def K within_def by blast
qed

end

interpretation mods: effect_map funcModMap
  by unfold_locales (auto simp: kill_callee_def remove_killed_def inherit_def not_killed_def split: option.splits)

interpretation refs: effect_map funcRefMap
  by unfold_locales (auto simp: kill_callee_def remove_killed_def inherit_def not_killed_def split: option.splits)

section \<open>All components\<close>

text \<open>The order LLVM's iterator documents: each node once, and the functions a component calls are in
  it or in an earlier one.\<close>

fun bottom_up :: "ptacg \<Rightarrow> cg_node list \<Rightarrow> cg_node list list \<Rightarrow> bool" where
  "bottom_up CG P [] = True"
| "bottom_up CG P (Ns # Nss) = (distinct Ns \<and> list_all (\<lambda>N. N \<notin> set P) Ns \<and>
     list_all (\<lambda>N. list_all (\<lambda>M. function_of M = None \<or> M \<in> set P \<or> M \<in> set Ns) (callees CG N)) Ns \<and>
     bottom_up CG (Ns @ P) Nss)"

definition analysed :: "ptacg \<Rightarrow> modref \<Rightarrow> nat set \<Rightarrow> modref \<Rightarrow> bool" where
  "analysed CG st0 P st \<longleftrightarrow> mods.computed CG (\<lambda>F. set (funcModMap st0 F)) P st \<and> refs.computed CG (\<lambda>F. set (funcRefMap st0 F)) P st \<and>
     (\<forall>F. F \<notin> P \<longrightarrow> funcKillMap st F = []) \<and> funcLocalMap st = funcLocalMap st0 \<and> call_closed CG P"

definition room :: "modref \<Rightarrow> nat set \<Rightarrow> nat" where
  "room st0 P = card (\<Union>F\<in>P. set (funcModMap st0 F)) + card (\<Union>F\<in>P. set (funcRefMap st0 F))"

lemma room_mono: "P \<subseteq> Q \<Longrightarrow> finite Q \<Longrightarrow> room st0 P \<le> room st0 Q"
  unfolding room_def by (intro add_mono card_mono) auto

lemma scc_analysed:
  assumes A: "analysed CG st0 P st" "distinct Ns" "members Ns \<inter> P = {}" "call_closed CG (P \<union> members Ns)" "finite P"
    and fuel: "card (members Ns) * room st0 (P \<union> members Ns) < fuel"
  shows "\<exists>st'. analyze_scc CG fuel Ns st = Inr st' \<and> analysed CG st0 (P \<union> members Ns) st' \<and>
    (\<forall>F\<in>members Ns. set (funcKillMap st' F) = kills CG Ns st' F) \<and> (\<forall>F. F \<notin> members Ns \<longrightarrow> set (funcKillMap st' F) = set (funcKillMap st F))"
proof -
  let ?Q = "members Ns" and ?M = "\<lambda>F. set (funcModMap st0 F)" and ?R = "\<lambda>F. set (funcRefMap st0 F)"
  define st1 where "st1 = fold (kill_node CG Ns) Ns st"
  have M: "mods.computed CG ?M P st" and R: "refs.computed CG ?R P st" and P: "call_closed CG P" using A(1) by (auto simp: analysed_def)
  define J where "J s \<longleftrightarrow> mods.within CG ?M ?Q st1 s \<and> refs.within CG ?R ?Q st1 s" for s
  have "J st1" unfolding J_def using mods.kill_phase(1) [OF M A(2,3) P A(4) st1_def] refs.kill_phase(1) [OF R A(2,3) P A(4) st1_def] ..
  moreover have "J s'" if "J s" "fold (update_node CG) Ns (s, False) = (s', ch)" for s s' ch
    using that mods.within_round [OF order_refl, of CG ?M Ns st1 s False] refs.within_round [OF order_refl, of CG ?R Ns st1 s False] by (simp add: J_def)
  moreover have "total ?Q s \<le> card ?Q * room st0 (P \<union> ?Q)" if "J s" for s
  proof -
    have "volume F s \<le> room st0 (P \<union> ?Q)" if "F \<in> ?Q" for F
      unfolding volume_def room_def using \<open>J s\<close> A(4,5) that
      by (intro add_mono mods.within_length [of CG _ ?Q st1] refs.within_length [of CG _ ?Q st1]) (auto simp: J_def)
    then show ?thesis unfolding total_def using sum_bounded_above [of ?Q "\<lambda>F. volume F s"] by simp
  qed
  ultimately obtain st' where st': "update_loop CG Ns fuel st1 = Inr st'" "J st'" "stable CG Ns st'"
    using update_loop_ends [of J CG Ns "card ?Q * room st0 (P \<union> ?Q)" st1 fuel] fuel by fastforce
  have K: "funcKillMap st' = funcKillMap st1" "funcLocalMap st' = funcLocalMap st1" using st'(2) by (auto simp: J_def mods.within_def)
  have K1: "funcLocalMap st1 = funcLocalMap st" "\<And>G. set (funcKillMap st1 G) = set (funcKillMap st G) \<union> (if G \<in> ?Q then kills CG Ns st G else {})"
    using kill_nodes_sets [OF order_refl, of CG Ns st] by (auto simp: st1_def members_def)
  have "kills CG Ns st' F = kills CG Ns st F" for F using K K1 by (intro kills_cong) (auto simp: members_def)
  moreover have "funcKillMap st F = []" if "F \<in> ?Q" for F using that A(1,3) by (auto simp: analysed_def)
  ultimately have "\<forall>F\<in>?Q. set (funcKillMap st' F) = kills CG Ns st' F" using K K1(2) by auto
  moreover have "mods.computed CG ?M (P \<union> ?Q) st'" "refs.computed CG ?R (P \<union> ?Q) st'"
    using mods.update_phase [OF M A(2,3) P A(4) st1_def _ st'(3)] refs.update_phase [OF R A(2,3) P A(4) st1_def _ st'(3)] st'(2) by (auto simp: J_def)
  moreover have "funcKillMap st' F = []" if "F \<notin> P \<union> ?Q" for F
    using that K K1(2) [of F] A(1) by (auto simp: analysed_def)
  ultimately have "analysed CG st0 (P \<union> ?Q) st'" using K K1(1) A(1,4) unfolding analysed_def by auto
  with st'(1) \<open>\<forall>F\<in>?Q. set (funcKillMap st' F) = kills CG Ns st' F\<close> K K1(2) show ?thesis
    by (auto simp: analyze_scc_def st1_def)
qed

lemma members_append: "members (Ns @ P) = members P \<union> members Ns"
  by (auto simp: members_def)

lemma sccs_analysed:
  assumes "analysed CG st0 (members P) st" "bottom_up CG P Nss" "finite A" "members (concat Nss @ P) \<subseteq> A" "card A * room st0 A < fuel"
  shows "\<exists>st'. foldE (analyze_scc CG fuel) Nss st = Inr st' \<and> analysed CG st0 (members (concat Nss @ P)) st' \<and>
    (\<forall>Ns\<in>set Nss. \<forall>F\<in>members Ns. set (funcKillMap st' F) = kills CG Ns st' F) \<and> (\<forall>F\<in>members P. set (funcKillMap st' F) = set (funcKillMap st F))"
  using assms(1,2,4)
proof (induction Nss arbitrary: P st)
  case (Cons Ns Nss)
  have B: "distinct Ns" "members Ns \<inter> members P = {}" "bottom_up CG (Ns @ P) Nss"
    and calls: "\<And>F C. F \<in> members Ns \<Longrightarrow> FnNode C \<in> set (callees CG (FnNode F)) \<Longrightarrow> C \<in> members P \<union> members Ns"
    using Cons.prems(2) by (auto simp: members_def list_all_iff) (metis function_of.simps(1) option.distinct(1))
  have closed: "call_closed CG (members P \<union> members Ns)"
    using Cons.prems(1) calls unfolding analysed_def call_closed_def by blast
  have sub: "members P \<union> members Ns \<subseteq> A" "members (concat Nss @ Ns @ P) \<subseteq> A" using Cons.prems(3) by (auto simp: members_def)
  have "card (members Ns) * room st0 (members P \<union> members Ns) \<le> card A * room st0 A"
    using sub(1) assms(3) by (intro mult_mono card_mono room_mono) auto
  then have "card (members Ns) * room st0 (members P \<union> members Ns) < fuel" using assms(5) by linarith
  then obtain st1 where st1: "analyze_scc CG fuel Ns st = Inr st1" "analysed CG st0 (members (Ns @ P)) st1"
      "\<forall>F\<in>members Ns. set (funcKillMap st1 F) = kills CG Ns st1 F" "\<forall>F. F \<notin> members Ns \<longrightarrow> set (funcKillMap st1 F) = set (funcKillMap st F)"
    using scc_analysed [OF Cons.prems(1) B(1,2) closed finite_members] unfolding members_append by blast
  obtain st' where st': "foldE (analyze_scc CG fuel) Nss st1 = Inr st'" "analysed CG st0 (members (concat Nss @ Ns @ P)) st'"
      "\<forall>Ns\<in>set Nss. \<forall>F\<in>members Ns. set (funcKillMap st' F) = kills CG Ns st' F"
      "\<forall>F\<in>members (Ns @ P). set (funcKillMap st' F) = set (funcKillMap st1 F)"
    using Cons.IH [OF st1(2) B(3) sub(2)] by auto
  have same: "kills CG Ns st' F = kills CG Ns st1 F" if "F \<in> members Ns" for F
  proof -
    have "set (funcKillMap st' C) = set (funcKillMap st1 C)" if "FnNode C \<in> set (callees CG (FnNode F))" for C
      using st'(4) calls [OF \<open>F \<in> members Ns\<close> that] by (auto simp: members_append)
    moreover have "funcLocalMap st' = funcLocalMap st1" using st1(2) st'(2) by (simp add: analysed_def)
    ultimately show ?thesis by (auto simp: kills_def)
  qed
  have "set (funcKillMap st' F) = kills CG Ns st' F" if "F \<in> members Ns" for F
    using that st1(3) st'(4) same [OF that] by (auto simp: members_append)
  moreover have "set (funcKillMap st' F) = set (funcKillMap st F)" if "F \<in> members P" for F
    using that st1(4) st'(4) B(2) by (auto simp: members_append)
  moreover have "members (concat (Ns # Nss) @ P) = members (concat Nss @ Ns @ P)" by (auto simp: members_def)
  ultimately show ?case using st1(1) st'(1,2,3) by simp
qed simp

section \<open>The visits\<close>

definition visited_ok :: "modref \<Rightarrow> bool" where
  "visited_ok st \<longleftrightarrow> (\<forall>F. sorted_wrt (<) (funcModMap st F) \<and> sorted_wrt (<) (funcRefMap st F) \<and> funcKillMap st F = [])"

lemma add_ok: "visited_ok st \<Longrightarrow> visited_ok (add_ref F Regs st)" "visited_ok st \<Longrightarrow> visited_ok (add_mod F Regs st)"
  by (auto simp: visited_ok_def add_ref_def add_mod_def sorted_fold_add)

lemma mod_arg_ok: "mod_arg F I Regs C st = Inr st' \<Longrightarrow> visited_ok st \<Longrightarrow> visited_ok st'"
  by (auto simp: mod_arg_def add_ok split: option.splits if_splits)

lemma visit_arg_ok: "visit_arg E F Cs a st = Inr st' \<Longrightarrow> visited_ok st \<Longrightarrow> visited_ok st'"
  by (auto simp: visit_arg_def bindE_eq_Inr split: marg.splits intro: add_ok mod_arg_ok elim: foldE_inv)

lemma visit_ret_ok: "visit_ret E F I C st = Inr st' \<Longrightarrow> visited_ok st \<Longrightarrow> visited_ok st'"
  by (auto simp: visit_ret_def bindE_eq_Inr Let_def add_ok split: if_splits)

lemma visitCallBase_ok:
  assumes "visitCallBase E F I Callee args st = Inr st'" "visited_ok st"
  shows "visited_ok st'"
proof -
  define st1 where "st1 = (case Callee of None \<Rightarrow> st | Some f \<Rightarrow> (case me_fn E f of None \<Rightarrow> st
     | Some C \<Rightarrow> if is_omp_barrier E C then add_mod F (getOmpSharedRegions (me_regions E) F) st else st))"
  let ?Cs = "filter external (may_callees E I Callee)"
  have 1: "visited_ok st1" using assms(2) by (auto simp: st1_def add_ok split: option.splits)
  consider "st' = st1" | st2 where "foldE (visit_arg E F ?Cs) (zip [0..<length args] args) st1 = Inr st2" "foldE (visit_ret E F I) ?Cs st2 = Inr st'"
    using assms(1) by (auto simp: visitCallBase_def Let_def st1_def [symmetric] bindE_eq_Inr split: if_splits)
  then show ?thesis
  proof cases
    case 2
    have "visited_ok st2" using foldE_inv [OF 2(1), of visited_ok] 1 visit_arg_ok by blast
    then show ?thesis using foldE_inv [OF 2(2), of visited_ok] visit_ret_ok by blast
  qed (use 1 in simp)
qed

lemma visit_mr_ok: "visit_mr E F I st = Inr st' \<Longrightarrow> visited_ok st \<Longrightarrow> visited_ok st'"
  using visitCallBase_ok
  by (auto simp: visitAllocaInst_def visitLoadInst_mr_def visitStoreInst_mr_def bindE_eq_Inr visited_ok_def add_ok [unfolded visited_ok_def]
      split: mop.splits option.splits)

lemma visit_fn_ok: "visit_fn E F st = Inr st' \<Longrightarrow> visited_ok st \<Longrightarrow> visited_ok st'"
  unfolding visit_fn_def by (auto split: if_splits intro: visit_mr_ok elim: foldE_inv)

lemma visited_start: "visited_ok (no_modref\<lparr>globalKillSet := K\<rparr>)"
  by (simp add: visited_ok_def no_modref_def)

lemma enough_fuel_mono:
  assumes "\<exists>k. \<forall>fuel\<ge>k. \<exists>st. P fuel st" "\<And>fuel st. P fuel st \<Longrightarrow> Q fuel st"
  shows "\<exists>k::nat. \<forall>fuel\<ge>k. \<exists>st. Q fuel st"
  using assms by meson

text \<open>The whole analysis: it ends, and its result describes every component.\<close>

lemma analysis_ends:
  assumes "foldE (visit_fn E) (me_fns E) (no_modref\<lparr>globalKillSet := compute_kill_set E sites\<rparr>) = Inr st0"
    and "bottom_up CG [] sccs"
  shows "\<exists>k. \<forall>fuel\<ge>k. \<exists>st. analyze_mr fuel E CG sccs sites = Inr st \<and> foldE (analyze_scc CG fuel) sccs st0 = Inr st \<and>
     analysed CG st0 (members (concat sccs)) st \<and> (\<forall>Ns\<in>set sccs. \<forall>F\<in>members Ns. set (funcKillMap st F) = kills CG Ns st F)"
proof (rule exI, intro allI impI)
  fix fuel
  let ?A = "members (concat sccs)"
  assume "Suc (card ?A * room st0 ?A) \<le> fuel"
  then have fuel: "card ?A * room st0 ?A < fuel" by simp
  have "visited_ok st0" using foldE_inv [OF assms(1), of visited_ok] visited_start visit_fn_ok by blast
  then have "analysed CG st0 (members []) st0"
    by (simp add: analysed_def mods.computed_def refs.computed_def visited_ok_def members_def call_closed_def)
  from sccs_analysed [OF this assms(2) finite_members _ fuel] assms(1)
  show "\<exists>st. analyze_mr fuel E CG sccs sites = Inr st \<and> foldE (analyze_scc CG fuel) sccs st0 = Inr st \<and>
     analysed CG st0 (members (concat sccs)) st \<and> (\<forall>Ns\<in>set sccs. \<forall>F\<in>members Ns. set (funcKillMap st F) = kills CG Ns st F)"
    by (auto simp: analyze_mr_def)
qed

section \<open>Property\<close>

text \<open>C11: when the instructions of a module have been visited without an error and the components of the
  call graph come callees first, the analysis ends. The mod set of a function then has exactly the regions
  that the function, or a function it reaches by calls, writes, when no function on the way kills them; the
  ref set likewise for reads; and a function kills what is local to, or killed by, the functions
  outside of its component that it calls.\<close>

theorem mod_ref_exact:
  assumes "foldE (visit_fn E) (me_fns E) (no_modref\<lparr>globalKillSet := compute_kill_set E sites\<rparr>) = Inr st0"
    and "bottom_up CG [] sccs"
  shows "\<exists>k. \<forall>fuel\<ge>k. \<exists>st. analyze_mr fuel E CG sccs sites = Inr st \<and> (\<forall>Ns\<in>set sccs. \<forall>F\<in>members Ns.
     set (getFuncMod st F) = {R. touches CG (\<lambda>G. set (getFuncKill st G)) (\<lambda>G. set (funcModMap st0 G)) F R} \<and>
     set (getFuncRef st F) = {R. touches CG (\<lambda>G. set (getFuncKill st G)) (\<lambda>G. set (funcRefMap st0 G)) F R} \<and>
     set (getFuncKill st F) = {R. \<exists>C. FnNode C \<in> set (callees CG (FnNode F)) \<and> FnNode C \<notin> set Ns \<and>
       R \<in> set (funcLocalMap st0 C) \<union> set (getFuncKill st C)})"
proof -
  have "set (getFuncMod st F) = {R. touches CG (\<lambda>G. set (getFuncKill st G)) (\<lambda>G. set (funcModMap st0 G)) F R} \<and>
     set (getFuncRef st F) = {R. touches CG (\<lambda>G. set (getFuncKill st G)) (\<lambda>G. set (funcRefMap st0 G)) F R} \<and>
     set (getFuncKill st F) = {R. \<exists>C. FnNode C \<in> set (callees CG (FnNode F)) \<and> FnNode C \<notin> set Ns \<and>
       R \<in> set (funcLocalMap st0 C) \<union> set (getFuncKill st C)}"
    if "analysed CG st0 (members (concat sccs)) st" "set (funcKillMap st F) = kills CG Ns st F" "Ns \<in> set sccs" "F \<in> members Ns" for st Ns F
  proof -
    have "F \<in> members (concat sccs)" using that(3,4) by (auto simp: members_def)
    moreover have "kills CG Ns st F = {R. \<exists>C. FnNode C \<in> set (callees CG (FnNode F)) \<and> FnNode C \<notin> set Ns \<and>
       R \<in> set (funcLocalMap st0 C) \<union> set (getFuncKill st C)}"
      using that(1,4) by (auto simp: getFuncKill_def analysed_def kills_def members_def)
    ultimately show ?thesis
      using that(1,2) by (simp add: analysed_def mods.computed_def refs.computed_def getFuncMod_def getFuncRef_def getFuncKill_def)
  qed
  then show ?thesis by (intro enough_fuel_mono [OF analysis_ends [OF assms]]) blast
qed

theorem mod_ref_exact_witness:
  "\<exists>(st0 :: modref) k. \<forall>fuel\<ge>k. \<exists>st. analyze_mr fuel demo_env demo_cg [[FnNode 2], [FnNode 1]] demo_sites = Inr st \<and>
     set (getFuncMod st 1) = {R. touches demo_cg (\<lambda>G. set (getFuncKill st G)) (\<lambda>G. set (funcModMap st0 G)) 1 R}"
proof -
  obtain st0 where v: "foldE (visit_fn demo_env) (me_fns demo_env) (no_modref\<lparr>globalKillSet := compute_kill_set demo_env demo_sites\<rparr>) = Inr st0"
    by (simp add: memory_defs modref_defs)
  have b: "bottom_up demo_cg [] [[FnNode 2], [FnNode 1]]" by (simp add: demo_cg_def callees_def)
  have "\<exists>k. \<forall>fuel\<ge>k. \<exists>st. analyze_mr fuel demo_env demo_cg [[FnNode 2], [FnNode 1]] demo_sites = Inr st \<and>
     set (getFuncMod st 1) = {R. touches demo_cg (\<lambda>G. set (getFuncKill st G)) (\<lambda>G. set (funcModMap st0 G)) 1 R}"
    by (rule enough_fuel_mono [OF mod_ref_exact [OF v b]]) (simp add: members_def)
  then show ?thesis by (rule exI)
qed

end
