(* ===== verification/Memory_Used.thy ===== *)
theory Memory_Used
  imports Memory_Reach Mod_Ref_Exact
begin

text \<open>
  Mod/ref analysis and memory SSA agree: what a function may read or write
  according to the first has an entry chi in the second. The dependence graph
  relies on it when it looks up the region of a call in the entry chis of the
  callee, and it fails for functions that return a pointer and have no row, or no
  modified result, in the table of external functions.
\<close>

section \<open>Regions of an instruction\<close>

definition alive_in :: "menv \<Rightarrow> nat list \<Rightarrow> nat \<Rightarrow> nat set" where
  "alive_in E K V = (case me_pts E V of None \<Rightarrow> {} | Some P \<Rightarrow> set (getValuesRegion (me_regions E) P) - set K)"

definition arg_values :: "marg list \<Rightarrow> nat set" where
  "arg_values args = {V. PtrArg V \<in> set args}"

definition call_regs :: "menv \<Rightarrow> nat list \<Rightarrow> nat \<Rightarrow> nat \<Rightarrow> nat option \<Rightarrow> marg list \<Rightarrow> nat set" where
  "call_regs E K F I Callee args =
     (if \<exists>f C. Callee = Some f \<and> me_fn E f = Some C \<and> is_omp_barrier E C then set (getOmpSharedRegions (me_regions E) F) - set K else {}) \<union>
     (if filter external (may_callees E I Callee) = [] then {} else (\<Union>V\<in>arg_values args. alive_in E K V)) \<union>
     (if \<exists>C\<in>set (may_callees E I Callee). external C \<and> mf_ret_ptr C then alive_in E K I else {})"

definition inst_regs :: "menv \<Rightarrow> nat list \<Rightarrow> nat \<Rightarrow> minst \<Rightarrow> nat set" where
  "inst_regs E K F I = (case mi_op I of
     MLoad V \<Rightarrow> alive_in E K V | MStore V \<Rightarrow> alive_in E K V
   | MCall Callee args ptr \<Rightarrow> call_regs E K F (mi_id I) Callee args | _ \<Rightarrow> {})"

section \<open>What the visits add\<close>

definition touched :: "modref \<Rightarrow> nat \<Rightarrow> nat set" where
  "touched st G = set (funcModMap st G) \<union> set (funcRefMap st G)"

definition adds_to :: "nat \<Rightarrow> nat set \<Rightarrow> modref \<Rightarrow> modref \<Rightarrow> bool" where
  "adds_to F A st st' \<longleftrightarrow> globalKillSet st' = globalKillSet st \<and> (\<forall>G. touched st' G \<subseteq> touched st G \<union> (if G = F then A else {}))"

lemma adds_to_refl [simp]: "adds_to F A st st"
  by (simp add: adds_to_def)

lemma adds_to_trans: "adds_to F A st st' \<Longrightarrow> adds_to F A st' st'' \<Longrightarrow> adds_to F A st st''"
  unfolding adds_to_def by (simp split: if_splits) blast

lemma adds_to_kill: "adds_to F A st st' \<Longrightarrow> globalKillSet st' = globalKillSet st"
  by (simp add: adds_to_def)

lemma adds_to_mono: "adds_to F A st st' \<Longrightarrow> A \<subseteq> B \<Longrightarrow> adds_to F B st st'"
  unfolding adds_to_def by (auto split: if_splits)

lemma adds_to_add:
  "set Regs - set (globalKillSet st) \<subseteq> A \<Longrightarrow> adds_to F A st (add_ref F Regs st)"
  "set Regs - set (globalKillSet st) \<subseteq> A \<Longrightarrow> adds_to F A st (add_mod F Regs st)"
  by (auto simp: adds_to_def touched_def add_ref_def add_mod_def alive_def)

lemma regions_of_alive: "regions_of E V = Inr Regs \<Longrightarrow> set Regs - set K = alive_in E K V"
  by (auto simp: regions_of_def alive_in_def split: option.splits)

lemma adds_to_foldE:
  assumes "foldE f xs st = Inr st'" "\<And>x st st'. x \<in> set xs \<Longrightarrow> globalKillSet st = K \<Longrightarrow> f x st = Inr st' \<Longrightarrow> adds_to F A st st'" "globalKillSet st = K"
  shows "adds_to F A st st'"
proof -
  have "adds_to F A st st' \<and> globalKillSet st' = K"
  proof (rule foldE_inv [OF assms(1), of "\<lambda>s. adds_to F A st s \<and> globalKillSet s = K"])
    fix x s t assume "x \<in> set xs" "adds_to F A st s \<and> globalKillSet s = K" "f x s = Inr t"
    then have s: "adds_to F A st s" "globalKillSet s = K" "adds_to F A s t" using assms(2) by blast+
    show "adds_to F A st t \<and> globalKillSet t = K" using adds_to_trans [OF s(1,3)] adds_to_kill [OF s(3)] s(2) by simp
  qed (use assms(3) in simp)
  then show ?thesis ..
qed

lemma adds_mod_arg: "mod_arg F I Regs C st = Inr st' \<Longrightarrow> set Regs - set (globalKillSet st) \<subseteq> A \<Longrightarrow> adds_to F A st st'"
  by (auto simp: mod_arg_def adds_to_add split: option.splits if_splits)

lemma adds_visit_arg:
  assumes "visit_arg E F Cs a st = Inr st'" "globalKillSet st = K" "\<And>V. snd a = PtrArg V \<Longrightarrow> alive_in E K V \<subseteq> A"
  shows "adds_to F A st st'"
proof (cases "snd a")
  case (PtrArg V)
  then obtain Regs where R: "regions_of E V = Inr Regs" "foldE (mod_arg F (fst a) Regs) Cs (add_ref F Regs st) = Inr st'"
    using assms(1) by (auto simp: visit_arg_def bindE_eq_Inr)
  have sub: "set Regs - set K \<subseteq> A" using regions_of_alive [OF R(1)] assms(3) [OF PtrArg] by simp
  have "adds_to F A st (add_ref F Regs st)" using sub assms(2) by (intro adds_to_add) simp
  moreover have "adds_to F A (add_ref F Regs st) st'"
    by (rule adds_to_foldE [OF R(2), of K]) (use sub assms(2) adds_mod_arg in \<open>auto simp: add_ref_def\<close>)
  ultimately show ?thesis by (rule adds_to_trans)
qed (use assms(1) in \<open>simp_all add: visit_arg_def\<close>)

lemma adds_visit_ret:
  assumes "visit_ret E F I C st = Inr st'" "globalKillSet st = K" "mf_ret_ptr C \<Longrightarrow> alive_in E K I \<subseteq> A"
  shows "adds_to F A st st'"
proof (cases "mf_ret_ptr C")
  case True
  then obtain Regs where R: "regions_of E I = Inr Regs" "st' = (if ret_mod C then add_mod F Regs (add_ref F Regs st) else add_ref F Regs st)"
    using assms(1) by (auto simp: visit_ret_def bindE_eq_Inr Let_def)
  have sub: "set Regs - set K \<subseteq> A" using regions_of_alive [OF R(1)] assms(3) [OF True] by simp
  have 1: "adds_to F A st (add_ref F Regs st)" using sub assms(2) by (intro adds_to_add) simp
  moreover have "adds_to F A (add_ref F Regs st) (add_mod F Regs (add_ref F Regs st))" using sub assms(2) by (intro adds_to_add) (simp add: add_ref_def)
  ultimately show ?thesis using R(2) adds_to_trans [OF 1] by auto
qed (use assms(1) in \<open>simp add: visit_ret_def\<close>)

lemma adds_to_call:
  assumes "visitCallBase E F I Callee args st = Inr st'" "globalKillSet st = K"
  shows "adds_to F (call_regs E K F I Callee args) st st'"
proof -
  let ?A = "call_regs E K F I Callee args" and ?Cs = "filter external (may_callees E I Callee)"
  define st1 where "st1 = (case Callee of None \<Rightarrow> st | Some f \<Rightarrow> (case me_fn E f of None \<Rightarrow> st
     | Some C \<Rightarrow> if is_omp_barrier E C then add_mod F (getOmpSharedRegions (me_regions E) F) st else st))"
  have 1: "adds_to F ?A st st1"
    using assms(2) by (auto simp: st1_def call_regs_def split: option.splits intro: adds_to_add)
  then have K1: "globalKillSet st1 = K" using assms(2) by (simp add: adds_to_def)
  consider "st' = st1" | st2 where "?Cs \<noteq> []" "foldE (visit_arg E F ?Cs) (zip [0..<length args] args) st1 = Inr st2" "foldE (visit_ret E F I) ?Cs st2 = Inr st'"
    using assms(1) by (auto simp: visitCallBase_def Let_def st1_def [symmetric] bindE_eq_Inr split: if_splits)
  then show ?thesis
  proof cases
    case 2
    have "adds_to F ?A st1 st2"
    proof (rule adds_to_foldE [OF 2(2) _ K1])
      fix a s t assume a: "a \<in> set (zip [0..<length args] args)" "globalKillSet s = K" "visit_arg E F ?Cs a s = Inr t"
      show "adds_to F ?A s t"
      proof (rule adds_visit_arg [OF a(3,2)])
        fix V assume "snd a = PtrArg V"
        then have "V \<in> arg_values args" using a(1) by (cases a) (auto simp: arg_values_def dest: set_zip_rightD)
        then show "alive_in E K V \<subseteq> ?A" using 2(1) by (auto simp: call_regs_def)
      qed
    qed
    moreover from this have "globalKillSet st2 = K" using K1 by (simp add: adds_to_def)
    then have "adds_to F ?A st2 st'"
      by (rule adds_to_foldE [OF 2(3), rotated]) (rule adds_visit_ret, auto simp: call_regs_def)
    ultimately show ?thesis using 1 adds_to_trans by blast
  qed (use 1 in simp)
qed

lemma adds_to_inst:
  assumes "visit_mr E F I st = Inr st'" "globalKillSet st = K"
  shows "adds_to F (inst_regs E K F I) st st'"
proof (cases "mi_op I")
  case MAlloca
  then show ?thesis using assms by (auto simp: visitAllocaInst_def adds_to_def touched_def split: option.splits)
next
  case (MLoad V)
  then obtain Regs where "regions_of E V = Inr Regs" "st' = add_ref F Regs st" using assms(1) by (auto simp: visitLoadInst_mr_def bindE_eq_Inr)
  then show ?thesis using MLoad regions_of_alive [of E V Regs K] assms(2) by (auto simp: inst_regs_def intro: adds_to_add)
next
  case (MStore V)
  then obtain Regs where "regions_of E V = Inr Regs" "st' = add_mod F Regs st" using assms(1) by (auto simp: visitStoreInst_mr_def bindE_eq_Inr)
  then show ?thesis using MStore regions_of_alive [of E V Regs K] assms(2) by (auto simp: inst_regs_def intro: adds_to_add)
next
  case (MCall a b c)
  then show ?thesis using adds_to_call [of E F "mi_id I" a b st st' K] assms by (simp add: inst_regs_def)
qed (use assms in simp_all)

text \<open>The visits of a module whose functions have distinct numbers.\<close>

definition fn_regs :: "menv \<Rightarrow> nat list \<Rightarrow> nat \<Rightarrow> nat set" where
  "fn_regs E K f = (\<Union>F\<in>{F \<in> set (me_fns E). mf_id F = f}. \<Union>I\<in>set (insts_of F). inst_regs E K f I)"

lemma visits_add:
  assumes "foldE (visit_fn E) (me_fns E) st = Inr st'" "globalKillSet st = K" "\<And>G. touched st G = {}"
  shows "touched st' G \<subseteq> fn_regs E K G" "globalKillSet st' = K"
proof -
  have "(\<forall>G. touched st' G \<subseteq> fn_regs E K G) \<and> globalKillSet st' = K"
  proof (rule foldE_inv [OF assms(1), of "\<lambda>s. (\<forall>G. touched s G \<subseteq> fn_regs E K G) \<and> globalKillSet s = K"])
    fix F s t assume F: "F \<in> set (me_fns E)" and s: "(\<forall>G. touched s G \<subseteq> fn_regs E K G) \<and> globalKillSet s = K" and v: "visit_fn E F s = Inr t"
    have "adds_to (mf_id F) (fn_regs E K (mf_id F)) s t"
    proof (cases "me_reach E (mf_id F)")
      case True
      then have "foldE (visit_mr E (mf_id F)) (insts_of F) s = Inr t" using v by (simp add: visit_fn_def)
      then show ?thesis
      proof (rule adds_to_foldE)
        fix I s t assume "I \<in> set (insts_of F)" "globalKillSet s = K" "visit_mr E (mf_id F) I s = Inr t"
        then show "adds_to (mf_id F) (fn_regs E K (mf_id F)) s t"
          using F by (intro adds_to_mono [OF adds_to_inst]) (auto simp: fn_regs_def)
      qed (use s in simp)
    qed (use v in \<open>simp add: visit_fn_def\<close>)
    then have "touched t G \<subseteq> touched s G \<union> (if G = mf_id F then fn_regs E K (mf_id F) else {})" "globalKillSet t = globalKillSet s" for G
      by (auto simp: adds_to_def)
    moreover have "touched s G \<union> (if G = mf_id F then fn_regs E K (mf_id F) else {}) \<subseteq> fn_regs E K G" for G using s by auto
    ultimately show "(\<forall>G. touched t G \<subseteq> fn_regs E K G) \<and> globalKillSet t = K" using s by (metis order_trans)
  qed (use assms(2,3) in simp)
  then show "touched st' G \<subseteq> fn_regs E K G" "globalKillSet st' = K" by blast+
qed

section \<open>What memory SSA uses\<close>

lemma used_primitives:
  "set (usedRegs (load_mus I Rs st)) = set (usedRegs st) \<union> set Rs" "set (usedRegs (store_chis BB I Rs st)) = set (usedRegs st) \<union> set Rs"
  "set (usedRegs (sync_chis BB I Rs st)) = set (usedRegs st) \<union> set Rs" "set (usedRegs (ret_chis BB I C Rs st)) = set (usedRegs st) \<union> set Rs"
  "set (usedRegs (call_mus I C Rs st)) = set (usedRegs st) \<union> set Rs" "set (usedRegs (call_chis BB I C Rs st)) = set (usedRegs st) \<union> set Rs"
  unfolding load_mus_def store_chis_def sync_chis_def ret_chis_def call_mus_def call_chis_def
  by (induction Rs arbitrary: st) (auto simp: use_reg_def def_reg_def)

lemma records_used: "records I st st' \<Longrightarrow> set (usedRegs st) \<subseteq> set (usedRegs st')"
  by (simp add: records_def)

lemma foldE_used:
  assumes "foldE f xs s = Inr t" "x \<in> set xs" "\<And>x s t. f x s = Inr t \<Longrightarrow> set (usedRegs s) \<subseteq> set (usedRegs t)"
  shows "\<exists>s1 s2. f x s1 = Inr s2 \<and> set (usedRegs s2) \<subseteq> set (usedRegs t)"
  using assms(1,2)
proof (induction xs arbitrary: s)
  case (Cons y ys)
  then obtain s1 where s1: "f y s = Inr s1" "foldE f ys s1 = Inr t" by (auto simp: bindE_eq_Inr)
  have "set (usedRegs s1) \<subseteq> set (usedRegs t)"
    by (rule foldE_inv [OF s1(2), of "\<lambda>s. set (usedRegs s1) \<subseteq> set (usedRegs s)"]) (use assms(3) in blast)+
  with Cons.IH [OF s1(2)] Cons.prems(2) s1(1) show ?case by auto
qed simp

lemma alive_regions_in: "alive_regions E MRA V = Inr Regs \<Longrightarrow> set Regs = alive_in E (globalKillSet MRA) V"
  by (auto simp: alive_regions_def pts_regions_def alive_in_def bindE_eq_Inr inGlobalKillSet_def split: option.splits)

lemma used_ext_arg: "ext_arg E MRA BB I C (k, PtrArg V) st = Inr st' \<Longrightarrow> alive_in E (globalKillSet MRA) V \<subseteq> set (usedRegs st')"
proof -
  assume a: "ext_arg E MRA BB I C (k, PtrArg V) st = Inr st'"
  then obtain Regs where Regs: "alive_regions E MRA V = Inr Regs" by (auto simp: ext_arg_def bindE_eq_Inr)
  let ?st1 = "ext_mus I (mf_id C) k Regs st"
  have "records I ?st1 (ext_chis BB I (mf_id C) k Regs ?st1)" by (rule records_ext_chis) (simp add: used_ext_mus)
  then have "set (usedRegs ?st1) \<subseteq> set (usedRegs (ext_chis BB I (mf_id C) k Regs ?st1))" by (rule records_used)
  moreover have "st' = ?st1 \<or> st' = ext_chis BB I (mf_id C) k Regs ?st1"
  proof (cases "getExtModInfo (mf_name C)")
    case (Some Info)
    then show ?thesis using a Regs by (cases "arg_flag Info k") (auto simp: ext_arg_def Let_def split: if_splits)
  qed (use a Regs in \<open>simp add: ext_arg_def Let_def\<close>)
  ultimately show ?thesis using alive_regions_in [OF Regs] by (auto simp: used_ext_mus)
qed

lemma used_called:
  assumes "computeMuChiForCalledFunction E MRA F BB I invoke args ptr C st = Inr st'"
  shows "is_omp_barrier E C \<Longrightarrow> set (getOmpSharedRegions (me_regions E) F) \<subseteq> set (usedRegs st')"
    and "mf_decl C \<Longrightarrow> V \<in> arg_values args \<Longrightarrow> alive_in E (globalKillSet MRA) V \<subseteq> set (usedRegs st')"
    and "mf_decl C \<Longrightarrow> ret_mod C \<Longrightarrow> ptr \<Longrightarrow> alive_in E (globalKillSet MRA) I \<subseteq> set (usedRegs st')"
    and "\<not> mf_decl C \<Longrightarrow> (set (getFuncRef MRA (mf_id C)) \<union> set (getFuncMod MRA (mf_id C))) - set (getFuncKill MRA F) \<subseteq> set (usedRegs st')"
proof -
  define st1 where "st1 = (if is_omp_barrier E C then sync_chis BB I (getOmpSharedRegions (me_regions E) F) st else st)"
  let ?st1 = "st1\<lparr>extFuncToCS := (extFuncToCS st1)(mf_id C := set_add I (extFuncToCS st1 (mf_id C)))\<rparr>"
  have d: "\<exists>st2. foldE (ext_arg E MRA BB I C) (zip [0..<length args] args) ?st1 = Inr st2 \<and> ext_ret E MRA BB I ptr C st2 = Inr st'" if "mf_decl C"
    using assms that by (auto simp: computeMuChiForCalledFunction_def Let_def st1_def [symmetric] bindE_eq_Inr split: if_splits)
  have n: "st' = call_chis BB I (mf_id C) (filter (\<lambda>R. R \<notin> set (getFuncKill MRA F)) (getFuncMod MRA (mf_id C)))
        (call_mus I (mf_id C) (filter (\<lambda>R. R \<notin> set (getFuncKill MRA F)) (getFuncRef MRA (mf_id C))) st1)" if "\<not> mf_decl C"
    using assms that by (simp add: computeMuChiForCalledFunction_def Let_def st1_def)
  have ret: "set (usedRegs s) \<subseteq> set (usedRegs t)" if "ext_ret E MRA BB I ptr C s = Inr t" for s t
    using that by (auto simp: ext_ret_def bindE_eq_Inr used_primitives split: if_splits)
  have args: "set (usedRegs s) \<subseteq> set (usedRegs t)" if "ext_arg E MRA BB I C a s = Inr t" for a s t using records_used [OF records_ext_arg [OF that]] .
  have mono: "set (usedRegs st1) \<subseteq> set (usedRegs st')"
  proof (cases "mf_decl C")
    case True
    then obtain st2 where 2: "foldE (ext_arg E MRA BB I C) (zip [0..<length args] args) ?st1 = Inr st2" "ext_ret E MRA BB I ptr C st2 = Inr st'" using d by blast
    have "records I ?st1 st2" using 2(1) records_ext_arg by (rule records_foldE)
    then show ?thesis using records_used [of I ?st1 st2] ret [OF 2(2)] by simp
  qed (auto simp: n used_primitives)
  then show "set (getOmpSharedRegions (me_regions E) F) \<subseteq> set (usedRegs st')" if "is_omp_barrier E C" using that by (auto simp: st1_def used_primitives)
  show "alive_in E (globalKillSet MRA) V \<subseteq> set (usedRegs st')" if "mf_decl C" "V \<in> arg_values args"
  proof -
    note hyps = that
    obtain st2 where 2: "foldE (ext_arg E MRA BB I C) (zip [0..<length args] args) ?st1 = Inr st2" "ext_ret E MRA BB I ptr C st2 = Inr st'" using d [OF hyps(1)] by blast
    obtain k where "k < length args" "args ! k = PtrArg V" using hyps(2) by (auto simp: arg_values_def in_set_conv_nth)
    then have "(k, PtrArg V) \<in> set (zip [0..<length args] args)" by (auto simp: set_zip intro!: exI [of _ k])
    then obtain s1 s2 where "ext_arg E MRA BB I C (k, PtrArg V) s1 = Inr s2" "set (usedRegs s2) \<subseteq> set (usedRegs st2)"
      using foldE_used [OF 2(1)] args by blast
    then show ?thesis using used_ext_arg [of E MRA BB I C k V s1 s2] ret [OF 2(2)] by blast
  qed
  show "alive_in E (globalKillSet MRA) I \<subseteq> set (usedRegs st')" if "mf_decl C" "ret_mod C" ptr
    using d [OF that(1)] that(2,3) alive_regions_in [of E MRA I] by (auto simp: ext_ret_def bindE_eq_Inr used_primitives)
  show "(set (getFuncRef MRA (mf_id C)) \<union> set (getFuncMod MRA (mf_id C))) - set (getFuncKill MRA F) \<subseteq> set (usedRegs st')" if "\<not> mf_decl C"
    using n [OF that] by (auto simp: used_primitives)
qed

lemma omp_barrier_name: "is_omp_barrier E C \<Longrightarrow> mf_name C = ''__kmpc_barrier''"
  by (auto simp: is_omp_barrier_def Collective_find_def RegistryData_def OMPRegistry_def CUDARegistry_def UPCRegistry_def
      split: option.splits if_splits dest!: map_of_SomeD)

text \<open>The external functions a function calls for a pointer have a row that says so.\<close>

definition results_known :: "menv \<Rightarrow> mfn \<Rightarrow> bool" where
  "results_known E F \<longleftrightarrow> (\<forall>I\<in>set (insts_of F). \<forall>Callee args ptr. mi_op I = MCall Callee args ptr \<longrightarrow>
     (\<forall>C\<in>set (may_callees E (mi_id I) Callee). external C \<and> mf_ret_ptr C \<longrightarrow> ret_mod C \<and> ptr))"

lemma used_callee:
  assumes "mu_chi_inst E MRA F BB I st = Inr st'" "mi_op I = MCall Callee args ptr" "C \<in> set (may_callees E (mi_id I) Callee)" "\<not> mf_dbg C"
  shows "\<exists>s1 s2. computeMuChiForCalledFunction E MRA F BB (mi_id I) False args ptr C s1 = Inr s2 \<and> set (usedRegs s2) \<subseteq> set (usedRegs st')"
proof -
  have "foldE (mu_chi_callee E MRA F BB (mi_id I) False args ptr) (may_callees E (mi_id I) Callee) st = Inr st'"
    using assms(1,2) by (simp add: mu_chi_inst_def)
  moreover have "set (usedRegs s) \<subseteq> set (usedRegs t)" if "mu_chi_callee E MRA F BB (mi_id I) False args ptr D s = Inr t" for D s t
    using records_used [OF records_callee [OF that]] .
  ultimately obtain s1 s3 where
    s: "mu_chi_callee E MRA F BB (mi_id I) False args ptr C s1 = Inr s3" "set (usedRegs s3) \<subseteq> set (usedRegs st')"
    using foldE_used [OF _ assms(3), of "mu_chi_callee E MRA F BB (mi_id I) False args ptr" st st'] by blast
  then obtain s2 where "computeMuChiForCalledFunction E MRA F BB (mi_id I) False args ptr C s1 = Inr s2"
      "s3 = s2 \<or> s3 = createArtificalChiForCalledFunction (mi_id I) C s2"
    using assms(4) by (auto simp: mu_chi_callee_def bindE_eq_Inr)
  then show ?thesis using s(2) records_used [OF records_artificial] by blast
qed

lemma external_not_dbg: "external C \<Longrightarrow> \<not> mf_dbg C \<and> mf_decl C"
  by (simp add: external_def)

lemma used_inst:
  assumes "mu_chi_inst E MRA (mf_id F) BB I st = Inr st'" "I \<in> set (insts_of F)" "results_known E F"
  shows "inst_regs E (globalKillSet MRA) (mf_id F) I \<subseteq> set (usedRegs st')"
proof (cases "mi_op I")
  case (MLoad V)
  then show ?thesis using assms(1) alive_regions_in [of E MRA V] by (auto simp: mu_chi_inst_def bindE_eq_Inr inst_regs_def used_primitives)
next
  case (MStore V)
  then show ?thesis using assms(1) alive_regions_in [of E MRA V] by (auto simp: mu_chi_inst_def bindE_eq_Inr inst_regs_def used_primitives)
next
  case (MCall Callee args ptr)
  note callee = used_callee [OF assms(1) MCall]
  let ?K = "globalKillSet MRA" and ?Cs = "may_callees E (mi_id I) Callee"
  have "set (getOmpSharedRegions (me_regions E) (mf_id F)) \<subseteq> set (usedRegs st')" if "Callee = Some f" "me_fn E f = Some C" "is_omp_barrier E C" for f C
  proof -
    have "C \<in> set ?Cs" using that(1,2) by (simp add: may_callees_def map_filter_simps)
    moreover have "\<not> mf_dbg C" using omp_barrier_name [OF that(3)] by (simp add: mf_dbg_def isIntrinsicDbgFunction_def)
    ultimately show ?thesis using callee [of C] used_called(1) that(3) by blast
  qed
  moreover have "alive_in E ?K V \<subseteq> set (usedRegs st')" if "filter external ?Cs \<noteq> []" "V \<in> arg_values args" for V
  proof -
    have "\<exists>C\<in>set ?Cs. external C" using that(1) by (simp add: filter_empty_conv)
    then obtain C where "C \<in> set ?Cs" "external C" by blast
    then show ?thesis using callee [of C] used_called(2) that(2) external_not_dbg by blast
  qed
  moreover have "alive_in E ?K (mi_id I) \<subseteq> set (usedRegs st')" if "C \<in> set ?Cs" "external C" "mf_ret_ptr C" for C
  proof -
    have "ret_mod C" ptr using assms(2,3) MCall that by (auto simp: results_known_def)
    then show ?thesis using callee [OF that(1)] used_called(3) external_not_dbg [OF that(2)] by blast
  qed
  ultimately have "call_regs E ?K (mf_id F) (mi_id I) Callee args \<subseteq> set (usedRegs st')"
    unfolding call_regs_def by (intro Un_least) (simp_all split: if_split, blast+)
  then show ?thesis using MCall by (simp add: inst_regs_def)
qed (simp_all add: inst_regs_def)

lemma insts_used:
  assumes "computeMuChi E MRA FI F st = Inr st1" "I \<in> set (insts_of F)"
  shows "\<exists>BB s1 s2. mu_chi_inst E MRA (mf_id F) BB I s1 = Inr s2 \<and> set (usedRegs s2) \<subseteq> sc_region ` set (funToEntryChi st1 (mf_id F))"
proof -
  obtain st' where m: "foldE (\<lambda>(BB, insts). foldE (mu_chi_inst E MRA (mf_id F) BB) insts) (mf_blocks F) st = Inr st'"
      "st1 = entry_chis F st' \<or> st1 = return_mus F (entry_chis F st')"
    using assms(1) by (auto simp: computeMuChi_def bindE_eq_Inr Let_def split: option.splits if_splits)
  have "funToEntryChi st1 (mf_id F) = funToEntryChi st' (mf_id F) @ map (\<lambda>R. new_chi (EntryDef (mf_id F) R) R) (usedRegs st')"
    using m(2) entry_chis_eq [of F st'] return_mus_eq [of F "entry_chis F st'"] by auto
  then have e: "set (usedRegs st') \<subseteq> sc_region ` set (funToEntryChi st1 (mf_id F))" by (auto simp: new_chi_def image_Un image_image)
  have mono: "set (usedRegs s) \<subseteq> set (usedRegs t)" if "foldE (mu_chi_inst E MRA (mf_id F) BB) insts s = Inr t" for BB insts s t
    by (rule foldE_inv [OF that, of "\<lambda>u. set (usedRegs s) \<subseteq> set (usedRegs u)"]) (use records_used [OF records_inst] in blast)+
  obtain BB insts where b: "(BB, insts) \<in> set (mf_blocks F)" "I \<in> set insts" using assms(2) by (auto simp: insts_of_def)
  from foldE_used [OF m(1) b(1)] mono obtain s1 s2 where s: "foldE (mu_chi_inst E MRA (mf_id F) BB) insts s1 = Inr s2" "set (usedRegs s2) \<subseteq> set (usedRegs st')"
    by fastforce
  have "set (usedRegs s) \<subseteq> set (usedRegs t)" if "mu_chi_inst E MRA (mf_id F) BB J s = Inr t" for J s t
    using records_used [OF records_inst [OF that]] .
  then show ?thesis using foldE_used [OF s(1) b(2)] s(2) e by blast
qed

section \<open>Modules\<close>

lemma analyze_scc_kill_set: "analyze_scc CG fuel Ns st = Inr st' \<Longrightarrow> globalKillSet st' = globalKillSet st"
proof -
  have c: "globalKillSet (fold (kill_callee Ns' F) Ms st) = globalKillSet st" for Ns' F Ms st
    by (induction Ms arbitrary: st) (auto simp: kill_callee_def split: option.splits)
  have k: "globalKillSet (fold (kill_node CG Ns') Ms st) = globalKillSet st" for Ns' Ms st
    by (induction Ms arbitrary: st) (auto simp: kill_node_def remove_killed_def c split: option.splits)
  have u: "globalKillSet (fold (update_callee F) Ms st) = globalKillSet st" for F Ms st
    by (induction Ms arbitrary: st) (auto simp: update_callee_def inherit_def split: option.splits)
  have n: "globalKillSet (fst (fold (update_node CG) Ms s)) = globalKillSet (fst s)" for Ms s
    by (induction Ms arbitrary: s) (auto simp: update_node_def Let_def u split: option.splits)
  have "update_loop CG Ns fuel st = Inr st' \<Longrightarrow> globalKillSet st' = globalKillSet st" for st
  proof (induction fuel arbitrary: st)
    case (Suc fuel)
    then show ?case using n [of Ns "(st, False)"] by (cases "fold (update_node CG) Ns (st, False)") (auto split: if_splits)
  qed simp
  then show "analyze_scc CG fuel Ns st = Inr st' \<Longrightarrow> globalKillSet st' = globalKillSet st" by (simp add: analyze_scc_def k)
qed

text \<open>Functions have distinct numbers, declarations and debug intrinsics have no body, and an edge of the
  call graph comes from a call.\<close>

definition wf_module :: "menv \<Rightarrow> ptacg \<Rightarrow> bool" where
  "wf_module E CG \<longleftrightarrow> distinct (map mf_id (me_fns E)) \<and>
     (\<forall>F\<in>set (me_fns E). (mf_decl F \<longrightarrow> mf_blocks F = []) \<and> (mf_dbg F \<longrightarrow> mf_decl F) \<and>
       (\<forall>C. FnNode C \<in> set (callees CG (FnNode (mf_id F))) \<longrightarrow>
         (\<exists>I\<in>set (insts_of F). \<exists>Callee args ptr. mi_op I = MCall Callee args ptr \<and>
           (\<exists>D\<in>set (may_callees E (mi_id I) Callee). mf_id D = C))))"

lemma find_mem: "find P xs = Some x \<Longrightarrow> x \<in> set xs"
  by (induction xs) (auto split: if_splits)

lemma may_callees_known: "D \<in> set (may_callees E I Callee) \<Longrightarrow> D \<in> set (me_fns E)"
  by (auto simp: may_callees_def me_fn_def List.map_filter_def find_mem)

lemma unique_fn: "wf_module E CG \<Longrightarrow> F \<in> set (me_fns E) \<Longrightarrow> G \<in> set (me_fns E) \<Longrightarrow> mf_id F = mf_id G \<Longrightarrow> F = G"
  by (auto simp: wf_module_def distinct_map dest: inj_onD)

lemma fn_regs_of: "wf_module E CG \<Longrightarrow> F \<in> set (me_fns E) \<Longrightarrow> fn_regs E K (mf_id F) = (\<Union>I\<in>set (insts_of F). inst_regs E K (mf_id F) I)"
proof -
  assume "wf_module E CG" "F \<in> set (me_fns E)"
  then have "{G \<in> set (me_fns E). mf_id G = mf_id F} = {F}" using unique_fn [of E CG _ F] by auto
  then show ?thesis by (simp add: fn_regs_def)
qed

lemma declared_untouched:
  assumes "wf_module E CG" "D \<in> set (me_fns E)" "mf_decl D" "\<And>G. A G \<subseteq> fn_regs E K G"
  shows "\<not> touches CG L A (mf_id D) R"
proof
  have none: "insts_of D = []" using assms(1-3) by (simp add: wf_module_def insts_of_def)
  assume "touches CG L A (mf_id D) R"
  then show False
  proof cases
    case own
    then show False using assms(4) [of "mf_id D"] fn_regs_of [OF assms(1,2)] none by auto
  next
    case (call C)
    then show False using assms(1,2) none by (auto simp: wf_module_def)
  qed
qed

text \<open>A touched region is used, when the sets of the functions that are called are exact.\<close>

lemma touched_is_used:
  assumes wf: "wf_module E CG" "F \<in> set (me_fns E)" "results_known E F" and mu: "computeMuChi E MRA FI F st = Inr st1"
    and D: "\<And>G. D G \<subseteq> fn_regs E (globalKillSet MRA) G" and T: "touches CG (\<lambda>G. set (getFuncKill MRA G)) D (mf_id F) R"
    and exact: "\<And>C. FnNode C \<in> set (callees CG (FnNode (mf_id F))) \<Longrightarrow> touches CG (\<lambda>G. set (getFuncKill MRA G)) D C R \<Longrightarrow>
      R \<in> set (getFuncRef MRA C) \<union> set (getFuncMod MRA C)"
  shows "R \<in> sc_region ` set (funToEntryChi st1 (mf_id F))"
  using T
proof cases
  case own
  then obtain I where I: "I \<in> set (insts_of F)" "R \<in> inst_regs E (globalKillSet MRA) (mf_id F) I"
    using D [of "mf_id F"] fn_regs_of [OF wf(1,2)] by blast
  then show ?thesis using insts_used [OF mu I(1)] used_inst [OF _ I(1) wf(3)] by blast
next
  case (call C)
  then obtain I Callee args ptr E' where I: "I \<in> set (insts_of F)" "mi_op I = MCall Callee args ptr" "E' \<in> set (may_callees E (mi_id I) Callee)" "mf_id E' = C"
    using wf(1,2) unfolding wf_module_def by blast
  have E': "E' \<in> set (me_fns E)" using may_callees_known [OF I(3)] .
  have "\<not> mf_decl E'" using declared_untouched [OF wf(1) E' _ D] call(2) I(4) by blast
  moreover from this have "\<not> mf_dbg E'" using wf(1) E' by (auto simp: wf_module_def)
  moreover have "R \<in> set (getFuncRef MRA (mf_id E')) \<union> set (getFuncMod MRA (mf_id E')) - set (getFuncKill MRA (mf_id F))"
    using exact [OF call(1,2)] call(3) I(4) by simp
  ultimately show ?thesis
    using insts_used [OF mu I(1)] used_callee [OF _ I(2,3)] used_called(4) by (meson subsetD)
qed

section \<open>Properties\<close>

text \<open>C14: the mod/ref analysis ends, and with its result memory SSA gives a function an entry chi for every
  region that the function may read or write according to the analysis, when each external function that the
  function calls for a pointer has a row in the table saying that its result is modified. The call graph
  lists callees first and its edges come from calls.\<close>

theorem used_covers_mod_ref:
  assumes "foldE (visit_fn E) (me_fns E) (no_modref\<lparr>globalKillSet := compute_kill_set E sites\<rparr>) = Inr st0"
    and "bottom_up CG [] sccs" "wf_module E CG" "F \<in> set (me_fns E)" "FnNode (mf_id F) \<in> set (concat sccs)" "results_known E F"
  shows "\<exists>k. \<forall>fuel\<ge>k. \<exists>MRA. analyze_mr fuel E CG sccs sites = Inr MRA \<and>
    (\<forall>FI st st1. computeMuChi E MRA FI F st = Inr st1 \<longrightarrow>
      set (getFuncRef MRA (mf_id F)) \<union> set (getFuncMod MRA (mf_id F)) \<subseteq> sc_region ` set (funToEntryChi st1 (mf_id F)))"
proof (rule enough_fuel_mono [OF analysis_ends [OF assms(1,2)]], elim conjE, intro conjI)
  fix fuel MRA
  assume M: "analyze_mr fuel E CG sccs sites = Inr MRA" "foldE (analyze_scc CG fuel) sccs st0 = Inr MRA" "analysed CG st0 (members (concat sccs)) MRA"
  show "analyze_mr fuel E CG sccs sites = Inr MRA" by fact
  have F: "mf_id F \<in> members (concat sccs)" using assms(5) by (simp add: members_def)
  have start: "touched (no_modref\<lparr>globalKillSet := compute_kill_set E sites\<rparr>) G = {}" for G by (simp add: touched_def no_modref_def)
  note visits = visits_add [OF assms(1) refl start, simplified]
  have "globalKillSet MRA = globalKillSet st0"
    by (rule foldE_inv [OF M(2), of "\<lambda>s. globalKillSet s = globalKillSet st0"]) (use analyze_scc_kill_set in force)+
  then have touched: "touched st0 G \<subseteq> fn_regs E (globalKillSet MRA) G" for G using visits by simp
  have closed: "C \<in> members (concat sccs)" if "FnNode C \<in> set (callees CG (FnNode (mf_id F)))" for C
    using that M(3) F unfolding analysed_def call_closed_def by blast
  have sets: "set (getFuncMod MRA G) = {R. touches CG (\<lambda>G. set (getFuncKill MRA G)) (\<lambda>G. set (funcModMap st0 G)) G R}"
    "set (getFuncRef MRA G) = {R. touches CG (\<lambda>G. set (getFuncKill MRA G)) (\<lambda>G. set (funcRefMap st0 G)) G R}" if "G \<in> members (concat sccs)" for G
    using that M(3) by (simp_all add: analysed_def mods.computed_def refs.computed_def getFuncMod_def getFuncRef_def getFuncKill_def)
  have "R \<in> sc_region ` set (funToEntryChi st1 (mf_id F))"
    if mu: "computeMuChi E MRA FI F st = Inr st1" and R: "R \<in> set (getFuncRef MRA (mf_id F)) \<union> set (getFuncMod MRA (mf_id F))" for FI st st1 R
  proof -
    have "\<exists>D. (\<forall>G. D G \<subseteq> touched st0 G) \<and> touches CG (\<lambda>G. set (getFuncKill MRA G)) D (mf_id F) R \<and>
        (\<forall>C\<in>members (concat sccs). touches CG (\<lambda>G. set (getFuncKill MRA G)) D C R \<longrightarrow> R \<in> set (getFuncRef MRA C) \<union> set (getFuncMod MRA C))"
      using R sets F unfolding touched_def by (metis (no_types, lifting) Un_iff Un_upper1 Un_upper2 mem_Collect_eq)
    then obtain D where D: "\<And>G. D G \<subseteq> touched st0 G" "touches CG (\<lambda>G. set (getFuncKill MRA G)) D (mf_id F) R"
        "\<And>C. C \<in> members (concat sccs) \<Longrightarrow> touches CG (\<lambda>G. set (getFuncKill MRA G)) D C R \<Longrightarrow> R \<in> set (getFuncRef MRA C) \<union> set (getFuncMod MRA C)"
      by blast
    show ?thesis
      by (rule touched_is_used [OF assms(3,4,6) mu order_trans [OF D(1) touched] D(2)]) (use D(3) closed in blast)
  qed
  then show "\<forall>FI st st1. computeMuChi E MRA FI F st = Inr st1 \<longrightarrow>
      set (getFuncRef MRA (mf_id F)) \<union> set (getFuncMod MRA (mf_id F)) \<subseteq> sc_region ` set (funToEntryChi st1 (mf_id F))"
    by blast
qed

theorem used_covers_mod_ref_witness:
  "\<exists>k. \<forall>fuel\<ge>k. \<exists>MRA. analyze_mr fuel demo_env demo_cg [[FnNode 2], [FnNode 1]] demo_sites = Inr MRA \<and>
    (\<forall>FI st st1. computeMuChi demo_env MRA FI demo_main st = Inr st1 \<longrightarrow>
      set (getFuncRef MRA 1) \<union> set (getFuncMod MRA 1) \<subseteq> sc_region ` set (funToEntryChi st1 1))"
proof -
  obtain st0 where v: "foldE (visit_fn demo_env) (me_fns demo_env) (no_modref\<lparr>globalKillSet := compute_kill_set demo_env demo_sites\<rparr>) = Inr st0"
    by (simp add: memory_defs modref_defs)
  have b: "bottom_up demo_cg [] [[FnNode 2], [FnNode 1]]" by (simp add: demo_cg_def callees_def)
  have "mf_id demo_main = 1" by (simp add: demo_main_def)
  with used_covers_mod_ref [OF v b, of demo_main] show ?thesis
    by (auto simp: wf_module_def results_known_def memory_defs insts_of_def)
qed

text \<open>The function \<open>main\<close> calls \<open>copy\<close>, which only calls \<open>strdup\<close>: the string is object 100 and the copy object 102.\<close>

definition strdup_env :: menv where
  "strdup_env = \<lparr>me_fns = [
       \<lparr>mf_id = 1, mf_name = ''main'', mf_decl = False, mf_vararg = False, mf_ret_ptr = False, mf_args = [],
         mf_blocks = [(0, [\<lparr>mi_id = 20, mi_op = MCall (Some 2) [] True\<rparr>, \<lparr>mi_id = 21, mi_op = MRet\<rparr>])]\<rparr>,
       \<lparr>mf_id = 2, mf_name = ''copy'', mf_decl = False, mf_vararg = False, mf_ret_ptr = True, mf_args = [],
         mf_blocks = [(10, [\<lparr>mi_id = 30, mi_op = MCall (Some 3) [PtrArg 5] True\<rparr>, \<lparr>mi_id = 31, mi_op = MRet\<rparr>])]\<rparr>,
       \<lparr>mf_id = 3, mf_name = ''strdup'', mf_decl = True, mf_vararg = False, mf_ret_ptr = True, mf_args = [True], mf_blocks = []\<rparr>],
     me_opts = mpi_options, me_pts = [5 \<mapsto> [100], 30 \<mapsto> [102], 20 \<mapsto> [102]],
     me_regions = MemReg mpi_options [100, 102] (\<lambda>_. None) [], me_indirect = (\<lambda>_. []), me_reach = (\<lambda>_. True)\<rparr>"

definition strdup_cg :: ptacg where
  "strdup_cg = empty_cg\<lparr>CalledFunctions := (\<lambda>_. [])(FnNode 1 := [(Some 20, FnNode 2)], FnNode 2 := [(Some 30, FnNode 3)],
     FnNode 3 := [(None, CallsExternalNode)])\<rparr>"

definition straight_info :: "nat \<Rightarrow> finfo" where
  "straight_info b = \<lparr>fi_cfg = \<lparr>succs = (\<lambda>_. []), preds = (\<lambda>_. []), blocks_of = [b]\<rparr>, fi_df = [b \<mapsto> []], fi_dt = DNode b [],
     fi_pdt = \<lparr>node_of = [b \<mapsto> DNode b []], idom_of = Map.empty\<rparr>, fi_term = (\<lambda>_. OtherTerm)\<rparr>"

lemmas rename_defs = buildSSA_fn_def ext_arg_def ext_ret_def ext_mus_def ret_mod_def createArtificalChiForCalledFunction_def put_at_def put_arg_def
  entry_chi_def exit_chi_def computePhi_def phis_for_def rename_fn_def rename_inst_def rename_call_def back_var_def pop_back_def push_def_def fresh_var_def
  inst_pops_def block_insts_def computePhiPredicates_def block_predicates_def new_chi_def new_mu_def

text \<open>C15: for a function that calls \<open>strdup\<close>, which has no row in the table, the region of the result is among
  those the function may read according to the mod/ref analysis, and a caller gets a mu for it, but the
  function itself gets no entry chi for the region, where the dependence graph looks it up.\<close>

theorem strdup_region_missing:
  "\<exists>MRA st1 st2. analyze_mr 5 strdup_env strdup_cg [[CallsExternalNode], [FnNode 3], [FnNode 2], [FnNode 1]] [(100, None), (102, Some 2)] = Inr MRA \<and>
     buildSSA_fn 5 strdup_env MRA (straight_info 0) (me_fns strdup_env ! 0) (empty_ssa, no_caches) = Inr st1 \<and>
     buildSSA_fn 5 strdup_env MRA (straight_info 10) (me_fns strdup_env ! 1) st1 = Inr st2 \<and>
     map su_region (callSiteToMu (fst st2) 20) = [0, 1] \<and> map su_kind (callSiteToMu (fst st2) 20) = [CalledMu 2, CalledMu 2] \<and>
     map sc_region (funToEntryChi (fst st2) 2) = [0]"
proof -
  have row: "getExtModInfo ''strdup'' = None" by (rule allocators_without_row) (simp add: unlisted_def)
  define MRA where "MRA = no_modref\<lparr>funcRefMap := (\<lambda>_. [])(1 := [0, 1], 2 := [0, 1])\<rparr>"
  have "analyze_mr 5 strdup_env strdup_cg [[CallsExternalNode], [FnNode 3], [FnNode 2], [FnNode 1]] [(100, None), (102, Some 2)] = Inr MRA"
    by (simp add: analyze_mr_def strdup_env_def strdup_cg_def memory_defs modref_defs row MRA_def analyze_scc_def kill_node_def kill_callee_def
        remove_killed_def not_killed_def update_node_def update_callee_def inherit_def Let_def eval_nat_numeral fun_eq_iff)
  moreover have "\<exists>st1 st2. buildSSA_fn 5 strdup_env MRA (straight_info 0) (me_fns strdup_env ! 0) (empty_ssa, no_caches) = Inr st1 \<and>
     buildSSA_fn 5 strdup_env MRA (straight_info 10) (me_fns strdup_env ! 1) st1 = Inr st2 \<and>
     map su_region (callSiteToMu (fst st2) 20) = [0, 1] \<and> map su_kind (callSiteToMu (fst st2) 20) = [CalledMu 2, CalledMu 2] \<and>
     map sc_region (funToEntryChi (fst st2) 2) = [0]"
    by (simp add: MRA_def no_modref_def strdup_env_def straight_info_def memory_defs chi_defs rename_defs row Let_def)
  ultimately show ?thesis by (intro exI [of _ MRA]) simp
qed

end
