(* ===== verification/Dep_Graph.thy ===== *)
theory Dep_Graph
  imports Static_Utils Call_Graph
begin

text \<open>
  Construction of the dependence graph (\<open>src/aSSA/DepGraphDCF.cpp\<close>,
  \<open>src/include/parcoach/DepGraphDCF.h\<close>): nodes are LLVM values and the
  variables of memory SSA, each kind of edge has a map of children and one of
  parents, and every instruction, block and function contributes its edges.

  Values, variables, functions and blocks are numbers; the number of an object
  stands for its address, so the pointer-ordered sets of the code are increasing
  lists. The null function is \<open>null_fn\<close>. Memory SSA (mu and chi lists per load,
  store, call, block and function) and the conditions of the iterated frontier
  of a block are inputs. A failed assertion, a failed \<open>at\<close> and the use of a null
  pointer are errors.
\<close>

section \<open>Memory SSA\<close>

datatype chi_kind = CallChi nat | ExtCallChi nat nat | OtherChi

record mchi =
  chi_var :: nat
  chi_opVar :: "nat option"
  chi_region :: nat
  chi_kind :: chi_kind

datatype mu_kind = CallMu nat | ExtCallMu nat nat | OtherMu

record mmu =
  mu_var :: nat
  mu_region :: nat
  mu_kind :: mu_kind

record mphi =
  phi_var :: nat
  phi_opsVar :: "(nat \<times> nat) list"
  phi_preds :: "nat list"

record mssa =
  loadToMuMap :: "nat \<Rightarrow> mmu list"
  storeToChiMap :: "nat \<Rightarrow> mchi list"
  callSiteToMuMap :: "nat \<Rightarrow> mmu list"
  callSiteToChiMap :: "nat \<Rightarrow> mchi list"
  callSiteToSyncChiMap :: "nat \<Rightarrow> mchi list"
  bbToPhiMap :: "nat \<Rightarrow> mphi list"
  funToEntryChiMap :: "nat \<Rightarrow> mchi list"
  llvmPhiToPredMap :: "nat \<Rightarrow> nat list"
  funRegToEntryChiMap :: "nat \<Rightarrow> (nat \<Rightarrow> mchi option) option"
  funRegToReturnMuMap :: "nat \<Rightarrow> (nat \<Rightarrow> mmu option) option"
  extCallSiteToCallerRetChi :: "nat \<Rightarrow> mchi list"
  extCallSiteToCalleeRetChi :: "nat \<Rightarrow> (nat \<times> mchi) list option"
  extCallSiteToVarArgEntryChi :: "nat \<Rightarrow> (nat \<times> mchi) list option"
  extCallSiteToVarArgExitChi :: "nat \<Rightarrow> (nat \<times> mchi) list option"
  extCallSiteToArgEntryChi :: "nat \<Rightarrow> (nat \<times> (nat \<times> mchi) list) list option"
  extCallSiteToArgExitChi :: "nat \<Rightarrow> (nat \<times> (nat \<times> mchi) list) list option"
  extFuncToCSMap :: "nat \<Rightarrow> nat list"

section \<open>Code\<close>

datatype dg_op =
    AllocaOp | TermOp | CmpOp | UnaryOp | FreezeOp | GepOp | CastOp | SelectOp | BinaryOp
  | ExtractValueOp | ExtractElementOp | InsertElementOp | InsertValueOp | ShuffleVectorOp
  | LoadOp string | StoreOp | PhiOp | CallOp "nat option" bool | UnhandledOp

text \<open>\<open>LoadOp\<close> has the name of the pointer operand; \<open>CallOp\<close> the called function of a direct
  call, and whether the call is a debug intrinsic. The operands of a store are the value
  and the pointer.\<close>

record dg_inst =
  di_id :: nat
  di_op :: dg_op
  di_operands :: "nat list"

record dg_fn =
  df_id :: nat
  df_name :: string
  df_decl :: bool
  df_vararg :: bool
  df_args :: "(nat \<times> bool) list"
  df_ret_ptr :: bool
  df_ret_void :: bool
  df_returns :: "nat option list"
  df_blocks :: "(nat \<times> dg_inst list) list"

datatype dg_error = DG_Assertion | DG_Out_of_range | DG_Null | DG_out_of_fuel

section \<open>The graph\<close>

type_synonym nodemap = "nat \<Rightarrow> nat list option"

record depgraph =
  funcToLLVMNodesMap :: nodemap
  funcToSSANodesMap :: nodemap
  llvmToLLVMChildren :: nodemap
  llvmToLLVMParents :: nodemap
  llvmToSSAChildren :: nodemap
  llvmToSSAParents :: nodemap
  ssaToLLVMChildren :: nodemap
  ssaToLLVMParents :: nodemap
  ssaToSSAChildren :: nodemap
  ssaToSSAParents :: nodemap
  funcToCallNodes :: nodemap
  callToFuncEdges :: "nat \<Rightarrow> nat option"
  condToCallEdges :: nodemap
  funcToCallSites :: nodemap
  callsiteToConds :: nodemap
  taintResetSSANodes :: "nat list"
  ssaSources :: "nat list"
  valueSources :: "nat list"

definition empty_graph :: depgraph where
  "empty_graph = \<lparr>funcToLLVMNodesMap = Map.empty, funcToSSANodesMap = Map.empty, llvmToLLVMChildren = Map.empty,
     llvmToLLVMParents = Map.empty, llvmToSSAChildren = Map.empty, llvmToSSAParents = Map.empty,
     ssaToLLVMChildren = Map.empty, ssaToLLVMParents = Map.empty, ssaToSSAChildren = Map.empty,
     ssaToSSAParents = Map.empty, funcToCallNodes = Map.empty, callToFuncEdges = Map.empty,
     condToCallEdges = Map.empty, funcToCallSites = Map.empty, callsiteToConds = Map.empty,
     taintResetSSANodes = [], ssaSources = [], valueSources = []\<rparr>"

definition null_fn :: nat where
  "null_fn = 0"

definition getRange :: "('a \<Rightarrow> 'b list option) \<Rightarrow> 'a \<Rightarrow> 'b list" where
  "getRange C K = (case C K of None \<Rightarrow> [] | Some s \<Rightarrow> s)"

definition map_insert :: "nat \<Rightarrow> nat \<Rightarrow> nodemap \<Rightarrow> nodemap" where
  "map_insert K v C = C(K \<mapsto> set_add v (getRange C K))"

definition map_erase :: "nat \<Rightarrow> nat \<Rightarrow> nodemap \<Rightarrow> nodemap" where
  "map_erase K v C = C(K \<mapsto> remove1 v (getRange C K))"

definition addEdge_ll :: "nat \<Rightarrow> nat \<Rightarrow> depgraph \<Rightarrow> depgraph" where
  "addEdge_ll S D g = g\<lparr>llvmToLLVMChildren := map_insert S D (llvmToLLVMChildren g),
     llvmToLLVMParents := map_insert D S (llvmToLLVMParents g)\<rparr>"

definition addEdge_ls :: "nat \<Rightarrow> nat \<Rightarrow> depgraph \<Rightarrow> depgraph" where
  "addEdge_ls S D g = g\<lparr>llvmToSSAChildren := map_insert S D (llvmToSSAChildren g),
     ssaToLLVMParents := map_insert D S (ssaToLLVMParents g)\<rparr>"

definition addEdge_sl :: "nat \<Rightarrow> nat \<Rightarrow> depgraph \<Rightarrow> depgraph" where
  "addEdge_sl S D g = g\<lparr>ssaToLLVMChildren := map_insert S D (ssaToLLVMChildren g),
     llvmToSSAParents := map_insert D S (llvmToSSAParents g)\<rparr>"

definition addEdge_ss :: "nat \<Rightarrow> nat \<Rightarrow> depgraph \<Rightarrow> depgraph" where
  "addEdge_ss S D g = g\<lparr>ssaToSSAChildren := map_insert S D (ssaToSSAChildren g),
     ssaToSSAParents := map_insert D S (ssaToSSAParents g)\<rparr>"

text \<open>Removing an edge that is not there fails an assertion.\<close>

definition removeEdge_ls :: "nat \<Rightarrow> nat \<Rightarrow> depgraph \<Rightarrow> dg_error + depgraph" where
  "removeEdge_ls S D g =
     (if D \<in> set (getRange (llvmToSSAChildren g) S) \<and> S \<in> set (getRange (ssaToLLVMParents g) D)
      then Inr (g\<lparr>llvmToSSAChildren := map_erase S D (llvmToSSAChildren g),
                  ssaToLLVMParents := map_erase D S (ssaToLLVMParents g)\<rparr>)
      else Inl DG_Assertion)"

definition removeEdge_sl :: "nat \<Rightarrow> nat \<Rightarrow> depgraph \<Rightarrow> dg_error + depgraph" where
  "removeEdge_sl S D g =
     (if D \<in> set (getRange (ssaToLLVMChildren g) S) \<and> S \<in> set (getRange (llvmToSSAParents g) D)
      then Inr (g\<lparr>ssaToLLVMChildren := map_erase S D (ssaToLLVMChildren g),
                  llvmToSSAParents := map_erase D S (llvmToSSAParents g)\<rparr>)
      else Inl DG_Assertion)"

definition removeEdge_ss :: "nat \<Rightarrow> nat \<Rightarrow> depgraph \<Rightarrow> dg_error + depgraph" where
  "removeEdge_ss S D g =
     (if D \<in> set (getRange (ssaToSSAChildren g) S) \<and> S \<in> set (getRange (ssaToSSAParents g) D)
      then Inr (g\<lparr>ssaToSSAChildren := map_erase S D (ssaToSSAChildren g),
                  ssaToSSAParents := map_erase D S (ssaToSSAParents g)\<rparr>)
      else Inl DG_Assertion)"

definition llvm_node :: "nat \<Rightarrow> nat \<Rightarrow> depgraph \<Rightarrow> depgraph" where
  "llvm_node F v g = g\<lparr>funcToLLVMNodesMap := map_insert F v (funcToLLVMNodesMap g)\<rparr>"

definition ssa_node :: "nat \<Rightarrow> nat \<Rightarrow> depgraph \<Rightarrow> depgraph" where
  "ssa_node F v g = g\<lparr>funcToSSANodesMap := map_insert F v (funcToSSANodesMap g)\<rparr>"

section \<open>Options and sources\<close>

record dg_tables =
  ResetFunctions :: "(string \<times> int) list"
  SsaSourceFunctions :: "(string \<times> int) list"
  ValueSourceFunctions :: "(string \<times> int) list"
  LoadValueSources :: "string list"

definition no_tables :: dg_tables where
  "no_tables = \<lparr>ResetFunctions = [], SsaSourceFunctions = [], ValueSourceFunctions = [], LoadValueSources = []\<rparr>"

definition enableMPI :: "dg_tables \<Rightarrow> dg_tables" where
  "enableMPI t = t\<lparr>ResetFunctions := ResetFunctions t @ [(''MPI_Bcast'', 0), (''MPI_Allgather'', 3),
       (''MPI_Allgatherv'', 3), (''MPI_Alltoall'', 3), (''MPI_Alltoallv'', 4), (''MPI_Alltoallw'', 4), (''MPI_Allreduce'', 1)],
     SsaSourceFunctions := SsaSourceFunctions t @ [(''MPI_Comm_rank'', 1), (''MPI_Group_rank'', 1)]\<rparr>"

definition enableOMP :: "dg_tables \<Rightarrow> dg_tables" where
  "enableOMP t = t\<lparr>ValueSourceFunctions := ValueSourceFunctions t @ [(''__kmpc_global_thread_num'', -1),
     (''_omp_get_thread_num'', -1), (''omp_get_thread_num'', -1)]\<rparr>"

definition enableUPC :: "dg_tables \<Rightarrow> dg_tables" where
  "enableUPC t = t\<lparr>LoadValueSources := LoadValueSources t @ [''gasneti_mynode'']\<rparr>"

definition enableCUDA :: "dg_tables \<Rightarrow> dg_tables" where
  "enableCUDA t = t\<lparr>ValueSourceFunctions := ValueSourceFunctions t @ [(''llvm.nvvm.read.ptx.sreg.tid.x'', -1),
     (''llvm.nvvm.read.ptx.sreg.tid.y'', -1), (''llvm.nvvm.read.ptx.sreg.tid.z'', -1)]\<rparr>"

text \<open>The build has all paradigms compiled in.\<close>

definition activated_tables :: "options \<Rightarrow> dg_tables" where
  "activated_tables opts =
     (let t1 = (if isActivated opts MPI then enableMPI no_tables else no_tables);
          t2 = (if isActivated opts OMP then enableOMP t1 else t1);
          t3 = (if isActivated opts UPC then enableUPC t2 else t2)
      in if isActivated opts CUDA then enableCUDA t3 else t3)"

record dg_env =
  e_mssa :: mssa
  e_tables :: dg_tables
  e_fns :: "dg_fn list"
  e_indirect :: "nat \<Rightarrow> nat list"
  e_reachable :: "nat \<Rightarrow> bool"
  e_ipdf_preds :: "nat \<Rightarrow> nat list"
  noPtrDep :: bool
  noPred :: bool
  disablePhiElim :: bool
  OptWeakUpdate :: bool

definition fn_of :: "dg_env \<Rightarrow> nat \<Rightarrow> dg_error + dg_fn" where
  "fn_of E f = (case find (\<lambda>F. df_id F = f) (e_fns E) of None \<Rightarrow> Inl DG_Null | Some F \<Rightarrow> Inr F)"

definition at :: "('a \<times> 'b) list \<Rightarrow> 'a \<Rightarrow> dg_error + 'b" where
  "at m k = (case map_of m k of None \<Rightarrow> Inl DG_Out_of_range | Some x \<Rightarrow> Inr x)"

definition deref :: "('a \<times> 'b) list \<Rightarrow> 'a \<Rightarrow> dg_error + 'b" where
  "deref m k = (case map_of m k of None \<Rightarrow> Inl DG_Null | Some x \<Rightarrow> Inr x)"

definition entry_or_empty :: "('a \<times> ('b \<times> 'c) list) list \<Rightarrow> 'a \<Rightarrow> ('b \<times> 'c) list" where
  "entry_or_empty m k = (case map_of m k of None \<Rightarrow> [] | Some x \<Rightarrow> x)"

definition opVar :: "mchi \<Rightarrow> dg_error + nat" where
  "opVar Chi = (case chi_opVar Chi of None \<Rightarrow> Inl DG_Assertion | Some v \<Rightarrow> Inr v)"

fun has_substring :: "string \<Rightarrow> string \<Rightarrow> bool" where
  "has_substring p [] = (p = [])"
| "has_substring p (c # s) = (take (length p) (c # s) = p \<or> has_substring p s)"

section \<open>Instructions that are values\<close>

text \<open>The result depends on every operand.\<close>

definition connect_operands :: "nat \<Rightarrow> dg_inst \<Rightarrow> depgraph \<Rightarrow> depgraph" where
  "connect_operands curFunc I g =
     fold (\<lambda>V g. llvm_node curFunc V (addEdge_ll V (di_id I) g)) (di_operands I) (llvm_node curFunc (di_id I) g)"

definition visitCmpInst where "visitCmpInst = connect_operands"
definition visitUnaryOperator where "visitUnaryOperator = connect_operands"
definition visitFreezeInst where "visitFreezeInst = connect_operands"
definition visitGetElementPtrInst where "visitGetElementPtrInst = connect_operands"
definition visitCastInst where "visitCastInst = connect_operands"
definition visitSelectInst where "visitSelectInst = connect_operands"
definition visitBinaryOperator where "visitBinaryOperator = connect_operands"
definition visitExtractValueInst where "visitExtractValueInst = connect_operands"
definition visitExtractElementInst where "visitExtractElementInst = connect_operands"
definition visitInsertElementInst where "visitInsertElementInst = connect_operands"
definition visitInsertValueInst where "visitInsertValueInst = connect_operands"
definition visitShuffleVectorInst where "visitShuffleVectorInst = connect_operands"

definition visitPHINode :: "dg_env \<Rightarrow> nat \<Rightarrow> dg_inst \<Rightarrow> depgraph \<Rightarrow> depgraph" where
  "visitPHINode E curFunc I g =
     (let g1 = connect_operands curFunc I g in
      if noPred E then g1
      else fold (\<lambda>V g. llvm_node curFunc V (addEdge_ll V (di_id I) g)) (llvmPhiToPredMap (e_mssa E) (di_id I)) g1)"

definition visitBasicBlock :: "dg_env \<Rightarrow> nat \<Rightarrow> nat \<Rightarrow> depgraph \<Rightarrow> depgraph" where
  "visitBasicBlock E curFunc BB g =
     fold (\<lambda>Phi g.
       let g1 = fold (\<lambda>(k, v) g. addEdge_ss v (phi_var Phi) (ssa_node curFunc v g)) (phi_opsVar Phi)
                  (ssa_node curFunc (phi_var Phi) g)
       in if noPred E then g1
          else fold (\<lambda>Pred g. addEdge_ls Pred (phi_var Phi) (llvm_node curFunc Pred g)) (phi_preds Phi) g1)
       (bbToPhiMap (e_mssa E) BB) g"

section \<open>Memory\<close>

definition visitLoadInst :: "dg_env \<Rightarrow> nat \<Rightarrow> dg_inst \<Rightarrow> nat \<Rightarrow> string \<Rightarrow> depgraph \<Rightarrow> depgraph" where
  "visitLoadInst E curFunc LI ptr name g =
     (let g1 = llvm_node curFunc ptr (llvm_node curFunc (di_id LI) g);
          mus = loadToMuMap (e_mssa E) (di_id LI);
          g2 = fold (\<lambda>Mu g. addEdge_sl (mu_var Mu) (di_id LI) (ssa_node curFunc (mu_var Mu) g)) mus g1;
          g3 = (if list_ex (\<lambda>n. n = name) (LoadValueSources (e_tables E))
                then g2\<lparr>ssaSources := fold (\<lambda>Mu s. set_add (mu_var Mu) s) mus (ssaSources g2)\<rparr> else g2)
      in if noPtrDep E then g3 else addEdge_ll ptr (di_id LI) g3)"

definition visitStoreInst :: "dg_env \<Rightarrow> nat \<Rightarrow> dg_inst \<Rightarrow> nat \<Rightarrow> nat \<Rightarrow> depgraph \<Rightarrow> dg_error + depgraph" where
  "visitStoreInst E curFunc I val ptr =
     foldE (\<lambda>Chi g. bindE (opVar Chi) (\<lambda>op.
       let g1 = llvm_node curFunc val (llvm_node curFunc ptr (ssa_node curFunc op (ssa_node curFunc (chi_var Chi) g)));
           g2 = addEdge_ls val (chi_var Chi) g1;
           g3 = (if OptWeakUpdate E then addEdge_ss op (chi_var Chi) g2 else g2)
       in Inr (if noPtrDep E then g3 else addEdge_ls ptr (chi_var Chi) g3)))
       (storeToChiMap (e_mssa E) (di_id I))"

section \<open>Call sites\<close>

definition connectCSMu :: "dg_env \<Rightarrow> nat \<Rightarrow> dg_inst \<Rightarrow> mmu \<Rightarrow> depgraph \<Rightarrow> dg_error + depgraph" where
  "connectCSMu E curFunc I Mu g0 =
     (let g = ssa_node curFunc (mu_var Mu) g0 in
      case mu_kind Mu of
        ExtCallMu Called ArgNo \<Rightarrow>
          bindE (fn_of E Called) (\<lambda>F.
            if ArgNo \<ge> length (df_args F)
            then if \<not> df_vararg F then Inl DG_Assertion
                 else (case extCallSiteToVarArgEntryChi (e_mssa E) Called of
                    None \<Rightarrow> Inl DG_Assertion
                  | Some m \<Rightarrow> bindE (at m (di_id I)) (\<lambda>Chi.
                      Inr (addEdge_ss (mu_var Mu) (chi_var Chi) (ssa_node Called (chi_var Chi) g))))
            else bindE (at (entry_or_empty (getRange (extCallSiteToArgEntryChi (e_mssa E)) Called) (di_id I)) ArgNo)
                   (\<lambda>Chi. Inr (addEdge_ss (mu_var Mu) (chi_var Chi) g)))
      | CallMu Called \<Rightarrow>
          (case funRegToEntryChiMap (e_mssa E) Called of
             None \<Rightarrow> Inr g
           | Some m \<Rightarrow> (case m (mu_region Mu) of
                None \<Rightarrow> Inl DG_Out_of_range
              | Some EntryChi \<Rightarrow> Inr (addEdge_ss (mu_var Mu) (chi_var EntryChi) (ssa_node Called (chi_var EntryChi) g))))
      | OtherMu \<Rightarrow> Inl DG_Assertion)"

definition connectCSMus :: "dg_env \<Rightarrow> nat \<Rightarrow> dg_inst \<Rightarrow> depgraph \<Rightarrow> dg_error + depgraph" where
  "connectCSMus E curFunc I = foldE (connectCSMu E curFunc I) (callSiteToMuMap (e_mssa E) (di_id I))"

text \<open>In the case of a variable argument the name \<open>Chi\<close> is declared again in the code, for the
  exit chi of the callee, so the edge goes from the variable of that chi to itself.\<close>

definition connectCSChi :: "dg_env \<Rightarrow> nat \<Rightarrow> dg_inst \<Rightarrow> mchi \<Rightarrow> depgraph \<Rightarrow> dg_error + depgraph" where
  "connectCSChi E curFunc I Chi g0 =
     bindE (opVar Chi) (\<lambda>op.
     let g1 = ssa_node curFunc (chi_var Chi) (ssa_node curFunc op g0);
         g = (if OptWeakUpdate E then addEdge_ss op (chi_var Chi) g1 else g1) in
     case chi_kind Chi of
       ExtCallChi Called ArgNo \<Rightarrow>
         bindE (fn_of E Called) (\<lambda>F.
           if ArgNo \<ge> length (df_args F)
           then if \<not> df_vararg F then Inl DG_Assertion
                else (case extCallSiteToVarArgExitChi (e_mssa E) Called of
                   None \<Rightarrow> Inl DG_Assertion
                 | Some m \<Rightarrow> bindE (at m (di_id I)) (\<lambda>Chi2.
                     Inr (addEdge_ss (chi_var Chi2) (chi_var Chi2) (ssa_node Called (chi_var Chi2) g))))
           else bindE (at (entry_or_empty (getRange (extCallSiteToArgExitChi (e_mssa E)) Called) (di_id I)) ArgNo) (\<lambda>ExitChi.
                  let g2 = addEdge_ss (chi_var ExitChi) (chi_var Chi) g
                  in Inr (if list_ex (\<lambda>(n, a). df_name F = n \<and> int ArgNo = a) (ResetFunctions (e_tables E))
                          then g2\<lparr>taintResetSSANodes := set_add (chi_var Chi) (taintResetSSANodes g2)\<rparr> else g2)))
     | CallChi Called \<Rightarrow>
         (case funRegToReturnMuMap (e_mssa E) Called of
            None \<Rightarrow> Inr g
          | Some m \<Rightarrow> (case m (chi_region Chi) of
               None \<Rightarrow> Inl DG_Out_of_range
             | Some ReturnMu \<Rightarrow> Inr (addEdge_ss (mu_var ReturnMu) (chi_var Chi) (ssa_node Called (mu_var ReturnMu) g))))
     | OtherChi \<Rightarrow> Inl DG_Assertion)"

definition connectCSChis :: "dg_env \<Rightarrow> nat \<Rightarrow> dg_inst \<Rightarrow> depgraph \<Rightarrow> dg_error + depgraph" where
  "connectCSChis E curFunc I = foldE (connectCSChi E curFunc I) (callSiteToChiMap (e_mssa E) (di_id I))"

text \<open>Arguments. The operands of a call are its arguments. For an indirect call the formal
  arguments are recorded under the null function, and an external candidate ends the loop.\<close>

definition arg_of :: "dg_inst \<Rightarrow> nat \<Rightarrow> dg_error + nat" where
  "arg_of I k = (if k < length (di_operands I) then Inr (di_operands I ! k) else Inl DG_Assertion)"

definition connect_args :: "nat \<Rightarrow> nat \<Rightarrow> dg_inst \<Rightarrow> dg_fn \<Rightarrow> depgraph \<Rightarrow> dg_error + depgraph" where
  "connect_args curFunc owner I F =
     foldE (\<lambda>(k, Arg, ptr) g. bindE (arg_of I k) (\<lambda>a.
       Inr (addEdge_ll a Arg (llvm_node owner Arg (llvm_node curFunc a g)))))
       (zip [0..<length (df_args F)] (df_args F))"

definition connectCSEffectiveParametersExt :: "dg_env \<Rightarrow> nat \<Rightarrow> dg_inst \<Rightarrow> dg_fn \<Rightarrow> depgraph \<Rightarrow> dg_error + depgraph" where
  "connectCSEffectiveParametersExt E curFunc I Callee g =
     (if has_substring ''memset'' (df_name Callee)
      then bindE (deref (entry_or_empty (getRange (extCallSiteToArgExitChi (e_mssa E)) (df_id Callee)) (di_id I)) 0)
             (\<lambda>ArgExitChi. bindE (arg_of I 1) (\<lambda>CArg.
               Inr (addEdge_ls CArg (chi_var ArgExitChi) (llvm_node curFunc CArg g))))
      else Inr g)"

fun connect_candidates :: "dg_env \<Rightarrow> nat \<Rightarrow> dg_inst \<Rightarrow> nat list \<Rightarrow> depgraph \<Rightarrow> dg_error + depgraph" where
  "connect_candidates E curFunc I [] g = Inr g"
| "connect_candidates E curFunc I (c # cs) g =
     bindE (fn_of E c) (\<lambda>MayCallee.
       if df_decl MayCallee then connectCSEffectiveParametersExt E curFunc I MayCallee g
       else bindE (connect_args curFunc null_fn I MayCallee g) (connect_candidates E curFunc I cs))"

definition connectCSEffectiveParameters :: "dg_env \<Rightarrow> nat \<Rightarrow> dg_inst \<Rightarrow> nat option \<Rightarrow> depgraph \<Rightarrow> dg_error + depgraph" where
  "connectCSEffectiveParameters E curFunc I callee g =
     (case callee of
        Some c \<Rightarrow> bindE (fn_of E c) (\<lambda>Callee.
          if df_decl Callee then connectCSEffectiveParametersExt E curFunc I Callee g
          else connect_args curFunc c I Callee g)
      | None \<Rightarrow> connect_candidates E curFunc I (e_indirect E (di_id I)) g)"

definition callees_of :: "dg_env \<Rightarrow> dg_inst \<Rightarrow> nat option \<Rightarrow> nat list" where
  "callees_of E I callee = (case callee of Some c \<Rightarrow> [c] | None \<Rightarrow> e_indirect E (di_id I))"

definition connectCSCalledReturnValue :: "dg_env \<Rightarrow> nat \<Rightarrow> dg_inst \<Rightarrow> nat option \<Rightarrow> depgraph \<Rightarrow> dg_error + depgraph" where
  "connectCSCalledReturnValue E curFunc I callee =
     foldE (\<lambda>c g. bindE (fn_of E c) (\<lambda>Callee.
       if \<not> df_decl Callee \<and> \<not> df_ret_void Callee
       then (case getReturnValue (df_returns Callee) of
          None \<Rightarrow> Inl DG_Assertion
        | Some r \<Rightarrow> Inr (addEdge_ll r (di_id I) (llvm_node curFunc (di_id I) g)))
       else Inr g)) (callees_of E I callee)"

definition connectCSRetChi :: "dg_env \<Rightarrow> nat \<Rightarrow> dg_inst \<Rightarrow> nat option \<Rightarrow> depgraph \<Rightarrow> dg_error + depgraph" where
  "connectCSRetChi E curFunc I callee =
     foldE (\<lambda>c g. bindE (fn_of E c) (\<lambda>Callee.
       if df_decl Callee \<and> df_ret_ptr Callee
       then foldE (\<lambda>Chi g. bindE (opVar Chi) (\<lambda>op.
              let g1 = addEdge_ss op (chi_var Chi) (ssa_node curFunc op (ssa_node curFunc (chi_var Chi) g))
              in case extCallSiteToCalleeRetChi (e_mssa E) c of
                   None \<Rightarrow> Inl DG_Assertion
                 | Some m \<Rightarrow> bindE (at m (di_id I)) (\<lambda>RetChi. Inr (addEdge_ss (chi_var RetChi) (chi_var Chi) g1))))
              (extCallSiteToCallerRetChi (e_mssa E) (di_id I)) g
       else Inr g)) (callees_of E I callee)"

text \<open>The function edges of a call: for an indirect one the last candidate stays in
  \<open>callToFuncEdges\<close>.\<close>

definition link_callee :: "dg_env \<Rightarrow> dg_inst \<Rightarrow> nat \<Rightarrow> depgraph \<Rightarrow> dg_error + depgraph" where
  "link_callee E CI c g =
     bindE (fn_of E c) (\<lambda>Callee.
       let g1 = g\<lparr>callToFuncEdges := (callToFuncEdges g)(di_id CI \<mapsto> c), funcToCallSites := map_insert c (di_id CI) (funcToCallSites g)\<rparr>
       in Inr (if list_ex (\<lambda>(n, a). df_name Callee = n \<and> a = -1) (ValueSourceFunctions (e_tables E))
               then g1\<lparr>valueSources := set_add (di_id CI) (valueSources g1)\<rparr> else g1))"

definition link_conditions :: "dg_env \<Rightarrow> nat \<Rightarrow> nat \<Rightarrow> dg_inst \<Rightarrow> depgraph \<Rightarrow> depgraph" where
  "link_conditions E curFunc BB CI g =
     fold (\<lambda>Pred g. g\<lparr>condToCallEdges := map_insert Pred (di_id CI) (condToCallEdges g),
                      callsiteToConds := map_insert (di_id CI) Pred (callsiteToConds g)\<rparr>)
       (e_ipdf_preds E BB) (g\<lparr>funcToCallNodes := map_insert curFunc (di_id CI) (funcToCallNodes g)\<rparr>)"

definition connectSyncChis :: "dg_env \<Rightarrow> nat \<Rightarrow> dg_inst \<Rightarrow> depgraph \<Rightarrow> dg_error + depgraph" where
  "connectSyncChis E curFunc CI =
     foldE (\<lambda>Chi g. bindE (opVar Chi) (\<lambda>op.
       let g1 = addEdge_ss op (chi_var Chi) (ssa_node curFunc op (ssa_node curFunc (chi_var Chi) g))
       in Inr (g1\<lparr>taintResetSSANodes := set_add (chi_var Chi) (taintResetSSANodes g1)\<rparr>)))
       (callSiteToSyncChiMap (e_mssa E) (di_id CI))"

definition visitCallInst :: "dg_env \<Rightarrow> nat \<Rightarrow> nat \<Rightarrow> dg_inst \<Rightarrow> nat option \<Rightarrow> bool \<Rightarrow> depgraph \<Rightarrow> dg_error + depgraph" where
  "visitCallInst E curFunc BB CI callee dbg g =
     (if dbg then Inr g
      else bindE (connectCSMus E curFunc CI g) (\<lambda>g1.
           bindE (connectCSChis E curFunc CI g1) (\<lambda>g2.
           bindE (connectCSEffectiveParameters E curFunc CI callee g2) (\<lambda>g3.
           bindE (connectCSCalledReturnValue E curFunc CI callee g3) (\<lambda>g4.
           bindE (connectCSRetChi E curFunc CI callee g4) (\<lambda>g5.
           bindE (foldE (link_callee E CI) (callees_of E CI callee) (link_conditions E curFunc BB CI g5))
             (connectSyncChis E curFunc CI)))))))"

section \<open>Functions\<close>

text \<open>The dispatch of the instruction visitor. An unhandled instruction is reported and
  otherwise ignored.\<close>

fun visit_inst :: "dg_env \<Rightarrow> nat \<Rightarrow> nat \<Rightarrow> dg_inst \<Rightarrow> depgraph \<Rightarrow> dg_error + depgraph" where
  "visit_inst E curFunc BB I g =
     (case di_op I of
        AllocaOp \<Rightarrow> Inr g
      | TermOp \<Rightarrow> Inr g
      | CmpOp \<Rightarrow> Inr (visitCmpInst curFunc I g)
      | UnaryOp \<Rightarrow> Inr (visitUnaryOperator curFunc I g)
      | FreezeOp \<Rightarrow> Inr (visitFreezeInst curFunc I g)
      | GepOp \<Rightarrow> Inr (visitGetElementPtrInst curFunc I g)
      | CastOp \<Rightarrow> Inr (visitCastInst curFunc I g)
      | SelectOp \<Rightarrow> Inr (visitSelectInst curFunc I g)
      | BinaryOp \<Rightarrow> Inr (visitBinaryOperator curFunc I g)
      | ExtractValueOp \<Rightarrow> Inr (visitExtractValueInst curFunc I g)
      | ExtractElementOp \<Rightarrow> Inr (visitExtractElementInst curFunc I g)
      | InsertElementOp \<Rightarrow> Inr (visitInsertElementInst curFunc I g)
      | InsertValueOp \<Rightarrow> Inr (visitInsertValueInst curFunc I g)
      | ShuffleVectorOp \<Rightarrow> Inr (visitShuffleVectorInst curFunc I g)
      | LoadOp name \<Rightarrow> bindE (arg_of I 0) (\<lambda>ptr. Inr (visitLoadInst E curFunc I ptr name g))
      | StoreOp \<Rightarrow> bindE (arg_of I 0) (\<lambda>val. bindE (arg_of I 1) (\<lambda>ptr. visitStoreInst E curFunc I val ptr g))
      | PhiOp \<Rightarrow> Inr (visitPHINode E curFunc I g)
      | CallOp callee dbg \<Rightarrow> visitCallInst E curFunc BB I callee dbg g
      | UnhandledOp \<Rightarrow> Inr g)"

definition visit_function :: "dg_env \<Rightarrow> dg_fn \<Rightarrow> depgraph \<Rightarrow> dg_error + depgraph" where
  "visit_function E F =
     foldE (\<lambda>(BB, insts) g. foldE (visit_inst E (df_id F) BB) insts (visitBasicBlock E (df_id F) BB g)) (df_blocks F)"

definition add_entry_chis :: "dg_env \<Rightarrow> dg_fn \<Rightarrow> depgraph \<Rightarrow> depgraph" where
  "add_entry_chis E F =
     fold (\<lambda>Chi g. let g1 = ssa_node (df_id F) (chi_var Chi) g in
       case chi_opVar Chi of None \<Rightarrow> g1 | Some op \<Rightarrow> addEdge_ss op (chi_var Chi) (ssa_node (df_id F) op g1))
       (funToEntryChiMap (e_mssa E) (df_id F))"

definition exit_chi :: "nat \<Rightarrow> mchi \<Rightarrow> depgraph \<Rightarrow> dg_error + depgraph" where
  "exit_chi F ExitChi g = (case chi_opVar ExitChi of
     None \<Rightarrow> Inl DG_Null
   | Some op \<Rightarrow> Inr (addEdge_ss op (chi_var ExitChi) (ssa_node F (chi_var ExitChi) g)))"

definition add_vararg_chis :: "dg_env \<Rightarrow> dg_fn \<Rightarrow> depgraph \<Rightarrow> dg_error + depgraph" where
  "add_vararg_chis E F g =
     (if df_vararg F
      then foldE (\<lambda>(CS, ExitChi). exit_chi (df_id F) ExitChi) (getRange (extCallSiteToVarArgExitChi (e_mssa E)) (df_id F))
             (fold (\<lambda>(CS, EntryChi). ssa_node (df_id F) (chi_var EntryChi))
               (getRange (extCallSiteToVarArgEntryChi (e_mssa E)) (df_id F)) g)
      else Inr g)"

definition add_arg_chis :: "dg_env \<Rightarrow> dg_fn \<Rightarrow> depgraph \<Rightarrow> dg_error + depgraph" where
  "add_arg_chis E F =
     foldE (\<lambda>(ArgNo, Arg, ptr) g.
       if \<not> ptr then Inr g
       else bindE (foldE (\<lambda>(CS, m) g. bindE (at m ArgNo) (\<lambda>EntryChi. Inr (ssa_node (df_id F) (chi_var EntryChi) g)))
                    (getRange (extCallSiteToArgEntryChi (e_mssa E)) (df_id F)) g)
              (foldE (\<lambda>(CS, m) g. bindE (at m ArgNo) (\<lambda>ExitChi. exit_chi (df_id F) ExitChi g))
                (getRange (extCallSiteToArgExitChi (e_mssa E)) (df_id F))))
       (zip [0..<length (df_args F)] (df_args F))"

definition add_ret_chis :: "dg_env \<Rightarrow> dg_fn \<Rightarrow> depgraph \<Rightarrow> depgraph" where
  "add_ret_chis E F g =
     (if df_ret_ptr F
      then fold (\<lambda>(CS, RetChi). ssa_node (df_id F) (chi_var RetChi)) (getRange (extCallSiteToCalleeRetChi (e_mssa E)) (df_id F)) g
      else g)"

definition ret_chi :: "dg_env \<Rightarrow> dg_fn \<Rightarrow> nat \<Rightarrow> dg_error + mchi" where
  "ret_chi E F CS = (case extCallSiteToCalleeRetChi (e_mssa E) (df_id F) of None \<Rightarrow> Inl DG_Null | Some m \<Rightarrow> at m CS)"

text \<open>\<open>memcpy\<close> and \<open>memmove\<close> copy the second argument to the first; \<open>memset\<close> writes its second
  argument. All return the first.\<close>

definition return_first :: "dg_env \<Rightarrow> dg_fn \<Rightarrow> nat \<Rightarrow> mchi \<Rightarrow> depgraph \<Rightarrow> dg_error + depgraph" where
  "return_first E F CS DstExitChi g =
     (if df_ret_ptr F then bindE (ret_chi E F CS) (\<lambda>RetChi. Inr (addEdge_ss (chi_var DstExitChi) (chi_var RetChi) g)) else Inr g)"

definition copy_edges :: "dg_env \<Rightarrow> dg_fn \<Rightarrow> depgraph \<Rightarrow> dg_error + depgraph" where
  "copy_edges E F =
     foldE (\<lambda>(CS, m) g.
       bindE (deref m 1) (\<lambda>SrcEntryChi.
       bindE (deref (entry_or_empty (getRange (extCallSiteToArgExitChi (e_mssa E)) (df_id F)) CS) 0) (\<lambda>DstExitChi.
         return_first E F CS DstExitChi (addEdge_ss (chi_var SrcEntryChi) (chi_var DstExitChi) g))))
       (getRange (extCallSiteToArgEntryChi (e_mssa E)) (df_id F))"

definition memset_edges :: "dg_env \<Rightarrow> dg_fn \<Rightarrow> depgraph \<Rightarrow> dg_error + depgraph" where
  "memset_edges E F =
     foldE (\<lambda>(CS, m) g.
       bindE (deref m 0) (\<lambda>ArgExitChi.
         if length (df_args F) < 2 then Inl DG_Assertion
         else return_first E F CS ArgExitChi (addEdge_ls (fst (df_args F ! 1)) (chi_var ArgExitChi) g)))
       (getRange (extCallSiteToArgExitChi (e_mssa E)) (df_id F))"

definition var_arg_chi :: "(nat \<Rightarrow> (nat \<times> mchi) list option) \<Rightarrow> dg_fn \<Rightarrow> nat \<Rightarrow> dg_error + nat list" where
  "var_arg_chi m F Cs =
     (if df_vararg F then (case m (df_id F) of None \<Rightarrow> Inl DG_Null | Some l \<Rightarrow> bindE (at l Cs) (\<lambda>Chi. Inr [chi_var Chi]))
      else Inr [])"

text \<open>An unknown external function: every input reaches every output.\<close>

definition unknown_edges :: "dg_env \<Rightarrow> dg_fn \<Rightarrow> depgraph \<Rightarrow> dg_error + depgraph" where
  "unknown_edges E F =
     foldE (\<lambda>Cs g.
       bindE (var_arg_chi (extCallSiteToVarArgExitChi (e_mssa E)) F Cs) (\<lambda>VarOut.
       bindE (if df_ret_ptr F then bindE (ret_chi E F Cs) (\<lambda>RetChi. Inr [chi_var RetChi]) else Inr []) (\<lambda>RetOut.
       bindE (var_arg_chi (extCallSiteToVarArgEntryChi (e_mssa E)) F Cs) (\<lambda>VarIn.
         let SsaOutputs = to_set (map (\<lambda>p. chi_var (snd p)) (entry_or_empty (getRange (extCallSiteToArgExitChi (e_mssa E)) (df_id F)) Cs)
               @ VarOut @ RetOut);
             SsaInputs = to_set (map (\<lambda>p. chi_var (snd p)) (entry_or_empty (getRange (extCallSiteToArgEntryChi (e_mssa E)) (df_id F)) Cs)
               @ VarIn);
             g1 = fold (\<lambda>In. fold (\<lambda>Out. addEdge_ss In Out) SsaOutputs) SsaInputs g
         in Inr (fold (\<lambda>(Arg, ptr). fold (\<lambda>Out. addEdge_ls Arg Out) SsaOutputs) (df_args F) g1)))))
       (extFuncToCSMap (e_mssa E) (df_id F))"

definition add_sources :: "dg_env \<Rightarrow> dg_fn \<Rightarrow> depgraph \<Rightarrow> dg_error + depgraph" where
  "add_sources E F =
     foldE (\<lambda>(Name, ArgNo) g. if df_name F \<noteq> Name then Inr g
       else foldE (\<lambda>(CS, m) g. bindE (at m (nat ArgNo)) (\<lambda>Chi. Inr (g\<lparr>ssaSources := set_add (chi_var Chi) (ssaSources g)\<rparr>)))
              (getRange (extCallSiteToArgExitChi (e_mssa E)) (df_id F)) g)
       (SsaSourceFunctions (e_tables E))"

definition build_external :: "dg_env \<Rightarrow> dg_fn \<Rightarrow> depgraph \<Rightarrow> dg_error + depgraph" where
  "build_external E F g =
     bindE (add_vararg_chis E F g) (\<lambda>g1.
     bindE (add_arg_chis E F g1) (\<lambda>g2.
     bindE ((if has_substring ''memcpy'' (df_name F) \<or> has_substring ''memmove'' (df_name F) then copy_edges E F
             else if has_substring ''memset'' (df_name F) then memset_edges E F
             else unknown_edges E F) (add_ret_chis E F g2))
       (add_sources E F)))"

definition buildFunction :: "dg_env \<Rightarrow> dg_fn \<Rightarrow> depgraph \<Rightarrow> dg_error + depgraph" where
  "buildFunction E F g =
     bindE (visit_function E F g) (\<lambda>g1.
       let g2 = add_entry_chis E F g1
       in if df_decl F then build_external E F g2 else Inr g2)"

definition build_graph :: "dg_env \<Rightarrow> dg_error + depgraph" where
  "build_graph E =
     foldE (\<lambda>F g. if \<not> e_reachable E (df_id F) \<or> take 8 (df_name F) = ''llvm.dbg'' then Inr g else buildFunction E F g)
       (e_fns E) empty_graph"

end
