(* ===== verification/Dep_Build.thy ===== *)
theory Dep_Build
  imports Dep_Graph
begin

text \<open>
  What the construction of the dependence graph guarantees: the maps of parents
  are the converses of the maps of children, and the graph only grows, so every
  instruction of a reachable function finds its edges in the result.
\<close>

section \<open>Mirrored maps\<close>

definition ascending :: "nodemap \<Rightarrow> bool" where
  "ascending C \<longleftrightarrow> (\<forall>k. sorted_wrt (<) (getRange C k))"

definition mirrored :: "nodemap \<Rightarrow> nodemap \<Rightarrow> bool" where
  "mirrored C P \<longleftrightarrow> (\<forall>s d. d \<in> set (getRange C s) \<longleftrightarrow> s \<in> set (getRange P d)) \<and> ascending C \<and> ascending P"

lemma sorted_remove: "sorted_wrt (<) (ys :: nat list) \<Longrightarrow> sorted_wrt (<) (remove1 x ys) \<and> set (remove1 x ys) = set ys - {x}"
  by (simp add: strict_sorted_iff sorted_remove1)

lemma range_insert [simp]: "getRange (map_insert K v C) k = (if k = K then set_add v (getRange C K) else getRange C k)"
  by (simp add: map_insert_def getRange_def)

lemma range_erase [simp]: "getRange (map_erase K v C) k = (if k = K then remove1 v (getRange C K) else getRange C k)"
  by (simp add: map_erase_def getRange_def)

lemma mirrored_insert: "mirrored C P \<Longrightarrow> mirrored (map_insert S D C) (map_insert D S P)"
  by (auto simp: mirrored_def ascending_def sorted_set_add)

lemma mirrored_erase: "mirrored C P \<Longrightarrow> mirrored (map_erase S D C) (map_erase D S P)"
  using sorted_remove by (auto simp: mirrored_def ascending_def)

definition wf_graph :: "depgraph \<Rightarrow> bool" where
  "wf_graph g \<longleftrightarrow> mirrored (llvmToLLVMChildren g) (llvmToLLVMParents g) \<and> mirrored (llvmToSSAChildren g) (ssaToLLVMParents g) \<and>
     mirrored (ssaToLLVMChildren g) (llvmToSSAParents g) \<and> mirrored (ssaToSSAChildren g) (ssaToSSAParents g) \<and>
     ascending (funcToLLVMNodesMap g) \<and> ascending (funcToSSANodesMap g)"

lemma wf_empty: "wf_graph empty_graph"
  by (simp add: wf_graph_def mirrored_def ascending_def empty_graph_def getRange_def)

section \<open>Edges\<close>

datatype gnode = L nat | S nat

definition edge_set :: "depgraph \<Rightarrow> (gnode \<times> gnode) set" where
  "edge_set g = {(L s, L d) |s d. d \<in> set (getRange (llvmToLLVMChildren g) s)} \<union>
     {(L s, S d) |s d. d \<in> set (getRange (llvmToSSAChildren g) s)} \<union>
     {(S s, L d) |s d. d \<in> set (getRange (ssaToLLVMChildren g) s)} \<union>
     {(S s, S d) |s d. d \<in> set (getRange (ssaToSSAChildren g) s)}"

lemma edge_set_iff:
  "(L s, L d) \<in> edge_set g \<longleftrightarrow> d \<in> set (getRange (llvmToLLVMChildren g) s)"
  "(L s, S d) \<in> edge_set g \<longleftrightarrow> d \<in> set (getRange (llvmToSSAChildren g) s)"
  "(S s, L d) \<in> edge_set g \<longleftrightarrow> d \<in> set (getRange (ssaToLLVMChildren g) s)"
  "(S s, S d) \<in> edge_set g \<longleftrightarrow> d \<in> set (getRange (ssaToSSAChildren g) s)"
  by (auto simp: edge_set_def)

text \<open>The maps that hold the graph itself.\<close>

definition same_graph :: "depgraph \<Rightarrow> depgraph \<Rightarrow> bool" where
  "same_graph g h \<longleftrightarrow> funcToLLVMNodesMap g = funcToLLVMNodesMap h \<and> funcToSSANodesMap g = funcToSSANodesMap h \<and>
     llvmToLLVMChildren g = llvmToLLVMChildren h \<and> llvmToLLVMParents g = llvmToLLVMParents h \<and>
     llvmToSSAChildren g = llvmToSSAChildren h \<and> llvmToSSAParents g = llvmToSSAParents h \<and>
     ssaToLLVMChildren g = ssaToLLVMChildren h \<and> ssaToLLVMParents g = ssaToLLVMParents h \<and>
     ssaToSSAChildren g = ssaToSSAChildren h \<and> ssaToSSAParents g = ssaToSSAParents h"

text \<open>Every operation of the construction is a sequence of additions.\<close>

inductive addition :: "depgraph \<Rightarrow> depgraph \<Rightarrow> bool" where
  "addition g (addEdge_ll s d g)"
| "addition g (addEdge_ls s d g)"
| "addition g (addEdge_sl s d g)"
| "addition g (addEdge_ss s d g)"
| "addition g (llvm_node F v g)"
| "addition g (ssa_node F v g)"
| "same_graph g h \<Longrightarrow> addition g h"

definition grown :: "depgraph \<Rightarrow> depgraph \<Rightarrow> bool" where
  "grown = addition\<^sup>*\<^sup>*"

lemma grown_refl [simp]: "grown g g"
  by (simp add: grown_def)

lemma grown_trans [trans]: "grown f g \<Longrightarrow> grown g h \<Longrightarrow> grown f h"
  unfolding grown_def by (rule rtranclp_trans)

lemma grown_step: "grown f g \<Longrightarrow> addition g h \<Longrightarrow> grown f h"
  unfolding grown_def by (rule rtranclp.rtrancl_into_rtrancl)

lemma grown_add [simp, intro]:
  "grown f g \<Longrightarrow> grown f (addEdge_ll s d g)" "grown f g \<Longrightarrow> grown f (addEdge_ls s d g)"
  "grown f g \<Longrightarrow> grown f (addEdge_sl s d g)" "grown f g \<Longrightarrow> grown f (addEdge_ss s d g)"
  "grown f g \<Longrightarrow> grown f (llvm_node F v g)" "grown f g \<Longrightarrow> grown f (ssa_node F v g)"
  by (auto intro: grown_step addition.intros)

lemma grown_same: "grown f g \<Longrightarrow> same_graph g h \<Longrightarrow> grown f h"
  by (auto intro: grown_step addition.intros)

lemma grown_other [simp, intro]:
  "grown f g \<Longrightarrow> grown f (g\<lparr>ssaSources := a\<rparr>)" "grown f g \<Longrightarrow> grown f (g\<lparr>valueSources := a\<rparr>)"
  "grown f g \<Longrightarrow> grown f (g\<lparr>taintResetSSANodes := a\<rparr>)" "grown f g \<Longrightarrow> grown f (g\<lparr>funcToCallNodes := m\<rparr>)"
  "grown f g \<Longrightarrow> grown f (g\<lparr>callToFuncEdges := e, funcToCallSites := m\<rparr>)"
  "grown f g \<Longrightarrow> grown f (g\<lparr>condToCallEdges := m, callsiteToConds := n\<rparr>)"
  by (erule grown_same, simp add: same_graph_def)+

lemma grown_fold:
  assumes "grown f g" "\<And>x h. x \<in> set xs \<Longrightarrow> grown f h \<Longrightarrow> grown f (op x h)"
  shows "grown f (fold op xs g)"
  using assms by (induction xs arbitrary: g) simp_all

text \<open>A step that may fail.\<close>

definition adds :: "depgraph \<Rightarrow> dg_error + depgraph \<Rightarrow> bool" where
  "adds f r \<longleftrightarrow> (\<forall>h. r = Inr h \<longrightarrow> grown f h)"

lemma adds_Inl [intro]: "adds f (Inl e)"
  by (simp add: adds_def)

lemma adds_Inr [intro]: "grown f g \<Longrightarrow> adds f (Inr g)"
  by (simp add: adds_def)

lemma adds_bind: "(\<And>x. m = Inr x \<Longrightarrow> adds f (k x)) \<Longrightarrow> adds f (bindE m k)"
  by (auto simp: adds_def bindE_eq_Inr)

lemma adds_seq: "adds f m \<Longrightarrow> (\<And>h. grown f h \<Longrightarrow> adds f (k h)) \<Longrightarrow> adds f (bindE m k)"
  by (auto simp: adds_def bindE_eq_Inr)

lemma adds_if: "(c \<Longrightarrow> adds f a) \<Longrightarrow> (\<not> c \<Longrightarrow> adds f b) \<Longrightarrow> adds f (if c then a else b)"
  by simp

lemma adds_option: "(x = None \<Longrightarrow> adds f a) \<Longrightarrow> (\<And>y. x = Some y \<Longrightarrow> adds f (b y)) \<Longrightarrow> adds f (case x of None \<Rightarrow> a | Some y \<Rightarrow> b y)"
  by (cases x) auto

lemma adds_foldE:
  assumes "grown f g" "\<And>x h. x \<in> set xs \<Longrightarrow> grown f h \<Longrightarrow> adds f (op x h)"
  shows "adds f (foldE op xs g)"
  using assms by (induction xs arbitrary: g) (auto intro!: adds_seq)

lemma grown_if: "(c \<Longrightarrow> grown f a) \<Longrightarrow> (\<not> c \<Longrightarrow> grown f b) \<Longrightarrow> grown f (if c then a else b)"
  by simp

lemmas adds_rules = adds_Inl adds_Inr adds_if adds_option adds_foldE grown_if grown_fold grown_add grown_other

lemma addition_wf: "addition g h \<Longrightarrow> wf_graph g \<Longrightarrow> wf_graph h"
proof (induction rule: addition.induct)
  case (7 g h)
  then show ?case by (simp add: wf_graph_def same_graph_def)
qed (auto simp: wf_graph_def addEdge_ll_def addEdge_ls_def addEdge_sl_def addEdge_ss_def llvm_node_def
    ssa_node_def mirrored_insert, auto simp: ascending_def sorted_set_add)

lemma addition_edges: "addition g h \<Longrightarrow> edge_set g \<subseteq> edge_set h"
proof (induction rule: addition.induct)
  case (7 g h)
  then show ?case by (simp add: same_graph_def edge_set_def)
qed (auto simp: edge_set_def addEdge_ll_def addEdge_ls_def addEdge_sl_def addEdge_ss_def llvm_node_def ssa_node_def)

lemma grown_edges: "grown g h \<Longrightarrow> edge_set g \<subseteq> edge_set h"
  unfolding grown_def
proof (induction rule: rtranclp_induct)
  case (step h k)
  then show ?case using addition_edges [of h k] by blast
qed simp

lemma grown_wf: "grown g h \<Longrightarrow> wf_graph g \<Longrightarrow> wf_graph h"
  unfolding grown_def
proof (induction rule: rtranclp_induct)
  case (step h k)
  then show ?case using addition_wf [of h k] by blast
qed simp

section \<open>The construction only adds\<close>

lemma grown_operands: "grown f g \<Longrightarrow> grown f (connect_operands F I g)"
  unfolding connect_operands_def by (intro adds_rules) auto

lemma grown_block: "grown f g \<Longrightarrow> grown f (visitBasicBlock E F BB g)"
  unfolding visitBasicBlock_def Let_def split_beta by (intro adds_rules)

lemma grown_phi: "grown f g \<Longrightarrow> grown f (visitPHINode E F I g)"
  unfolding visitPHINode_def Let_def by (intro adds_rules grown_operands)

lemma grown_load: "grown f g \<Longrightarrow> grown f (visitLoadInst E F I p n g)"
  unfolding visitLoadInst_def Let_def by (intro adds_rules)

lemma adds_store: "grown f g \<Longrightarrow> adds f (visitStoreInst E F I v p g)"
  unfolding visitStoreInst_def Let_def by (intro adds_rules adds_bind)

lemma adds_mu: "grown f g \<Longrightarrow> adds f (connectCSMu E F I Mu g)"
  unfolding connectCSMu_def Let_def by (cases "mu_kind Mu"; simp only: mu_kind.case; intro adds_rules adds_bind)

lemma adds_mus: "grown f g \<Longrightarrow> adds f (connectCSMus E F I g)"
  unfolding connectCSMus_def by (intro adds_rules adds_mu)

lemma adds_chi: "grown f g \<Longrightarrow> adds f (connectCSChi E F I Chi g)"
  unfolding connectCSChi_def Let_def by (cases "chi_kind Chi"; simp only: chi_kind.case; intro adds_rules adds_bind)

lemma adds_chis: "grown f g \<Longrightarrow> adds f (connectCSChis E F I g)"
  unfolding connectCSChis_def by (intro adds_rules adds_chi)

lemma adds_args: "grown f g \<Longrightarrow> adds f (connect_args F G I H g)"
  unfolding connect_args_def split_beta by (intro adds_rules adds_bind)

lemma adds_params_ext: "grown f g \<Longrightarrow> adds f (connectCSEffectiveParametersExt E F I H g)"
  unfolding connectCSEffectiveParametersExt_def by (intro adds_rules adds_bind)

lemma adds_candidates: "grown f g \<Longrightarrow> adds f (connect_candidates E F I cs g)"
proof (induction cs arbitrary: g)
  case (Cons c cs)
  show ?case unfolding connect_candidates.simps
  proof (rule adds_bind)
    fix C
    have "adds f (bindE (connect_args F null_fn I C g) (connect_candidates E F I cs))"
      by (rule adds_seq [OF adds_args [OF Cons.prems] Cons.IH])
    with adds_params_ext [OF Cons.prems]
    show "adds f (if df_decl C then connectCSEffectiveParametersExt E F I C g
      else bindE (connect_args F null_fn I C g) (connect_candidates E F I cs))" by simp
  qed
qed auto

lemma adds_params: "grown f g \<Longrightarrow> adds f (connectCSEffectiveParameters E F I c g)"
  unfolding connectCSEffectiveParameters_def by (intro adds_rules adds_bind adds_params_ext adds_args adds_candidates)

lemma adds_retval: "grown f g \<Longrightarrow> adds f (connectCSCalledReturnValue E F I c g)"
  unfolding connectCSCalledReturnValue_def by (intro adds_rules adds_bind)

lemma adds_retchi: "grown f g \<Longrightarrow> adds f (connectCSRetChi E F I c g)"
  unfolding connectCSRetChi_def Let_def by (intro adds_rules adds_bind)

lemma grown_conditions: "grown f g \<Longrightarrow> grown f (link_conditions E F BB I g)"
  unfolding link_conditions_def by (intro adds_rules)

lemma adds_callee: "grown f g \<Longrightarrow> adds f (link_callee E I c g)"
  unfolding link_callee_def Let_def by (intro adds_rules adds_bind)

lemma adds_sync: "grown f g \<Longrightarrow> adds f (connectSyncChis E F I g)"
  unfolding connectSyncChis_def Let_def by (intro adds_rules adds_bind)

lemma adds_call: "grown f g \<Longrightarrow> adds f (visitCallInst E F BB I c dbg g)"
  unfolding visitCallInst_def
  by (intro adds_if adds_Inr adds_seq adds_mus adds_chis adds_params adds_retval adds_retchi adds_foldE grown_conditions
      adds_callee adds_sync)

lemmas operand_visits = visitCmpInst_def visitUnaryOperator_def visitFreezeInst_def visitGetElementPtrInst_def
  visitCastInst_def visitSelectInst_def visitBinaryOperator_def visitExtractValueInst_def visitExtractElementInst_def
  visitInsertElementInst_def visitInsertValueInst_def visitShuffleVectorInst_def

lemma adds_inst: "grown f g \<Longrightarrow> adds f (visit_inst E F BB I g)"
  by (cases "di_op I"; simp add: operand_visits)
    (intro adds_Inr adds_bind grown_operands grown_load grown_phi adds_store adds_call; assumption)+

lemma adds_function: "grown f g \<Longrightarrow> adds f (visit_function E F g)"
  unfolding visit_function_def split_beta by (intro adds_foldE grown_block adds_inst)

lemma grown_entry: "grown f g \<Longrightarrow> grown f (add_entry_chis E F g)"
  unfolding add_entry_chis_def Let_def by (rule grown_fold) (auto split: option.split)

lemma adds_exit: "grown f g \<Longrightarrow> adds f (exit_chi F Chi g)"
  unfolding exit_chi_def by (intro adds_rules)

lemma adds_vararg: "grown f g \<Longrightarrow> adds f (add_vararg_chis E F g)"
  unfolding add_vararg_chis_def split_beta by (intro adds_rules adds_exit)

lemma adds_arg_chis: "grown f g \<Longrightarrow> adds f (add_arg_chis E F g)"
  unfolding add_arg_chis_def split_beta
  by (intro adds_foldE adds_if adds_Inr adds_seq adds_exit grown_add)
    (assumption | rule adds_bind adds_Inr adds_exit grown_add)+

lemma grown_ret: "grown f g \<Longrightarrow> grown f (add_ret_chis E F g)"
  unfolding add_ret_chis_def split_beta by (intro adds_rules)

lemma adds_return_first: "grown f g \<Longrightarrow> adds f (return_first E F CS Chi g)"
  unfolding return_first_def by (intro adds_rules adds_bind)

lemma adds_copy: "grown f g \<Longrightarrow> adds f (copy_edges E F g)"
  unfolding copy_edges_def split_beta by (intro adds_rules adds_bind adds_return_first)

lemma adds_memset: "grown f g \<Longrightarrow> adds f (memset_edges E F g)"
  unfolding memset_edges_def split_beta by (intro adds_rules adds_bind adds_return_first)

lemma adds_unknown: "grown f g \<Longrightarrow> adds f (unknown_edges E F g)"
  unfolding unknown_edges_def split_beta Let_def by (intro adds_rules adds_bind)

lemma adds_sources: "grown f g \<Longrightarrow> adds f (add_sources E F g)"
  unfolding add_sources_def split_beta by (intro adds_rules adds_bind)

lemma adds_external: "grown f g \<Longrightarrow> adds f (build_external E F g)"
  unfolding build_external_def
proof (intro adds_seq adds_vararg adds_arg_chis adds_sources)
  fix h assume "grown f h"
  then show "adds f ((if has_substring ''memcpy'' (df_name F) \<or> has_substring ''memmove'' (df_name F) then copy_edges E F
     else if has_substring ''memset'' (df_name F) then memset_edges E F else unknown_edges E F) (add_ret_chis E F h))"
    using adds_copy adds_memset adds_unknown grown_ret by simp
qed

lemma adds_build: "grown f g \<Longrightarrow> adds f (buildFunction E F g)"
  unfolding buildFunction_def Let_def by (intro adds_seq adds_function adds_if adds_external adds_Inr grown_entry)

lemma adds_graph: "adds empty_graph (build_graph E)"
  unfolding build_graph_def by (intro adds_foldE adds_if adds_Inr adds_build grown_refl)

section \<open>Edges of the result\<close>

definition has_edge :: "gnode \<times> gnode \<Rightarrow> dg_error + depgraph \<Rightarrow> bool" where
  "has_edge e r \<longleftrightarrow> (\<forall>h. r = Inr h \<longrightarrow> e \<in> edge_set h)"

lemma has_Inl [simp]: "has_edge e (Inl x)"
  by (simp add: has_edge_def)

lemma has_Inr: "e \<in> edge_set h \<Longrightarrow> has_edge e (Inr h)"
  by (simp add: has_edge_def)

lemma has_bind: "(\<And>x. m = Inr x \<Longrightarrow> has_edge e (k x)) \<Longrightarrow> has_edge e (bindE m k)"
  by (auto simp: has_edge_def bindE_eq_Inr)

lemma has_before: "has_edge e m \<Longrightarrow> (\<And>h. adds h (k h)) \<Longrightarrow> has_edge e (bindE m k)"
  using grown_edges by (fastforce simp: has_edge_def adds_def bindE_eq_Inr)

lemma has_foldE:
  assumes "x \<in> set xs" "\<And>h. has_edge e (op x h)" "\<And>y h. adds h (op y h)"
  shows "has_edge e (foldE op xs g)"
  using assms(1)
proof (induction xs arbitrary: g)
  case (Cons y ys)
  have tail: "adds h (foldE op ys h)" for h
  proof (rule adds_foldE)
    fix y k assume "grown h k"
    with assms(3) [of k y] show "adds h (op y k)" by (auto simp: adds_def intro: grown_trans)
  qed simp
  show ?case
  proof (cases "x = y")
    case True
    then show ?thesis using has_before [OF assms(2) tail] by simp
  next
    case False
    with Cons show ?thesis by (auto intro: has_bind)
  qed
qed simp

lemma has_fold:
  assumes "x \<in> set xs" "\<And>h. e \<in> edge_set (op x h)" "\<And>y h. grown h (op y h)"
  shows "e \<in> edge_set (fold op xs g)"
proof -
  have "has_edge e (foldE (\<lambda>x h. Inr (op x h)) xs g)"
    by (rule has_foldE [OF assms(1)]) (auto simp: has_edge_def assms(2,3))
  moreover have "foldE (\<lambda>x h. Inr (op x h)) xs g = Inr (fold op xs g)"
    by (induction xs arbitrary: g) simp_all
  ultimately show ?thesis unfolding has_edge_def by blast
qed

lemma edges_add [simp]:
  "edge_set (addEdge_ll s d g) = insert (L s, L d) (edge_set g)"
  "edge_set (addEdge_ls s d g) = insert (L s, S d) (edge_set g)"
  "edge_set (addEdge_sl s d g) = insert (S s, L d) (edge_set g)"
  "edge_set (addEdge_ss s d g) = insert (S s, S d) (edge_set g)"
  "edge_set (llvm_node F v g) = edge_set g" "edge_set (ssa_node F v g) = edge_set g"
  by (auto simp: edge_set_def addEdge_ll_def addEdge_ls_def addEdge_sl_def addEdge_ss_def llvm_node_def ssa_node_def split: if_splits)

text \<open>The flows of data and control the graph is meant to hold, inside the code and between it and its callees:
  operands, loads and stores through memory SSA, the predicates of phis, the
  arguments and results of direct calls, and the memory read and written by calls.\<close>

definition value_op :: "dg_op \<Rightarrow> bool" where
  "value_op op \<longleftrightarrow> op \<in> {CmpOp, UnaryOp, FreezeOp, GepOp, CastOp, SelectOp, BinaryOp, ExtractValueOp, ExtractElementOp,
     InsertElementOp, InsertValueOp, ShuffleVectorOp, PhiOp}"

inductive inst_flow :: "dg_env \<Rightarrow> dg_inst \<Rightarrow> gnode \<Rightarrow> gnode \<Rightarrow> bool" for E I where
  operand: "value_op (di_op I) \<Longrightarrow> V \<in> set (di_operands I) \<Longrightarrow> inst_flow E I (L V) (L (di_id I))"
| predicate: "di_op I = PhiOp \<Longrightarrow> \<not> noPred E \<Longrightarrow> V \<in> set (llvmPhiToPredMap (e_mssa E) (di_id I)) \<Longrightarrow> inst_flow E I (L V) (L (di_id I))"
| load: "di_op I = LoadOp n \<Longrightarrow> Mu \<in> set (loadToMuMap (e_mssa E) (di_id I)) \<Longrightarrow> inst_flow E I (S (mu_var Mu)) (L (di_id I))"
| load_pointer: "di_op I = LoadOp n \<Longrightarrow> \<not> noPtrDep E \<Longrightarrow> arg_of I 0 = Inr p \<Longrightarrow> inst_flow E I (L p) (L (di_id I))"
| store: "di_op I = StoreOp \<Longrightarrow> Chi \<in> set (storeToChiMap (e_mssa E) (di_id I)) \<Longrightarrow> arg_of I 0 = Inr v \<Longrightarrow> inst_flow E I (L v) (S (chi_var Chi))"
| store_pointer: "di_op I = StoreOp \<Longrightarrow> \<not> noPtrDep E \<Longrightarrow> Chi \<in> set (storeToChiMap (e_mssa E) (di_id I)) \<Longrightarrow> arg_of I 1 = Inr p \<Longrightarrow>
    inst_flow E I (L p) (S (chi_var Chi))"
| weak_update: "di_op I = StoreOp \<Longrightarrow> OptWeakUpdate E \<Longrightarrow> Chi \<in> set (storeToChiMap (e_mssa E) (di_id I)) \<Longrightarrow> chi_opVar Chi = Some v \<Longrightarrow>
    inst_flow E I (S v) (S (chi_var Chi))"
| argument: "di_op I = CallOp (Some c) False \<Longrightarrow> fn_of E c = Inr C \<Longrightarrow> \<not> df_decl C \<Longrightarrow> k < length (df_args C) \<Longrightarrow>
    arg_of I k = Inr a \<Longrightarrow> inst_flow E I (L a) (L (fst (df_args C ! k)))"
| returned: "di_op I = CallOp (Some c) False \<Longrightarrow> fn_of E c = Inr C \<Longrightarrow> \<not> df_decl C \<Longrightarrow> \<not> df_ret_void C \<Longrightarrow>
    getReturnValue (df_returns C) = Some r \<Longrightarrow> inst_flow E I (L r) (L (di_id I))"
| memory_in: "di_op I = CallOp c False \<Longrightarrow> Mu \<in> set (callSiteToMuMap (e_mssa E) (di_id I)) \<Longrightarrow> mu_kind Mu = CallMu f \<Longrightarrow>
    funRegToEntryChiMap (e_mssa E) f = Some m \<Longrightarrow> m (mu_region Mu) = Some Chi \<Longrightarrow> inst_flow E I (S (mu_var Mu)) (S (chi_var Chi))"
| memory_out: "di_op I = CallOp c False \<Longrightarrow> Chi \<in> set (callSiteToChiMap (e_mssa E) (di_id I)) \<Longrightarrow> chi_kind Chi = CallChi f \<Longrightarrow>
    funRegToReturnMuMap (e_mssa E) f = Some m \<Longrightarrow> m (chi_region Chi) = Some Mu \<Longrightarrow> inst_flow E I (S (mu_var Mu)) (S (chi_var Chi))"
| external_in: "di_op I = CallOp c False \<Longrightarrow> Mu \<in> set (callSiteToMuMap (e_mssa E) (di_id I)) \<Longrightarrow> mu_kind Mu = ExtCallMu f k \<Longrightarrow>
    fn_of E f = Inr F \<Longrightarrow> k < length (df_args F) \<Longrightarrow>
    at (entry_or_empty (getRange (extCallSiteToArgEntryChi (e_mssa E)) f) (di_id I)) k = Inr Chi \<Longrightarrow>
    inst_flow E I (S (mu_var Mu)) (S (chi_var Chi))"
| external_out: "di_op I = CallOp c False \<Longrightarrow> Chi \<in> set (callSiteToChiMap (e_mssa E) (di_id I)) \<Longrightarrow> chi_kind Chi = ExtCallChi f k \<Longrightarrow>
    fn_of E f = Inr F \<Longrightarrow> k < length (df_args F) \<Longrightarrow>
    at (entry_or_empty (getRange (extCallSiteToArgExitChi (e_mssa E)) f) (di_id I)) k = Inr ExitChi \<Longrightarrow>
    inst_flow E I (S (chi_var ExitChi)) (S (chi_var Chi))"

inductive block_flow :: "dg_env \<Rightarrow> nat \<Rightarrow> gnode \<Rightarrow> gnode \<Rightarrow> bool" for E BB where
  memory_phi: "Phi \<in> set (bbToPhiMap (e_mssa E) BB) \<Longrightarrow> (k, v) \<in> set (phi_opsVar Phi) \<Longrightarrow> block_flow E BB (S v) (S (phi_var Phi))"
| memory_predicate: "Phi \<in> set (bbToPhiMap (e_mssa E) BB) \<Longrightarrow> \<not> noPred E \<Longrightarrow> V \<in> set (phi_preds Phi) \<Longrightarrow> block_flow E BB (L V) (S (phi_var Phi))"

inductive flow :: "dg_env \<Rightarrow> gnode \<Rightarrow> gnode \<Rightarrow> bool" for E where
  flow_inst: "F \<in> set (e_fns E) \<Longrightarrow> e_reachable E (df_id F) \<Longrightarrow> take 8 (df_name F) \<noteq> ''llvm.dbg'' \<Longrightarrow> (BB, Is) \<in> set (df_blocks F) \<Longrightarrow>
    I \<in> set Is \<Longrightarrow> inst_flow E I u v \<Longrightarrow> flow E u v"
| flow_block: "F \<in> set (e_fns E) \<Longrightarrow> e_reachable E (df_id F) \<Longrightarrow> take 8 (df_name F) \<noteq> ''llvm.dbg'' \<Longrightarrow> (BB, Is) \<in> set (df_blocks F) \<Longrightarrow>
    block_flow E BB u v \<Longrightarrow> flow E u v"

lemma operands_edge: "V \<in> set (di_operands I) \<Longrightarrow> (L V, L (di_id I)) \<in> edge_set (connect_operands F I g)"
  unfolding connect_operands_def by (erule has_fold) auto

lemma phi_edge: "V \<in> set (di_operands I) \<or> \<not> noPred E \<and> V \<in> set (llvmPhiToPredMap (e_mssa E) (di_id I)) \<Longrightarrow>
    (L V, L (di_id I)) \<in> edge_set (visitPHINode E F I g)"
proof (elim disjE conjE)
  assume V: "V \<in> set (di_operands I)"
  have "grown (connect_operands F I g) (visitPHINode E F I g)"
    unfolding visitPHINode_def Let_def by (intro adds_rules grown_refl)
  then show ?thesis using grown_edges operands_edge [OF V] by blast
next
  assume "\<not> noPred E" "V \<in> set (llvmPhiToPredMap (e_mssa E) (di_id I))"
  then show ?thesis by (auto simp: visitPHINode_def Let_def intro: has_fold)
qed

lemma load_edge:
  "Mu \<in> set (loadToMuMap (e_mssa E) (di_id I)) \<Longrightarrow> (S (mu_var Mu), L (di_id I)) \<in> edge_set (visitLoadInst E F I p n g)"
  "\<not> noPtrDep E \<Longrightarrow> (L p, L (di_id I)) \<in> edge_set (visitLoadInst E F I p n g)"
proof -
  let ?g = "fold (\<lambda>Mu g. addEdge_sl (mu_var Mu) (di_id I) (ssa_node F (mu_var Mu) g)) (loadToMuMap (e_mssa E) (di_id I))
    (llvm_node F p (llvm_node F (di_id I) g))"
  assume "Mu \<in> set (loadToMuMap (e_mssa E) (di_id I))"
  then have "(S (mu_var Mu), L (di_id I)) \<in> edge_set ?g" by (rule has_fold) auto
  moreover have "grown ?g (visitLoadInst E F I p n g)"
    unfolding visitLoadInst_def Let_def by (intro grown_if grown_add grown_other grown_refl)
  ultimately show "(S (mu_var Mu), L (di_id I)) \<in> edge_set (visitLoadInst E F I p n g)" using grown_edges by blast
qed (simp add: visitLoadInst_def Let_def)

lemma store_edge:
  assumes "Chi \<in> set (storeToChiMap (e_mssa E) (di_id I))"
    and "(u = L v \<or> \<not> noPtrDep E \<and> u = L p \<or> OptWeakUpdate E \<and> (\<exists>x. chi_opVar Chi = Some x \<and> u = S x))"
  shows "has_edge (u, S (chi_var Chi)) (visitStoreInst E F I v p g)"
  unfolding visitStoreInst_def
proof (rule has_foldE [OF assms(1)])
  show "has_edge (u, S (chi_var Chi)) (bindE (opVar Chi) (\<lambda>op.
       let g1 = llvm_node F v (llvm_node F p (ssa_node F op (ssa_node F (chi_var Chi) h)));
           g2 = addEdge_ls v (chi_var Chi) g1;
           g3 = (if OptWeakUpdate E then addEdge_ss op (chi_var Chi) g2 else g2)
       in Inr (if noPtrDep E then g3 else addEdge_ls p (chi_var Chi) g3)))" for h
    using assms(2) by (auto intro!: has_bind has_Inr simp: Let_def opVar_def split: option.splits)
qed (unfold Let_def, intro adds_rules adds_bind grown_refl)

lemma mus_edge:
  assumes "Mu \<in> set (callSiteToMuMap (e_mssa E) (di_id I))" "\<And>h. has_edge e (connectCSMu E F I Mu h)"
  shows "has_edge e (connectCSMus E F I g)"
  unfolding connectCSMus_def by (rule has_foldE [OF assms(1)]) (rule assms(2), rule adds_mu, simp)

lemma chis_edge:
  assumes "Chi \<in> set (callSiteToChiMap (e_mssa E) (di_id I))" "\<And>h. has_edge e (connectCSChi E F I Chi h)"
  shows "has_edge e (connectCSChis E F I g)"
  unfolding connectCSChis_def by (rule has_foldE [OF assms(1)]) (rule assms(2), rule adds_chi, simp)

lemma edge_set_reset [simp]: "edge_set (g\<lparr>taintResetSSANodes := r\<rparr>) = edge_set g"
  by (simp add: edge_set_def)

lemma args_edge:
  assumes "k < length (df_args C)" "arg_of I k = Inr a"
  shows "has_edge (L a, L (fst (df_args C ! k))) (connect_args F H I C g)"
proof -
  have "(k, df_args C ! k) \<in> set (zip [0..<length (df_args C)] (df_args C))"
    using assms(1) by (force simp: in_set_zip)
  then show ?thesis
    unfolding connect_args_def split_beta
    by (rule has_foldE) (use assms(2) in \<open>auto intro!: has_Inr adds_bind adds_Inr\<close>)
qed

lemma retval_edge:
  assumes "fn_of E c = Inr C" "\<not> df_decl C" "\<not> df_ret_void C" "getReturnValue (df_returns C) = Some r"
  shows "has_edge (L r, L (di_id I)) (connectCSCalledReturnValue E F I (Some c) g)"
  using assms by (auto simp: connectCSCalledReturnValue_def callees_of_def intro: has_Inr)

lemma call_edge:
  assumes "has_edge e (connectCSMus E F I g) \<or> (\<forall>g. has_edge e (connectCSChis E F I g)) \<or>
    (\<forall>g. has_edge e (connectCSEffectiveParameters E F I c g)) \<or> (\<forall>g. has_edge e (connectCSCalledReturnValue E F I c g))"
  shows "has_edge e (visitCallInst E F BB I c False g)"
proof -
  let ?r4 = "\<lambda>g4. bindE (connectCSRetChi E F I c g4) (\<lambda>g5.
    bindE (foldE (link_callee E I) (callees_of E I c) (link_conditions E F BB I g5)) (connectSyncChis E F I))"
  let ?r3 = "\<lambda>g3. bindE (connectCSCalledReturnValue E F I c g3) ?r4"
  let ?r2 = "\<lambda>g2. bindE (connectCSEffectiveParameters E F I c g2) ?r3"
  let ?r1 = "\<lambda>g1. bindE (connectCSChis E F I g1) ?r2"
  have a4: "adds f (?r4 g)" if "grown f g" for f g
    using that by (intro adds_seq adds_retchi adds_foldE grown_conditions adds_callee adds_sync)
  have a3: "adds f (?r3 g)" if "grown f g" for f g using that by (intro adds_seq adds_retval a4)
  have a2: "adds f (?r2 g)" if "grown f g" for f g using that by (intro adds_seq adds_params a3)
  have a1: "adds f (?r1 g)" if "grown f g" for f g using that by (intro adds_seq adds_chis a2)
  from assms have "has_edge e (bindE (connectCSMus E F I g) ?r1)"
  proof (elim disjE)
    assume "has_edge e (connectCSMus E F I g)"
    then show ?thesis by (rule has_before) (rule a1, simp)
  next
    assume h: "\<forall>g. has_edge e (connectCSChis E F I g)"
    show ?thesis by (rule has_bind, rule has_before [OF h [rule_format]]) (rule a2, simp)
  next
    assume h: "\<forall>g. has_edge e (connectCSEffectiveParameters E F I c g)"
    show ?thesis by (rule has_bind, rule has_bind, rule has_before [OF h [rule_format]]) (rule a3, simp)
  next
    assume h: "\<forall>g. has_edge e (connectCSCalledReturnValue E F I c g)"
    show ?thesis by (rule has_bind, rule has_bind, rule has_bind, rule has_before [OF h [rule_format]]) (rule a4, simp)
  qed
  then show ?thesis by (simp add: visitCallInst_def)
qed

lemma inst_edge: "inst_flow E I u v \<Longrightarrow> has_edge (u, v) (visit_inst E F BB I g)"
proof (induction rule: inst_flow.induct)
  case (operand V)
  then show ?case by (cases "di_op I") (auto simp: value_op_def operand_visits intro!: has_Inr operands_edge phi_edge)
next
  case (argument c C k a)
  then show ?case by (auto simp: connectCSEffectiveParameters_def intro!: call_edge args_edge)
next
  case (returned c C r)
  then show ?case by (auto intro!: call_edge retval_edge)
next
  case (memory_in c Mu f m Chi)
  then have "has_edge (S (mu_var Mu), S (chi_var Chi)) (connectCSMu E F I Mu h)" for h by (simp add: connectCSMu_def has_edge_def)
  with memory_in show ?case by (auto intro!: call_edge mus_edge)
next
  case (memory_out c Chi f m Mu)
  then have "has_edge (S (mu_var Mu), S (chi_var Chi)) (connectCSChi E F I Chi h)" for h
    by (auto simp: connectCSChi_def Let_def intro!: has_bind has_Inr)
  with memory_out show ?case by (auto intro!: call_edge chis_edge)
next
  case (external_in c Mu f k G Chi)
  then have "has_edge (S (mu_var Mu), S (chi_var Chi)) (connectCSMu E F I Mu h)" for h by (simp add: connectCSMu_def has_edge_def)
  with external_in show ?case by (auto intro!: call_edge mus_edge)
next
  case (external_out c Chi f k G ExitChi)
  then have "has_edge (S (chi_var ExitChi), S (chi_var Chi)) (connectCSChi E F I Chi h)" for h
    by (auto simp: connectCSChi_def Let_def intro!: has_bind has_Inr)
  with external_out show ?case by (auto intro!: call_edge chis_edge)
qed (auto intro!: has_Inr has_bind phi_edge load_edge store_edge)

lemma block_edge: "block_flow E BB u v \<Longrightarrow> (u, v) \<in> edge_set (visitBasicBlock E F BB g)"
proof (induction rule: block_flow.induct)
  case (memory_phi Phi k v)
  let ?ops = "\<lambda>h. fold (\<lambda>x g. addEdge_ss (snd x) (phi_var Phi) (ssa_node F (snd x) g)) (phi_opsVar Phi) (ssa_node F (phi_var Phi) h)"
  let ?all = "\<lambda>h. if noPred E then ?ops h
    else fold (\<lambda>P g. addEdge_ls P (phi_var Phi) (llvm_node F P g)) (phi_preds Phi) (?ops h)"
  have "(S v, S (phi_var Phi)) \<in> edge_set (?ops h)" for h
    by (rule has_fold [OF memory_phi(2)]) auto
  moreover have "grown (?ops h) (?all h)" for h by (intro adds_rules grown_refl)
  ultimately have "(S v, S (phi_var Phi)) \<in> edge_set (?all h)" for h using grown_edges by blast
  then show ?case unfolding visitBasicBlock_def Let_def split_beta
    by (rule has_fold [OF memory_phi(1)]) (intro adds_rules grown_refl)
next
  case (memory_predicate Phi V)
  then show ?case unfolding visitBasicBlock_def Let_def split_beta
    by (intro has_fold [OF memory_predicate(1)]) (auto intro!: has_fold adds_rules)
qed

lemma function_edge:
  assumes "(BB, Is) \<in> set (df_blocks F)" "(I \<in> set Is \<and> inst_flow E I u v) \<or> block_flow E BB u v"
  shows "has_edge (u, v) (visit_function E F g)"
  unfolding visit_function_def split_beta
proof (rule has_foldE [OF assms(1)])
  have tail: "adds k (foldE (visit_inst E (df_id F) BB) Is k)" for k by (intro adds_foldE adds_inst grown_refl)
  from assms(2) have "has_edge (u, v) (foldE (visit_inst E (df_id F) BB) Is (visitBasicBlock E (df_id F) BB h))" for h
  proof (elim disjE conjE)
    assume "I \<in> set Is" "inst_flow E I u v"
    then show ?thesis by (intro has_foldE [of I] inst_edge adds_inst grown_refl)
  next
    assume "block_flow E BB u v"
    from has_before [OF has_Inr [OF block_edge [OF this]] tail] show ?thesis by simp
  qed
  then show "has_edge (u, v) (foldE (visit_inst E (df_id F) (fst (BB, Is))) (snd (BB, Is)) (visitBasicBlock E (df_id F) (fst (BB, Is)) h))" for h
    by simp
qed (intro adds_foldE adds_inst grown_block grown_refl)

lemma graph_edge:
  assumes F: "F \<in> set (e_fns E)" "e_reachable E (df_id F)" "take 8 (df_name F) \<noteq> ''llvm.dbg''"
    and e: "\<And>g. has_edge (u, v) (visit_function E F g)"
  shows "has_edge (u, v) (build_graph E)"
  unfolding build_graph_def
proof (rule has_foldE [OF F(1)])
  show "adds h (if \<not> e_reachable E (df_id y) \<or> take 8 (df_name y) = ''llvm.dbg'' then Inr h else buildFunction E y h)" for y h
    by (intro adds_if adds_Inr adds_build grown_refl)
  have "adds k (let g2 = add_entry_chis E F k in if df_decl F then build_external E F g2 else Inr g2)" for k
    unfolding Let_def by (intro adds_if adds_external adds_Inr grown_entry grown_refl)
  from has_before [OF e this] F(2,3)
  show "has_edge (u, v) (if \<not> e_reachable E (df_id F) \<or> take 8 (df_name F) = ''llvm.dbg'' then Inr h else buildFunction E F h)" for h
    by (simp add: buildFunction_def)
qed

section \<open>An example\<close>

definition no_mssa :: mssa where
  "no_mssa = \<lparr>loadToMuMap = (\<lambda>_. []), storeToChiMap = (\<lambda>_. []), callSiteToMuMap = (\<lambda>_. []), callSiteToChiMap = (\<lambda>_. []),
     callSiteToSyncChiMap = (\<lambda>_. []), bbToPhiMap = (\<lambda>_. []), funToEntryChiMap = (\<lambda>_. []), llvmPhiToPredMap = (\<lambda>_. []),
     funRegToEntryChiMap = (\<lambda>_. None), funRegToReturnMuMap = (\<lambda>_. None), extCallSiteToCallerRetChi = (\<lambda>_. []),
     extCallSiteToCalleeRetChi = (\<lambda>_. None), extCallSiteToVarArgEntryChi = (\<lambda>_. None), extCallSiteToVarArgExitChi = (\<lambda>_. None),
     extCallSiteToArgEntryChi = (\<lambda>_. None), extCallSiteToArgExitChi = (\<lambda>_. None), extFuncToCSMap = (\<lambda>_. [])\<rparr>"

text \<open>\<open>MPI_Comm_rank(comm, &r); if (r == c) a = 0; else a = 0; use(a)\<close>: the rank is stored by call 14
  through the exit variable 60 into variable 50, loaded by 11 and compared by 12; the stores 16 and 17
  to \<open>a\<close> define the variables 70 and 71, which meet in the phi 72, loaded by 15.\<close>

definition mk_chi :: "nat \<Rightarrow> nat option \<Rightarrow> chi_kind \<Rightarrow> mchi" where
  "mk_chi v op k = \<lparr>chi_var = v, chi_opVar = op, chi_region = 0, chi_kind = k\<rparr>"

definition mk_mu :: "nat \<Rightarrow> mu_kind \<Rightarrow> mmu" where
  "mk_mu v k = \<lparr>mu_var = v, mu_region = 0, mu_kind = k\<rparr>"

definition mk_inst :: "nat \<Rightarrow> dg_op \<Rightarrow> nat list \<Rightarrow> dg_inst" where
  "mk_inst i op ops = \<lparr>di_id = i, di_op = op, di_operands = ops\<rparr>"

definition mk_fn :: "nat \<Rightarrow> string \<Rightarrow> bool \<Rightarrow> (nat \<times> bool) list \<Rightarrow> (nat \<times> dg_inst list) list \<Rightarrow> dg_fn" where
  "mk_fn i name decl args blocks = \<lparr>df_id = i, df_name = name, df_decl = decl, df_vararg = False, df_args = args,
     df_ret_ptr = False, df_ret_void = True, df_returns = [], df_blocks = blocks\<rparr>"

definition rank_mssa :: mssa where
  "rank_mssa = no_mssa\<lparr>loadToMuMap := (\<lambda>_. [])(11 := [mk_mu 50 OtherMu], 15 := [mk_mu 72 OtherMu]),
     storeToChiMap := (\<lambda>_. [])(16 := [mk_chi 70 (Some 69) OtherChi], 17 := [mk_chi 71 (Some 69) OtherChi]),
     callSiteToMuMap := (\<lambda>_. [])(14 := [mk_mu 49 (ExtCallMu 2 1)]),
     callSiteToChiMap := (\<lambda>_. [])(14 := [mk_chi 50 (Some 49) (ExtCallChi 2 1)]),
     bbToPhiMap := (\<lambda>_. [])(103 := [\<lparr>phi_var = 72, phi_opsVar = [(0, 70), (1, 71)], phi_preds = [12]\<rparr>]),
     extCallSiteToArgEntryChi := [2 \<mapsto> [(14, [(1, mk_chi 59 None OtherChi)])]],
     extCallSiteToArgExitChi := [2 \<mapsto> [(14, [(1, mk_chi 60 (Some 59) OtherChi)])]],
     extFuncToCSMap := (\<lambda>_. [])(2 := [14])\<rparr>"

definition rank_env :: "bool \<Rightarrow> dg_env" where
  "rank_env noelim = \<lparr>e_mssa = rank_mssa, e_tables = enableMPI no_tables,
     e_fns = [mk_fn 1 ''main'' False []
        [(100, [mk_inst 14 (CallOp (Some 2) False) [9, 10], mk_inst 11 (LoadOp ''r'') [10], mk_inst 12 CmpOp [11, 13], mk_inst 18 TermOp []]),
         (101, [mk_inst 16 StoreOp [5, 8]]), (102, [mk_inst 17 StoreOp [5, 8]]), (103, [mk_inst 15 (LoadOp ''a'') [8]])],
       mk_fn 2 ''MPI_Comm_rank'' True [(20, False), (21, True)] []],
     e_indirect = (\<lambda>_. []), e_reachable = (\<lambda>_. True), e_ipdf_preds = (\<lambda>_. []), noPtrDep = False, noPred = False,
     disablePhiElim = noelim, OptWeakUpdate = False\<rparr>"

definition rank_graph :: depgraph where
  "rank_graph = empty_graph\<lparr>
     funcToLLVMNodesMap := [1 \<mapsto> [5, 8, 10, 11, 12, 13, 15]],
     funcToSSANodesMap := [1 \<mapsto> [49, 50, 69, 70, 71, 72], 2 \<mapsto> [59, 60]],
     llvmToLLVMChildren := [10 \<mapsto> [11], 11 \<mapsto> [12], 13 \<mapsto> [12], 8 \<mapsto> [15]],
     llvmToLLVMParents := [11 \<mapsto> [10], 12 \<mapsto> [11, 13], 15 \<mapsto> [8]],
     llvmToSSAChildren := [5 \<mapsto> [70, 71], 8 \<mapsto> [70, 71], 12 \<mapsto> [72], 20 \<mapsto> [60], 21 \<mapsto> [60]],
     llvmToSSAParents := [11 \<mapsto> [50], 15 \<mapsto> [72]],
     ssaToLLVMChildren := [50 \<mapsto> [11], 72 \<mapsto> [15]],
     ssaToLLVMParents := [70 \<mapsto> [5, 8], 71 \<mapsto> [5, 8], 72 \<mapsto> [12], 60 \<mapsto> [20, 21]],
     ssaToSSAChildren := [49 \<mapsto> [59], 60 \<mapsto> [50], 70 \<mapsto> [72], 71 \<mapsto> [72], 59 \<mapsto> [60]],
     ssaToSSAParents := [59 \<mapsto> [49], 50 \<mapsto> [60], 72 \<mapsto> [70, 71], 60 \<mapsto> [59]],
     funcToCallNodes := [1 \<mapsto> [14]], callToFuncEdges := [14 \<mapsto> 2], funcToCallSites := [2 \<mapsto> [14]], ssaSources := [60]\<rparr>"

lemmas build_defs = build_graph_def buildFunction_def visit_function_def visitBasicBlock_def visitCallInst_def connectCSMus_def
  connectCSMu_def connectCSChis_def connectCSChi_def connectCSEffectiveParameters_def connectCSEffectiveParametersExt_def
  connect_args_def connectCSCalledReturnValue_def connectCSRetChi_def link_callee_def link_conditions_def connectSyncChis_def
  callees_of_def fn_of_def arg_of_def at_def opVar_def entry_or_empty_def visitLoadInst_def visitStoreInst_def
  operand_visits connect_operands_def add_entry_chis_def build_external_def add_vararg_chis_def add_arg_chis_def
  add_ret_chis_def unknown_edges_def add_sources_def exit_chi_def var_arg_chi_def to_set_def getRange_def

lemmas graph_defs = llvm_node_def ssa_node_def addEdge_ll_def addEdge_ls_def addEdge_sl_def addEdge_ss_def map_insert_def
  empty_graph_def

lemmas mk_defs = mk_chi_def mk_mu_def mk_inst_def mk_fn_def no_mssa_def enableMPI_def enableOMP_def no_tables_def

lemma rank_built: "build_graph (rank_env b) = Inr rank_graph"
  by (simp add: build_defs graph_defs mk_defs rank_env_def rank_mssa_def rank_graph_def Let_def)

section \<open>Properties\<close>

text \<open>C9: in every graph the construction returns, each map of parents is the converse of its map of
  children, for each of the four kinds of edge, and the sets kept per node and per function
  have no duplicates.\<close>

theorem build_graph_mirrored: "build_graph E = Inr g \<Longrightarrow> wf_graph g"
  using adds_graph grown_wf wf_empty unfolding adds_def by blast

theorem build_graph_mirrored_witness: "build_graph (rank_env False) = Inr rank_graph \<and> wf_graph rank_graph"
  using build_graph_mirrored [OF rank_built] rank_built by simp


lemma rank_flows:
  "flow (rank_env b) (S 60) (S 50)" "flow (rank_env b) (S 50) (L 11)" "flow (rank_env b) (L 11) (L 12)"
proof -
  let ?F = "hd (e_fns (rank_env b))"
  have F: "?F \<in> set (e_fns (rank_env b))" "e_reachable (rank_env b) (df_id ?F)" "take 8 (df_name ?F) \<noteq> ''llvm.dbg''"
    and B: "(100, snd (hd (df_blocks ?F))) \<in> set (df_blocks ?F)"
    by (simp_all add: rank_env_def mk_fn_def)
  note at = flow_inst [OF F B]
  show "flow (rank_env b) (S 60) (S 50)"
    by (rule at [of "mk_inst 14 (CallOp (Some 2) False) [9, 10]"])
      (use inst_flow.external_out [of "mk_inst 14 (CallOp (Some 2) False) [9, 10]" "Some 2" "mk_chi 50 (Some 49) (ExtCallChi 2 1)" "rank_env b" 2 1
        "mk_fn 2 ''MPI_Comm_rank'' True [(20, False), (21, True)] []" "mk_chi 60 (Some 59) OtherChi"]
       in \<open>simp_all add: rank_env_def mk_defs rank_mssa_def fn_of_def at_def entry_or_empty_def getRange_def\<close>)
  show "flow (rank_env b) (S 50) (L 11)"
    by (rule at [of "mk_inst 11 (LoadOp ''r'') [10]"])
      (use inst_flow.load [of "mk_inst 11 (LoadOp ''r'') [10]" "''r''" "mk_mu 50 OtherMu" "rank_env b"]
       in \<open>simp_all add: rank_env_def mk_defs rank_mssa_def\<close>)
  show "flow (rank_env b) (L 11) (L 12)"
    by (rule at [of "mk_inst 12 CmpOp [11, 13]"])
      (use inst_flow.operand [of "mk_inst 12 CmpOp [11, 13]" 11 "rank_env b"]
       in \<open>simp_all add: rank_env_def mk_defs value_op_def\<close>)
qed


end
