(* ===== verification/Dep_Taint.thy ===== *)
theory Dep_Taint
  imports Dep_Build
begin

text \<open>
  Flooding of the dependence graph (\<open>src/aSSA/DepGraphDCF.cpp\<close>): the taint of
  the sources is propagated along the edges, except out of the variables a
  collective makes the same on all processes. Two queues, of variables and of
  values, are emptied together.

  The sets of tainted nodes are lists in the order of insertion; they are only
  tested for membership.
\<close>

section \<open>State\<close>

record taint =
  taintedSSANodes :: "nat list"
  taintedLLVMNodes :: "nat list"
  taintedConditions :: "nat list"

definition no_taint :: taint where
  "no_taint = \<lparr>taintedSSANodes = [], taintedLLVMNodes = [], taintedConditions = []\<rparr>"

text \<open>The whole graph, or the nodes of a function.\<close>

datatype scope = Everywhere | Inside nat

fun var_in :: "scope \<Rightarrow> depgraph \<Rightarrow> nat \<Rightarrow> bool" where
  "var_in Everywhere g D = True"
| "var_in (Inside F) g D = (D \<in> set (getRange (funcToSSANodesMap g) F))"

fun value_in :: "scope \<Rightarrow> depgraph \<Rightarrow> nat \<Rightarrow> bool" where
  "value_in Everywhere g D = True"
| "value_in (Inside F) g D = (D \<in> set (getRange (funcToLLVMNodesMap g) F))"

section \<open>The loop\<close>

type_synonym flood_state = "nat list \<times> nat list \<times> nat list \<times> nat list"

text \<open>A node that is not tainted is tainted and queued.\<close>

definition taint_new :: "nat list \<Rightarrow> nat list \<Rightarrow> nat list \<Rightarrow> nat list \<times> nat list" where
  "taint_new = add_new (\<lambda>D ToVisit. ToVisit @ [D])"

definition visit_var :: "scope \<Rightarrow> depgraph \<Rightarrow> nat \<Rightarrow> flood_state \<Rightarrow> flood_state" where
  "visit_var sc g s st = (case st of (VarToVisit, ValueToVisit, TS, TL) \<Rightarrow>
     case taint_new (filter (var_in sc g) (getRange (ssaToSSAChildren g) s)) VarToVisit TS of (VarToVisit', TS') \<Rightarrow>
     case taint_new (filter (value_in sc g) (getRange (ssaToLLVMChildren g) s)) ValueToVisit TL of (ValueToVisit', TL') \<Rightarrow>
       (VarToVisit', ValueToVisit', TS', TL'))"

definition visit_value :: "scope \<Rightarrow> depgraph \<Rightarrow> nat \<Rightarrow> flood_state \<Rightarrow> flood_state" where
  "visit_value sc g s st = (case st of (VarToVisit, ValueToVisit, TS, TL) \<Rightarrow>
     case taint_new (filter (value_in sc g) (getRange (llvmToLLVMChildren g) s)) ValueToVisit TL of (ValueToVisit', TL') \<Rightarrow>
     case taint_new (filter (var_in sc g) (getRange (llvmToSSAChildren g) s)) VarToVisit TS of (VarToVisit', TS') \<Rightarrow>
       (VarToVisit', ValueToVisit', TS', TL'))"

text \<open>Looking a function up in the map of values by subscript adds an entry when there is none,
  which the comparison of sizes after the flooding asserts not to happen.\<close>

fun missing_entry :: "scope \<Rightarrow> depgraph \<Rightarrow> nat \<Rightarrow> bool" where
  "missing_entry Everywhere g s = False"
| "missing_entry (Inside F) g s = (funcToLLVMNodesMap g F = None \<and> getRange (ssaToLLVMChildren g) s \<noteq> [])"

definition visit_next_value :: "scope \<Rightarrow> depgraph \<Rightarrow> flood_state \<Rightarrow> flood_state" where
  "visit_next_value sc g st = (case st of (VarToVisit, ValueToVisit, TS, TL) \<Rightarrow>
     (case ValueToVisit of [] \<Rightarrow> st | s # Rest \<Rightarrow> visit_value sc g s (VarToVisit, Rest, TS, TL)))"

definition flood_step :: "scope \<Rightarrow> depgraph \<Rightarrow> flood_state \<Rightarrow> dg_error + flood_state" where
  "flood_step sc g st = (case st of (VarToVisit, ValueToVisit, TS, TL) \<Rightarrow>
     (case VarToVisit of
        [] \<Rightarrow> Inr (visit_next_value sc g st)
      | s # Rest \<Rightarrow>
          if s \<in> set (taintResetSSANodes g) then Inr (Rest, ValueToVisit, TS, TL)
          else if missing_entry sc g s then Inl DG_Assertion
          else Inr (visit_next_value sc g (visit_var sc g s (Rest, ValueToVisit, TS, TL)))))"

fun flood_loop :: "scope \<Rightarrow> depgraph \<Rightarrow> nat \<Rightarrow> flood_state \<Rightarrow> dg_error + nat list \<times> nat list" where
  "flood_loop sc g fuel ([], [], TS, TL) = Inr (TS, TL)"
| "flood_loop sc g 0 st = Inl DG_out_of_fuel"
| "flood_loop sc g (Suc k) st = bindE (flood_step sc g st) (flood_loop sc g k)"

definition computeTaintedValuesContextInsensitive :: "nat \<Rightarrow> depgraph \<Rightarrow> dg_error + taint" where
  "computeTaintedValuesContextInsensitive fuel g =
     bindE (flood_loop Everywhere g fuel (ssaSources g, valueSources g, ssaSources g, valueSources g)) (\<lambda>(TS, TL).
       Inr \<lparr>taintedSSANodes = TS, taintedLLVMNodes = TL, taintedConditions = TL\<rparr>)"

definition isTaintedValue :: "taint \<Rightarrow> nat \<Rightarrow> bool" where
  "isTaintedValue t V \<longleftrightarrow> V \<in> set (taintedConditions t)"

section \<open>The loop computes reachability\<close>

fun inside :: "scope \<Rightarrow> depgraph \<Rightarrow> gnode \<Rightarrow> bool" where
  "inside sc g (L D) = value_in sc g D"
| "inside sc g (S D) = var_in sc g D"

definition carries :: "scope \<Rightarrow> depgraph \<Rightarrow> (gnode \<times> gnode) set" where
  "carries sc g = {(u, v) \<in> edge_set g. u \<notin> S ` set (taintResetSSANodes g) \<and> inside sc g v}"

fun nodes :: "nat list \<Rightarrow> nat list \<Rightarrow> gnode set" where
  "nodes TS TL = S ` set TS \<union> L ` set TL"

definition tainted :: "flood_state \<Rightarrow> gnode set" where
  "tainted st = (case st of (Q, QV, TS, TL) \<Rightarrow> nodes TS TL)"

definition queued :: "flood_state \<Rightarrow> gnode set" where
  "queued st = (case st of (Q, QV, TS, TL) \<Rightarrow> nodes Q QV)"

definition weight :: "flood_state \<Rightarrow> nat" where
  "weight st = (case st of (Q, QV, TS, TL) \<Rightarrow> length Q + length QV)"

definition amount :: "flood_state \<Rightarrow> nat" where
  "amount st = (case st of (Q, QV, TS, TL) \<Rightarrow> card (set TS) + card (set TL))"

lemma card_nodes: "card (nodes TS TL) = card (set TS) + card (set TL)"
proof -
  have "card (S ` set TS \<union> L ` set TL) = card (S ` set TS) + card (L ` set TL)" by (rule card_Un_disjoint) auto
  then show ?thesis by (simp add: card_image inj_on_def)
qed

lemma taint_new_laws:
  assumes "taint_new ds Q T = (Q', T')"
  shows "set T' = set T \<union> set ds" "set Q' = set Q \<union> (set ds - set T)" "length Q' + card (set T) \<le> length Q + card (set T')"
proof -
  have e: "add_new (\<lambda>D W. W @ [D]) ds Q T = (Q', T')" using assms by (simp add: taint_new_def)
  have "set T' = set T \<union> set ds \<and> set Q' = set Q \<union> (set ds - set T) \<and> length Q' + card (set T) \<le> length Q + card (set T')"
    by (rule add_new_laws [of "\<lambda>D W. W @ [D]" ds Q T, unfolded e fst_conv snd_conv]) simp_all
  then show "set T' = set T \<union> set ds" "set Q' = set Q \<union> (set ds - set T)" "length Q' + card (set T) \<le> length Q + card (set T')"
    by blast+
qed

lemma visit_laws:
  assumes "st' = visit_var sc g s st \<and> x = S s \<and> s \<notin> set (taintResetSSANodes g) \<or> st' = visit_value sc g s st \<and> x = L s"
  shows "tainted st' = tainted st \<union> carries sc g `` {x}" "queued st' = queued st \<union> (carries sc g `` {x} - tainted st)"
    "weight st' + amount st \<le> weight st + amount st'"
proof -
  obtain Q QV TS TL where st: "st = (Q, QV, TS, TL)" by (cases st)
  obtain ds vs where c: "carries sc g `` {x} = nodes ds vs"
    and e: "st' = (fst (taint_new ds Q TS), fst (taint_new vs QV TL), snd (taint_new ds Q TS), snd (taint_new vs QV TL))"
  proof (cases "x = L s")
    case True
    show thesis
      by (rule that [of "filter (var_in sc g) (getRange (llvmToSSAChildren g) s)" "filter (value_in sc g) (getRange (llvmToLLVMChildren g) s)"])
        (use assms True st in \<open>auto simp: carries_def edge_set_def visit_value_def split_beta\<close>)
  next
    case False
    show thesis
      by (rule that [of "filter (var_in sc g) (getRange (ssaToSSAChildren g) s)" "filter (value_in sc g) (getRange (ssaToLLVMChildren g) s)"])
        (use assms False st in \<open>auto simp: carries_def edge_set_def visit_var_def split_beta\<close>)
  qed
  obtain Q' TS' where q: "taint_new ds Q TS = (Q', TS')" by force
  obtain QV' TL' where v: "taint_new vs QV TL = (QV', TL')" by force
  note 1 = taint_new_laws [OF q] and 2 = taint_new_laws [OF v]
  have st': "st' = (Q', QV', TS', TL')" using e q v by simp
  show "tainted st' = tainted st \<union> carries sc g `` {x}" unfolding c st st' using 1 2 by (auto simp: tainted_def)
  show "queued st' = queued st \<union> (carries sc g `` {x} - tainted st)" unfolding c st st' using 1 2 by (auto simp: tainted_def queued_def)
  show "weight st' + amount st \<le> weight st + amount st'" unfolding st st' using 1 2 by (auto simp: weight_def amount_def)
qed

text \<open>A step of the loop takes one node from each queue, or drops one that stops the taint.\<close>

definition move :: "scope \<Rightarrow> depgraph \<Rightarrow> flood_state \<Rightarrow> flood_state \<Rightarrow> bool" where
  "move sc g st st' \<longleftrightarrow> (\<exists>x\<in>queued st. tainted st' = tainted st \<union> carries sc g `` {x} \<and>
     queued st' \<subseteq> queued st \<union> carries sc g `` {x} \<and> queued st - {x} \<union> (carries sc g `` {x} - tainted st) \<subseteq> queued st' \<and>
     weight st' + amount st < weight st + amount st')"

lemma visit_move:
  assumes "x \<in> queued st" "queued st - {x} \<subseteq> queued st0" "queued st0 \<subseteq> queued st"
    "tainted st0 = tainted st" "weight st0 < weight st" "amount st0 = amount st"
    and v: "st' = visit_var sc g s st0 \<and> x = S s \<and> s \<notin> set (taintResetSSANodes g) \<or> st' = visit_value sc g s st0 \<and> x = L s"
  shows "move sc g st st'"
  unfolding move_def using visit_laws [OF v] assms by (intro bexI [of _ x]) auto

lemma next_value_move: "visit_next_value sc g st = st \<or> move sc g st (visit_next_value sc g st)"
proof -
  obtain Q QV TS TL where st: "st = (Q, QV, TS, TL)" by (cases st)
  show ?thesis
  proof (cases QV)
    case (Cons s R)
    have "move sc g st (visit_value sc g s (Q, R, TS, TL))"
      by (rule visit_move [of "L s" _ "(Q, R, TS, TL)"]) (use Cons st in \<open>auto simp: queued_def tainted_def weight_def amount_def\<close>)
    with Cons st show ?thesis by (simp add: visit_next_value_def)
  qed (simp add: st visit_next_value_def)
qed

lemma flood_step_moves:
  assumes step: "flood_step sc g st = Inr st'" and ne: "weight st \<noteq> 0"
  shows "(move sc g)\<^sup>+\<^sup>+ st st'"
proof -
  obtain Q QV TS TL where st: "st = (Q, QV, TS, TL)" by (cases st)
  show ?thesis
  proof (cases Q)
    case Nil
    then obtain s R where QV: "QV = s # R" using ne st by (cases QV) (auto simp: weight_def)
    have "move sc g st (visit_value sc g s (Q, R, TS, TL))"
      by (rule visit_move [of "L s" _ "(Q, R, TS, TL)"]) (use QV st in \<open>auto simp: queued_def tainted_def weight_def amount_def\<close>)
    with step Nil QV st show ?thesis by (auto simp: flood_step_def visit_next_value_def)
  next
    case (Cons s R)
    let ?st0 = "(R, QV, TS, TL)"
    show ?thesis
    proof (cases "s \<in> set (taintResetSSANodes g)")
      case True
      then have e: "st' = ?st0" using step Cons st by (simp add: flood_step_def)
      have "carries sc g `` {S s} = {}" using True by (auto simp: carries_def)
      then have "move sc g st st'" unfolding move_def
        by (intro bexI [of _ "S s"]) (use e Cons st in \<open>auto simp: queued_def tainted_def weight_def amount_def\<close>)
      then show ?thesis by simp
    next
      case False
      then have e: "st' = visit_next_value sc g (visit_var sc g s ?st0)"
        using step Cons st by (auto simp: flood_step_def split: if_splits)
      have "move sc g st (visit_var sc g s ?st0)"
        by (rule visit_move [of "S s" _ ?st0]) (use False Cons st in \<open>auto simp: queued_def tainted_def weight_def amount_def\<close>)
      with next_value_move [of sc g "visit_var sc g s ?st0"] e show ?thesis by (metis tranclp.simps)
    qed
  qed
qed

lemma moves_amount: "(move sc g)\<^sup>+\<^sup>+ st st' \<Longrightarrow> weight st' + amount st < weight st + amount st'"
  by (induction rule: tranclp_induct) (fastforce simp: move_def)+

text \<open>The state is the one of a flooding.\<close>

definition flood_inv :: "scope \<Rightarrow> depgraph \<Rightarrow> gnode set \<Rightarrow> flood_state \<Rightarrow> bool" where
  "flood_inv sc g A st \<longleftrightarrow> flooding (carries sc g) A (tainted st) (queued st)"

lemma move_flood: "move sc g st st' \<Longrightarrow> flood_inv sc g A st \<Longrightarrow> flood_inv sc g A st'"
proof -
  assume "move sc g st st'" and inv: "flood_inv sc g A st"
  then obtain x where x: "x \<in> queued st" "tainted st' = tainted st \<union> carries sc g `` {x}"
    "queued st' \<subseteq> queued st \<union> carries sc g `` {x}" "queued st - {x} \<union> (carries sc g `` {x} - tainted st) \<subseteq> queued st'"
    by (auto simp: move_def)
  moreover have "queued st \<subseteq> tainted st" using inv by (auto simp: flood_inv_def flooding_def)
  ultimately show ?thesis unfolding flood_inv_def
    by (intro flooding_step [OF inv [unfolded flood_inv_def], of x]) auto
qed

lemma moves_flood: "(move sc g)\<^sup>+\<^sup>+ st st' \<Longrightarrow> flood_inv sc g A st \<Longrightarrow> flood_inv sc g A st'"
  by (induction rule: tranclp_induct) (auto intro: move_flood)

text \<open>A set of nodes that the flooding does not leave.\<close>

definition bounded :: "gnode set \<Rightarrow> flood_state \<Rightarrow> bool" where
  "bounded X st \<longleftrightarrow> tainted st \<subseteq> X \<and> queued st \<subseteq> tainted st"

lemma move_bounded: "move sc g st st' \<Longrightarrow> carries sc g `` X \<subseteq> X \<Longrightarrow> bounded X st \<Longrightarrow> bounded X st'"
  unfolding move_def bounded_def by blast

lemma moves_bounded: "(move sc g)\<^sup>+\<^sup>+ st st' \<Longrightarrow> carries sc g `` X \<subseteq> X \<Longrightarrow> bounded X st \<Longrightarrow> bounded X st'"
  by (induction rule: tranclp_induct) (auto intro: move_bounded)

lemma flood_loop_0: "weight st = 0 \<Longrightarrow> flood_loop sc g k st = Inr (snd (snd st)) \<and> queued st = {} \<and> tainted st = nodes (fst (snd (snd st))) (snd (snd (snd st)))"
  by (cases st) (simp add: weight_def queued_def tainted_def)

lemma flood_loop_Suc: "weight st \<noteq> 0 \<Longrightarrow> flood_loop sc g (Suc k) st = bindE (flood_step sc g st) (flood_loop sc g k)"
proof -
  assume w: "weight st \<noteq> 0"
  obtain Q QV TS TL where st: "st = (Q, QV, TS, TL)" by (cases st)
  show ?thesis using w unfolding st by (cases Q; cases QV) (simp_all add: weight_def)
qed

lemma flood_loop_no_fuel: "weight st \<noteq> 0 \<Longrightarrow> flood_loop sc g 0 st = Inl DG_out_of_fuel"
proof -
  assume w: "weight st \<noteq> 0"
  obtain Q QV TS TL where st: "st = (Q, QV, TS, TL)" by (cases st)
  show ?thesis using w unfolding st by (cases Q; cases QV) (simp_all add: weight_def)
qed

lemma flood_loop_inv:
  assumes "flood_loop sc g k st = Inr (TS, TL)" "flood_inv sc g A st"
  shows "nodes TS TL = (carries sc g)\<^sup>* `` A"
proof -
  have fin: "nodes TS TL = (carries sc g)\<^sup>* `` A"
    if "flood_loop sc g k st = Inr (TS, TL)" "flood_inv sc g A st" "weight st = 0" for k st
  proof -
    have "snd (snd st) = (TS, TL)" using flood_loop_0 [OF that(3), of sc g k] that(1) by simp
    then show ?thesis
      using flood_loop_0 [OF that(3), of sc g k] that(2) flooding_end [of "carries sc g" A "tainted st"]
      by (simp add: flood_inv_def)
  qed
  show ?thesis using assms
  proof (induction k arbitrary: st)
    case 0
    then have "weight st = 0" using flood_loop_no_fuel [of st sc g] by (cases "weight st = 0") simp_all
    then show ?case by (rule fin [OF 0])
  next
    case (Suc k)
    show ?case
    proof (cases "weight st = 0")
      case False
      with Suc.prems(1) obtain st' where s: "flood_step sc g st = Inr st'" "flood_loop sc g k st' = Inr (TS, TL)"
        by (auto simp: flood_loop_Suc bindE_eq_Inr)
      with Suc.IH moves_flood [OF flood_step_moves [OF s(1) False] Suc.prems(2)] show ?thesis by blast
    qed (use Suc.prems fin in blast)
  qed
qed

lemma flood_loop_bounded:
  assumes "flood_loop sc g k st = Inr (TS, TL)" "carries sc g `` X \<subseteq> X" "bounded X st"
  shows "nodes TS TL \<subseteq> X"
  using assms(1,3)
proof (induction k arbitrary: st)
  case 0
  then have w: "weight st = 0" using flood_loop_no_fuel [of st sc g] by (cases "weight st = 0") simp_all
  with flood_loop_0 [OF w, of sc g 0] 0 show ?case by (cases st) (auto simp: bounded_def)
next
  case (Suc k)
  show ?case
  proof (cases "weight st = 0")
    case True
    with flood_loop_0 [OF True, of sc g "Suc k"] Suc.prems show ?thesis by (cases st) (auto simp: bounded_def)
  next
    case False
    with Suc.prems(1) obtain st' where s: "flood_step sc g st = Inr st'" "flood_loop sc g k st' = Inr (TS, TL)"
      by (auto simp: flood_loop_Suc bindE_eq_Inr)
    with Suc.IH moves_bounded [OF flood_step_moves [OF s(1) False] assms(2) Suc.prems(2)] show ?thesis by blast
  qed
qed

lemma flood_loop_ends:
  assumes "bounded X st" "finite X" "carries sc g `` X \<subseteq> X" "weight st + card X \<le> k + amount st"
  shows "flood_loop sc g k st \<noteq> Inl DG_out_of_fuel"
  using assms(1,4)
proof (induction k arbitrary: st)
  case 0
  obtain Q QV TS TL where st: "st = (Q, QV, TS, TL)" by (cases st)
  have "amount st \<le> card X"
    using 0(1) card_mono [OF assms(2)] unfolding st bounded_def tainted_def amount_def
    by (simp add: card_nodes [symmetric] del: nodes.simps)
  then have "weight st = 0" using 0(2) by simp
  then show ?case using flood_loop_0 by simp
next
  case (Suc k)
  show ?case
  proof (cases "weight st = 0")
    case True
    then show ?thesis using flood_loop_0 by simp
  next
    case False
    note l = flood_loop_Suc [OF False, of sc g k]
    show ?thesis
    proof (cases "flood_step sc g st")
      case (Inl e)
      then have "e = DG_Assertion" by (auto simp: flood_step_def split: prod.splits list.splits if_splits)
      with l Inl show ?thesis by simp
    next
      case (Inr st')
      note m = flood_step_moves [OF Inr False]
      have "weight st' + card X \<le> k + amount st'" using moves_amount [OF m] Suc.prems(2) by simp
      from Suc.IH [OF moves_bounded [OF m assms(3) Suc.prems(1)] this] l Inr show ?thesis by simp
    qed
  qed
qed

section \<open>The whole graph\<close>

definition sources :: "depgraph \<Rightarrow> gnode set" where
  "sources g = nodes (ssaSources g) (valueSources g)"

lemma whole_never_fails: "flood_loop Everywhere g k st = Inl e \<Longrightarrow> e = DG_out_of_fuel"
proof (induction k arbitrary: st)
  case 0
  then show ?case using flood_loop_0 [of st Everywhere g 0] flood_loop_no_fuel [of st Everywhere g] by (cases "weight st = 0") simp_all
next
  case (Suc k)
  show ?case
  proof (cases "weight st = 0")
    case True
    with flood_loop_0 Suc.prems show ?thesis by simp
  next
    case False
    have "flood_step Everywhere g st \<noteq> Inl x" for x by (auto simp: flood_step_def split: prod.splits list.splits)
    then obtain st' where "flood_step Everywhere g st = Inr st'" by (cases "flood_step Everywhere g st") blast+
    with Suc flood_loop_Suc [OF False, of Everywhere g k] show ?thesis by simp
  qed
qed

lemma finite_reach: "finite (edge_set g) \<Longrightarrow> finite ((carries sc g)\<^sup>* `` sources g)"
proof -
  assume f: "finite (edge_set g)"
  have "(carries sc g)\<^sup>* `` sources g \<subseteq> sources g \<union> Range (edge_set g)"
    by (auto simp: carries_def elim: rtranclE)
  moreover have "finite (sources g \<union> Range (edge_set g))" using f by (simp add: sources_def finite_Range)
  ultimately show ?thesis by (rule finite_subset)
qed

lemma addition_finite: "addition g h \<Longrightarrow> finite (edge_set g) \<Longrightarrow> finite (edge_set h)"
proof (induction rule: addition.induct)
  case (7 g h)
  then show ?case by (simp add: same_graph_def edge_set_def)
qed simp_all

lemma grown_finite: "grown g h \<Longrightarrow> finite (edge_set g) \<Longrightarrow> finite (edge_set h)"
  unfolding grown_def by (induction rule: rtranclp_induct) (auto intro: addition_finite)

lemma built_finite: "build_graph E = Inr g \<Longrightarrow> finite (edge_set g)"
proof -
  assume "build_graph E = Inr g"
  then have "grown empty_graph g" using adds_graph by (simp add: adds_def)
  moreover have "edge_set empty_graph = {}" by (simp add: edge_set_def empty_graph_def getRange_def)
  ultimately show ?thesis using grown_finite by fastforce
qed

lemma whole_exact:
  assumes "finite (edge_set g)"
    "length (ssaSources g) + length (valueSources g) + card ((carries Everywhere g)\<^sup>* `` sources g) \<le> fuel"
  shows "\<exists>t. computeTaintedValuesContextInsensitive fuel g = Inr t \<and>
    nodes (taintedSSANodes t) (taintedConditions t) = (carries Everywhere g)\<^sup>* `` sources g"
proof -
  let ?st = "(ssaSources g, valueSources g, ssaSources g, valueSources g)" and ?X = "(carries Everywhere g)\<^sup>* `` sources g"
  have t: "tainted ?st = sources g" "queued ?st = sources g" "bounded ?X ?st"
    by (auto simp: tainted_def queued_def sources_def bounded_def)
  have "carries Everywhere g `` ?X \<subseteq> ?X" by (auto intro: rtrancl_into_rtrancl)
  moreover have "weight ?st + card ?X \<le> fuel + amount ?st" using assms(2) by (simp add: weight_def)
  ultimately have "flood_loop Everywhere g fuel ?st \<noteq> Inl DG_out_of_fuel"
    by (intro flood_loop_ends [OF t(3) finite_reach [OF assms(1)]])
  then obtain TS TL where l: "flood_loop Everywhere g fuel ?st = Inr (TS, TL)"
    using whole_never_fails [of g fuel ?st] by (cases "flood_loop Everywhere g fuel ?st") auto
  have "flood_inv Everywhere g (sources g) ?st" by (simp add: flood_inv_def t(1,2) flooding_start)
  from flood_loop_inv [OF l this] l show ?thesis by (simp add: computeTaintedValuesContextInsensitive_def)
qed

section \<open>Properties\<close>

text \<open>C3: on a graph that has been built, flooding ends when there is fuel for the sources and the nodes
  they reach, and a value is tainted exactly when a path of edges leads to it from a source, no
  edge of which starts at a variable that a collective makes uniform.\<close>

theorem context_insensitive_exact:
  assumes "build_graph E = Inr g"
    "length (ssaSources g) + length (valueSources g) + card ((carries Everywhere g)\<^sup>* `` sources g) \<le> fuel"
  shows "\<exists>t. computeTaintedValuesContextInsensitive fuel g = Inr t \<and>
    (\<forall>V. isTaintedValue t V \<longleftrightarrow>
      L V \<in> {(u, v) \<in> edge_set g. u \<notin> S ` set (taintResetSSANodes g)}\<^sup>* ``
        (S ` set (ssaSources g) \<union> L ` set (valueSources g)))"
proof -
  have "inside Everywhere g v" for v by (cases v) simp_all
  then have c: "carries Everywhere g = {(u, v) \<in> edge_set g. u \<notin> S ` set (taintResetSSANodes g)}"
    by (simp add: carries_def)
  from whole_exact [OF built_finite [OF assms(1)] assms(2)] obtain t where
    t: "computeTaintedValuesContextInsensitive fuel g = Inr t"
      "nodes (taintedSSANodes t) (taintedConditions t) = (carries Everywhere g)\<^sup>* `` sources g" by blast
  have "isTaintedValue t V \<longleftrightarrow> L V \<in> nodes (taintedSSANodes t) (taintedConditions t)" for V
    by (auto simp: isTaintedValue_def)
  with t c show ?thesis by (simp add: sources_def)
qed

theorem context_insensitive_exact_witness:
  "\<exists>t. computeTaintedValuesContextInsensitive (1 + card ((carries Everywhere rank_graph)\<^sup>* `` sources rank_graph)) rank_graph = Inr t \<and>
    (\<forall>V. isTaintedValue t V \<longleftrightarrow>
      L V \<in> {(u, v) \<in> edge_set rank_graph. u \<notin> S ` set (taintResetSSANodes rank_graph)}\<^sup>* ``
        (S ` set (ssaSources rank_graph) \<union> L ` set (valueSources rank_graph)))"
  by (rule context_insensitive_exact [OF rank_built]) (simp add: rank_graph_def empty_graph_def)

text \<open>The example: the rank taints its load, the comparison, and through the predicate of the phi the
  load of \<open>a\<close>.\<close>

lemma flood_loop_unfold:
  "flood_loop sc g k (Q, QV, TS, TL) = (if Q = [] \<and> QV = [] then Inr (TS, TL)
     else case k of 0 \<Rightarrow> Inl DG_out_of_fuel | Suc k' \<Rightarrow> bindE (flood_step sc g (Q, QV, TS, TL)) (flood_loop sc g k'))"
  by (cases Q; cases QV; cases k) simp_all

lemmas flood_defs = flood_loop_unfold flood_step_def visit_next_value_def visit_var_def visit_value_def taint_new_def add_new_def getRange_def

lemma rank_taint:
  "computeTaintedValuesContextInsensitive 10 rank_graph =
     Inr \<lparr>taintedSSANodes = [60, 50, 72], taintedLLVMNodes = [11, 12, 15], taintedConditions = [11, 12, 15]\<rparr>"
  by (simp add: computeTaintedValuesContextInsensitive_def rank_graph_def empty_graph_def flood_defs)

end
