(* ===== verification/Dep_Phi.thy ===== *)
theory Dep_Phi
  imports Dep_Taint
begin

text \<open>
  Elimination of the phis of memory SSA whose operands are equivalent
  (\<open>src/aSSA/DepGraphDCF.cpp\<close>, \<open>phiElimination\<close>): the phi is replaced with its
  first operand, the other operands leave the graph, and with the phi its
  dependence on the predicates. The operands of phis are part of the state, since
  an elimination rewrites the operands of the phis it feeds.
\<close>

section \<open>Equivalent nodes\<close>

record phi_state =
  ps_graph :: depgraph
  ps_opsVar :: "nat \<Rightarrow> (nat \<times> nat) list"

definition fn_phis :: "dg_env \<Rightarrow> dg_fn \<Rightarrow> mphi list" where
  "fn_phis E F = concat (map (\<lambda>(BB, insts). bbToPhiMap (e_mssa E) BB) (df_blocks F))"

definition is_phi_var :: "dg_env \<Rightarrow> nat \<Rightarrow> bool" where
  "is_phi_var E v = list_ex (\<lambda>F. list_ex (\<lambda>Phi. phi_var Phi = v) (fn_phis E F)) (e_fns E)"

definition same_number :: "nodemap \<Rightarrow> nat \<Rightarrow> nat \<Rightarrow> bool" where
  "same_number C Var1 Var2 = (case (C Var1, C Var2) of
     (None, None) \<Rightarrow> True | (Some a, Some b) \<Rightarrow> length a = length b | _ \<Rightarrow> False)"

definition all_shared :: "nodemap \<Rightarrow> nat \<Rightarrow> nat \<Rightarrow> bool" where
  "all_shared C Var1 Var2 = list_all (\<lambda>v. v \<in> set (getRange C Var2)) (getRange C Var1)"

definition areSSANodesEquivalent :: "dg_env \<Rightarrow> depgraph \<Rightarrow> nat \<Rightarrow> nat \<Rightarrow> bool" where
  "areSSANodesEquivalent E g Var1 Var2 =
     (if is_phi_var E Var1 \<or> is_phi_var E Var2 then False
      else same_number (ssaToSSAChildren g) Var1 Var2 \<and> same_number (ssaToLLVMChildren g) Var1 Var2 \<and>
           same_number (ssaToSSAParents g) Var1 Var2 \<and> same_number (ssaToLLVMParents g) Var1 Var2 \<and>
           all_shared (ssaToSSAChildren g) Var1 Var2 \<and> all_shared (ssaToLLVMChildren g) Var1 Var2 \<and>
           all_shared (ssaToSSAParents g) Var1 Var2 \<and> all_shared (ssaToLLVMParents g) Var1 Var2)"

section \<open>Elimination\<close>

fun replace_operand :: "nat \<Rightarrow> nat \<Rightarrow> (nat \<times> nat) list \<Rightarrow> (nat \<times> nat) list" where
  "replace_operand v op [] = []"
| "replace_operand v op ((k, x) # es) = (if x = v then (k, op) # es else (k, x) # replace_operand v op es)"

definition ssa_node_erase :: "nat \<Rightarrow> nat \<Rightarrow> depgraph \<Rightarrow> dg_error + depgraph" where
  "ssa_node_erase F v g =
     (if v \<in> set (getRange (funcToSSANodesMap g) F) then Inr (g\<lparr>funcToSSANodesMap := map_erase F v (funcToSSANodesMap g)\<rparr>)
      else Inl DG_Assertion)"

text \<open>The outgoing edges of the phi move to the first operand.\<close>

definition move_children :: "nat \<Rightarrow> nat \<Rightarrow> depgraph \<Rightarrow> dg_error + depgraph" where
  "move_children op0 v g =
     (let Cs = getRange (ssaToSSAChildren g) v in
      bindE (foldE (\<lambda>V. removeEdge_ss v V) Cs (fold (\<lambda>V. addEdge_ss op0 V) Cs g)) (\<lambda>g1.
        let Vs = getRange (ssaToLLVMChildren g1) v
        in foldE (\<lambda>V. removeEdge_sl v V) Vs (fold (\<lambda>V. addEdge_sl op0 V) Vs g1)))"

definition rewrite_operands :: "dg_env \<Rightarrow> nat \<Rightarrow> nat \<Rightarrow> nat list \<Rightarrow> (nat \<Rightarrow> (nat \<times> nat) list) \<Rightarrow> nat \<Rightarrow> (nat \<times> nat) list" where
  "rewrite_operands E op0 v Cs opsVar =
     fold (\<lambda>V ops. if is_phi_var E V then ops(V := replace_operand v op0 (ops V)) else ops) Cs opsVar"

definition remove_operands :: "nat list \<Rightarrow> depgraph \<Rightarrow> dg_error + depgraph" where
  "remove_operands Rest g =
     (let ToRemove1 = concat (map (\<lambda>op. map (\<lambda>V. (V, op)) (getRange (ssaToSSAParents g) op) @
                                         map (\<lambda>V. (op, V)) (getRange (ssaToSSAChildren g) op)) Rest);
          ToRemove2 = concat (map (\<lambda>op. map (\<lambda>V. (op, V)) (getRange (ssaToLLVMChildren g) op)) Rest);
          ToRemove3 = concat (map (\<lambda>op. map (\<lambda>V. (V, op)) (getRange (ssaToLLVMParents g) op)) Rest)
      in bindE (foldE (\<lambda>(s, d). removeEdge_ss s d) ToRemove1 g) (\<lambda>g1.
         bindE (foldE (\<lambda>(s, d). removeEdge_sl s d) ToRemove2 g1)
           (foldE (\<lambda>(s, d). removeEdge_ls s d) ToRemove3)))"

definition eliminatePhi :: "dg_env \<Rightarrow> nat \<Rightarrow> mphi \<Rightarrow> nat list \<Rightarrow> phi_state \<Rightarrow> dg_error + phi_state" where
  "eliminatePhi E F Phi Operands st =
     (case to_set Operands of
        [] \<Rightarrow> Inl DG_Out_of_range
      | op0 # Rest \<Rightarrow>
          let v = phi_var Phi in
          bindE (foldE (\<lambda>V. removeEdge_ls V v) (phi_preds Phi) (ps_graph st)) (\<lambda>g1.
          bindE (foldE (\<lambda>op. removeEdge_ss op v) (op0 # Rest) g1) (\<lambda>g2.
          bindE (move_children op0 v g2) (\<lambda>g3.
          bindE (ssa_node_erase F v g3) (\<lambda>g4.
          bindE (remove_operands Rest g4) (\<lambda>g5.
          bindE (foldE (ssa_node_erase F) Rest g5) (\<lambda>g6.
            Inr \<lparr>ps_graph = g6, ps_opsVar = rewrite_operands E op0 v (getRange (ssaToSSAChildren g2) v) (ps_opsVar st)\<rparr>)))))))"

fun adjacent_equivalent :: "dg_env \<Rightarrow> depgraph \<Rightarrow> nat list \<Rightarrow> bool" where
  "adjacent_equivalent E g (x # y # ys) = (areSSANodesEquivalent E g x y \<and> adjacent_equivalent E g (y # ys))"
| "adjacent_equivalent E g _ = True"

text \<open>A phi without operands: the bound of the loop over the operands wraps around.\<close>

definition phi_visit :: "dg_env \<Rightarrow> nat \<Rightarrow> mphi \<Rightarrow> phi_state \<times> bool \<Rightarrow> dg_error + phi_state \<times> bool" where
  "phi_visit E F Phi = (\<lambda>(st, Changed).
     (case funcToSSANodesMap (ps_graph st) F of
        None \<Rightarrow> Inl DG_Assertion
      | Some ns \<Rightarrow>
          if phi_var Phi \<notin> set ns then Inr (st, Changed)
          else let PhiOperands = map snd (ps_opsVar st (phi_var Phi)) in
               if PhiOperands = [] then Inl DG_Out_of_range
               else if \<not> adjacent_equivalent E (ps_graph st) PhiOperands then Inr (st, Changed)
               else bindE (eliminatePhi E F Phi PhiOperands st) (\<lambda>st'. Inr (st', True))))"

fun phi_loop :: "dg_env \<Rightarrow> dg_fn \<Rightarrow> nat \<Rightarrow> phi_state \<Rightarrow> dg_error + phi_state" where
  "phi_loop E F 0 st = Inl DG_out_of_fuel"
| "phi_loop E F (Suc k) st =
     bindE (foldE (phi_visit E (df_id F)) (fn_phis E F) (st, False)) (\<lambda>(st', Changed).
       if Changed then phi_loop E F k st' else Inr st')"

definition initial_operands :: "dg_env \<Rightarrow> nat \<Rightarrow> (nat \<times> nat) list" where
  "initial_operands E v = (case find (\<lambda>Phi. phi_var Phi = v) (concat (map (fn_phis E) (e_fns E))) of
     None \<Rightarrow> [] | Some Phi \<Rightarrow> phi_opsVar Phi)"

definition phiElimination :: "dg_env \<Rightarrow> nat \<Rightarrow> depgraph \<Rightarrow> dg_error + phi_state" where
  "phiElimination E fuel g =
     foldE (\<lambda>F. phi_loop E F fuel) (e_fns E) \<lparr>ps_graph = g, ps_opsVar = initial_operands E\<rparr>"

section \<open>Removals\<close>

text \<open>What an elimination leaves alone, and what a removal does.\<close>

definition same_taint :: "depgraph \<Rightarrow> depgraph \<Rightarrow> bool" where
  "same_taint g h \<longleftrightarrow> taintResetSSANodes h = taintResetSSANodes g \<and> ssaSources h = ssaSources g \<and> valueSources h = valueSources g"

definition node_number :: "depgraph \<Rightarrow> nat \<Rightarrow> nat" where
  "node_number g F = length (getRange (funcToSSANodesMap g) F)"

definition shrinks :: "depgraph \<Rightarrow> depgraph \<Rightarrow> bool" where
  "shrinks g h \<longleftrightarrow> edge_set h \<subseteq> edge_set g \<and> (wf_graph g \<longrightarrow> wf_graph h) \<and> same_taint g h \<and> node_number h \<le> node_number g"

lemma same_taint_trans: "same_taint f g \<Longrightarrow> same_taint g h \<Longrightarrow> same_taint f h"
  by (simp add: same_taint_def)

lemma shrinks_refl [simp]: "shrinks g g"
  by (simp add: shrinks_def same_taint_def)

lemma shrinks_trans: "shrinks f g \<Longrightarrow> shrinks g h \<Longrightarrow> shrinks f h"
  unfolding shrinks_def using same_taint_trans order_trans by blast

lemma erase_subset: "set (getRange (map_erase K v C) k) \<subseteq> set (getRange C k)"
  using set_remove1_subset [of v "getRange C K"] by simp

lemma edges_subset:
  assumes "\<And>k. set (getRange (llvmToLLVMChildren h) k) \<subseteq> set (getRange (llvmToLLVMChildren g) k)"
    "\<And>k. set (getRange (llvmToSSAChildren h) k) \<subseteq> set (getRange (llvmToSSAChildren g) k)"
    "\<And>k. set (getRange (ssaToLLVMChildren h) k) \<subseteq> set (getRange (ssaToLLVMChildren g) k)"
    "\<And>k. set (getRange (ssaToSSAChildren h) k) \<subseteq> set (getRange (ssaToSSAChildren g) k)"
  shows "edge_set h \<subseteq> edge_set g"
  using assms unfolding edge_set_def by blast

lemma shrinks_remove:
  "removeEdge_ss s d g = Inr h \<Longrightarrow> shrinks g h" "removeEdge_sl s d g = Inr h \<Longrightarrow> shrinks g h"
  "removeEdge_ls s d g = Inr h \<Longrightarrow> shrinks g h"
proof -
  assume "removeEdge_ss s d g = Inr h"
  then have h: "h = g\<lparr>ssaToSSAChildren := map_erase s d (ssaToSSAChildren g), ssaToSSAParents := map_erase d s (ssaToSSAParents g)\<rparr>"
    by (simp add: removeEdge_ss_def split: if_splits)
  have "edge_set h \<subseteq> edge_set g" unfolding h by (rule edges_subset) (simp_all add: erase_subset del: range_erase)
  then show "shrinks g h" by (simp add: h shrinks_def same_taint_def node_number_def le_fun_def wf_graph_def mirrored_erase)
next
  assume "removeEdge_sl s d g = Inr h"
  then have h: "h = g\<lparr>ssaToLLVMChildren := map_erase s d (ssaToLLVMChildren g), llvmToSSAParents := map_erase d s (llvmToSSAParents g)\<rparr>"
    by (simp add: removeEdge_sl_def split: if_splits)
  have "edge_set h \<subseteq> edge_set g" unfolding h by (rule edges_subset) (simp_all add: erase_subset del: range_erase)
  then show "shrinks g h" by (simp add: h shrinks_def same_taint_def node_number_def le_fun_def wf_graph_def mirrored_erase)
next
  assume "removeEdge_ls s d g = Inr h"
  then have h: "h = g\<lparr>llvmToSSAChildren := map_erase s d (llvmToSSAChildren g), ssaToLLVMParents := map_erase d s (ssaToLLVMParents g)\<rparr>"
    by (simp add: removeEdge_ls_def split: if_splits)
  have "edge_set h \<subseteq> edge_set g" unfolding h by (rule edges_subset) (simp_all add: erase_subset del: range_erase)
  then show "shrinks g h" by (simp add: h shrinks_def same_taint_def node_number_def le_fun_def wf_graph_def mirrored_erase)
qed

lemma ascending_erase: "ascending C \<Longrightarrow> ascending (map_erase K v C)"
  using sorted_remove by (simp add: ascending_def)

lemma shrinks_erase: "ssa_node_erase F v g = Inr h \<Longrightarrow> shrinks g h \<and> node_number h F < node_number g F"
proof -
  assume "ssa_node_erase F v g = Inr h"
  then have v: "v \<in> set (getRange (funcToSSANodesMap g) F)" and h: "h = g\<lparr>funcToSSANodesMap := map_erase F v (funcToSSANodesMap g)\<rparr>"
    by (auto simp: ssa_node_erase_def split: if_splits)
  have "0 < length (getRange (funcToSSANodesMap g) F)" using v by (cases "getRange (funcToSSANodesMap g) F") auto
  with v show ?thesis unfolding h
    by (auto simp: shrinks_def same_taint_def edge_set_def wf_graph_def ascending_erase node_number_def le_fun_def length_remove1)
qed

lemma shrinks_foldE:
  assumes "foldE op xs g = Inr h" "\<And>x g h. op x g = Inr h \<Longrightarrow> shrinks g h"
  shows "shrinks g h"
  using assms(1)
proof (induction xs arbitrary: g)
  case (Cons x xs)
  then obtain k where "op x g = Inr k" "foldE op xs k = Inr h" by (auto simp: bindE_eq_Inr)
  with Cons.IH assms(2) shrinks_trans show ?case by blast
qed simp

lemma shrinks_operands: "remove_operands Rest g = Inr h \<Longrightarrow> shrinks g h"
proof -
  assume "remove_operands Rest g = Inr h"
  then obtain xs ys zs g1 g2 where s: "foldE (\<lambda>(s, d). removeEdge_ss s d) xs g = Inr g1"
    "foldE (\<lambda>(s, d). removeEdge_sl s d) ys g1 = Inr g2" "foldE (\<lambda>(s, d). removeEdge_ls s d) zs g2 = Inr h"
    by (auto simp: remove_operands_def bindE_eq_Inr Let_def)
  have "shrinks g g1" by (rule shrinks_foldE [OF s(1)]) (auto dest: shrinks_remove)
  moreover have "shrinks g1 g2" by (rule shrinks_foldE [OF s(2)]) (auto dest: shrinks_remove)
  moreover have "shrinks g2 h" by (rule shrinks_foldE [OF s(3)]) (auto dest: shrinks_remove)
  ultimately show ?thesis using shrinks_trans by blast
qed

section \<open>An elimination adds no flow\<close>

lemma grown_added:
  "grown g (fold (\<lambda>V. addEdge_ss a V) xs g)" "grown g (fold (\<lambda>V. addEdge_sl a V) xs g)"
  by (intro grown_fold grown_add grown_refl; assumption)+

lemma edges_added:
  "edge_set (fold (\<lambda>V. addEdge_ss a V) xs g) = edge_set g \<union> {(S a, S V) |V. V \<in> set xs}"
  "edge_set (fold (\<lambda>V. addEdge_sl a V) xs g) = edge_set g \<union> {(S a, L V) |V. V \<in> set xs}"
  by (induction xs arbitrary: g) auto

lemma same_added:
  "same_taint g (fold (\<lambda>V. addEdge_ss a V) xs g) \<and> node_number (fold (\<lambda>V. addEdge_ss a V) xs g) = node_number g"
  "same_taint g (fold (\<lambda>V. addEdge_sl a V) xs g) \<and> node_number (fold (\<lambda>V. addEdge_sl a V) xs g) = node_number g"
  by (induction xs arbitrary: g)
    (auto simp: same_taint_def node_number_def fun_eq_iff addEdge_ss_def addEdge_sl_def)

definition moves :: "nat \<Rightarrow> nat \<Rightarrow> depgraph \<Rightarrow> depgraph \<Rightarrow> bool" where
  "moves a v g h \<longleftrightarrow> edge_set h \<subseteq> edge_set g \<union> {(S a, x) |x. (S v, x) \<in> edge_set g} \<and> (wf_graph g \<longrightarrow> wf_graph h) \<and>
     same_taint g h \<and> node_number h \<le> node_number g"

lemma moves_children:
  assumes "move_children a v g = Inr h"
  shows "moves a v g h"
proof -
  let ?Cs = "getRange (ssaToSSAChildren g) v"
  let ?g1 = "fold (\<lambda>V. addEdge_ss a V) ?Cs g"
  obtain g2 where s1: "foldE (\<lambda>V. removeEdge_ss v V) ?Cs ?g1 = Inr g2"
    and s2: "foldE (\<lambda>V. removeEdge_sl v V) (getRange (ssaToLLVMChildren g2) v)
      (fold (\<lambda>V. addEdge_sl a V) (getRange (ssaToLLVMChildren g2) v) g2) = Inr h"
    using assms by (auto simp: move_children_def bindE_eq_Inr Let_def)
  let ?Vs = "getRange (ssaToLLVMChildren g2) v"
  let ?g3 = "fold (\<lambda>V. addEdge_sl a V) ?Vs g2"
  have sh: "shrinks ?g1 g2" by (rule shrinks_foldE [OF s1]) (rule shrinks_remove)
  have sh2: "shrinks ?g3 h" by (rule shrinks_foldE [OF s2]) (rule shrinks_remove)
  have e1: "edge_set ?g1 = edge_set g \<union> {(S a, S V) |V. (S v, S V) \<in> edge_set g}" by (simp add: edges_added edge_set_iff)
  have e3: "edge_set ?g3 = edge_set g2 \<union> {(S a, L V) |V. (S v, L V) \<in> edge_set g2}" by (simp add: edges_added edge_set_iff)
  have "(S v, L V) \<in> edge_set g" if "(S v, L V) \<in> edge_set g2" for V
    using that sh unfolding shrinks_def e1 by blast
  then have "edge_set h \<subseteq> edge_set g \<union> {(S a, x) |x. (S v, x) \<in> edge_set g}"
    using sh sh2 unfolding shrinks_def e1 e3 by blast
  moreover have "wf_graph g \<longrightarrow> wf_graph h"
    using sh sh2 grown_wf [OF grown_added(1), of g a ?Cs] grown_wf [OF grown_added(2), of g2 a ?Vs] unfolding shrinks_def by blast
  moreover have "same_taint g h"
    using sh sh2 same_added(1) [of g a ?Cs] same_added(2) [of g2 a ?Vs] unfolding shrinks_def by (blast intro: same_taint_trans)
  moreover have "node_number h \<le> node_number g"
    using sh sh2 same_added(1) [of g a ?Cs] same_added(2) [of g2 a ?Vs] unfolding shrinks_def by (metis order_trans)
  ultimately show ?thesis by (simp add: moves_def)
qed

lemma removed_was_edge:
  "foldE (\<lambda>op. removeEdge_ss op v) (a # Rest) g = Inr h \<Longrightarrow> (S a, S v) \<in> edge_set g"
  by (auto simp: removeEdge_ss_def edge_set_iff bindE_eq_Inr split: if_splits)

lemma eliminate_moves:
  assumes "eliminatePhi E F Phi Ops st = Inr st'"
  shows "\<exists>a. (S a, S (phi_var Phi)) \<in> edge_set (ps_graph st) \<and> moves a (phi_var Phi) (ps_graph st) (ps_graph st') \<and>
    node_number (ps_graph st') F < node_number (ps_graph st) F"
proof -
  let ?v = "phi_var Phi"
  obtain a Rest where ops: "to_set Ops = a # Rest" using assms by (auto simp: eliminatePhi_def split: list.splits)
  obtain g1 g2 g3 g4 g5 where s: "foldE (\<lambda>V. removeEdge_ls V ?v) (phi_preds Phi) (ps_graph st) = Inr g1"
    "foldE (\<lambda>op. removeEdge_ss op ?v) (a # Rest) g1 = Inr g2" "move_children a ?v g2 = Inr g3"
    "ssa_node_erase F ?v g3 = Inr g4" "remove_operands Rest g4 = Inr g5" "foldE (ssa_node_erase F) Rest g5 = Inr (ps_graph st')"
    using assms ops by (auto simp: eliminatePhi_def Let_def bindE_eq_Inr simp del: foldE.simps)
  have 1: "shrinks (ps_graph st) g1" by (rule shrinks_foldE [OF s(1)]) (rule shrinks_remove)
  have 2: "shrinks g1 g2" by (rule shrinks_foldE [OF s(2)]) (rule shrinks_remove)
  have 5: "shrinks g5 (ps_graph st')" by (rule shrinks_foldE [OF s(6)]) (simp add: shrinks_erase)
  have a: "shrinks (ps_graph st) g2" using shrinks_trans [OF 1 2] .
  have b: "shrinks g3 (ps_graph st')" using shrinks_erase [OF s(4)] shrinks_operands [OF s(5)] 5 shrinks_trans by blast
  have "node_number (ps_graph st') F < node_number g3 F"
    using shrinks_erase [OF s(4)] shrinks_trans [OF shrinks_operands [OF s(5)] 5]
    by (auto simp: shrinks_def le_fun_def intro: le_less_trans)
  moreover have "node_number g3 F \<le> node_number (ps_graph st) F"
    using moves_children [OF s(3)] a by (auto simp: moves_def shrinks_def le_fun_def intro: order_trans)
  moreover have "(S a, S ?v) \<in> edge_set (ps_graph st)" using removed_was_edge [OF s(2)] 1 by (auto simp: shrinks_def)
  moreover have "moves a ?v (ps_graph st) (ps_graph st')"
  proof -
    have "edge_set (ps_graph st') \<subseteq> edge_set (ps_graph st) \<union> {(S a, x) |x. (S ?v, x) \<in> edge_set (ps_graph st)}"
      using moves_children [OF s(3)] a b unfolding moves_def shrinks_def by blast
    moreover have "same_taint (ps_graph st) (ps_graph st')"
      using moves_children [OF s(3)] a b unfolding moves_def shrinks_def by (blast intro: same_taint_trans)
    moreover have "node_number (ps_graph st') \<le> node_number (ps_graph st)"
      using moves_children [OF s(3)] a b unfolding moves_def shrinks_def by (blast intro: order_trans)
    ultimately show ?thesis using moves_children [OF s(3)] a b unfolding moves_def shrinks_def by blast
  qed
  ultimately show ?thesis by (blast intro: le_less_trans less_le_trans)
qed

text \<open>On the flows that carry taint.\<close>

definition weaker :: "dg_env \<Rightarrow> depgraph \<Rightarrow> depgraph \<Rightarrow> bool" where
  "weaker E g h \<longleftrightarrow> (wf_graph g \<longrightarrow> wf_graph h) \<and> (finite (edge_set g) \<longrightarrow> finite (edge_set h)) \<and> same_taint g h \<and> node_number h \<le> node_number g \<and>
     ((\<forall>F\<in>set (e_fns E). \<forall>Phi\<in>set (fn_phis E F). phi_var Phi \<notin> set (taintResetSSANodes g)) \<longrightarrow>
      carries Everywhere h \<subseteq> (carries Everywhere g)\<^sup>+)"

lemma weaker_refl [simp]: "weaker E g g"
  by (auto simp: weaker_def same_taint_def)

lemma weaker_trans: "weaker E f g \<Longrightarrow> weaker E g h \<Longrightarrow> weaker E f h"
proof -
  assume fg: "weaker E f g" and gh: "weaker E g h"
  have "carries Everywhere h \<subseteq> (carries Everywhere f)\<^sup>+"
    if "carries Everywhere g \<subseteq> (carries Everywhere f)\<^sup>+" "carries Everywhere h \<subseteq> (carries Everywhere g)\<^sup>+"
    using that trancl_mono_subset [OF that(1)] by simp
  moreover have "same_taint f h" using fg gh by (auto simp: weaker_def intro: same_taint_trans)
  moreover have "node_number h \<le> node_number f" using fg gh by (auto simp: weaker_def intro: order_trans)
  ultimately show ?thesis using fg gh by (simp add: weaker_def same_taint_def)
qed

lemma moves_weaker:
  assumes m: "moves a v g h" and e: "(S a, S v) \<in> edge_set g" and v: "\<exists>F\<in>set (e_fns E). \<exists>Phi\<in>set (fn_phis E F). phi_var Phi = v"
  shows "weaker E g h"
proof -
  have "carries Everywhere h \<subseteq> (carries Everywhere g)\<^sup>+" if r: "v \<notin> set (taintResetSSANodes g)"
  proof clarify
    fix x y assume xy: "(x, y) \<in> carries Everywhere h"
    then have x: "x \<notin> S ` set (taintResetSSANodes g)" and i: "\<And>z. inside Everywhere g z"
      using m by (auto simp: carries_def moves_def same_taint_def elim: inside.elims intro: gnode.induct)
    have "(x, y) \<in> edge_set g \<or> x = S a \<and> (S v, y) \<in> edge_set g" using xy m by (auto simp: carries_def moves_def)
    then show "(x, y) \<in> (carries Everywhere g)\<^sup>+"
    proof (elim disjE conjE)
      assume "(x, y) \<in> edge_set g"
      with x i show ?thesis by (auto simp: carries_def)
    next
      assume "x = S a" "(S v, y) \<in> edge_set g"
      with x i e r have "(x, S v) \<in> carries Everywhere g" "(S v, y) \<in> carries Everywhere g" by (auto simp: carries_def)
      then show ?thesis by (rule trancl_into_trancl [OF r_into_trancl])
    qed
  qed
  moreover have "finite (edge_set h)" if f: "finite (edge_set g)"
  proof -
    have "{(S a, x) |x. (S v, x) \<in> edge_set g} \<subseteq> (\<lambda>(u, x). (S a, x)) ` edge_set g" by force
    with f have "finite (edge_set g \<union> {(S a, x) |x. (S v, x) \<in> edge_set g})" by (auto intro: finite_subset)
    with m show ?thesis by (auto simp: moves_def intro: finite_subset)
  qed
  ultimately show ?thesis using m v by (auto simp: weaker_def moves_def)
qed

lemma visit_weaker:
  assumes "phi_visit E F Phi (st, ch) = Inr (st', ch')" "G \<in> set (e_fns E)" "Phi \<in> set (fn_phis E G)"
  shows "weaker E (ps_graph st) (ps_graph st') \<and>
    (ch' \<noteq> ch \<longrightarrow> node_number (ps_graph st') F < node_number (ps_graph st) F) \<and> (ch \<longrightarrow> ch')"
proof (cases "st' = st \<and> ch' = ch")
  case False
  then have e: "eliminatePhi E F Phi (map snd (ps_opsVar st (phi_var Phi))) st = Inr st'" "ch'"
    using assms(1) by (auto simp: phi_visit_def Let_def bindE_eq_Inr split: option.splits if_splits)
  from eliminate_moves [OF e(1)] moves_weaker assms(2,3) e(2) show ?thesis by blast
qed simp

lemma pass_weaker:
  assumes "foldE (phi_visit E F) Ps (st, ch) = Inr (st', ch')" "G \<in> set (e_fns E)" "set Ps \<subseteq> set (fn_phis E G)"
  shows "weaker E (ps_graph st) (ps_graph st') \<and>
    (ch' \<noteq> ch \<longrightarrow> node_number (ps_graph st') F < node_number (ps_graph st) F) \<and> (ch \<longrightarrow> ch')"
  using assms(1,3)
proof (induction Ps arbitrary: st ch)
  case (Cons Phi Ps)
  then obtain st1 ch1 where s: "phi_visit E F Phi (st, ch) = Inr (st1, ch1)" "foldE (phi_visit E F) Ps (st1, ch1) = Inr (st', ch')"
    by (auto simp: bindE_eq_Inr)
  have v: "weaker E (ps_graph st) (ps_graph st1)" "ch1 \<noteq> ch \<longrightarrow> node_number (ps_graph st1) F < node_number (ps_graph st) F" "ch \<longrightarrow> ch1"
    using visit_weaker [OF s(1) assms(2)] Cons.prems(2) by auto
  have p: "weaker E (ps_graph st1) (ps_graph st')" "ch' \<noteq> ch1 \<longrightarrow> node_number (ps_graph st') F < node_number (ps_graph st1) F" "ch1 \<longrightarrow> ch'"
    using Cons.IH [OF s(2)] Cons.prems(2) by auto
  have "node_number (ps_graph st1) F \<le> node_number (ps_graph st) F" "node_number (ps_graph st') F \<le> node_number (ps_graph st1) F"
    using v(1) p(1) by (auto simp: weaker_def le_fun_def)
  then show ?case using v p weaker_trans [OF v(1) p(1)] by auto
qed simp

lemma loop_weaker:
  assumes "phi_loop E G k st = Inr st'" "G \<in> set (e_fns E)"
  shows "weaker E (ps_graph st) (ps_graph st')"
  using assms(1)
proof (induction k arbitrary: st)
  case (Suc k)
  then obtain st1 ch where s: "foldE (phi_visit E (df_id G)) (fn_phis E G) (st, False) = Inr (st1, ch)"
    "(if ch then phi_loop E G k st1 else Inr st1) = Inr st'" by (auto simp: bindE_eq_Inr)
  from pass_weaker [OF s(1) assms(2)] Suc.IH [of st1] s(2) weaker_trans show ?case by (auto split: if_splits)
qed simp

section \<open>Termination\<close>

definition no_fuel_error :: "dg_error + 'a \<Rightarrow> bool" where
  "no_fuel_error r \<longleftrightarrow> r \<noteq> Inl DG_out_of_fuel"

lemma fuel_bind: "no_fuel_error m \<Longrightarrow> (\<And>x. m = Inr x \<Longrightarrow> no_fuel_error (k x)) \<Longrightarrow> no_fuel_error (bindE m k)"
  by (cases m) (auto simp: no_fuel_error_def)

lemma fuel_foldE: "(\<And>x s. x \<in> set xs \<Longrightarrow> no_fuel_error (f x s)) \<Longrightarrow> no_fuel_error (foldE f xs s)"
  by (induction xs arbitrary: s) (auto intro!: fuel_bind simp: no_fuel_error_def [of "Inr _"])

lemma fuel_edges:
  "no_fuel_error (removeEdge_ss s d g)" "no_fuel_error (removeEdge_sl s d g)" "no_fuel_error (removeEdge_ls s d g)"
  "no_fuel_error (ssa_node_erase F v g)" "no_fuel_error (Inr x)" "no_fuel_error (Inl DG_Out_of_range)" "no_fuel_error (Inl DG_Assertion)"
  by (simp_all add: no_fuel_error_def removeEdge_ss_def removeEdge_sl_def removeEdge_ls_def ssa_node_erase_def)

lemma fuel_eliminate: "no_fuel_error (eliminatePhi E F Phi Ops st)"
  unfolding eliminatePhi_def move_children_def remove_operands_def Let_def split_beta
  by (cases "to_set Ops"; simp only: list.case; intro fuel_bind fuel_foldE fuel_edges)

lemma fuel_visit: "no_fuel_error (phi_visit E F Phi p)"
  unfolding phi_visit_def Let_def split_beta
  by (cases "funcToSSANodesMap (ps_graph (fst p)) F"; simp only: option.case) (auto intro!: fuel_bind fuel_eliminate fuel_edges)

lemma fuel_loop:
  assumes "G \<in> set (e_fns E)" "node_number (ps_graph st) (df_id G) < k"
  shows "no_fuel_error (phi_loop E G k st)"
  using assms(2)
proof (induction k arbitrary: st)
  case (Suc k)
  show ?case unfolding phi_loop.simps
  proof (rule fuel_bind)
    show "no_fuel_error (foldE (phi_visit E (df_id G)) (fn_phis E G) (st, False))" by (intro fuel_foldE fuel_visit)
    fix p assume p: "foldE (phi_visit E (df_id G)) (fn_phis E G) (st, False) = Inr p"
    obtain st' ch where e: "p = (st', ch)" by (cases p)
    from pass_weaker [OF p [unfolded e] assms(1)] Suc have "ch \<Longrightarrow> no_fuel_error (phi_loop E G k st')" by force
    then show "no_fuel_error (case p of (st', Changed) \<Rightarrow> if Changed then phi_loop E G k st' else Inr st')"
      unfolding e by (simp add: no_fuel_error_def)
  qed
qed simp

lemma elimination_weaker:
  assumes "foldE (\<lambda>F. phi_loop E F k) Fs st = Inr st'" "set Fs \<subseteq> set (e_fns E)"
  shows "weaker E (ps_graph st) (ps_graph st')"
  using assms
proof (induction Fs arbitrary: st)
  case (Cons F Fs)
  then obtain st1 where "phi_loop E F k st = Inr st1" "foldE (\<lambda>F. phi_loop E F k) Fs st1 = Inr st'"
    by (auto simp: bindE_eq_Inr)
  with Cons loop_weaker weaker_trans show ?case by (metis insert_subset list.simps(15))
qed simp

lemma elimination_fuel:
  assumes "\<And>F. F \<in> set (e_fns E) \<Longrightarrow> node_number (ps_graph st) (df_id F) < k" "set Fs \<subseteq> set (e_fns E)"
  shows "no_fuel_error (foldE (\<lambda>F. phi_loop E F k) Fs st)"
  using assms
proof (induction Fs arbitrary: st)
  case (Cons F Fs)
  show ?case unfolding foldE.simps
  proof (rule fuel_bind)
    show "no_fuel_error (phi_loop E F k st)" using Cons.prems by (intro fuel_loop) auto
    fix st1 assume "phi_loop E F k st = Inr st1"
    then have "weaker E (ps_graph st) (ps_graph st1)" using Cons.prems(2) by (intro loop_weaker) auto
    then have "node_number (ps_graph st1) (df_id G) \<le> node_number (ps_graph st) (df_id G)" for G by (auto simp: weaker_def le_fun_def)
    with Cons.prems show "no_fuel_error (foldE (\<lambda>F. phi_loop E F k) Fs st1)" by (intro Cons.IH) (auto intro: le_less_trans)
  qed
qed (simp add: no_fuel_error_def)

section \<open>Property\<close>


text \<open>In the example the phi of the two equal stores goes, and with it the taint of the load of \<open>a\<close>.\<close>

lemma phi_loop_unfold:
  "phi_loop E F k st = (case k of 0 \<Rightarrow> Inl DG_out_of_fuel
     | Suc k' \<Rightarrow> bindE (foldE (phi_visit E (df_id F)) (fn_phis E F) (st, False)) (\<lambda>(st', Changed).
         if Changed then phi_loop E F k' st' else Inr st'))"
  by (cases k) simp_all

lemmas phi_defs = phi_loop_unfold phi_visit_def eliminatePhi_def move_children_def rewrite_operands_def remove_operands_def
  areSSANodesEquivalent_def same_number_def all_shared_def is_phi_var_def removeEdge_ss_def removeEdge_sl_def removeEdge_ls_def
  ssa_node_erase_def map_erase_def initial_operands_def fn_phis_def to_set_def

lemma rank_elimination:
  "case phiElimination (rank_env False) 10 rank_graph of Inl e \<Rightarrow> False
   | Inr st \<Rightarrow> computeTaintedValuesContextInsensitive 10 (ps_graph st) =
       Inr \<lparr>taintedSSANodes = [60, 50], taintedLLVMNodes = [11, 12], taintedConditions = [11, 12]\<rparr>"
  by (simp add: phiElimination_def phi_defs rank_env_def rank_mssa_def mk_defs rank_graph_def graph_defs flood_defs Let_def
      computeTaintedValuesContextInsensitive_def)


end
