(* ===== verification/Dep_Context.thy ===== *)
theory Dep_Context
  imports Dep_Phi
begin

text \<open>
  The context-sensitive flooding (\<open>src/aSSA/DepGraphDCF.cpp\<close>), the default of
  the tool, and the whole of \<open>DepGraphDCF::build\<close>: a walk over the call graph
  from its entry floods one function at a time, from the function visited
  before, records the tainted conditions of its calls, and forgets the taint of
  a function on the way back to its caller.

  A failed assertion, also one of the comparisons of sizes at the end, is the
  error \<open>DG_Assertion\<close>.
\<close>

section \<open>One function\<close>

definition has_inst :: "dg_fn \<Rightarrow> nat \<Rightarrow> bool" where
  "has_inst F v = list_ex (\<lambda>(BB, insts). list_ex (\<lambda>I. di_id I = v) insts) (df_blocks F)"

definition add_all :: "nat list \<Rightarrow> nat list \<Rightarrow> nat list" where
  "add_all xs T = fold List.insert xs T"

definition drop_all :: "nat list \<Rightarrow> nat list \<Rightarrow> nat list" where
  "drop_all xs T = filter (\<lambda>x. x \<notin> set xs) T"

definition floodFunction :: "nat \<Rightarrow> depgraph \<Rightarrow> dg_fn \<Rightarrow> taint \<Rightarrow> dg_error + taint" where
  "floodFunction fuel g F t =
     (let TS = add_all (filter (var_in (Inside (df_id F)) g) (ssaSources g)) (taintedSSANodes t);
          TL = add_all (filter (has_inst F) (valueSources g)) (taintedLLVMNodes t);
          VarToVisit = filter (\<lambda>v. v \<in> set TS) (getRange (funcToSSANodesMap g) (df_id F));
          ValueToVisit = filter (\<lambda>v. v \<in> set TL) (getRange (funcToLLVMNodesMap g) (df_id F))
      in bindE (flood_loop (Inside (df_id F)) g fuel (VarToVisit, ValueToVisit, TS, TL)) (\<lambda>(TS', TL').
           Inr (t\<lparr>taintedSSANodes := TS', taintedLLVMNodes := TL'\<rparr>)))"

text \<open>From one function to another, one node at a time: the children in the other function
  become tainted, or untainted when the node stops the taint.\<close>

definition flood_var_into :: "depgraph \<Rightarrow> nat \<Rightarrow> nat \<Rightarrow> taint \<Rightarrow> taint" where
  "flood_var_into g To s t =
     (let Ds = filter (var_in (Inside To) g) (getRange (ssaToSSAChildren g) s);
          Vs = filter (value_in (Inside To) g) (getRange (ssaToLLVMChildren g) s)
      in if s \<notin> set (taintedSSANodes t) then t
         else if s \<in> set (taintResetSSANodes g)
         then t\<lparr>taintedSSANodes := drop_all Ds (taintedSSANodes t), taintedLLVMNodes := drop_all Vs (taintedLLVMNodes t)\<rparr>
         else t\<lparr>taintedSSANodes := add_all Ds (taintedSSANodes t), taintedLLVMNodes := add_all Vs (taintedLLVMNodes t)\<rparr>)"

definition flood_value_into :: "depgraph \<Rightarrow> nat \<Rightarrow> nat \<Rightarrow> taint \<Rightarrow> taint" where
  "flood_value_into g To s t =
     (if s \<notin> set (taintedLLVMNodes t) then t
      else t\<lparr>taintedSSANodes := add_all (filter (var_in (Inside To) g) (getRange (llvmToSSAChildren g) s)) (taintedSSANodes t),
             taintedLLVMNodes := add_all (filter (value_in (Inside To) g) (getRange (llvmToLLVMChildren g) s)) (taintedLLVMNodes t)\<rparr>)"

definition floodFunctionFromFunction :: "depgraph \<Rightarrow> nat \<Rightarrow> nat \<Rightarrow> taint \<Rightarrow> taint" where
  "floodFunctionFromFunction g To From t =
     fold (flood_value_into g To) (getRange (funcToLLVMNodesMap g) From)
       (fold (flood_var_into g To) (getRange (funcToSSANodesMap g) From) t)"

definition resetFunctionTaint :: "ptacg \<Rightarrow> depgraph \<Rightarrow> nat \<Rightarrow> taint \<Rightarrow> dg_error + taint" where
  "resetFunctionTaint cg g F t =
     (if \<not> isReachableFromEntry cg F then Inl DG_Assertion
      else Inr (t\<lparr>taintedSSANodes := drop_all (getRange (funcToSSANodesMap g) F) (taintedSSANodes t),
                  taintedLLVMNodes := drop_all (getRange (funcToLLVMNodesMap g) F) (taintedLLVMNodes t)\<rparr>))"

fun is_call :: "dg_op \<Rightarrow> bool" where
  "is_call (CallOp c dbg) = True"
| "is_call _ = False"

definition computeFunctionCSTaintedConds :: "depgraph \<Rightarrow> dg_fn \<Rightarrow> taint \<Rightarrow> taint" where
  "computeFunctionCSTaintedConds g F t =
     t\<lparr>taintedConditions := add_all
        (concat (map (\<lambda>(BB, insts). concat (map (\<lambda>I. if is_call (di_op I)
             then filter (\<lambda>V. V \<in> set (taintedLLVMNodes t)) (getRange (callsiteToConds g) (di_id I)) else []) insts)) (df_blocks F)))
        (taintedConditions t)\<rparr>"

section \<open>The walk\<close>

record walk =
  wk_stack :: "cg_node list"
  Node2VisitedChildrenMap :: "cg_node \<Rightarrow> cg_node list"
  GoingDown :: bool
  Prev :: "nat option"
  wk_taint :: taint

text \<open>The first callee that was not visited from this node; external callees on the way are
  marked, but not walked to.\<close>

fun next_child :: "cg_node list \<Rightarrow> cg_node list \<Rightarrow> bool \<Rightarrow> bool \<times> cg_node list \<times> cg_node option" where
  "next_child [] Visited FoundChildren = (FoundChildren, Visited, None)"
| "next_child (M # Ms) Visited FoundChildren =
     (if M \<in> set Visited then next_child Ms Visited FoundChildren
      else if function_of M \<noteq> None then (True, M # Visited, Some M)
      else next_child Ms (M # Visited) True)"

definition visit_node :: "nat \<Rightarrow> dg_env \<Rightarrow> ptacg \<Rightarrow> depgraph \<Rightarrow> walk \<Rightarrow> nat \<Rightarrow> dg_error + taint" where
  "visit_node fuel E cg g w f =
     bindE (fn_of E f) (\<lambda>F.
     bindE (floodFunction fuel g F (case Prev w of None \<Rightarrow> wk_taint w | Some p \<Rightarrow> floodFunctionFromFunction g f p (wk_taint w))) (\<lambda>t.
       let t1 = computeFunctionCSTaintedConds g F t in
       case Prev w of
         None \<Rightarrow> Inr t1
       | Some p \<Rightarrow> if GoingDown w then Inr t1 else resetFunctionTaint cg g p t1))"

definition walk_step :: "nat \<Rightarrow> dg_env \<Rightarrow> ptacg \<Rightarrow> depgraph \<Rightarrow> walk \<Rightarrow> dg_error + walk" where
  "walk_step fuel E cg g w = (case wk_stack w of
     [] \<Rightarrow> Inr w
   | N # Rest \<Rightarrow>
       (case function_of N of
          None \<Rightarrow> Inl DG_Null
        | Some f \<Rightarrow> bindE (visit_node fuel E cg g w f) (\<lambda>t.
            (case next_child (callees cg N) (Node2VisitedChildrenMap w N) False of
               (FoundChildren, Visited, Child) \<Rightarrow>
                 Inr (w\<lparr>wk_stack := (case Child of Some M \<Rightarrow> M # N # Rest | None \<Rightarrow> if FoundChildren then N # Rest else Rest),
                        Node2VisitedChildrenMap := (Node2VisitedChildrenMap w)(N := Visited),
                        GoingDown := FoundChildren, Prev := Some f, wk_taint := t\<rparr>)))))"

fun walk_loop :: "nat \<Rightarrow> dg_env \<Rightarrow> ptacg \<Rightarrow> depgraph \<Rightarrow> nat \<Rightarrow> walk \<Rightarrow> dg_error + taint" where
  "walk_loop fuel E cg g k w = (if wk_stack w = [] then Inr (wk_taint w) else
     case k of 0 \<Rightarrow> Inl DG_out_of_fuel | Suc k' \<Rightarrow> bindE (walk_step fuel E cg g w) (walk_loop fuel E cg g k'))"

definition computeTaintedValuesCSForEntry :: "nat \<Rightarrow> dg_env \<Rightarrow> ptacg \<Rightarrow> depgraph \<Rightarrow> cg_node \<Rightarrow> taint \<Rightarrow> dg_error + taint" where
  "computeTaintedValuesCSForEntry fuel E cg g Entry t =
     walk_loop fuel E cg g fuel \<lparr>wk_stack = [Entry], Node2VisitedChildrenMap = (\<lambda>_. []), GoingDown = True, Prev = None, wk_taint = t\<rparr>"

definition computeTaintedValuesContextSensitive :: "nat \<Rightarrow> dg_env \<Rightarrow> ptacg \<Rightarrow> depgraph \<Rightarrow> dg_error + taint" where
  "computeTaintedValuesContextSensitive fuel E cg g =
     (case Root cg of
        None \<Rightarrow> Inl DG_Null
      | Some Entry \<Rightarrow>
          if function_of Entry \<noteq> None then computeTaintedValuesCSForEntry fuel E cg g Entry no_taint
          else foldE (computeTaintedValuesCSForEntry fuel E cg g) (callees cg Entry) no_taint)"

text \<open>The constructor: construction, elimination of phis, flooding.\<close>

definition build :: "nat \<Rightarrow> bool \<Rightarrow> dg_env \<Rightarrow> ptacg \<Rightarrow> dg_error + taint" where
  "build fuel ContextInsensitive E cg =
     bindE (build_graph E) (\<lambda>g0.
     bindE (if disablePhiElim E then Inr g0 else bindE (phiElimination E fuel g0) (\<lambda>st. Inr (ps_graph st))) (\<lambda>g.
       if ContextInsensitive then computeTaintedValuesContextInsensitive fuel g
       else computeTaintedValuesContextSensitive fuel E cg g))"

section \<open>It taints nothing the whole graph does not\<close>

definition taint_within :: "gnode set \<Rightarrow> taint \<Rightarrow> bool" where
  "taint_within X t \<longleftrightarrow> nodes (taintedSSANodes t) (taintedLLVMNodes t) \<subseteq> X \<and> L ` set (taintedConditions t) \<subseteq> X"

lemma set_add_all [simp]: "set (add_all xs T) = set xs \<union> set T"
  by (induction xs arbitrary: T) (auto simp: add_all_def)

lemma set_drop_all [simp]: "set (drop_all xs T) = set T - set xs"
  by (auto simp: drop_all_def)

lemma carries_whole: "carries sc g \<subseteq> carries Everywhere g"
proof -
  have "inside Everywhere g v" for v by (cases v) simp_all
  then show ?thesis by (auto simp: carries_def)
qed

lemma floodFunction_within:
  assumes "floodFunction fuel g F t = Inr t'" "taint_within X t" "carries Everywhere g `` X \<subseteq> X" "sources g \<subseteq> X"
  shows "taint_within X t'"
proof -
  let ?TS = "add_all (filter (var_in (Inside (df_id F)) g) (ssaSources g)) (taintedSSANodes t)"
  let ?TL = "add_all (filter (has_inst F) (valueSources g)) (taintedLLVMNodes t)"
  let ?st = "(filter (\<lambda>v. v \<in> set ?TS) (getRange (funcToSSANodesMap g) (df_id F)),
    filter (\<lambda>v. v \<in> set ?TL) (getRange (funcToLLVMNodesMap g) (df_id F)), ?TS, ?TL)"
  obtain TS TL where l: "flood_loop (Inside (df_id F)) g fuel ?st = Inr (TS, TL)" "t' = t\<lparr>taintedSSANodes := TS, taintedLLVMNodes := TL\<rparr>"
    using assms(1) by (auto simp: floodFunction_def Let_def bindE_eq_Inr)
  have "bounded X ?st" using assms(2,4) by (auto simp: bounded_def tainted_def queued_def taint_within_def sources_def)
  moreover have "carries (Inside (df_id F)) g `` X \<subseteq> X" using carries_whole assms(3) by blast
  ultimately have "nodes TS TL \<subseteq> X" using flood_loop_bounded [OF l(1)] by blast
  with l(2) assms(2) show ?thesis by (simp add: taint_within_def)
qed

lemma edge_carries: "(u, v) \<in> edge_set g \<Longrightarrow> u \<notin> S ` set (taintResetSSANodes g) \<Longrightarrow> (u, v) \<in> carries Everywhere g"
  by (cases v) (auto simp: carries_def)

lemma into_within:
  assumes "taint_within X t" "carries Everywhere g `` X \<subseteq> X"
  shows "taint_within X (flood_var_into g To s t)" "taint_within X (flood_value_into g To s t)"
proof -
  have v: "S d \<in> X" if "S s \<in> X" "s \<notin> set (taintResetSSANodes g)" "d \<in> set (getRange (ssaToSSAChildren g) s)" for d
    using assms(2) edge_carries [of "S s" "S d" g] that by (auto simp: edge_set_iff)
  have l: "L d \<in> X" if "S s \<in> X" "s \<notin> set (taintResetSSANodes g)" "d \<in> set (getRange (ssaToLLVMChildren g) s)" for d
    using assms(2) edge_carries [of "S s" "L d" g] that by (auto simp: edge_set_iff)
  show "taint_within X (flood_var_into g To s t)"
    using assms(1) v l by (auto simp: flood_var_into_def taint_within_def Let_def)
  have v: "S d \<in> X" if "L s \<in> X" "d \<in> set (getRange (llvmToSSAChildren g) s)" for d
    using assms(2) edge_carries [of "L s" "S d" g] that by (auto simp: edge_set_iff)
  have l: "L d \<in> X" if "L s \<in> X" "d \<in> set (getRange (llvmToLLVMChildren g) s)" for d
    using assms(2) edge_carries [of "L s" "L d" g] that by (auto simp: edge_set_iff)
  show "taint_within X (flood_value_into g To s t)"
    using assms(1) v l by (auto simp: flood_value_into_def taint_within_def)
qed

lemma fold_inv: "P s \<Longrightarrow> (\<And>x s. P s \<Longrightarrow> P (f x s)) \<Longrightarrow> P (fold f xs s)"
  by (induction xs arbitrary: s) auto

lemma from_within:
  assumes "taint_within X t" "carries Everywhere g `` X \<subseteq> X"
  shows "taint_within X (floodFunctionFromFunction g To From t)"
  unfolding floodFunctionFromFunction_def
  by (intro fold_inv [where P = "taint_within X"] into_within assms)

lemma conds_within: "taint_within X t \<Longrightarrow> taint_within X (computeFunctionCSTaintedConds g F t)"
  by (auto simp: taint_within_def computeFunctionCSTaintedConds_def split: if_splits)

lemma reset_within: "resetFunctionTaint cg g F t = Inr t' \<Longrightarrow> taint_within X t \<Longrightarrow> taint_within X t'"
  by (auto simp: taint_within_def resetFunctionTaint_def split: if_splits)

lemma node_within:
  assumes "visit_node fuel E cg g w f = Inr t" "taint_within X (wk_taint w)" "carries Everywhere g `` X \<subseteq> X" "sources g \<subseteq> X"
  shows "taint_within X t"
proof -
  let ?t0 = "case Prev w of None \<Rightarrow> wk_taint w | Some p \<Rightarrow> floodFunctionFromFunction g f p (wk_taint w)"
  obtain F t1 where s: "fn_of E f = Inr F" "floodFunction fuel g F ?t0 = Inr t1"
    "(let t1 = computeFunctionCSTaintedConds g F t1 in case Prev w of None \<Rightarrow> Inr t1
       | Some p \<Rightarrow> if GoingDown w then Inr t1 else resetFunctionTaint cg g p t1) = Inr t"
    using assms(1) by (auto simp: visit_node_def bindE_eq_Inr)
  have "taint_within X ?t0" using assms(2,3) by (simp add: from_within split: option.split)
  from conds_within [OF floodFunction_within [OF s(2) this assms(3,4)]] s(3) reset_within
  show ?thesis by (cases "Prev w") (auto simp: Let_def split: if_splits)
qed

lemma walk_stepE:
  assumes "walk_step fuel E cg g w = Inr w'" "wk_stack w = N # Rest"
  obtains f t fc vis ch where "function_of N = Some f" "visit_node fuel E cg g w f = Inr t"
    "next_child (callees cg N) (Node2VisitedChildrenMap w N) False = (fc, vis, ch)"
    "w' = w\<lparr>wk_stack := (case ch of Some M \<Rightarrow> M # N # Rest | None \<Rightarrow> if fc then N # Rest else Rest),
       Node2VisitedChildrenMap := (Node2VisitedChildrenMap w)(N := vis), GoingDown := fc, Prev := Some f, wk_taint := t\<rparr>"
proof -
  obtain f where f: "function_of N = Some f" using assms by (cases "function_of N") (simp_all add: walk_step_def)
  obtain fc vis ch where n: "next_child (callees cg N) (Node2VisitedChildrenMap w N) False = (fc, vis, ch)" by (rule prod_cases3)
  obtain t where "visit_node fuel E cg g w f = Inr t"
    using assms f by (cases "visit_node fuel E cg g w f") (simp_all add: walk_step_def)
  with that [OF f _ n] assms f n show thesis by (simp add: walk_step_def)
qed

lemma walk_loop_Suc:
  "wk_stack w \<noteq> [] \<Longrightarrow> walk_loop fuel E cg g (Suc k) w = bindE (walk_step fuel E cg g w) (walk_loop fuel E cg g k)"
  by simp

lemma walk_within:
  assumes "walk_loop fuel E cg g k w = Inr t" "taint_within X (wk_taint w)" "carries Everywhere g `` X \<subseteq> X" "sources g \<subseteq> X"
  shows "taint_within X t"
  using assms(1,2)
proof (induction k arbitrary: w)
  case 0
  then show ?case by (simp split: if_splits)
next
  case (Suc k)
  show ?case
  proof (cases "wk_stack w")
    case Nil
    with Suc.prems show ?thesis by simp
  next
    case (Cons N Rest)
    then obtain w' where s: "walk_step fuel E cg g w = Inr w'" "walk_loop fuel E cg g k w' = Inr t"
      using Suc.prems(1) walk_loop_Suc [of w fuel E cg g k] by (auto simp: bindE_eq_Inr simp del: walk_loop.simps)
    obtain f where "visit_node fuel E cg g w f = Inr (wk_taint w')"
      by (rule walk_stepE [OF s(1) Cons]) simp
    then have "taint_within X (wk_taint w')" by (rule node_within [OF _ Suc.prems(2) assms(3,4)])
    then show ?thesis by (rule Suc.IH [OF s(2)])
  qed
qed

section \<open>It ends\<close>

lemma next_child_laws:
  "next_child Ms V b = (fc, V', ch) \<Longrightarrow> set V \<subseteq> set V' \<and> set V' \<subseteq> set V \<union> set Ms \<and> (b \<longrightarrow> fc) \<and>
     (fc \<longrightarrow> b \<or> (\<exists>M\<in>set Ms. M \<in> set V' \<and> M \<notin> set V)) \<and> (\<forall>M. ch = Some M \<longrightarrow> M \<in> set Ms \<and> fc)"
proof (induction Ms arbitrary: V b)
  case (Cons M Ms)
  show ?case
  proof (cases "M \<in> set V")
    case True
    with Cons show ?thesis by fastforce
  next
    case False
    show ?thesis
    proof (cases "function_of M")
      case None
      with Cons.prems False have "next_child Ms (M # V) True = (fc, V', ch)" by simp
      from Cons.IH [OF this] False show ?thesis by auto
    qed (use Cons.prems False in auto)
  qed
qed simp

definition open_calls :: "ptacg \<Rightarrow> cg_node set \<Rightarrow> walk \<Rightarrow> (cg_node \<times> cg_node) set" where
  "open_calls cg U w = {(N, M). N \<in> U \<and> M \<in> set (callees cg N) \<and> M \<notin> set (Node2VisitedChildrenMap w N)}"

lemma open_finite: "finite U \<Longrightarrow> finite (open_calls cg U w)"
proof -
  assume "finite U"
  then have "finite (SIGMA N:U. set (callees cg N))" by auto
  then show ?thesis by (rule finite_subset [rotated]) (auto simp: open_calls_def)
qed

lemma flood_fuel:
  assumes X: "finite X" "carries Everywhere g `` X \<subseteq> X" "sources g \<subseteq> X" and t: "taint_within X t"
    and fuel: "length (getRange (funcToSSANodesMap g) (df_id F)) + length (getRange (funcToLLVMNodesMap g) (df_id F)) + card X \<le> fuel"
  shows "no_fuel_error (floodFunction fuel g F t)"
proof -
  let ?TS = "add_all (filter (var_in (Inside (df_id F)) g) (ssaSources g)) (taintedSSANodes t)"
  let ?TL = "add_all (filter (has_inst F) (valueSources g)) (taintedLLVMNodes t)"
  let ?Q = "filter (\<lambda>v. v \<in> set ?TS) (getRange (funcToSSANodesMap g) (df_id F))"
  let ?QV = "filter (\<lambda>v. v \<in> set ?TL) (getRange (funcToLLVMNodesMap g) (df_id F))"
  have b: "bounded X (?Q, ?QV, ?TS, ?TL)" using t X(3) by (auto simp: bounded_def tainted_def queued_def taint_within_def sources_def)
  have c: "carries (Inside (df_id F)) g `` X \<subseteq> X" using carries_whole X(2) by blast
  have "length ?Q \<le> length (getRange (funcToSSANodesMap g) (df_id F))" "length ?QV \<le> length (getRange (funcToLLVMNodesMap g) (df_id F))"
    by (rule length_filter_le)+
  then have "weight (?Q, ?QV, ?TS, ?TL) + card X \<le> fuel + amount (?Q, ?QV, ?TS, ?TL)"
    using fuel unfolding weight_def prod.case by linarith
  from flood_loop_ends [OF b X(1) c this] show ?thesis
    unfolding floodFunction_def Let_def by (intro fuel_bind) (auto simp: no_fuel_error_def)
qed

lemma node_fuel:
  assumes X: "finite X" "carries Everywhere g `` X \<subseteq> X" "sources g \<subseteq> X" and t: "taint_within X (wk_taint w)"
    and fuel: "\<And>F. F \<in> set (e_fns E) \<Longrightarrow>
      length (getRange (funcToSSANodesMap g) (df_id F)) + length (getRange (funcToLLVMNodesMap g) (df_id F)) + card X \<le> fuel"
  shows "no_fuel_error (visit_node fuel E cg g w f)"
proof -
  have w: "taint_within X (case Prev w of None \<Rightarrow> wk_taint w | Some p \<Rightarrow> floodFunctionFromFunction g f p (wk_taint w))"
    using t X(2) by (simp add: from_within split: option.split)
  have f: "no_fuel_error (fn_of E f)" by (simp add: fn_of_def no_fuel_error_def split: option.split)
  have "no_fuel_error (floodFunction fuel g F (case Prev w of None \<Rightarrow> wk_taint w | Some p \<Rightarrow> floodFunctionFromFunction g f p (wk_taint w)))"
    if "fn_of E f = Inr F" for F
    by (rule flood_fuel [OF X w fuel]) (use that in \<open>auto simp: fn_of_def find_Some_iff split: option.splits\<close>)
  then show ?thesis unfolding visit_node_def Let_def
    by (intro fuel_bind f) (auto simp: no_fuel_error_def resetFunctionTaint_def split: option.split)
qed

lemma walk_fuel:
  assumes X: "finite X" "carries Everywhere g `` X \<subseteq> X" "sources g \<subseteq> X"
    and fuel: "\<And>F. F \<in> set (e_fns E) \<Longrightarrow>
      length (getRange (funcToSSANodesMap g) (df_id F)) + length (getRange (funcToLLVMNodesMap g) (df_id F)) + card X \<le> fuel"
    and U: "finite U" "\<And>N. N \<in> U \<Longrightarrow> set (callees cg N) \<subseteq> U"
    and inv: "set (wk_stack w) \<subseteq> U" "taint_within X (wk_taint w)" "2 * card (open_calls cg U w) + length (wk_stack w) \<le> k"
  shows "no_fuel_error (walk_loop fuel E cg g k w)"
  using inv
proof (induction k arbitrary: w)
  case 0
  then show ?case by (simp add: no_fuel_error_def)
next
  case (Suc k)
  show ?case
  proof (cases "wk_stack w")
    case Nil
    then show ?thesis by (simp add: no_fuel_error_def)
  next
    case (Cons N Rest)
    have "no_fuel_error (walk_step fuel E cg g w)"
      using node_fuel [OF X Suc.prems(2) fuel, of E cg] Cons
      by (auto simp: walk_step_def no_fuel_error_def [of "Inl DG_Null"] split: option.split
        intro!: fuel_bind) (simp add: no_fuel_error_def split: prod.split)
    moreover have "no_fuel_error (walk_loop fuel E cg g k w')" if s: "walk_step fuel E cg g w = Inr w'" for w'
    proof (rule walk_stepE [OF s Cons])
      fix f t fc vis ch
      assume v: "visit_node fuel E cg g w f = Inr t"
        and n: "next_child (callees cg N) (Node2VisitedChildrenMap w N) False = (fc, vis, ch)"
        and w': "w' = w\<lparr>wk_stack := (case ch of Some M \<Rightarrow> M # N # Rest | None \<Rightarrow> if fc then N # Rest else Rest),
          Node2VisitedChildrenMap := (Node2VisitedChildrenMap w)(N := vis), GoingDown := fc, Prev := Some f, wk_taint := t\<rparr>"
      note l = next_child_laws [OF n]
      have N: "N \<in> U" using Suc.prems(1) Cons by simp
      have sub: "open_calls cg U w' \<subseteq> open_calls cg U w" using l w' by (auto simp: open_calls_def split: if_splits)
      have st: "set (wk_stack w') \<subseteq> U" using l w' N U(2) [OF N] Suc.prems(1) Cons by (auto split: option.splits if_splits)
      have t: "taint_within X (wk_taint w')" using node_within [OF v Suc.prems(2) X(2,3)] w' by simp
      have "2 * card (open_calls cg U w') + length (wk_stack w') \<le> k"
      proof (cases fc)
        case True
        then obtain M where "M \<in> set (callees cg N)" "M \<in> set vis" "M \<notin> set (Node2VisitedChildrenMap w N)" using l by blast
        then have "(N, M) \<in> open_calls cg U w - open_calls cg U w'" using N w' by (simp add: open_calls_def)
        with sub have "open_calls cg U w' \<subset> open_calls cg U w" by blast
        from psubset_card_mono [OF open_finite [OF U(1)] this] have "card (open_calls cg U w') < card (open_calls cg U w)" .
        moreover have "length (wk_stack w') \<le> Suc (Suc (length Rest))" "length (wk_stack w) = Suc (length Rest)"
          using w' Cons by (simp_all split: option.split)
        ultimately show ?thesis using Suc.prems(3) by linarith
      next
        case False
        with l have "ch = None" by (cases ch) auto
        with card_mono [OF open_finite [OF U(1)] sub] Suc.prems(3) Cons False w' show ?thesis by simp
      qed
      from Suc.IH [OF st t this] show ?thesis .
    qed
    ultimately show ?thesis
      using walk_loop_Suc [of w fuel E cg g k] Cons by (simp add: fuel_bind del: walk_loop.simps)
  qed
qed

lemma entry_fuel:
  assumes X: "finite X" "carries Everywhere g `` X \<subseteq> X" "sources g \<subseteq> X"
    and fuel: "\<And>F. F \<in> set (e_fns E) \<Longrightarrow>
      length (getRange (funcToSSANodesMap g) (df_id F)) + length (getRange (funcToLLVMNodesMap g) (df_id F)) + card X \<le> fuel"
    and U: "finite (cg_edges cg)" "2 * card (cg_edges cg) + 1 \<le> fuel" and t: "taint_within X t"
  shows "no_fuel_error (computeTaintedValuesCSForEntry fuel E cg g N t) \<and>
    (\<forall>t'. computeTaintedValuesCSForEntry fuel E cg g N t = Inr t' \<longrightarrow> taint_within X t')"
proof -
  let ?w = "\<lparr>wk_stack = [N], Node2VisitedChildrenMap = (\<lambda>_. []), GoingDown = True, Prev = None, wk_taint = t\<rparr>"
  let ?U = "insert N (Field (cg_edges cg))"
  have "card (open_calls cg ?U ?w) \<le> card (cg_edges cg)"
    by (rule card_mono [OF U(1)]) (auto simp: open_calls_def cg_edges_def)
  then have k: "2 * card (open_calls cg ?U ?w) + length (wk_stack ?w) \<le> fuel" using U(2) by simp
  have "finite ?U" using U(1) by (simp add: finite_Field)
  moreover have "set (callees cg N') \<subseteq> ?U" for N' by (auto simp: Field_def cg_edges_def)
  ultimately have "no_fuel_error (walk_loop fuel E cg g fuel ?w)"
    using t by (intro walk_fuel [OF X fuel, where U = ?U] k) simp_all
  with walk_within [of fuel E cg g fuel ?w _ X] X t show ?thesis by (auto simp: computeTaintedValuesCSForEntry_def)
qed

lemma entries_fuel:
  assumes X: "finite X" "carries Everywhere g `` X \<subseteq> X" "sources g \<subseteq> X"
    and fuel: "\<And>F. F \<in> set (e_fns E) \<Longrightarrow>
      length (getRange (funcToSSANodesMap g) (df_id F)) + length (getRange (funcToLLVMNodesMap g) (df_id F)) + card X \<le> fuel"
    and U: "finite (cg_edges cg)" "2 * card (cg_edges cg) + 1 \<le> fuel" and t: "taint_within X t"
  shows "no_fuel_error (foldE (computeTaintedValuesCSForEntry fuel E cg g) Ns t) \<and>
    (\<forall>t'. foldE (computeTaintedValuesCSForEntry fuel E cg g) Ns t = Inr t' \<longrightarrow> taint_within X t')"
  using t
proof (induction Ns arbitrary: t)
  case (Cons N Ns)
  from entry_fuel [OF X fuel U Cons.prems, where N = N] Cons.IH show ?case
    by (auto intro!: fuel_bind simp: bindE_eq_Inr)
qed (simp add: no_fuel_error_def)

section \<open>An example\<close>

text \<open>\<open>main\<close> calls \<open>h(c)\<close> and \<open>g()\<close>; \<open>g\<close> calls \<open>h(omp_get_thread_num())\<close>; \<open>h(x)\<close> calls \<open>k(x)\<close>; and \<open>k(x)\<close> calls
  a barrier under a condition on \<open>x\<close>, the comparison 51.\<close>

definition chain_env :: dg_env where
  "chain_env = \<lparr>e_mssa = no_mssa, e_tables = enableOMP no_tables,
     e_fns = [mk_fn 1 ''main'' False [] [(100, [mk_inst 11 (CallOp (Some 3) False) [22], mk_inst 12 (CallOp (Some 2) False) []])],
       mk_fn 2 ''g'' False [] [(200, [mk_inst 31 (CallOp (Some 6) False) [], mk_inst 32 (CallOp (Some 3) False) [31]])],
       mk_fn 3 ''h'' False [(40, False)] [(300, [mk_inst 41 (CallOp (Some 4) False) [40]])],
       mk_fn 4 ''k'' False [(50, False)] [(400, [mk_inst 51 CmpOp [50, 53], mk_inst 54 TermOp []]), (401, [mk_inst 52 (CallOp (Some 5) False) []])],
       mk_fn 5 ''MPI_Barrier'' True [] [], mk_fn 6 ''omp_get_thread_num'' True [] []],
     e_indirect = (\<lambda>_. []), e_reachable = (\<lambda>_. True), e_ipdf_preds = (\<lambda>BB. if BB = 401 then [51] else []),
     noPtrDep = False, noPred = False, disablePhiElim = False, OptWeakUpdate = False\<rparr>"

definition chain_graph :: depgraph where
  "chain_graph = empty_graph\<lparr>funcToLLVMNodesMap := [1 \<mapsto> [22], 2 \<mapsto> [31], 3 \<mapsto> [40], 4 \<mapsto> [50, 51, 53]],
     llvmToLLVMChildren := [22 \<mapsto> [40], 31 \<mapsto> [40], 40 \<mapsto> [50], 50 \<mapsto> [51], 53 \<mapsto> [51]],
     llvmToLLVMParents := [40 \<mapsto> [22, 31], 50 \<mapsto> [40], 51 \<mapsto> [50, 53]],
     funcToCallNodes := [1 \<mapsto> [11, 12], 2 \<mapsto> [31, 32], 3 \<mapsto> [41], 4 \<mapsto> [52]],
     callToFuncEdges := [11 \<mapsto> 3, 12 \<mapsto> 2, 31 \<mapsto> 6, 32 \<mapsto> 3, 41 \<mapsto> 4, 52 \<mapsto> 5],
     condToCallEdges := [51 \<mapsto> [52]], funcToCallSites := [2 \<mapsto> [12], 6 \<mapsto> [31], 3 \<mapsto> [11, 32], 4 \<mapsto> [41], 5 \<mapsto> [52]],
     callsiteToConds := [52 \<mapsto> [51]], valueSources := [31]\<rparr>"

lemma chain_built: "build_graph chain_env = Inr chain_graph"
  by (simp add: build_defs graph_defs mk_defs chain_env_def chain_graph_def Let_def)

definition chain_calls :: "cg_function list" where
  "chain_calls =
     [demo_fn 1 ''main'' [\<lparr>cc_id = 11, cc_callee = Some 3, cc_nargs = 1\<rparr>, \<lparr>cc_id = 12, cc_callee = Some 2, cc_nargs = 0\<rparr>],
      demo_fn 2 ''g'' [\<lparr>cc_id = 31, cc_callee = Some 6, cc_nargs = 0\<rparr>, \<lparr>cc_id = 32, cc_callee = Some 3, cc_nargs = 1\<rparr>],
      demo_fn 3 ''h'' [\<lparr>cc_id = 41, cc_callee = Some 4, cc_nargs = 1\<rparr>],
      demo_fn 4 ''k'' [\<lparr>cc_id = 52, cc_callee = Some 5, cc_nargs = 0\<rparr>],
      demo_fn 5 ''MPI_Barrier'' [], demo_fn 6 ''omp_get_thread_num'' []]"

definition chain_cg :: ptacg where
  "chain_cg = \<lparr>CalledFunctions = (\<lambda>_. [])(ExternalCallingNode := map (Pair None \<circ> FnNode) [1, 2, 3, 4, 5, 6],
       FnNode 1 := [(Some 11, FnNode 3), (Some 12, FnNode 2)], FnNode 2 := [(Some 31, FnNode 6), (Some 32, FnNode 3)],
       FnNode 3 := [(Some 41, FnNode 4)], FnNode 4 := [(Some 52, FnNode 5)]),
     Root = Some (FnNode 1), ProgEntry = Some (FnNode 1), indirectCallMap = (\<lambda>_. []), reachableFunctions = [1, 3, 2, 4, 6, 5]\<rparr>"

lemma chain_called: "PTACallGraph 20 (\<lambda>_. None) chain_calls = Inr chain_cg"
  by (simp add: PTACallGraph_def chain_calls_def chain_cg_def demo_fn_def addToCallGraph_def link_external_def add_call_def
      lookup_fn_def Let_def empty_cg_def addCalledFunction_def explore_unfold enqueue_new_def add_new_def callees_def
      List.map_filter_def fun_upd_twist)

lemma chain_no_phis: "phiElimination chain_env (Suc k) g = Inr \<lparr>ps_graph = g, ps_opsVar = initial_operands chain_env\<rparr>"
  by (simp add: phiElimination_def fn_phis_def chain_env_def mk_defs)

lemma chain_insensitive: "case computeTaintedValuesContextInsensitive 40 chain_graph of Inl e \<Rightarrow> False | Inr t \<Rightarrow> isTaintedValue t 51"
  by (simp add: computeTaintedValuesContextInsensitive_def chain_graph_def empty_graph_def flood_defs isTaintedValue_def)

lemmas walk_defs = computeTaintedValuesContextSensitive_def computeTaintedValuesCSForEntry_def walk_step_def visit_node_def
  floodFunction_def floodFunctionFromFunction_def flood_var_into_def flood_value_into_def resetFunctionTaint_def
  computeFunctionCSTaintedConds_def has_inst_def add_all_def drop_all_def no_taint_def isReachableFromEntry_def callees_def
  fn_of_def flood_defs

lemma chain_sensitive: "computeTaintedValuesContextSensitive 40 chain_env chain_cg chain_graph = Inr no_taint"
  by (simp add: walk_defs chain_env_def chain_cg_def chain_graph_def empty_graph_def mk_defs Let_def)

section \<open>Properties\<close>

text \<open>C5: for a dependence graph and a call graph that have been built, the context-sensitive walk
  ends given enough fuel, also on recursive programs, and every condition it reports the
  context-insensitive flooding of the same graph reports too.\<close>

theorem context_sensitive_within_insensitive:
  assumes "build_graph E = Inr g" "PTACallGraph n AA M = Inr cg"
  shows "\<exists>k. \<forall>fuel\<ge>k. computeTaintedValuesContextSensitive fuel E cg g \<noteq> Inl DG_out_of_fuel \<and>
    (\<forall>t. computeTaintedValuesContextSensitive fuel E cg g = Inr t \<longrightarrow>
      (\<exists>t'. computeTaintedValuesContextInsensitive fuel g = Inr t' \<and> (\<forall>V. isTaintedValue t V \<longrightarrow> isTaintedValue t' V)))"
proof -
  let ?X = "(carries Everywhere g)\<^sup>* `` sources g"
  let ?n = "\<lambda>F. length (getRange (funcToSSANodesMap g) (df_id F)) + length (getRange (funcToLLVMNodesMap g) (df_id F))"
  define k where "k = sum_list (map ?n (e_fns E)) + 2 * card (cg_edges cg) + 1 + card ?X + length (ssaSources g) + length (valueSources g)"
  note fin = built_finite [OF assms(1)]
  have X: "finite ?X" "carries Everywhere g `` ?X \<subseteq> ?X" "sources g \<subseteq> ?X"
    using finite_reach [OF fin] by (auto intro: rtrancl_into_rtrancl)
  note cg = call_graph_finite [OF assms(2)]
  have t0: "taint_within ?X no_taint" by (simp add: taint_within_def no_taint_def)
  show ?thesis
  proof (rule exI [of _ k], intro allI impI)
    fix fuel assume k: "k \<le> fuel"
    have f: "?n F + card ?X \<le> fuel" if "F \<in> set (e_fns E)" for F
      using k member_le_sum_list [of "?n F" "map ?n (e_fns E)"] that unfolding k_def by simp
    have c: "2 * card (cg_edges cg) + 1 \<le> fuel" using k unfolding k_def by simp
    obtain R where R: "Root cg = Some R" using call_graph_built [OF assms(2)] by auto
    have "no_fuel_error (computeTaintedValuesContextSensitive fuel E cg g) \<and>
      (\<forall>t. computeTaintedValuesContextSensitive fuel E cg g = Inr t \<longrightarrow> taint_within ?X t)"
      using entry_fuel [OF X f cg c t0, where N = R] entries_fuel [OF X f cg c t0, where Ns = "callees cg R"]
      unfolding computeTaintedValuesContextSensitive_def R option.case by (cases "function_of R \<noteq> None") simp_all
    moreover have "length (ssaSources g) + length (valueSources g) + card ?X \<le> fuel" using k unfolding k_def by simp
    from whole_exact [OF fin this] obtain t' where t': "computeTaintedValuesContextInsensitive fuel g = Inr t'"
      "nodes (taintedSSANodes t') (taintedConditions t') = ?X" by blast
    have "isTaintedValue t' V" if "taint_within ?X t" "isTaintedValue t V" for t V
      using that unfolding t'(2) [symmetric] by (auto simp: taint_within_def isTaintedValue_def)
    ultimately show "computeTaintedValuesContextSensitive fuel E cg g \<noteq> Inl DG_out_of_fuel \<and>
      (\<forall>t. computeTaintedValuesContextSensitive fuel E cg g = Inr t \<longrightarrow>
        (\<exists>t'. computeTaintedValuesContextInsensitive fuel g = Inr t' \<and> (\<forall>V. isTaintedValue t V \<longrightarrow> isTaintedValue t' V)))"
      using t'(1) by (auto simp: no_fuel_error_def)
  qed
qed

theorem context_sensitive_within_insensitive_witness:
  "\<exists>k. \<forall>fuel\<ge>k. computeTaintedValuesContextSensitive fuel chain_env chain_cg chain_graph \<noteq> Inl DG_out_of_fuel \<and>
    (\<forall>t. computeTaintedValuesContextSensitive fuel chain_env chain_cg chain_graph = Inr t \<longrightarrow>
      (\<exists>t'. computeTaintedValuesContextInsensitive fuel chain_graph = Inr t' \<and> (\<forall>V. isTaintedValue t V \<longrightarrow> isTaintedValue t' V)))"
  by (rule context_sensitive_within_insensitive [OF chain_built chain_called])

text \<open>C10: the context-sensitive flooding misses conditions: a function is walked to from each of its callers
  once in the whole walk, so the callee of a function that is called first without and then with a
  tainted argument is never flooded with the taint. In the example the barrier of \<open>k\<close> is under a
  condition on the thread number, which the context-insensitive flooding finds and the default
  does not.\<close>

theorem context_sensitive_misses:
  "\<exists>cg t t'. PTACallGraph 20 (\<lambda>_. None) chain_calls = Inr cg \<and> build 40 True chain_env cg = Inr t \<and> isTaintedValue t 51 \<and>
    build 40 False chain_env cg = Inr t' \<and> \<not> isTaintedValue t' 51"
proof -
  obtain t where "computeTaintedValuesContextInsensitive 40 chain_graph = Inr t" "isTaintedValue t 51"
    using chain_insensitive by (auto split: sum.splits)
  moreover have "phiElimination chain_env 40 chain_graph = Inr \<lparr>ps_graph = chain_graph, ps_opsVar = initial_operands chain_env\<rparr>"
    using chain_no_phis [of 39] by simp
  ultimately have "build 40 True chain_env chain_cg = Inr t \<and> build 40 False chain_env chain_cg = Inr no_taint"
    using chain_sensitive by (simp add: build_def chain_built)
  moreover have "\<not> isTaintedValue no_taint 51" by (simp add: isTaintedValue_def no_taint_def)
  ultimately show ?thesis using chain_called \<open>isTaintedValue t 51\<close> by blast
qed

text \<open>Without the elimination of phis and in the context-insensitive mode, a value that a source reaches
  along flows of data and control, past no variable that a collective makes uniform, is tainted in
  the result of the whole construction.\<close>

lemma flows_taint:
  assumes "build_graph E = Inr g" "disablePhiElim E" "s \<in> S ` set (ssaSources g) \<union> L ` set (valueSources g)"
    "(s, L V) \<in> {(u, v). flow E u v \<and> u \<notin> S ` set (taintResetSSANodes g)}\<^sup>*"
  shows "\<exists>k. \<forall>fuel\<ge>k. \<exists>t. build fuel True E cg = Inr t \<and> isTaintedValue t V"
proof -
  let ?X = "(carries Everywhere g)\<^sup>* `` sources g"
  have "flow E u v \<Longrightarrow> has_edge (u, v) (build_graph E)" for u v
    by (cases rule: flow.cases) (auto intro!: graph_edge function_edge)
  then have "{(u, v). flow E u v \<and> u \<notin> S ` set (taintResetSSANodes g)} \<subseteq> carries Everywhere g"
    using assms(1) edge_carries by (auto simp: has_edge_def)
  then have "(s, L V) \<in> (carries Everywhere g)\<^sup>*" using assms(4) rtrancl_mono by blast
  then have V: "L V \<in> ?X" using assms(3) by (auto simp: sources_def)
  show ?thesis
  proof (rule exI [of _ "length (ssaSources g) + length (valueSources g) + card ?X"], intro allI impI)
    fix fuel assume "length (ssaSources g) + length (valueSources g) + card ?X \<le> fuel"
    from whole_exact [OF built_finite [OF assms(1)] this] obtain t where
      "computeTaintedValuesContextInsensitive fuel g = Inr t" "nodes (taintedSSANodes t) (taintedConditions t) = ?X" by blast
    then show "\<exists>t. build fuel True E cg = Inr t \<and> isTaintedValue t V"
      using V assms(1,2) by (auto simp: build_def isTaintedValue_def)
  qed
qed

lemma rank_tainted:
  "\<exists>k. \<forall>fuel\<ge>k. \<exists>t. build fuel True (rank_env True) empty_cg = Inr t \<and> isTaintedValue t 12"
proof (rule flows_taint [OF rank_built, where s = "S 60"])
  let ?R = "{(u, v). flow (rank_env True) u v \<and> u \<notin> S ` set (taintResetSSANodes rank_graph)}"
  have "(S 60, S 50) \<in> ?R" "(S 50, L 11) \<in> ?R" "(L 11, L 12) \<in> ?R"
    using rank_flows by (auto simp: rank_graph_def empty_graph_def)
  then show "(S 60, L 12) \<in> ?R\<^sup>*" by (meson converse_rtrancl_into_rtrancl rtrancl.rtrancl_refl)
qed (simp_all add: rank_env_def rank_graph_def)

end
