(* ===== verification/Dep_IPDF.thy ===== *)
theory Dep_IPDF
  imports Dep_Graph
begin

text \<open>
  The interprocedural frontier of a call (\<open>DepGraphDCF::getCallInterIPDF\<close>): the
  iterated frontiers of the block of the call and of the blocks of all calls
  that lead to its function. The post-dominator trees of the functions are read
  as one forest, and their control-flow graphs as one graph, since no edge leaves
  a function.
\<close>

section \<open>The search\<close>

record sites =
  parent_block :: "nat \<Rightarrow> nat"
  parent_fn :: "nat \<Rightarrow> nat"

definition caller_sites :: "sites \<Rightarrow> depgraph \<Rightarrow> nat \<Rightarrow> nat list" where
  "caller_sites s g CS = getRange (funcToCallSites g) (parent_fn s CS)"

text \<open>A call is marked when it leaves the queue, so it may be in the queue several times.\<close>

fun inter_ipdf_loop ::
  "pdt \<Rightarrow> cfg \<Rightarrow> nat \<Rightarrow> sites \<Rightarrow> depgraph \<Rightarrow> nat \<Rightarrow> nat list \<Rightarrow> nat list \<Rightarrow> nat list \<Rightarrow> caches \<Rightarrow> (nat list \<times> caches) option" where
  "inter_ipdf_loop PDT G rounds s g k [] VisitedCallSites Ipdf c = Some (Ipdf, c)"
| "inter_ipdf_loop PDT G rounds s g 0 (CS # CallsitesToVisit) VisitedCallSites Ipdf c = None"
| "inter_ipdf_loop PDT G rounds s g (Suc k) (CS # CallsitesToVisit) VisitedCallSites Ipdf c =
     (case iterated_postdominance_frontier PDT G rounds (parent_block s CS) c of
        None \<Rightarrow> None
      | Some (FuncIpdf, c') \<Rightarrow>
          let Visited = CS # VisitedCallSites
          in inter_ipdf_loop PDT G rounds s g k
               (CallsitesToVisit @ filter (\<lambda>CS2. CS2 \<notin> set Visited) (caller_sites s g CS))
               Visited (fold set_add FuncIpdf Ipdf) c')"

definition getCallInterIPDF ::
  "pdt \<Rightarrow> cfg \<Rightarrow> nat \<Rightarrow> sites \<Rightarrow> depgraph \<Rightarrow> nat \<Rightarrow> nat \<Rightarrow> caches \<Rightarrow> (nat list \<times> caches) option" where
  "getCallInterIPDF PDT G rounds s g fuel CS c = inter_ipdf_loop PDT G rounds s g fuel [CS] [] [] c"

section \<open>It ends with the right blocks\<close>

definition callers_rel :: "sites \<Rightarrow> depgraph \<Rightarrow> (nat \<times> nat) set" where
  "callers_rel s g = {(CS, CS2). CS2 \<in> set (caller_sites s g CS)}"

lemma inter_ipdf_exact:
  assumes wf: "wf_pdt PDT G" and bs: "\<And>x. node_of PDT x \<noteq> None \<Longrightarrow> x \<in> set bs" "length bs < rounds"
    and fin: "finite U" "\<And>x. x \<in> U \<Longrightarrow> node_of PDT (parent_block s x) \<noteq> None" "(callers_rel s g)\<^sup>* `` {a} \<subseteq> U"
    and inv: "flooding (callers_rel s g) {a} (set V \<union> set Q) (set Q)"
      "caches_ok PDT G c" "set I = (\<Union>x\<in>set V. (frontier_rel PDT G)\<^sup>+ `` {parent_block s x})"
  shows "\<exists>k. \<forall>fuel\<ge>k. \<exists>I' c'. inter_ipdf_loop PDT G rounds s g fuel Q V I c = Some (I', c') \<and> caches_ok PDT G c' \<and>
    set I' = (\<Union>x\<in>(callers_rel s g)\<^sup>* `` {a}. (frontier_rel PDT G)\<^sup>+ `` {parent_block s x})"
  using inv
proof (induction "(card (U - set V), length (filter (\<lambda>x. x \<in> set V) Q))" arbitrary: V Q I c
    rule: wf_induct_rule [OF wf_lex_prod [OF wf_less_than wf_less_than]])
  case (1 V Q I c)
  note R = "1.prems"(1)
  show ?case
  proof (cases Q)
    case Nil
    then have "set V = (callers_rel s g)\<^sup>* `` {a}" using flooding_end R by fastforce
    with Nil "1.prems"(2,3) show ?thesis by auto
  next
    case (Cons x Q0)
    have xU: "x \<in> U" "set V \<union> set Q \<subseteq> U" using R Cons fin(3) by (auto simp: flooding_def)
    then obtain n where "node_of PDT (parent_block s x) = Some n" using fin(2) by blast
    from ipdf_exact [OF wf "1.prems"(2) this bs] obtain F c' where
      f: "iterated_postdominance_frontier PDT G rounds (parent_block s x) c = Some (F, c')"
        "set F = (frontier_rel PDT G)\<^sup>+ `` {parent_block s x}" "caches_ok PDT G c'" by blast
    let ?V = "x # V" and ?Q = "Q0 @ filter (\<lambda>y. y \<notin> set (x # V)) (caller_sites s g x)" and ?I = "fold set_add F I"
    have less: "((card (U - set ?V), length (filter (\<lambda>y. y \<in> set ?V) ?Q)),
      (card (U - set V), length (filter (\<lambda>y. y \<in> set V) Q))) \<in> less_than <*lex*> less_than"
    proof (cases "x \<in> set V")
      case True
      then have "set ?V = set V" by auto
      moreover have "filter (\<lambda>y. y \<in> set V) (filter (\<lambda>y. y \<notin> set (x # V)) zs) = []" for zs by auto
      ultimately show ?thesis using True Cons by (simp del: filter_filter)
    next
      case False
      then have "card (U - set ?V) < card (U - set V)" using xU fin(1) by (intro psubset_card_mono) auto
      then show ?thesis by simp
    qed
    have fl: "flooding (callers_rel s g) {a} (set ?V \<union> set ?Q) (set ?Q)"
    proof (rule flooding_step [OF R, of x])
      show "set ?V \<union> set ?Q = set V \<union> set Q \<union> callers_rel s g `` {x}" using Cons by (auto simp: callers_rel_def)
    qed (use Cons in auto)
    have I: "set ?I = (\<Union>y\<in>set ?V. (frontier_rel PDT G)\<^sup>+ `` {parent_block s y})"
      using f(2) "1.prems"(3) by (simp add: set_fold_set_add)
    obtain k where k: "\<forall>fuel\<ge>k. \<exists>I' c''. inter_ipdf_loop PDT G rounds s g fuel ?Q ?V ?I c' = Some (I', c'') \<and> caches_ok PDT G c'' \<and>
      set I' = (\<Union>x\<in>(callers_rel s g)\<^sup>* `` {a}. (frontier_rel PDT G)\<^sup>+ `` {parent_block s x})"
      using "1.hyps" [OF less fl f(3) I] by blast
    show ?thesis
    proof (rule exI [of _ "Suc k"], intro allI impI)
      fix fuel assume "Suc k \<le> fuel"
      then obtain m where "fuel = Suc m" "k \<le> m" by (cases fuel) auto
      with k f(1) Cons show "\<exists>I' c'. inter_ipdf_loop PDT G rounds s g fuel Q V I c = Some (I', c') \<and> caches_ok PDT G c' \<and>
        set I' = (\<Union>x\<in>(callers_rel s g)\<^sup>* `` {a}. (frontier_rel PDT G)\<^sup>+ `` {parent_block s x})"
        by (simp add: Let_def)
    qed
  qed
qed

lemma inter_frontier:
  assumes "wf_pdt PDT G" "caches_ok PDT G c" "\<And>x. node_of PDT x \<noteq> None \<Longrightarrow> x \<in> set bs" "length bs < rounds"
    and "finite ((callers_rel s g)\<^sup>* `` {CS})" "\<And>x. (CS, x) \<in> (callers_rel s g)\<^sup>* \<Longrightarrow> node_of PDT (parent_block s x) \<noteq> None"
  shows "\<exists>k. \<forall>fuel\<ge>k. \<exists>I c'. getCallInterIPDF PDT G rounds s g fuel CS c = Some (I, c') \<and> caches_ok PDT G c' \<and>
    set I = (\<Union>x\<in>(callers_rel s g)\<^sup>* `` {CS}. (frontier_rel PDT G)\<^sup>+ `` {parent_block s x})"
  unfolding getCallInterIPDF_def
  by (rule inter_ipdf_exact [OF assms(1) assms(3,4) assms(5) _ order_refl])
    (use assms(2,6) flooding_start [of "callers_rel s g" "{CS}"] in auto)

section \<open>Property\<close>

text \<open>C7: when finitely many calls lead to the function of a call, all in blocks of the post-dominator
  forest, the search ends given enough fuel, also for recursive functions, and returns the union
  of the iterated frontiers of the blocks of exactly these calls; the caches stay right.\<close>

theorem inter_frontier_exact:
  assumes "wf_pdt PDT G" "caches_ok PDT G c" "\<And>x. node_of PDT x \<noteq> None \<Longrightarrow> x \<in> set bs" "length bs < rounds"
    and "finite ((callers_rel s g)\<^sup>* `` {CS})" "\<And>x. (CS, x) \<in> (callers_rel s g)\<^sup>* \<Longrightarrow> node_of PDT (parent_block s x) \<noteq> None"
  shows "\<exists>k. \<forall>fuel\<ge>k. \<exists>I c'. getCallInterIPDF PDT G rounds s g fuel CS c = Some (I, c') \<and> caches_ok PDT G c' \<and>
    set I = (\<Union>x\<in>(callers_rel s g)\<^sup>* `` {CS}. (frontier_rel PDT G)\<^sup>+ `` {parent_block s x})"
  by (rule inter_frontier [OF assms])

text \<open>A recursive function with the diamond of blocks: call 7 in one branch, the recursive call 8 in the
  other.\<close>

definition diamond_sites :: sites where
  "diamond_sites = \<lparr>parent_block = (\<lambda>CS. if CS = 7 then 1 else 2), parent_fn = (\<lambda>_. 1)\<rparr>"

definition diamond_recursion :: depgraph where
  "diamond_recursion = empty_graph\<lparr>funcToCallSites := [1 \<mapsto> [8]]\<rparr>"

lemma diamond_callers: "(callers_rel diamond_sites diamond_recursion)\<^sup>* `` {7} \<subseteq> {7, 8}"
proof -
  have "callers_rel diamond_sites diamond_recursion `` {7, 8} \<subseteq> {7, 8}"
    by (auto simp: callers_rel_def caller_sites_def diamond_sites_def diamond_recursion_def getRange_def)
  then have "(callers_rel diamond_sites diamond_recursion)\<^sup>* `` {7, 8} = {7, 8}" by (rule Image_closed_trancl)
  then show ?thesis by blast
qed

theorem inter_frontier_exact_witness:
  "\<exists>k. \<forall>fuel\<ge>k. \<exists>I c'. getCallInterIPDF diamond_pdt diamond_cfg 5 diamond_sites diamond_recursion fuel 7 no_caches = Some (I, c') \<and>
    caches_ok diamond_pdt diamond_cfg c' \<and>
    set I = (\<Union>x\<in>(callers_rel diamond_sites diamond_recursion)\<^sup>* `` {7}. (frontier_rel diamond_pdt diamond_cfg)\<^sup>+ `` {parent_block diamond_sites x})"
proof (rule inter_frontier_exact [OF diamond_wf no_caches_ok, where bs = "[0, 1, 2, 3]"])
  show "finite ((callers_rel diamond_sites diamond_recursion)\<^sup>* `` {7})" by (rule finite_subset [OF diamond_callers]) simp
  show "node_of diamond_pdt (parent_block diamond_sites x) \<noteq> None" for x
    by (simp add: diamond_sites_def diamond_pdt_def)
qed (auto simp: diamond_pdt_def split: if_splits)

end
