(* ===== verification/Spec2Isabelle.thy ===== *)
theory Spec2Isabelle
  imports RMA_Epoch Local_Concurrency Coll_Instrument Tool_Wrapper Andersen_Analysis Andersen_HCD Memory_Used Dep_Context Dep_IPDF
begin

text \<open>
  PARCOACH: detection of misused MPI collectives and of data races in one-sided
  communication.

  The program has two halves. An LLVM plugin (\<open>src/src/aSSA\<close>, \<open>src/src/rma\<close>)
  analyses a module at compile time: it runs a points-to analysis, decides which
  conditions depend on the rank of a process, computes the sequences of
  collectives that each block may execute and warns where two processes may
  disagree on them. Other passes look for races of one-sided calls inside of a
  function and prepare it for the run-time analysis. A run-time library (\<open>src/src/instrumentation/rma\<close>) is
  called by instrumented code: it records the local and remote accesses of
  each window epoch and aborts at the first race.

  Theories, in the order of the code.

  \<^item> \<open>Prelude\<close>: word types, fallible computations (\<open>bindE\<close>, \<open>foldE\<close>), ordered
    containers, generic list facts; the collections \<open>model_simps\<close> and \<open>inv_intros\<close>.

  \<^item> \<open>RMA_Interval\<close> (\<open>Interval.h\<close>, \<open>getIntersectingIntervals\<close> and
    \<open>getConflictingIntervals\<close> of \<open>rma_analyzer.cpp\<close>): access types, 64-bit address
    intervals, the conflict test and the two queries on the ordered container of
    accesses. The queries are sound, and complete when no interval is nested in
    another; the bit test is the race condition.

  \<^item> \<open>RMA_Analyzer\<close> (the rest of \<open>rma_analyzer.cpp\<close>): the record of a window, its
    tag range, recording, the checking thread, epochs, start and stop.
    \<open>RMA_Wrappers\<close>: the MPI wrappers for C and Fortran and the load and store entry
    points, as functions on the table of windows, and the invariant of every
    reachable table. \<open>RMA_Epoch\<close>: N processes, their messages in flight and the
    closing of an epoch as a step relation; a thread that has left its loop has
    lost no message.

  \<^item> \<open>Collective\<close> (\<open>Collectives.cpp\<close>, \<open>Options.cpp\<close>, the registries), \<open>Collective_List\<close>
    (\<open>CollectiveList.cpp\<close>): the known collectives, and the lists of collectives
    with the absorbing element NAVS; equality of printed forms is equality.

  \<^item> \<open>CFG_Visitor\<close> (\<open>CFGVisitors.h\<close>): the queue-driven visits of loops and of
    blocks. Fuel stands for the number of queue steps: one more than the square of
    the number of blocks is enough for the block visit; the visit of a do-while
    loop nested in another has no bound.

  \<^item> \<open>RMA_Instrument\<close> (\<open>RMAInstrumentation.cpp\<close>, \<open>RMAStatisticsAnalysis.cpp\<close>,
    \<open>InstrumentedFunctions.def\<close>): the counts of MPI calls and the walk that replaces
    them and inserts recording calls in epochs. Removing what it inserted gives the
    code back; twice the number of blocks in fuel is enough, since each turn visits
    white blocks or blackens one. \<open>Local_Concurrency\<close>
    (\<open>LocalConcurrencyAnalysis.cpp\<close>): the accesses that are pending at each block and
    the conflicts reported. Every report is a conflict; without loops, quadratic fuel
    is enough and every write after a pending access is reported, because the visit
    is the block visit of \<open>CFG_Visitor\<close>. Both ways of missing an access, and a
    function on which the detection does not end, are examples.

  \<^item> \<open>Coll_Analysis\<close> (\<open>CollListLoopAnalysis.cpp\<close>, \<open>CollListFunctionAnalysis.cpp\<close>,
    \<open>MPICommAnalysis.cpp\<close>), \<open>Warnings\<close> (\<open>Warning.cpp\<close>, \<open>SerializableWarning.cpp\<close>,
    \<open>SonarSerializationPass.cpp\<close>): lists per communicator and block, the warnings
    they give, and their JSON database.

  \<^item> \<open>Coll_Instrument\<close> (\<open>Instrumentation.cpp\<close>, \<open>StatisticsAnalysis.cpp\<close>,
    \<open>OpenMPInstr.cpp\<close>, \<open>RegisterPasses\<close> of \<open>Parcoach.cpp\<close>): the run-time checks before
    collectives, which stand before every collective and nowhere else and whose numbers
    tell the collectives apart; the counts of calls, the replacement of OpenMP forks and
    the order of the passes. \<open>Tool_Wrapper\<close> (\<open>src/src/tools/wrapper\<close>): the command lines
    of the compiler wrapper and its exit code.

  \<^item> \<open>Andersen_Nodes\<close> (\<open>NodeFactory\<close>), \<open>Andersen_Solver\<close> (\<open>ConstraintSolving.cpp\<close>,
    \<open>CycleDetector.h\<close>, \<open>PtsSet.h\<close>), \<open>Andersen_Collect\<close> (\<open>ConstraintCollect.cpp\<close>,
    \<open>ExternalLibrary.cpp\<close>, \<open>Andersen.cpp\<close>): the points-to analysis.
    \<open>Andersen_Sound\<close>: without cycle detection the solver computes the least solution
    of the constraints; fuel quadratic in the number of nodes is enough, because
    every turn either empties the work list or adds a copy edge or a pointee.
    \<open>Andersen_Analysis\<close>: the solution of what is collected respects every
    instruction. \<open>Andersen_HCD\<close>: the default switches can lose a pointee.

  \<^item> \<open>Worklist\<close>: the explorations with a work list and a set of visited nodes that
    several analyses share. \<open>Static_Utils\<close> (\<open>Utils.cpp\<close>): post-dominance frontiers
    and their iteration, with the caches. \<open>Call_Graph\<close> (\<open>PTACallGraph.cpp\<close>): the call
    graph on the points-to sets and the functions reachable from \<open>main\<close>.

  \<^item> \<open>Ext_Info\<close> (\<open>ExtInfo.cpp\<close>): the table of external functions, row by row; the flag
    of an argument is in its row but for \<open>signal\<close>. \<open>Memory_Region\<close> (\<open>MemoryRegion.cpp\<close>):
    regions and the code the memory analyses read. \<open>Mod_Ref\<close> (\<open>ModRefAnalysis.cpp\<close>):
    the regions each function reads and writes. \<open>Mod_Ref_Exact\<close>: the loop over each
    component of the call graph ends, since a turn that changes something enlarges a
    set of regions, and the sets are exact; the mod and the ref maps are two
    interpretations of one locale.

  \<^item> \<open>Memory_SSA\<close> (\<open>MemorySSA.cpp\<close>): mus, chis, phis, renaming and the conditions of
    phis. \<open>Memory_Phi\<close>: phis are placed on the iterated dominance frontier; one turn
    per block is enough. \<open>Memory_Rename\<close>, \<open>Memory_Reach\<close>: renaming never meets an empty
    stack, every use refers to the definition that reaches it, and versions are
    consecutive. \<open>Memory_Used\<close>: what the mod/ref analysis finds has an entry chi,
    but for the results of external functions without a row.

  \<^item> \<open>Dep_Graph\<close> (\<open>DepGraphDCF.cpp\<close>): the nodes and edges that every instruction,
    block, call and external function adds to the dependence graph. \<open>Dep_Build\<close>: the
    construction only adds, the maps of parents and children agree, and every
    flow of data and control is an edge. \<open>Dep_Taint\<close>: flooding the whole graph
    computes reachability from the sources; one turn per reached node is enough.
    \<open>Dep_Phi\<close>: the elimination of phis ends, since every elimination removes a
    variable of the function, and adds no flow. \<open>Dep_Context\<close>: the walk over the
    call graph that floods one function at a time ends, since it takes each call
    edge once, and reports no more than the flooding of the whole graph, but
    less than it should. \<open>Dep_IPDF\<close>: the interprocedural frontier of a call.

  \<^item> This theory puts the parts of the static analysis together: the dependence
    graph, the frontier and the lists give the warnings.

  Interfaces are locales: the ordered container of accesses, the traversals,
  the merging of nodes, the exploration of a graph and a map of effects, each interpreted on the
  operations of the model.

  Conventions. An exit, an abort, a failed assertion or an exception is the left
  value of a sum type. Loops that the code bounds by nothing take fuel, and a
  theorem says how much is enough. What the code takes from LLVM and MPI (the
  loop information, the dominator and post-dominator trees, the dominance frontier, the components
  of the call graph, the type of a value, the delivery of messages) is a parameter or part of the input. The iteration
  orders of hash tables are arguments, so the theorems hold for all of them.

  Not modelled: the branches for CUDA of the memory analyses, which do not compile;
  printing, graphs for \<open>dot\<close>, debug output and option parsing; the timing
  statistics of the run-time library; the registration of analyses
  with LLVM and the stand-alone driver; and the offline optimisation of constraints, which the build leaves
  off. The dependence graph takes the chis and phis of a function as an input of
  its own shape, read off the result of memory SSA.
\<close>

section \<open>From the rank to the warning\<close>

text \<open>The environment of the warnings of a function, with the frontier of one call and the tainted
  conditions filled in from the dependence graph.\<close>

definition with_dependences :: "taint \<Rightarrow> nat list \<Rightarrow> check_env \<Rightarrow> check_env" where
  "with_dependences t Ipdf env = env\<lparr>ce_IPDF := (\<lambda>_. Ipdf), ce_tainted := (\<lambda>V. isTaintedValue t (value_id V))\<rparr>"

lemma warned:
  assumes "distinct (map (\<lambda>c. ci_id (fst c)) (ce_calls env))" "(CI, Loc) \<in> set (ce_calls env)" "ci_callee CI = Some F"
    "isCollective opts (fn_name m F)" "BB \<in> set Ipdf" "HasNAVS cm (comm_for opts (fn_name m F) CI) (case ce_LI env BB of Some l \<Rightarrow> header l | None \<Rightarrow> BB)"
    "getBasicBlockCond (ce_term env) BB = Some Cond" "isTaintedValue t (value_id Cond)"
  shows "\<exists>W. (ci_id CI, W) \<in> set (checkWarnings opts m (with_dependences t Ipdf env) cm [])"
proof -
  let ?env = "with_dependences t Ipdf env"
  let ?Cs = "suspicious opts m ?env cm CI"
  have "mk_Location (ce_term_loc env BB) \<in> set ?Cs"
    unfolding suspicious_def assms(3) option.case set_map_filter conditional_of_iff
    using assms(5-8) by (auto simp: with_dependences_def)
  then have "?Cs \<noteq> []" by auto
  moreover have "set ?Cs = {mk_Location (ce_term_loc ?env BB) | BB Cond. BB \<in> set (ce_IPDF ?env (ci_id CI)) \<and>
      HasNAVS cm (comm_for opts (fn_name m F) CI) (case ce_LI ?env BB of Some l \<Rightarrow> header l | None \<Rightarrow> BB) \<and>
      getBasicBlockCond (ce_term ?env) BB = Some Cond \<and> ce_tainted ?env Cond}"
    unfolding suspicious_def assms(3) option.case set_map_filter conditional_of_iff by blast
  moreover have "(CI, Loc) \<in> set (ce_calls ?env)" using assms(2) by (simp add: with_dependences_def)
  moreover have d: "distinct (map (\<lambda>c. ci_id (fst c)) (ce_calls ?env))" using assms(1) by (simp add: with_dependences_def)
  ultimately show ?thesis using assms(3,4) unfolding checkWarnings_reports [OF d] by blast
qed


text \<open>The example of the rank, with a barrier in one branch: its call is number 7, in block 1 of the
  diamond, whose block 0 ends in the comparison 12.\<close>

definition rank_check_env :: check_env where
  "rank_check_env = branch_env\<lparr>ce_term := (\<lambda>b. if b = 0 then BranchInst (Some (OtherValue 12)) else OtherTerm)\<rparr>"


end
